(* ===== verification/Prelude.thy ===== *)
theory Prelude
  imports Main "HOL-Library.Word"
begin

text \<open>
  Shared vocabulary of the development: the base types of the model, the list operations that
  stand for SQL statements over one table, the string operations of the Rust standard library
  the sources use, and the generic lemmas the components share.

  Rust strings and byte vectors are both \<open>char list\<close>: a HOL \<open>char\<close> is exactly one byte, and a
  Rust \<open>String\<close> is its UTF-8 encoding, so \<open>as_bytes\<close> is the identity and \<open>len\<close> is \<open>length\<close>.
  Instants are integers counting microseconds since the epoch, the resolution of a Postgres
  \<open>timestamptz\<close>.
\<close>

section \<open>Base types\<close>

type_synonym bytes = "char list"
type_synonym uuid = "128 word"
type_synonym time = int

definition seconds :: "int \<Rightarrow> time" where
  "seconds n = n * 1000000"

definition minutes :: "int \<Rightarrow> time" where
  "minutes n = seconds (60 * n)"

definition hours :: "int \<Rightarrow> time" where
  "hours n = minutes (60 * n)"

definition days :: "int \<Rightarrow> time" where
  "days n = hours (24 * n)"

lemmas time_defs = seconds_def minutes_def hours_def days_def

text \<open>\<open>named_theorems\<close> of the development: \<open>wp\<close> holds the symbolic-execution rules of the request
  computations, \<open>sql\<close> the unfolding rules of the statements, \<open>total\<close> the rules that a
  computation returns, \<open>keeps\<close> the frame rules, \<open>closes\<close> the rules that no transaction stays
  open.\<close>

named_theorems wp \<open>symbolic execution of request computations\<close>
named_theorems sql \<open>definitions of SQL statements\<close>
named_theorems total \<open>computations that always return\<close>
named_theorems keeps \<open>what an operation leaves unchanged\<close>
named_theorems closes \<open>computations that leave no transaction open\<close>

section \<open>Tables as lists of rows\<close>

text \<open>A table is the list of its rows in insertion order. \<open>upd_where\<close> is
  \<open>UPDATE t SET f WHERE p\<close>, \<open>del_where\<close> is \<open>DELETE FROM t WHERE p\<close>, and \<open>List.find\<close> is a
  \<open>SELECT\<close> read with \<open>fetch_optional\<close>.\<close>

definition upd_where :: "('r \<Rightarrow> bool) \<Rightarrow> ('r \<Rightarrow> 'r) \<Rightarrow> 'r list \<Rightarrow> 'r list" where
  "upd_where p f rows = map (\<lambda>r. if p r then f r else r) rows"

definition del_where :: "('r \<Rightarrow> bool) \<Rightarrow> 'r list \<Rightarrow> 'r list" where
  "del_where p rows = filter (\<lambda>r. \<not> p r) rows"

text \<open>\<open>UPDATE \<dots> WHERE p RETURNING\<close> read with \<open>fetch_optional\<close>: the new version of the first
  row that matched.\<close>

definition upd_returning :: "('r \<Rightarrow> bool) \<Rightarrow> ('r \<Rightarrow> 'r) \<Rightarrow> 'r list \<Rightarrow> 'r option \<times> 'r list" where
  "upd_returning p f rows = (map_option f (List.find p rows), upd_where p f rows)"

definition count_where :: "('r \<Rightarrow> bool) \<Rightarrow> 'r list \<Rightarrow> nat" where
  "count_where p rows = length (filter p rows)"

lemma upd_where_Nil [simp]: "upd_where p f [] = []"
  and upd_where_Cons [simp]:
    "upd_where p f (r # rs) = (if p r then f r else r) # upd_where p f rs"
  and upd_where_append [simp]: "upd_where p f (xs @ ys) = upd_where p f xs @ upd_where p f ys"
  by (simp_all add: upd_where_def)

lemma del_where_Nil [simp]: "del_where p [] = []"
  and del_where_Cons [simp]: "del_where p (r # rs) = (if p r then del_where p rs else r # del_where p rs)"
  by (simp_all add: del_where_def)

lemma set_del_where [simp]: "set (del_where p rows) = {r \<in> set rows. \<not> p r}"
  by (auto simp: del_where_def)

lemma set_upd_where:
  "set (upd_where p f rows) = f ` {r \<in> set rows. p r} \<union> {r \<in> set rows. \<not> p r}"
  by (auto simp: upd_where_def)

lemma in_upd_where: "r \<in> set (upd_where p f rows) \<longleftrightarrow>
    (\<exists>q \<in> set rows. r = (if p q then f q else q))"
  by (auto simp: upd_where_def)

lemma upd_where_none: "(\<And>r. r \<in> set rows \<Longrightarrow> \<not> p r) \<Longrightarrow> upd_where p f rows = rows"
  by (induction rows) auto

lemma del_where_none: "(\<And>r. r \<in> set rows \<Longrightarrow> \<not> p r) \<Longrightarrow> del_where p rows = rows"
  by (induction rows) auto

lemma upd_where_cong: "(\<And>r. r \<in> set rows \<Longrightarrow> p r = q r) \<Longrightarrow> upd_where p f rows = upd_where q f rows"
  by (simp add: upd_where_def)

lemma length_upd_where [simp]: "length (upd_where p f rows) = length rows"
  by (simp add: upd_where_def)

text \<open>An update that keeps a column keeps the list of that column.\<close>

lemma map_upd_where [simp]: "(\<And>r. k (f r) = k r) \<Longrightarrow> map k (upd_where p f rows) = map k rows"
  by (induction rows) auto

lemma distinct_del_where [intro]: "distinct (map k rows) \<Longrightarrow> distinct (map k (del_where p rows))"
  by (induction rows) (auto simp: del_where_def)

lemma find_Some_set: "List.find p rows = Some r \<Longrightarrow> r \<in> set rows \<and> p r"
  by (auto simp: find_Some_iff)

lemma find_None_set: "List.find p rows = None \<longleftrightarrow> (\<forall>r \<in> set rows. \<not> p r)"
  by (auto simp: find_None_iff)

lemma find_append: "List.find p (xs @ ys) =
    (case List.find p xs of None \<Rightarrow> List.find p ys | Some r \<Rightarrow> Some r)"
  by (induction xs) auto

text \<open>A row is determined by a column without duplicates.\<close>

lemma distinct_key_eq:
  "\<lbrakk>distinct (map k rows); r \<in> set rows; q \<in> set rows; k r = k q\<rbrakk> \<Longrightarrow> r = q"
  by (induction rows) (auto simp: rev_image_eqI)

lemma find_key:
  assumes "distinct (map k rows)" "r \<in> set rows" "p r" "\<And>q. p q \<Longrightarrow> k q = k r"
  shows "List.find p rows = Some r"
  using assms
proof (induction rows)
  case Nil
  then show ?case by simp
next
  case (Cons q rows)
  show ?case
  proof (cases "p q")
    case True
    then have "k q = k r" by (rule Cons.prems)
    with Cons.prems(1,2) have "q = r" using distinct_key_eq [of k "q # rows" q r] by simp
    with True show ?thesis by simp
  next
    case False
    with Cons.prems(2,3) have rows: "r \<in> set rows" by auto
    have "distinct (map k rows)" using Cons.prems(1) by simp
    then have "List.find p rows = Some r"
      by (rule Cons.IH [OF _ rows Cons.prems(3) Cons.prems(4)])
    with False show ?thesis by simp
  qed
qed

lemma find_upd_where_key:
  assumes "\<And>r. k (f r) = k r"
  shows "List.find (\<lambda>r. k r = x) (upd_where p f rows) =
    map_option (\<lambda>r. if p r then f r else r) (List.find (\<lambda>r. k r = x) rows)"
  using assms by (induction rows) auto

text \<open>\<open>UPDATE \<dots> RETURNING\<close> whose condition fixes a unique column reaches at most one row, which its id
  names.\<close>

lemma upd_returning_unique:
  assumes "distinct (map k rows)" "distinct (map i rows)" "\<And>r. p r \<Longrightarrow> k r = x"
  shows "upd_returning p f rows = (case List.find p rows of
      None \<Rightarrow> (None, rows)
    | Some m \<Rightarrow> (Some (f m), upd_where (\<lambda>r. i r = i m) f rows))"
proof (cases "List.find p rows")
  case None
  then have "upd_where p f rows = rows" by (intro upd_where_none) (simp add: find_None_set)
  with None show ?thesis by (simp add: upd_returning_def)
next
  case (Some m)
  from find_Some_set [OF this] have m: "m \<in> set rows" "p m" by auto
  have "p r \<longleftrightarrow> i r = i m" if r: "r \<in> set rows" for r
  proof
    assume "p r"
    with m assms(3) have "k r = k m" by metis
    with assms(1) r m(1) have "r = m" by (rule distinct_key_eq)
    then show "i r = i m" by simp
  next
    assume "i r = i m"
    with assms(2) r m(1) have "r = m" by (rule distinct_key_eq)
    with m(2) show "p r" by simp
  qed
  then have "upd_where p f rows = upd_where (\<lambda>r. i r = i m) f rows" by (rule upd_where_cong)
  with Some show ?thesis by (simp add: upd_returning_def)
qed

text \<open>A unique column counts each of its values once.\<close>

lemma count_unique: "\<lbrakk>distinct (map k rows); r \<in> set rows\<rbrakk> \<Longrightarrow> count_where (\<lambda>x. k x = k r) rows = 1"
proof (induction rows)
  case (Cons q rows)
  show ?case
  proof (cases "q = r")
    case True
    have "k x \<noteq> k r" if "x \<in> set rows" for x
    proof
      assume "k x = k r"
      then have "k r \<in> k ` set rows" using that by (metis imageI)
      with Cons.prems(1) True show False by simp
    qed
    then have "filter (\<lambda>x. k x = k r) rows = []" by (simp add: filter_empty_conv)
    with True show ?thesis by (simp add: count_where_def)
  next
    case False
    with Cons.prems have "r \<in> set rows" by simp
    moreover with Cons.prems(1) have "k q \<noteq> k r" by force
    ultimately show ?thesis using Cons by (simp add: count_where_def)
  qed
qed simp

section \<open>Supplies\<close>

text \<open>Clocks, the random number generator and generated ids are infinite supplies read in
  order; \<open>shift\<close> drops what was read.\<close>

definition shift :: "nat \<Rightarrow> (nat \<Rightarrow> 'a) \<Rightarrow> nat \<Rightarrow> 'a" where
  "shift n s = (\<lambda>i. s (n + i))"

lemma shift_apply [simp]: "shift n s i = s (n + i)"
  by (simp add: shift_def)

lemma shift_shift [simp]: "shift m (shift n s) = shift (n + m) s"
  by (simp add: shift_def fun_eq_iff add.assoc)

section \<open>Strings\<close>

abbreviation space :: char where "space \<equiv> CHR '' ''"

text \<open>\<open>str::trim_matches(' ')\<close>, which is also SQL's \<open>btrim\<close>.\<close>

definition trim_spaces :: "string \<Rightarrow> string" where
  "trim_spaces s = rev (dropWhile (\<lambda>c. c = space) (rev (dropWhile (\<lambda>c. c = space) s)))"

text \<open>\<open>str::split_once\<close> on an ASCII character.\<close>

fun split_once :: "char \<Rightarrow> string \<Rightarrow> (string \<times> string) option" where
  "split_once c [] = None"
| "split_once c (x # xs) =
     (if x = c then Some ([], xs)
      else map_option (\<lambda>(l, r). (x # l, r)) (split_once c xs))"

lemma split_once_Some:
  "split_once c s = Some (l, r) \<longleftrightarrow> s = l @ c # r \<and> c \<notin> set l"
proof (induction s arbitrary: l)
  case Nil
  then show ?case by simp
next
  case (Cons x xs)
  then show ?case by (cases l) auto
qed

lemma split_once_None: "split_once c s = None \<longleftrightarrow> c \<notin> set s"
  by (induction s) auto

text \<open>The characters of a string: each code point with the bytes that encode it. On valid UTF-8,
  which every Rust string is, this is \<open>str::chars\<close>.\<close>

definition utf8_width :: "char \<Rightarrow> nat" where
  "utf8_width b = (if (of_char b :: int) < 128 then 1 else if (of_char b :: int) < 224 then 2
     else if (of_char b :: int) < 240 then 3 else 4)"

definition utf8_lead :: "char \<Rightarrow> int" where
  "utf8_lead b = (if (of_char b :: int) < 128 then of_char b
     else if (of_char b :: int) < 224 then of_char b mod 32
     else if (of_char b :: int) < 240 then of_char b mod 16 else of_char b mod 8)"

fun utf8_chars :: "string \<Rightarrow> (int \<times> string) list" where
  "utf8_chars [] = []"
| "utf8_chars (b # bs) =
     (let tail = take (utf8_width b - 1) bs
      in (foldl (\<lambda>a c. a * 64 + of_char c mod 64) (utf8_lead b) tail, b # tail)
           # utf8_chars (drop (utf8_width b - 1) bs))"

text \<open>\<open>char::is_whitespace\<close> (Unicode \<open>White_Space\<close>) and \<open>char::is_control\<close> (category \<open>Cc\<close>).\<close>

definition is_whitespace :: "int \<Rightarrow> bool" where
  "is_whitespace c \<longleftrightarrow> (9 \<le> c \<and> c \<le> 13) \<or> c = 32 \<or> c = 133 \<or> c = 160 \<or> c = 5760
     \<or> (8192 \<le> c \<and> c \<le> 8202) \<or> c = 8232 \<or> c = 8233 \<or> c = 8239 \<or> c = 8287 \<or> c = 12288"

definition is_control :: "int \<Rightarrow> bool" where
  "is_control c \<longleftrightarrow> c \<le> 31 \<or> (127 \<le> c \<and> c \<le> 159)"

text \<open>\<open>str::trim\<close>.\<close>

definition str_trim :: "string \<Rightarrow> string" where
  "str_trim s = concat (map snd
     (rev (dropWhile (\<lambda>(c, _). is_whitespace c) (rev
       (dropWhile (\<lambda>(c, _). is_whitespace c) (utf8_chars s))))))"

text \<open>\<open>str::trim_end\<close>.\<close>

definition str_trim_end :: "string \<Rightarrow> string" where
  "str_trim_end s = concat (map snd
     (rev (dropWhile (\<lambda>(c, _). is_whitespace c) (rev (utf8_chars s)))))"

text \<open>\<open>str::split\<close> on an ASCII character.\<close>

fun split_on :: "char \<Rightarrow> string \<Rightarrow> string list" where
  "split_on c [] = [[]]"
| "split_on c (x # xs) =
     (if x = c then [] # split_on c xs
      else case split_on c xs of [] \<Rightarrow> [[x]] | p # ps \<Rightarrow> (x # p) # ps)"

definition is_ascii_digit :: "char \<Rightarrow> bool" where
  "is_ascii_digit c \<longleftrightarrow> 48 \<le> (of_char c :: nat) \<and> (of_char c :: nat) \<le> 57"

definition is_ascii_lowercase :: "char \<Rightarrow> bool" where
  "is_ascii_lowercase c \<longleftrightarrow> 97 \<le> (of_char c :: nat) \<and> (of_char c :: nat) \<le> 122"

definition is_ascii_uppercase :: "char \<Rightarrow> bool" where
  "is_ascii_uppercase c \<longleftrightarrow> 65 \<le> (of_char c :: nat) \<and> (of_char c :: nat) \<le> 90"

definition is_ascii_alphanumeric :: "char \<Rightarrow> bool" where
  "is_ascii_alphanumeric c \<longleftrightarrow> is_ascii_digit c \<or> is_ascii_lowercase c \<or> is_ascii_uppercase c"

definition to_ascii_lowercase :: "char \<Rightarrow> char" where
  "to_ascii_lowercase c = (if is_ascii_uppercase c then char_of ((of_char c :: nat) + 32) else c)"

definition is_ascii :: "char \<Rightarrow> bool" where
  "is_ascii c \<longleftrightarrow> (of_char c :: nat) < 128"

lemmas ascii_defs = is_ascii_digit_def is_ascii_lowercase_def is_ascii_uppercase_def
  is_ascii_alphanumeric_def is_ascii_def

lemma utf8_chars_concat: "concat (map snd (utf8_chars s)) = s"
  by (induction s rule: utf8_chars.induct) (simp_all add: Let_def)

lemma split_on_nonempty [simp]: "split_on c s \<noteq> []"
  by (induction s) (auto split: list.split)

lemma split_on_pieces: "p \<in> set (split_on c s) \<Longrightarrow> c \<notin> set p"
proof (induction s arbitrary: p)
  case Nil
  then show ?case by simp
next
  case (Cons x xs)
  then show ?case by (cases "split_on c xs") (auto split: if_splits)
qed

lemma split_on_absent: "c \<notin> set s \<Longrightarrow> split_on c s = [s]"
  by (induction s) auto

lemma dropWhile_hd: "dropWhile p xs \<noteq> [] \<Longrightarrow> \<not> p (hd (dropWhile p xs))"
  by (rule hd_dropWhile)

lemma trim_spaces_idem [simp]: "trim_spaces (trim_spaces s) = trim_spaces s"
proof -
  have fixed: "dropWhile (\<lambda>c. c = space) (trim_spaces s) = trim_spaces s"
  proof (cases "trim_spaces s")
    case (Cons a as)
    let ?d = "dropWhile (\<lambda>c. c = space) s"
    from Cons have "trim_spaces s \<noteq> []" by simp
    moreover obtain zs where split: "?d = trim_spaces s @ zs"
      unfolding trim_spaces_def
      by (metis rev_append rev_rev_ident takeWhile_dropWhile_id)
    ultimately have "hd ?d = hd (trim_spaces s)" and "?d \<noteq> []" by auto
    then have "hd (trim_spaces s) \<noteq> space"
      using hd_dropWhile [of "\<lambda>c. c = space" s] by simp
    with Cons show ?thesis by simp
  qed simp
  show ?thesis
    by (subst trim_spaces_def) (simp only: fixed, simp add: trim_spaces_def)
qed

end
