(* ===== verification/External.thy ===== *)
theory External
  imports Prelude
begin

text \<open>
  What the program calls and does not implement: the crates for hashing, base64, HMAC, AEAD,
  Ed25519, JWT, URLs, rate limiting and templates, the two lower-casing functions whose Unicode
  tables belong to the Rust standard library and to Postgres, and the standard library's parser of
  IP addresses. They are the fields of one
  record, an argument of every definition that uses them. Nothing is assumed of them here: a
  theorem that needs documented behaviour of one names it as a hypothesis.

  The plain data types those crates exchange with the program (a parsed URL, a JWT header, a JWK,
  the claims of \<open>bauth_core\<close>) are declared here too.
\<close>

section \<open>Data exchanged with the crates\<close>

text \<open>\<open>std::time::Duration\<close>: whole seconds and the nanoseconds below one second.\<close>

record duration =
  dur_secs :: "64 word"
  dur_nanos :: "32 word"

text \<open>What \<open>url::Url\<close> answers about a parsed URL.\<close>

record url =
  url_scheme :: string
  url_host_str :: "string option"
  url_port :: "16 word option"
  url_query :: "string option"
  url_fragment :: "string option"
  url_as_str :: string

text \<open>\<open>bauth_core::AccessTokenClaims\<close>.\<close>

record access_token_claims =
  iss_claim :: string
  sub_claim :: uuid
  aud_claim :: string
  client_id_claim :: string
  sid_claim :: uuid
  iat_claim :: int
  exp_claim :: int
  jti_claim :: uuid

text \<open>\<open>jsonwebtoken::Header\<close> and \<open>jsonwebtoken::Validation\<close>, as far as the program sets or reads
  them. \<open>val_aud = None\<close> is \<open>validate_aud = false\<close>.\<close>

datatype jwt_alg = EdDSA | OtherAlg string

record jwt_header =
  hdr_alg :: jwt_alg
  hdr_typ :: "string option"
  hdr_kid :: "string option"

record validation =
  val_alg :: jwt_alg
  val_iss :: string
  val_aud :: "string option"
  val_required :: "string list"
  val_leeway :: int

text \<open>\<open>jsonwebtoken::jwk::Jwk\<close> with the parameters of an Ed25519 key.\<close>

record jwk =
  jwk_kid :: "string option"
  jwk_use :: string
  jwk_alg :: jwt_alg
  jwk_kty :: string
  jwk_crv :: string
  jwk_x :: string

type_synonym jwk_set = "jwk list"

text \<open>\<open>governor::Quota\<close>: \<open>burst\<close> requests at once, then one more every period.\<close>

record quota =
  q_burst :: nat
  q_period :: time

text \<open>\<open>std::net::IpAddr\<close>: four octets, or eight 16-bit segments.\<close>

datatype ip_addr =
    V4 "8 word" "8 word" "8 word" "8 word"
  | V6 "16 word" "16 word" "16 word" "16 word" "16 word" "16 word" "16 word" "16 word"

text \<open>What a \<open>tera::Context\<close> may hold.\<close>

datatype tera_value = TStr string | TBool bool

section \<open>The crates\<close>

record ext =
  x_sha256 :: "bytes \<Rightarrow> bytes"
  x_b64url :: "bytes \<Rightarrow> string"
  x_b64_decode :: "string \<Rightarrow> bytes option"
  x_hmac :: "bytes \<Rightarrow> bytes \<Rightarrow> bytes"
  x_hmac_verify :: "bytes \<Rightarrow> bytes \<Rightarrow> bytes \<Rightarrow> bool"
  x_aead_encrypt :: "bytes \<Rightarrow> bytes \<Rightarrow> bytes \<Rightarrow> bytes \<Rightarrow> bytes"
  x_aead_decrypt :: "bytes \<Rightarrow> bytes \<Rightarrow> bytes \<Rightarrow> bytes \<Rightarrow> bytes option"
  x_uuid_bytes :: "uuid \<Rightarrow> bytes"
  x_uuid_string :: "uuid \<Rightarrow> string"
  x_ed25519_public :: "bytes \<Rightarrow> bytes"
  x_jwt_encode :: "jwt_header \<Rightarrow> access_token_claims \<Rightarrow> bytes \<Rightarrow> string option"
  x_jwt_decode_header :: "string \<Rightarrow> jwt_header option"
  x_jwt_decode :: "string \<Rightarrow> bytes \<Rightarrow> validation \<Rightarrow> time \<Rightarrow> access_token_claims option"
  x_jwk_key :: "jwk \<Rightarrow> bytes option"
  x_to_lowercase :: "string \<Rightarrow> string"
  x_pg_lower :: "string \<Rightarrow> string"
  x_gov_check :: "quota \<Rightarrow> (string \<times> time) list \<Rightarrow> string \<Rightarrow> time \<Rightarrow> duration option"
  x_render :: "string \<Rightarrow> (string \<times> tera_value) list \<Rightarrow> string"
  x_url_parse :: "string \<Rightarrow> string + url"
  x_ip_parse :: "string \<Rightarrow> ip_addr option"

section \<open>Documented behaviour, named\<close>

text \<open>\<open>hmac::verify\<close> accepts exactly the tag \<open>hmac::sign\<close> makes.\<close>

definition hmac_verifies :: "ext \<Rightarrow> bool" where
  "hmac_verifies E \<longleftrightarrow> (\<forall>k m t. x_hmac_verify E k m t \<longleftrightarrow> t = x_hmac E k m)"

text \<open>Opening what was sealed under the same key, nonce and associated data gives it back.\<close>

definition aead_opens :: "ext \<Rightarrow> bool" where
  "aead_opens E \<longleftrightarrow>
     (\<forall>k n a m. x_aead_decrypt E k n a (x_aead_encrypt E k n a m) = Some m)"

text \<open>On the strings given, SHA-256 does not collide.\<close>

definition sha256_distinct :: "ext \<Rightarrow> string set \<Rightarrow> bool" where
  "sha256_distinct E S \<longleftrightarrow> inj_on (x_sha256 E) S"

text \<open>Rust's and Postgres' lower-casing agree on a string, as they do on ASCII.\<close>

definition lowercase_agrees :: "ext \<Rightarrow> string \<Rightarrow> bool" where
  "lowercase_agrees E s \<longleftrightarrow> x_to_lowercase E s = x_pg_lower E s"

end
