(* ===== verification/Errors.thy ===== *)
theory Errors
  imports External
begin

text \<open>
  \<open>errors.rs\<close> and the error half of \<open>routes/oauth.rs\<close>: the two error types of the API, their
  stable codes, their HTTP statuses and the responses they turn into.
\<close>

section \<open>App routes: \<open>errors.rs\<close>\<close>

datatype sql_error = UniqueViolation | ForeignKeyViolation | CheckViolation | RowNotFound | Unavailable

text \<open>Where an internal error came from; the source of \<open>Internal\<close> and \<open>ServerError\<close> is only logged.\<close>

datatype issue_error = NoSigningKey | JwtError

datatype error_source = SqlError sql_error | IssueError issue_error | OtherSource string

datatype api_error =
    InvalidRequest string
  | InvalidEmail
  | InvalidToken
  | InvalidCode
  | InvalidClient
  | InvalidRedirectUri
  | InvalidCodeChallenge
  | AccountDisabled
  | FlowExpired
  | Unauthorized
  | NotFound
  | EmailTaken
  | RateLimited duration
  | Internal error_source

fun api_error_code :: "api_error \<Rightarrow> string" where
  "api_error_code (InvalidRequest _) = ''invalid_request''"
| "api_error_code InvalidEmail = ''invalid_email''"
| "api_error_code InvalidToken = ''invalid_token''"
| "api_error_code InvalidCode = ''invalid_code''"
| "api_error_code InvalidClient = ''invalid_client''"
| "api_error_code InvalidRedirectUri = ''invalid_redirect_uri''"
| "api_error_code InvalidCodeChallenge = ''invalid_code_challenge''"
| "api_error_code AccountDisabled = ''account_disabled''"
| "api_error_code FlowExpired = ''flow_expired''"
| "api_error_code Unauthorized = ''unauthorized''"
| "api_error_code NotFound = ''not_found''"
| "api_error_code EmailTaken = ''email_taken''"
| "api_error_code (RateLimited _) = ''rate_limited''"
| "api_error_code (Internal _) = ''internal_error''"

fun api_error_status :: "api_error \<Rightarrow> nat" where
  "api_error_status Unauthorized = 401"
| "api_error_status NotFound = 404"
| "api_error_status (RateLimited _) = 429"
| "api_error_status (Internal _) = 500"
| "api_error_status _ = 400"

text \<open>Whole seconds, rounded up, in \<open>u64\<close>: \<open>+\<close> wraps where the release build would.\<close>

definition retry_after_seconds :: "duration \<Rightarrow> 64 word" where
  "retry_after_seconds d = dur_secs d + (if 0 < dur_nanos d then 1 else 0)"

text \<open>Decimal digits, as \<open>Display\<close> prints an unsigned integer.\<close>

fun digits_of :: "nat \<Rightarrow> string" where
  "digits_of n = (if n < 10 then [char_of (48 + n)]
                  else digits_of (n div 10) @ [char_of (48 + n mod 10)])"

declare digits_of.simps [simp del]

text \<open>The \<open>#[error(\<dots>)]\<close> messages.\<close>

fun api_error_message :: "api_error \<Rightarrow> string" where
  "api_error_message (InvalidRequest m) = m"
| "api_error_message InvalidEmail = ''email address is invalid''"
| "api_error_message InvalidToken = ''token is invalid, expired or already used''"
| "api_error_message InvalidCode = ''code is incorrect, expired or already used''"
| "api_error_message InvalidClient = ''unknown client_id''"
| "api_error_message InvalidRedirectUri = ''redirect_uri is not registered for this client''"
| "api_error_message InvalidCodeChallenge =
     ''code_challenge must be a S256 challenge (43 base64url characters)''"
| "api_error_message AccountDisabled = ''account is disabled''"
| "api_error_message FlowExpired = ''login flow is unknown, expired or already completed''"
| "api_error_message Unauthorized = ''missing, invalid or expired access token''"
| "api_error_message NotFound = ''not found''"
| "api_error_message EmailTaken = ''email address is already used by another account''"
| "api_error_message (RateLimited d) =
     ''too many attempts, retry in '' @ digits_of (unat (retry_after_seconds d)) @ '' seconds''"
| "api_error_message (Internal _) = ''internal server error''"

text \<open>An HTTP error response: status, headers, and the \<open>code\<close> and \<open>message\<close> of the JSON body.\<close>

record error_response =
  er_status :: nat
  er_headers :: "(string \<times> string) list"
  er_code :: string
  er_message :: string

definition api_error_response :: "api_error \<Rightarrow> error_response" where
  "api_error_response e =
     \<lparr>er_status = api_error_status e,
      er_headers =
        (case e of Unauthorized \<Rightarrow> [(''www-authenticate'', ''Bearer error=\"invalid_token\"'')] | _ \<Rightarrow> []) @
        (case e of RateLimited d \<Rightarrow> [(''retry-after'', digits_of (unat (retry_after_seconds d)))] | _ \<Rightarrow> []),
      er_code = api_error_code e,
      er_message = api_error_message e\<rparr>"

definition api_from_sql :: "sql_error \<Rightarrow> api_error" where
  "api_from_sql e = Internal (SqlError e)"

section \<open>The token endpoint: \<open>OAuthError\<close>\<close>

datatype oauth_error =
    OInvalidRequest string
  | OInvalidClient
  | OInvalidGrant string
  | OUnsupportedGrantType
  | OServerError error_source

record oauth_error_body =
  oe_status :: nat
  oe_headers :: "(string \<times> string) list"
  oe_error :: string
  oe_description :: "string option"

fun oauth_error_parts :: "oauth_error \<Rightarrow> nat \<times> string \<times> string option" where
  "oauth_error_parts (OInvalidRequest d) = (400, ''invalid_request'', Some d)"
| "oauth_error_parts OInvalidClient = (401, ''invalid_client'', None)"
| "oauth_error_parts (OInvalidGrant d) = (400, ''invalid_grant'', Some d)"
| "oauth_error_parts OUnsupportedGrantType = (400, ''unsupported_grant_type'', None)"
| "oauth_error_parts (OServerError _) = (500, ''server_error'', None)"

definition oauth_error_response :: "oauth_error \<Rightarrow> oauth_error_body" where
  "oauth_error_response e = (case oauth_error_parts e of (status, code, description) \<Rightarrow>
     \<lparr>oe_status = status, oe_headers = [(''cache-control'', ''no-store'')],
      oe_error = code, oe_description = description\<rparr>)"

definition oauth_from_sql :: "sql_error \<Rightarrow> oauth_error" where
  "oauth_from_sql e = OServerError (SqlError e)"

definition oauth_from_issue :: "issue_error \<Rightarrow> oauth_error" where
  "oauth_from_issue e = OServerError (IssueError e)"

section \<open>Lemmas\<close>

lemma retry_after_seconds_unat:
  assumes "unat (dur_secs d) < 2 ^ 64 - 1"
  shows "unat (retry_after_seconds d) = unat (dur_secs d) + (if 0 < dur_nanos d then 1 else 0)"
proof -
  have "unat (dur_secs d + 1) = unat (dur_secs d) + 1"
    using assms by (subst unat_add_lem [THEN iffD1]) simp_all
  then show ?thesis by (simp add: retry_after_seconds_def)
qed

text \<open>A number is read back from its decimal digits.\<close>

fun digits_value :: "nat \<Rightarrow> string \<Rightarrow> nat" where
  "digits_value acc [] = acc"
| "digits_value acc (c # cs) = digits_value (acc * 10 + (of_char c - 48)) cs"

lemma digits_value_append: "digits_value a (xs @ ys) = digits_value (digits_value a xs) ys"
  by (induction xs arbitrary: a) auto

lemma digits_value_digits_of: "digits_value 0 (digits_of n) = n"
proof (induction n rule: digits_of.induct)
  case (1 n)
  show ?case
  proof (cases "n < 10")
    case True
    then show ?thesis by (subst digits_of.simps) simp
  next
    case False
    have "n mod 10 < 10" by simp
    with False "1" show ?thesis
      by (subst digits_of.simps) (simp add: digits_value_append)
  qed
qed

end
