(* ===== verification/Clients.thy ===== *)
theory Clients
  imports Errors
begin

text \<open>
  \<open>clients.rs\<close> and \<open>config.rs\<close>: the registered OAuth clients of \<open>bauth.toml\<close>, their validation at
  startup, the browser origins they allow, and the check of the issuer. Reading the file and
  its TOML is in theory \<open>Startup\<close>: \<open>clients_from_file\<close> starts from the parsed list of clients.
  Parsing a URL (the \<open>url\<close> crate) is a parameter.
\<close>

section \<open>\<open>clients.rs\<close>\<close>

record client =
  cl_id :: string
  cl_name :: string
  cl_redirect_uris :: "string list"
  cl_allow_signup :: bool
  cl_audience :: "string option"
  cl_magic_link_url :: string
  cl_email_change_url :: "string option"
  cl_allowed_origins :: "string list"

datatype clients_error = InvalidClientConfig string string

type_synonym clients = "string \<Rightarrow> client option"

definition is_loopback :: "url \<Rightarrow> bool" where
  "is_loopback u \<longleftrightarrow> url_host_str u \<in> {Some ''localhost'', Some ''127.0.0.1'', Some ''[::1]''}"

definition check_url :: "ext \<Rightarrow> string \<Rightarrow> string \<Rightarrow> string + url" where
  "check_url E field u = (case x_url_parse E u of
      Inl e \<Rightarrow> Inl (field @ '' `'' @ u @ ''`: '' @ e)
    | Inr parsed \<Rightarrow>
        if url_fragment parsed \<noteq> None
        then Inl (field @ '' `'' @ u @ ''` must not contain a fragment'')
        else if \<not> (url_scheme parsed = ''https'' \<or> (url_scheme parsed = ''http'' \<and> is_loopback parsed)
                   \<or> CHR ''.'' \<in> set (url_scheme parsed))
        then Inl (field @ '' `'' @ u @ ''` must use https, http on localhost, or an app scheme like `fr.example.app:/callback`'')
        else Inr parsed)"

definition origin_of :: "url \<Rightarrow> string option" where
  "origin_of u = (case url_host_str u of
      None \<Rightarrow> None
    | Some host \<Rightarrow> Some (case url_port u of
          Some port \<Rightarrow> url_scheme u @ ''://'' @ host @ '':'' @ digits_of (unat port)
        | None \<Rightarrow> url_scheme u @ ''://'' @ host))"

text \<open>\<open>Client::origins\<close>.\<close>

definition url_ok :: "string + url \<Rightarrow> url option" where
  "url_ok r = (case r of Inl _ \<Rightarrow> None | Inr u \<Rightarrow> Some u)"

definition client_origins :: "ext \<Rightarrow> client \<Rightarrow> string list" where
  "client_origins E c =
     (let urls = cl_redirect_uris c @ [cl_magic_link_url c] @
            (case cl_email_change_url c of None \<Rightarrow> [] | Some u \<Rightarrow> [u]);
          parsed = List.map_filter (\<lambda>u. url_ok (x_url_parse E u)) urls
      in List.map_filter origin_of (filter (\<lambda>u. url_scheme u = ''http'' \<or> url_scheme u = ''https'') parsed)
           @ cl_allowed_origins c)"

definition allows_redirect_uri :: "client \<Rightarrow> string \<Rightarrow> bool" where
  "allows_redirect_uri c redirect_uri \<longleftrightarrow> list_ex (\<lambda>allowed. allowed = redirect_uri) (cl_redirect_uris c)"

definition valid_client_id :: "string \<Rightarrow> bool" where
  "valid_client_id i \<longleftrightarrow> i \<noteq> [] \<and>
     list_all (\<lambda>b. is_ascii_lowercase b \<or> is_ascii_digit b \<or> b = CHR ''-'' \<or> b = CHR ''_'') i"

text \<open>The loops of \<open>Client::validate\<close> over redirect URIs and allowed origins.\<close>

fun check_redirect_uris :: "ext \<Rightarrow> string list \<Rightarrow> string + unit" where
  "check_redirect_uris E [] = Inr ()"
| "check_redirect_uris E (uri # uris) = (case x_url_parse E uri of
      Inl e \<Rightarrow> Inl (''redirect_uri `'' @ uri @ ''`: '' @ e)
    | Inr parsed \<Rightarrow>
        if url_as_str parsed \<noteq> uri
        then Inl (''redirect_uri `'' @ uri @ ''` must be written `'' @ url_as_str parsed @ ''`'')
        else (case check_url E ''redirect_uri'' uri of
            Inl e \<Rightarrow> Inl e
          | Inr _ \<Rightarrow> check_redirect_uris E uris))"

fun check_allowed_origins :: "ext \<Rightarrow> string list \<Rightarrow> string + unit" where
  "check_allowed_origins E [] = Inr ()"
| "check_allowed_origins E (origin # origins) = (case x_url_parse E origin of
      Inl e \<Rightarrow> Inl (''allowed_origin `'' @ origin @ ''`: '' @ e)
    | Inr parsed \<Rightarrow>
        if origin_of parsed \<noteq> Some origin
        then Inl (''allowed_origin `'' @ origin @ ''` must be an origin like `https://app.example.com` (no path, no trailing slash)'')
        else check_allowed_origins E origins)"

definition client_validate :: "ext \<Rightarrow> client \<Rightarrow> clients_error + unit" where
  "client_validate E c =
     (let invalid = (\<lambda>reason. Inl (InvalidClientConfig (cl_id c) reason)) in
      if \<not> valid_client_id (cl_id c) then invalid ''id must match [a-z0-9_-]+''
      else if cl_redirect_uris c = [] then invalid ''at least one redirect_uri is required''
      else case check_redirect_uris E (cl_redirect_uris c) of
          Inl e \<Rightarrow> invalid e
        | Inr _ \<Rightarrow> (case check_url E ''magic_link_url'' (cl_magic_link_url c) of
            Inl e \<Rightarrow> invalid e
          | Inr _ \<Rightarrow> (case (case cl_email_change_url c of
                None \<Rightarrow> Inr ()
              | Some u \<Rightarrow> map_sum id (\<lambda>_. ()) (check_url E ''email_change_url'' u)) of
              Inl e \<Rightarrow> invalid e
            | Inr _ \<Rightarrow> (case check_allowed_origins E (cl_allowed_origins c) of
                Inl e \<Rightarrow> invalid e
              | Inr _ \<Rightarrow> Inr ()))))"

definition audience :: "client \<Rightarrow> string" where
  "audience c = (case cl_audience c of None \<Rightarrow> cl_id c | Some a \<Rightarrow> a)"

text \<open>\<open>Clients::from_toml\<close> after deserialization.\<close>

fun insert_clients :: "ext \<Rightarrow> client list \<Rightarrow> clients \<Rightarrow> clients_error + clients" where
  "insert_clients E [] m = Inr m"
| "insert_clients E (c # cs) m = (case client_validate E c of
      Inl e \<Rightarrow> Inl e
    | Inr _ \<Rightarrow> if m (cl_id c) \<noteq> None then Inl (InvalidClientConfig (cl_id c) ''duplicate id'')
        else insert_clients E cs (m(cl_id c \<mapsto> c)))"

definition clients_from_file :: "ext \<Rightarrow> client list \<Rightarrow> clients_error + clients" where
  "clients_from_file E cs = insert_clients E cs Map.empty"

section \<open>\<open>config.rs\<close>\<close>

definition validate_issuer :: "ext \<Rightarrow> string \<Rightarrow> string + unit" where
  "validate_issuer E issuer = (case x_url_parse E issuer of
      Inl e \<Rightarrow> Inl (''BAUTH_ISSUER `'' @ issuer @ ''`: '' @ e)
    | Inr u \<Rightarrow>
        if url_scheme u \<noteq> ''https'' \<and> \<not> (url_scheme u = ''http'' \<and> is_loopback u)
        then Inl (''BAUTH_ISSUER `'' @ issuer @ ''` must use https (http only for localhost)'')
        else if url_query u \<noteq> None \<or> url_fragment u \<noteq> None
        then Inl (''BAUTH_ISSUER `'' @ issuer @ ''` must not have a query or fragment'')
        else if issuer \<noteq> [] \<and> last issuer = CHR ''/''
        then Inl (''BAUTH_ISSUER `'' @ issuer @ ''` must not end with `/`'')
        else Inr ())"

section \<open>Lemmas\<close>

text \<open>Which URLs a client may use.\<close>

definition allowed_url :: "url \<Rightarrow> bool" where
  "allowed_url u \<longleftrightarrow> url_fragment u = None \<and>
     (url_scheme u = ''https'' \<or> (url_scheme u = ''http'' \<and> is_loopback u) \<or> CHR ''.'' \<in> set (url_scheme u))"

lemma check_url_Inr: "check_url E field u = Inr p \<longleftrightarrow> x_url_parse E u = Inr p \<and> allowed_url p"
  by (auto simp: check_url_def allowed_url_def split: sum.splits)

lemma allows_redirect_uri_iff: "allows_redirect_uri c u \<longleftrightarrow> u \<in> set (cl_redirect_uris c)"
  by (auto simp: allows_redirect_uri_def list_ex_iff)

lemma check_redirect_uris_Inr: "check_redirect_uris E uris = Inr () \<longleftrightarrow>
    (\<forall>u \<in> set uris. \<exists>p. x_url_parse E u = Inr p \<and> url_as_str p = u \<and> allowed_url p)"
proof (induction uris)
  case Nil
  then show ?case by simp
next
  case (Cons u uris)
  show ?case
  proof (cases "x_url_parse E u")
    case (Inl e)
    then show ?thesis by simp
  next
    case (Inr p)
    show ?thesis
    proof (cases "allowed_url p")
      case True
      with Inr have "check_url E ''redirect_uri'' u = Inr p" by (simp add: check_url_Inr)
      with Inr True Cons show ?thesis by auto
    next
      case False
      with Inr have "check_url E ''redirect_uri'' u \<noteq> Inr q" for q by (auto simp: check_url_Inr)
      then obtain e where "check_url E ''redirect_uri'' u = Inl e" by (cases "check_url E ''redirect_uri'' u") auto
      with Inr False show ?thesis by auto
    qed
  qed
qed

lemma check_allowed_origins_Inr: "check_allowed_origins E os = Inr () \<longleftrightarrow>
    (\<forall>u \<in> set os. \<exists>p. x_url_parse E u = Inr p \<and> origin_of p = Some u)"
  by (induction os) (auto split: sum.split)

text \<open>What a validated client satisfies.\<close>

definition client_ok :: "ext \<Rightarrow> client \<Rightarrow> bool" where
  "client_ok E c \<longleftrightarrow> valid_client_id (cl_id c) \<and> cl_redirect_uris c \<noteq> [] \<and>
     (\<forall>u \<in> set (cl_redirect_uris c). \<exists>p. x_url_parse E u = Inr p \<and> url_as_str p = u \<and> allowed_url p) \<and>
     (\<exists>p. x_url_parse E (cl_magic_link_url c) = Inr p \<and> allowed_url p) \<and>
     (\<forall>u. cl_email_change_url c = Some u \<longrightarrow> (\<exists>p. x_url_parse E u = Inr p \<and> allowed_url p)) \<and>
     (\<forall>u \<in> set (cl_allowed_origins c). \<exists>p. x_url_parse E u = Inr p \<and> origin_of p = Some u)"

lemma sum_unit_cases: "(r :: 'e + unit) \<noteq> Inr () \<longleftrightarrow> (\<exists>e. r = Inl e)"
  by (cases r) auto

lemma check_url_ex: "(\<exists>p. check_url E f u = Inr p) \<longleftrightarrow> (\<exists>p. x_url_parse E u = Inr p \<and> allowed_url p)"
  by (simp add: check_url_Inr)

lemma client_validate_Inr: "client_validate E c = Inr () \<longleftrightarrow> client_ok E c"
proof -
  have sumE: "(case r of Inl e \<Rightarrow> Inl (g e) | Inr x \<Rightarrow> k x) = Inr () \<longleftrightarrow> (\<exists>x. r = Inr x \<and> k x = Inr ())"
    for r :: "string + 'x" and g :: "string \<Rightarrow> clients_error" and k :: "'x \<Rightarrow> clients_error + unit"
    by (auto split: sum.split)
  have "(case cl_email_change_url c of None \<Rightarrow> Inr ()
         | Some u \<Rightarrow> map_sum id (\<lambda>_. ()) (check_url E ''email_change_url'' u)) = Inr () \<longleftrightarrow>
        (\<forall>u. cl_email_change_url c = Some u \<longrightarrow> (\<exists>p. x_url_parse E u = Inr p \<and> allowed_url p))"
  proof (cases "cl_email_change_url c")
    case (Some u)
    have "map_sum id (\<lambda>_. ()) r = Inr () \<longleftrightarrow> (\<exists>p. r = Inr p)" for r :: "string + url" by (cases r) auto
    with Some show ?thesis by (simp add: check_url_ex)
  qed simp
  then show ?thesis
    by (auto simp: client_validate_def client_ok_def Let_def sumE check_redirect_uris_Inr
        check_allowed_origins_Inr check_url_ex)
qed

lemma insert_clients_Inr:
  "insert_clients E cs m = Inr m' \<Longrightarrow>
    (\<forall>i c. m' i = Some c \<longrightarrow> m i = Some c \<or> (c \<in> set cs \<and> cl_id c = i \<and> client_ok E c)) \<and>
    (\<forall>c \<in> set cs. m' (cl_id c) = Some c) \<and> m \<subseteq>\<^sub>m m'"
proof (induction cs arbitrary: m)
  case Nil
  then show ?case by simp
next
  case (Cons c cs)
  from Cons.prems have v: "client_validate E c = Inr ()" and fresh: "m (cl_id c) = None"
    and rest: "insert_clients E cs (m(cl_id c \<mapsto> c)) = Inr m'"
    by (auto split: sum.splits if_splits)
  from Cons.IH [OF rest] have
    IH: "\<forall>i d. m' i = Some d \<longrightarrow> (m(cl_id c \<mapsto> c)) i = Some d \<or> (d \<in> set cs \<and> cl_id d = i \<and> client_ok E d)"
    "\<forall>d \<in> set cs. m' (cl_id d) = Some d" "m(cl_id c \<mapsto> c) \<subseteq>\<^sub>m m'" by blast+
  have "m \<subseteq>\<^sub>m m(cl_id c \<mapsto> c)" using fresh by (auto simp: map_le_def)
  then have "m \<subseteq>\<^sub>m m'" using IH(3) by (rule map_le_trans)
  moreover have "m' (cl_id c) = Some c" using IH(3) by (auto simp: map_le_def)
  moreover have "m' i = Some d \<Longrightarrow> m i = Some d \<or> d \<in> set (c # cs) \<and> cl_id d = i \<and> client_ok E d" for i d
    using IH(1) [rule_format, of i d] v by (cases "i = cl_id c") (auto simp: client_validate_Inr)
  ultimately show ?case using IH(2) by auto
qed

end
