(* ===== verification/Schema.thy ===== *)
theory Schema
  imports Errors
begin

text \<open>
  The Postgres schema of \<open>bauth_server/migrations\<close>: one record per table, the database as the
  record of its tables, and what the foreign keys do when a row goes away
  (\<open>ON DELETE CASCADE\<close>, \<open>ON DELETE SET NULL\<close>). The password tables are created and dropped
  again by the migrations and do not exist in the final schema.

  A table is the list of its rows in insertion order. Unique and foreign-key constraints are
  checked by the statements that insert or change rows (theory \<open>Queries\<close>); \<open>wf_db\<close> states that
  they hold.
\<close>

section \<open>Rows\<close>

record user =
  u_id :: uuid
  u_email :: string
  u_email_verified_at :: "time option"
  u_disabled_at :: "time option"
  u_created_at :: time
  u_updated_at :: time

record login_flow =
  f_id :: uuid
  f_client_id :: string
  f_redirect_uri :: string
  f_code_challenge :: string
  f_state :: "string option"
  f_magic_link_requests :: int
  f_expires_at :: time
  f_completed_at :: "time option"
  f_created_at :: time

record authorization_code =
  c_id :: uuid
  c_code_hash :: bytes
  c_flow_id :: uuid
  c_user_id :: uuid
  c_expires_at :: time
  c_consumed_at :: "time option"
  c_created_at :: time

record signing_key_row =
  k_id :: uuid
  k_public_key :: bytes
  k_encrypted_private_key :: bytes
  k_active_at :: time
  k_retired_at :: "time option"
  k_created_at :: time

record session =
  s_id :: uuid
  s_user_id :: uuid
  s_client_id :: string
  s_authorization_code_id :: "uuid option"
  s_expires_at :: time
  s_revoked_at :: "time option"
  s_created_at :: time

record refresh_token_row =
  r_id :: uuid
  r_session_id :: uuid
  r_parent_id :: "uuid option"
  r_token_hash :: bytes
  r_rotated_at :: "time option"
  r_superseded_at :: "time option"
  r_created_at :: time

record magic_link_row =
  m_id :: uuid
  m_flow_id :: uuid
  m_user_id :: "uuid option"
  m_email :: string
  m_token_hash :: bytes
  m_code_hash :: bytes
  m_code_failures :: int
  m_expires_at :: time
  m_consumed_at :: "time option"
  m_created_at :: time

record email_change_row =
  e_id :: uuid
  e_user_id :: uuid
  e_from_email :: string
  e_to_email :: string
  e_token_hash :: bytes
  e_expires_at :: time
  e_consumed_at :: "time option"
  e_created_at :: time

record confirmation_row =
  n_id :: uuid
  n_user_id :: uuid
  n_session_id :: uuid
  n_action :: string
  n_email :: string
  n_code_hash :: bytes
  n_code_failures :: int
  n_expires_at :: time
  n_consumed_at :: "time option"
  n_created_at :: time

record db =
  users :: "user list"
  login_flows :: "login_flow list"
  authorization_codes :: "authorization_code list"
  signing_keys :: "signing_key_row list"
  sessions :: "session list"
  refresh_tokens :: "refresh_token_row list"
  magic_links :: "magic_link_row list"
  email_changes :: "email_change_row list"
  confirmations :: "confirmation_row list"

definition empty_db :: db where
  "empty_db = \<lparr>users = [], login_flows = [], authorization_codes = [], signing_keys = [],
     sessions = [], refresh_tokens = [], magic_links = [], email_changes = [], confirmations = []\<rparr>"

section \<open>Deleting rows\<close>

text \<open>Refresh tokens point to the token they replace (\<open>parent_id \<dots> ON DELETE CASCADE\<close>). A token
  is inserted after its parent, so one pass over the rows follows the chains: \<open>dead\<close> collects the
  ids removed so far.\<close>

fun sweep_tokens :: "(refresh_token_row \<Rightarrow> bool) \<Rightarrow> uuid list \<Rightarrow> refresh_token_row list \<Rightarrow> refresh_token_row list" where
  "sweep_tokens p dead [] = []"
| "sweep_tokens p dead (r # rs) =
     (if p r \<or> (case r_parent_id r of None \<Rightarrow> False | Some q \<Rightarrow> q \<in> set dead)
      then sweep_tokens p (r_id r # dead) rs
      else r # sweep_tokens p dead rs)"

definition delete_email_changes :: "(email_change_row \<Rightarrow> bool) \<Rightarrow> db \<Rightarrow> db" where
  "delete_email_changes p d = d\<lparr>email_changes := del_where p (email_changes d)\<rparr>"

definition delete_confirmations :: "(confirmation_row \<Rightarrow> bool) \<Rightarrow> db \<Rightarrow> db" where
  "delete_confirmations p d = d\<lparr>confirmations := del_where p (confirmations d)\<rparr>"

definition delete_signing_keys :: "(signing_key_row \<Rightarrow> bool) \<Rightarrow> db \<Rightarrow> db" where
  "delete_signing_keys p d = d\<lparr>signing_keys := del_where p (signing_keys d)\<rparr>"

definition delete_sessions :: "(session \<Rightarrow> bool) \<Rightarrow> db \<Rightarrow> db" where
  "delete_sessions p d = (let gone = map s_id (filter p (sessions d)) in
     d\<lparr>sessions := del_where p (sessions d),
       refresh_tokens := sweep_tokens (\<lambda>r. r_session_id r \<in> set gone) [] (refresh_tokens d),
       confirmations := del_where (\<lambda>n. n_session_id n \<in> set gone) (confirmations d)\<rparr>)"

definition delete_authorization_codes :: "(authorization_code \<Rightarrow> bool) \<Rightarrow> db \<Rightarrow> db" where
  "delete_authorization_codes p d = (let gone = map c_id (filter p (authorization_codes d)) in
     d\<lparr>authorization_codes := del_where p (authorization_codes d),
       sessions := upd_where
         (\<lambda>s. case s_authorization_code_id s of None \<Rightarrow> False | Some c \<Rightarrow> c \<in> set gone)
         (\<lambda>s. s\<lparr>s_authorization_code_id := None\<rparr>) (sessions d)\<rparr>)"

definition delete_login_flows :: "(login_flow \<Rightarrow> bool) \<Rightarrow> db \<Rightarrow> db" where
  "delete_login_flows p d = (let gone = map f_id (filter p (login_flows d)) in
     delete_authorization_codes (\<lambda>c. c_flow_id c \<in> set gone)
       (d\<lparr>login_flows := del_where p (login_flows d),
          magic_links := del_where (\<lambda>m. m_flow_id m \<in> set gone) (magic_links d)\<rparr>))"

definition delete_users :: "(user \<Rightarrow> bool) \<Rightarrow> db \<Rightarrow> db" where
  "delete_users p d = (let gone = map u_id (filter p (users d)) in
     delete_sessions (\<lambda>s. s_user_id s \<in> set gone)
       (delete_authorization_codes (\<lambda>c. c_user_id c \<in> set gone)
         (d\<lparr>users := del_where p (users d),
            magic_links := del_where
              (\<lambda>m. case m_user_id m of None \<Rightarrow> False | Some u \<Rightarrow> u \<in> set gone) (magic_links d),
            email_changes := del_where (\<lambda>e. e_user_id e \<in> set gone) (email_changes d),
            confirmations := del_where (\<lambda>n. n_user_id n \<in> set gone) (confirmations d)\<rparr>)))"

section \<open>The constraints of the schema\<close>

definition unique_keys :: "db \<Rightarrow> bool" where
  "unique_keys d \<longleftrightarrow>
     distinct (map u_id (users d)) \<and> distinct (map u_email (users d)) \<and>
     distinct (map f_id (login_flows d)) \<and>
     distinct (map c_id (authorization_codes d)) \<and>
     distinct (map c_code_hash (authorization_codes d)) \<and>
     distinct (map c_flow_id (authorization_codes d)) \<and>
     distinct (map k_id (signing_keys d)) \<and>
     distinct (map s_id (sessions d)) \<and>
     distinct (List.map_filter s_authorization_code_id (sessions d)) \<and>
     distinct (map r_id (refresh_tokens d)) \<and> distinct (map r_token_hash (refresh_tokens d)) \<and>
     distinct (map m_id (magic_links d)) \<and> distinct (map m_token_hash (magic_links d)) \<and>
     distinct (map e_id (email_changes d)) \<and> distinct (map e_token_hash (email_changes d)) \<and>
     distinct (map n_id (confirmations d))"

definition foreign_keys :: "db \<Rightarrow> bool" where
  "foreign_keys d \<longleftrightarrow>
     (\<forall>c \<in> set (authorization_codes d).
        c_flow_id c \<in> f_id ` set (login_flows d) \<and> c_user_id c \<in> u_id ` set (users d)) \<and>
     (\<forall>s \<in> set (sessions d). s_user_id s \<in> u_id ` set (users d) \<and>
        (\<forall>c. s_authorization_code_id s = Some c \<longrightarrow> c \<in> c_id ` set (authorization_codes d))) \<and>
     (\<forall>r \<in> set (refresh_tokens d). r_session_id r \<in> s_id ` set (sessions d) \<and>
        (\<forall>q. r_parent_id r = Some q \<longrightarrow> q \<in> r_id ` set (refresh_tokens d))) \<and>
     (\<forall>m \<in> set (magic_links d). m_flow_id m \<in> f_id ` set (login_flows d) \<and>
        (\<forall>u. m_user_id m = Some u \<longrightarrow> u \<in> u_id ` set (users d))) \<and>
     (\<forall>e \<in> set (email_changes d). e_user_id e \<in> u_id ` set (users d)) \<and>
     (\<forall>n \<in> set (confirmations d).
        n_user_id n \<in> u_id ` set (users d) \<and> n_session_id n \<in> s_id ` set (sessions d))"

text \<open>A refresh token is inserted after the token it replaces.\<close>

fun parents_first :: "uuid set \<Rightarrow> refresh_token_row list \<Rightarrow> bool" where
  "parents_first seen [] = True"
| "parents_first seen (r # rs) \<longleftrightarrow>
     (case r_parent_id r of None \<Rightarrow> True | Some q \<Rightarrow> q \<in> seen) \<and> parents_first (insert (r_id r) seen) rs"

definition wf_db :: "db \<Rightarrow> bool" where
  "wf_db d \<longleftrightarrow> unique_keys d \<and> foreign_keys d \<and> parents_first {} (refresh_tokens d)"

end
