(* ===== verification/World.thy ===== *)
theory World
  imports Schema
begin

text \<open>
  The mutable state a request handler works on, and the computations handlers are made of.

  A handler is a function from a world to its result and the next world. \<open>None\<close> means the
  request never returns (only the redrawing loop of \<open>magic_code.rs\<close> could do that); otherwise the
  result is Rust's \<open>Result\<close>, \<open>Inl\<close> the error and \<open>Inr\<close> the value. \<open>and_then\<close> is the \<open>?\<close>
  operator, \<open>map_err\<close> the \<open>From\<close> conversion it applies.

  The world holds the database, the open transaction (the snapshot to go back to and the value
  \<open>now()\<close> has inside it), the histories of the three rate limiters, the emails handed to the
  mailer, the shared signing keys, and the supplies: the application clock, the database clock,
  the monotonic clock, generated ids, random bytes, and which statements fail to reach the
  database. A failed statement has no effect.

  \<open>wp m P Q w\<close> says that if \<open>m\<close> returns from \<open>w\<close>, a value satisfies \<open>P\<close> and an error satisfies
  \<open>Q\<close>; the rules tagged \<open>wp\<close> compute it by symbolic execution.
\<close>

section \<open>State\<close>

record loaded_key =
  lk_kid :: uuid
  lk_encoding_key :: bytes
  lk_active_at :: time
  lk_retired_at :: "time option"

record signing_keys_set =
  sk_keys :: "loaded_key list"
  sk_jwks :: jwk_set

record email =
  em_to :: string
  em_subject :: string
  em_text :: string
  em_html :: string

record world =
  w_db :: db
  w_tx :: "(db \<times> time) option"
  w_email_per_address :: "(string \<times> time) list"
  w_email_per_ip :: "(string \<times> time) list"
  w_token_per_ip :: "(string \<times> time) list"
  w_outbox :: "email list"
  w_keys :: signing_keys_set
  w_utc :: "nat \<Rightarrow> time"
  w_db_clock :: "nat \<Rightarrow> time"
  w_mono :: "nat \<Rightarrow> time"
  w_ids :: "nat \<Rightarrow> uuid"
  w_rng :: "nat \<Rightarrow> char"
  w_faults :: "nat \<Rightarrow> bool"

section \<open>Computations\<close>

type_synonym ('e, 'a) req = "world \<Rightarrow> (('e + 'a) \<times> world) option"

definition ok :: "'a \<Rightarrow> ('e, 'a) req" where
  "ok a w = Some (Inr a, w)"

definition err :: "'e \<Rightarrow> ('e, 'a) req" where
  "err e w = Some (Inl e, w)"

definition and_then :: "('e, 'a) req \<Rightarrow> ('a \<Rightarrow> ('e, 'b) req) \<Rightarrow> ('e, 'b) req" where
  "and_then m f w = (case m w of
      None \<Rightarrow> None
    | Some (r, w') \<Rightarrow> (case r of Inl e \<Rightarrow> Some (Inl e, w') | Inr a \<Rightarrow> f a w'))"

definition map_err :: "('e \<Rightarrow> 'f) \<Rightarrow> ('e, 'a) req \<Rightarrow> ('f, 'a) req" where
  "map_err g m w = (case m w of
      None \<Rightarrow> None
    | Some (r, w') \<Rightarrow> Some (map_sum g id r, w'))"

text \<open>A \<open>Result\<close> that is matched on instead of propagated.\<close>

definition attempt :: "('e, 'a) req \<Rightarrow> ('f, 'e + 'a) req" where
  "attempt m w = (case m w of None \<Rightarrow> None | Some (r, w') \<Rightarrow> Some (Inr r, w'))"

definition ok_or :: "'a option \<Rightarrow> 'e \<Rightarrow> ('e, 'a) req" where
  "ok_or x e = (case x of None \<Rightarrow> err e | Some a \<Rightarrow> ok a)"

definition result :: "'e + 'a \<Rightarrow> ('e, 'a) req" where
  "result r = (case r of Inl e \<Rightarrow> err e | Inr a \<Rightarrow> ok a)"

subsection \<open>Clocks, ids, randomness, mail, keys\<close>

definition utc_now :: "('e, time) req" where
  "utc_now w = Some (Inr (w_utc w 0), w\<lparr>w_utc := shift 1 (w_utc w)\<rparr>)"

definition instant_now :: "('e, time) req" where
  "instant_now w = Some (Inr (w_mono w 0), w\<lparr>w_mono := shift 1 (w_mono w)\<rparr>)"

text \<open>\<open>Uuid::now_v7()\<close>.\<close>

definition uuid_now_v7 :: "('e, uuid) req" where
  "uuid_now_v7 w = Some (Inr (w_ids w 0), w\<lparr>w_ids := shift 1 (w_ids w)\<rparr>)"

text \<open>\<open>getrandom::fill\<close> on a buffer of \<open>n\<close> bytes.\<close>

definition random_bytes :: "nat \<Rightarrow> ('e, bytes) req" where
  "random_bytes n w = Some (Inr (map (w_rng w) [0..<n]), w\<lparr>w_rng := shift n (w_rng w)\<rparr>)"

definition send_in_background :: "email \<Rightarrow> ('e, unit) req" where
  "send_in_background m w = Some (Inr (), w\<lparr>w_outbox := w_outbox w @ [m]\<rparr>)"

text \<open>\<open>state.signing_keys.load()\<close> and \<open>store\<close>.\<close>

definition load_keys :: "('e, signing_keys_set) req" where
  "load_keys w = Some (Inr (w_keys w), w)"

definition store_keys :: "signing_keys_set \<Rightarrow> ('e, unit) req" where
  "store_keys ks w = Some (Inr (), w\<lparr>w_keys := ks\<rparr>)"

subsection \<open>Statements and transactions\<close>

text \<open>One SQL statement: from \<open>now()\<close>, the id a \<open>DEFAULT uuidv7()\<close> column would get, and the
  database, to its error or its answer and the next database.\<close>

type_synonym 'a stmt = "time \<Rightarrow> uuid \<Rightarrow> db \<Rightarrow> sql_error + ('a \<times> db)"

definition stmt_now :: "world \<Rightarrow> time" where
  "stmt_now w = (case w_tx w of None \<Rightarrow> w_db_clock w 0 | Some (_, t) \<Rightarrow> t)"

definition after_stmt :: "world \<Rightarrow> world" where
  "after_stmt w = w\<lparr>w_faults := shift 1 (w_faults w), w_ids := shift 1 (w_ids w),
     w_db_clock := (if w_tx w = None then shift 1 (w_db_clock w) else w_db_clock w)\<rparr>"

definition exec :: "'a stmt \<Rightarrow> (sql_error, 'a) req" where
  "exec q w = (if w_faults w 0 then Some (Inl Unavailable, after_stmt w)
     else case q (stmt_now w) (w_ids w 0) (w_db w) of
         Inl e \<Rightarrow> Some (Inl e, after_stmt w)
       | Inr (a, d) \<Rightarrow> Some (Inr a, (after_stmt w)\<lparr>w_db := d\<rparr>))"

definition begin_tx :: "(sql_error, unit) req" where
  "begin_tx w = (if w_faults w 0 then Some (Inl Unavailable, after_stmt w)
     else Some (Inr (), (after_stmt w)\<lparr>w_tx := Some (w_db w, stmt_now w)\<rparr>))"

definition commit_tx :: "(sql_error, unit) req" where
  "commit_tx w = (if w_faults w 0 then Some (Inl Unavailable, after_stmt w)
     else Some (Inr (), (after_stmt w)\<lparr>w_tx := None\<rparr>))"

text \<open>Dropping a transaction that was not committed rolls it back.\<close>

definition drop_tx :: "world \<Rightarrow> world" where
  "drop_tx w = (case w_tx w of None \<Rightarrow> w | Some (d, _) \<Rightarrow> w\<lparr>w_db := d, w_tx := None\<rparr>)"

definition rollback_tx :: "(sql_error, unit) req" where
  "rollback_tx w = (if w_faults w 0 then Some (Inl Unavailable, drop_tx (after_stmt w))
     else Some (Inr (), drop_tx (after_stmt w)))"

text \<open>The body of a Rust function that owns a transaction: whatever it returns, a transaction
  still open is dropped.\<close>

definition scoped :: "('e, 'a) req \<Rightarrow> ('e, 'a) req" where
  "scoped m w = (case m w of None \<Rightarrow> None | Some (r, w') \<Rightarrow> Some (r, drop_tx w'))"

section \<open>Symbolic execution\<close>

definition wp :: "('e, 'a) req \<Rightarrow> ('a \<Rightarrow> world \<Rightarrow> bool) \<Rightarrow> ('e \<Rightarrow> world \<Rightarrow> bool) \<Rightarrow> world \<Rightarrow> bool" where
  "wp m P Q w = (case m w of
      None \<Rightarrow> True
    | Some (r, w') \<Rightarrow> (case r of Inl e \<Rightarrow> Q e w' | Inr a \<Rightarrow> P a w'))"

lemma wp_ok [wp]: "wp (ok a) P Q = P a"
  by (simp add: wp_def ok_def fun_eq_iff)

lemma wp_err [wp]: "wp (err e) P Q = Q e"
  by (simp add: wp_def err_def fun_eq_iff)

lemma wp_and_then [wp]: "wp (and_then m f) P Q w = wp m (\<lambda>a. wp (f a) P Q) Q w"
  by (simp add: wp_def and_then_def split: option.split sum.split prod.split)

lemma wp_map_err [wp]: "wp (map_err g m) P Q w = wp m P (\<lambda>e. Q (g e)) w"
  by (simp add: wp_def map_err_def split: option.split sum.split prod.split)

lemma wp_attempt [wp]: "wp (attempt m) P Q w = wp m (\<lambda>a. P (Inr a)) (\<lambda>e. P (Inl e)) w"
  by (simp add: wp_def attempt_def split: option.split sum.split prod.split)

lemma wp_ok_or [wp]: "wp (ok_or x e) P Q w = (case x of None \<Rightarrow> Q e w | Some a \<Rightarrow> P a w)"
  by (simp add: ok_or_def wp split: option.split)

lemma wp_result [wp]: "wp (result r) P Q w = (case r of Inl e \<Rightarrow> Q e w | Inr a \<Rightarrow> P a w)"
  by (simp add: result_def wp split: sum.split)

lemma wp_if [wp]: "wp (if b then m else m') P Q w = (if b then wp m P Q w else wp m' P Q w)"
  by simp

lemma wp_case_option [wp]:
  "wp (case x of None \<Rightarrow> m | Some a \<Rightarrow> f a) P Q w =
   (case x of None \<Rightarrow> wp m P Q w | Some a \<Rightarrow> wp (f a) P Q w)"
  by (simp split: option.split)

lemma wp_case_sum [wp]:
  "wp (case x of Inl e \<Rightarrow> g e | Inr a \<Rightarrow> f a) P Q w =
   (case x of Inl e \<Rightarrow> wp (g e) P Q w | Inr a \<Rightarrow> wp (f a) P Q w)"
  by (simp split: sum.split)

lemma wp_case_prod [wp]:
  "wp (case x of (a, b) \<Rightarrow> f a b) P Q w = (case x of (a, b) \<Rightarrow> wp (f a b) P Q w)"
  by (simp split: prod.split)

lemma wp_Let [wp]: "wp (Let x f) P Q w = (let a = x in wp (f a) P Q w)"
  by simp

lemma wp_utc_now [wp]: "wp utc_now P Q w = P (w_utc w 0) (w\<lparr>w_utc := shift 1 (w_utc w)\<rparr>)"
  and wp_instant_now [wp]: "wp instant_now P Q w = P (w_mono w 0) (w\<lparr>w_mono := shift 1 (w_mono w)\<rparr>)"
  by (simp_all add: wp_def utc_now_def instant_now_def)

lemma wp_uuid_now_v7 [wp]: "wp uuid_now_v7 P Q w = P (w_ids w 0) (w\<lparr>w_ids := shift 1 (w_ids w)\<rparr>)"
  by (simp add: wp_def uuid_now_v7_def)

lemma wp_random_bytes [wp]: "wp (random_bytes n) P Q w =
    P (map (w_rng w) [0..<n]) (w\<lparr>w_rng := shift n (w_rng w)\<rparr>)"
  by (simp add: wp_def random_bytes_def)

lemma wp_send [wp]: "wp (send_in_background m) P Q w = P () (w\<lparr>w_outbox := w_outbox w @ [m]\<rparr>)"
  and wp_store_keys [wp]: "wp (store_keys ks) P Q w = P () (w\<lparr>w_keys := ks\<rparr>)"
  by (simp_all add: wp_def send_in_background_def store_keys_def)

lemma wp_load_keys [wp]: "wp load_keys P Q w = P (w_keys w) w"
  by (simp add: wp_def load_keys_def)

lemma wp_exec [wp]: "wp (exec q) P Q w =
  (if w_faults w 0 then Q Unavailable (after_stmt w)
   else case q (stmt_now w) (w_ids w 0) (w_db w) of
       Inl e \<Rightarrow> Q e (after_stmt w)
     | Inr (a, d) \<Rightarrow> P a ((after_stmt w)\<lparr>w_db := d\<rparr>))"
  by (simp add: wp_def exec_def split: sum.split prod.split)

lemma wp_begin [wp]: "wp begin_tx P Q w =
  (if w_faults w 0 then Q Unavailable (after_stmt w)
   else P () ((after_stmt w)\<lparr>w_tx := Some (w_db w, stmt_now w)\<rparr>))"
  and wp_commit [wp]: "wp commit_tx P Q w =
  (if w_faults w 0 then Q Unavailable (after_stmt w)
   else P () ((after_stmt w)\<lparr>w_tx := None\<rparr>))"
  and wp_rollback [wp]: "wp rollback_tx P Q w =
  (if w_faults w 0 then Q Unavailable (drop_tx (after_stmt w))
   else P () (drop_tx (after_stmt w)))"
  by (simp_all add: wp_def begin_tx_def commit_tx_def rollback_tx_def)

lemma wp_scoped [wp]: "wp (scoped m) P Q w = wp m (\<lambda>a w'. P a (drop_tx w')) (\<lambda>e w'. Q e (drop_tx w')) w"
  by (simp add: wp_def scoped_def split: option.split sum.split prod.split)

text \<open>From a computed precondition to a run, and back.\<close>

lemma wp_ok_run: "\<lbrakk>wp m P Q w; m w = Some (Inr a, w')\<rbrakk> \<Longrightarrow> P a w'"
  and wp_err_run: "\<lbrakk>wp m P Q w; m w = Some (Inl e, w')\<rbrakk> \<Longrightarrow> Q e w'"
  by (simp_all add: wp_def)

lemma wp_mono:
  assumes "wp m P Q w" "\<And>a w'. P a w' \<Longrightarrow> P' a w'" "\<And>e w'. Q e w' \<Longrightarrow> Q' e w'"
  shows "wp m P' Q' w"
  using assms by (auto simp: wp_def split: option.splits sum.splits)

lemma wp_conj: "wp m (\<lambda>a w'. P a w' \<and> P' a w') (\<lambda>e w'. Q e w' \<and> Q' e w') w \<longleftrightarrow>
    wp m P Q w \<and> wp m P' Q' w"
  by (auto simp: wp_def split: option.splits sum.splits)

lemma wp_True [simp]: "wp m (\<lambda>_ _. True) (\<lambda>_ _. True) w"
  by (simp add: wp_def split: option.split sum.split)

subsection \<open>What a statement leaves of the world\<close>

lemma after_stmt_simps [simp]:
  "w_db (after_stmt w) = w_db w" "w_tx (after_stmt w) = w_tx w"
  "w_outbox (after_stmt w) = w_outbox w" "w_keys (after_stmt w) = w_keys w"
  "w_email_per_address (after_stmt w) = w_email_per_address w"
  "w_email_per_ip (after_stmt w) = w_email_per_ip w"
  "w_token_per_ip (after_stmt w) = w_token_per_ip w"
  "w_utc (after_stmt w) = w_utc w" "w_mono (after_stmt w) = w_mono w"
  "w_rng (after_stmt w) = w_rng w"
  "w_faults (after_stmt w) = shift 1 (w_faults w)" "w_ids (after_stmt w) = shift 1 (w_ids w)"
  by (simp_all add: after_stmt_def)

lemma after_stmt_clock [simp]: "w_tx w = None \<Longrightarrow> w_db_clock (after_stmt w) = shift 1 (w_db_clock w)"
  by (simp add: after_stmt_def)

lemma drop_tx_simps [simp]:
  "w_tx (drop_tx w) = None"
  "w_outbox (drop_tx w) = w_outbox w" "w_keys (drop_tx w) = w_keys w"
  "w_email_per_address (drop_tx w) = w_email_per_address w"
  "w_email_per_ip (drop_tx w) = w_email_per_ip w"
  "w_token_per_ip (drop_tx w) = w_token_per_ip w"
  by (simp_all add: drop_tx_def split: option.split prod.split)

lemma w_db_drop_tx: "w_db (drop_tx w) = (case w_tx w of None \<Rightarrow> w_db w | Some (d, _) \<Rightarrow> d)"
  by (simp add: drop_tx_def split: option.split prod.split)

lemma drop_tx_committed [simp]: "w_tx w = None \<Longrightarrow> drop_tx w = w"
  by (simp add: drop_tx_def)

lemma drop_tx_open [simp]: "w_tx w = Some (d, t) \<Longrightarrow> w_db (drop_tx w) = d"
  by (simp add: drop_tx_def)

lemma stmt_now_tx [simp]: "w_tx w = Some (d, t) \<Longrightarrow> stmt_now w = t"
  and stmt_now_pool [simp]: "w_tx w = None \<Longrightarrow> stmt_now w = w_db_clock w 0"
  by (simp_all add: stmt_now_def)

lemma stmt_now_upd [simp]:
  "stmt_now (w\<lparr>w_utc := a\<rparr>) = stmt_now w" "stmt_now (w\<lparr>w_mono := a\<rparr>) = stmt_now w"
  "stmt_now (w\<lparr>w_rng := b\<rparr>) = stmt_now w" "stmt_now (w\<lparr>w_ids := c\<rparr>) = stmt_now w"
  "stmt_now (w\<lparr>w_outbox := x\<rparr>) = stmt_now w" "stmt_now (w\<lparr>w_keys := k\<rparr>) = stmt_now w"
  "stmt_now (w\<lparr>w_db := d\<rparr>) = stmt_now w"
  by (simp_all add: stmt_now_def cong: option.case_cong)

subsection \<open>Computations that return\<close>

definition returns :: "('e, 'a) req \<Rightarrow> bool" where
  "returns m \<longleftrightarrow> (\<forall>w. m w \<noteq> None)"

lemma returnsI: "(\<And>w. m w \<noteq> None) \<Longrightarrow> returns m"
  by (simp add: returns_def)

lemma returns_prim [total]:
  "returns (ok a)" "returns (err e)" "returns utc_now" "returns instant_now" "returns uuid_now_v7"
  "returns (random_bytes n)" "returns (send_in_background m)" "returns load_keys" "returns (store_keys ks)"
  "returns begin_tx" "returns commit_tx" "returns rollback_tx"
  by (simp_all add: returns_def ok_def err_def utc_now_def instant_now_def uuid_now_v7_def
      random_bytes_def send_in_background_def load_keys_def store_keys_def begin_tx_def commit_tx_def
      rollback_tx_def)

lemma returns_exec [total]: "returns (exec q)"
  by (simp add: returns_def exec_def split: sum.split prod.split)

lemma returns_ok_or [total]: "returns (ok_or x e)"
  and returns_result [total]: "returns (result r)"
  by (simp_all add: ok_or_def result_def returns_prim split: option.split sum.split)

lemma returns_and_then [total]: "\<lbrakk>returns m; \<And>a. returns (f a)\<rbrakk> \<Longrightarrow> returns (and_then m f)"
  unfolding returns_def and_then_def by (force split: option.split sum.split)

lemma returns_map_err [total]: "returns m \<Longrightarrow> returns (map_err g m)"
  and returns_attempt [total]: "returns m \<Longrightarrow> returns (attempt m)"
  and returns_scoped [total]: "returns m \<Longrightarrow> returns (scoped m)"
  unfolding returns_def map_err_def attempt_def scoped_def by (force split: option.split)+

lemma returns_cases [total]:
  "\<lbrakk>b \<Longrightarrow> returns m; \<not> b \<Longrightarrow> returns m'\<rbrakk> \<Longrightarrow> returns (if b then m else m')"
  "\<lbrakk>returns n; \<And>a. returns (f a)\<rbrakk> \<Longrightarrow> returns (case x of None \<Rightarrow> n | Some a \<Rightarrow> f a)"
  "(\<And>a b. returns (g a b)) \<Longrightarrow> returns (case y of (a, b) \<Rightarrow> g a b)"
  "(\<And>a. returns (h a)) \<Longrightarrow> returns (Let z h)"
  by (auto split: option.split prod.split)

text \<open>A computation that returns and cannot fail succeeds; one that cannot succeed fails.\<close>

lemma returns_success:
  assumes "returns m" "wp m P (\<lambda>_ _. False) w"
  shows "\<exists>a w'. m w = Some (Inr a, w') \<and> P a w'"
proof -
  from assms(1) obtain r w' where "m w = Some (r, w')" by (force simp: returns_def)
  with assms(2) show ?thesis by (cases r) (auto simp: wp_def)
qed

lemma returns_failure:
  assumes "returns m" "wp m (\<lambda>_ _. False) Q w"
  shows "\<exists>e w'. m w = Some (Inl e, w') \<and> Q e w'"
proof -
  from assms(1) obtain r w' where "m w = Some (r, w')" by (force simp: returns_def)
  with assms(2) show ?thesis by (cases r) (auto simp: wp_def)
qed

text \<open>The same for one world, computed like a precondition.\<close>

definition defined :: "('e, 'a) req \<Rightarrow> world \<Rightarrow> bool" where
  "defined m w \<longleftrightarrow> m w \<noteq> None"

lemma defined_returns: "returns m \<Longrightarrow> defined m w"
  by (simp add: returns_def defined_def)

lemmas defined_prim [wp] = returns_prim [THEN defined_returns] returns_exec [THEN defined_returns]
  returns_ok_or [THEN defined_returns] returns_result [THEN defined_returns]

lemma defined_and_then [wp]:
  "defined (and_then m f) w \<longleftrightarrow> defined m w \<and> wp m (\<lambda>a w'. defined (f a) w') (\<lambda>_ _. True) w"
  by (auto simp: defined_def and_then_def wp_def split: option.splits sum.splits)

lemma defined_map_err [wp]: "defined (map_err g m) w = defined m w"
  and defined_attempt [wp]: "defined (attempt m) w = defined m w"
  and defined_scoped [wp]: "defined (scoped m) w = defined m w"
  by (auto simp: defined_def map_err_def attempt_def scoped_def split: option.splits)

lemma defined_cases [wp]:
  "defined (if b then m else m') w = (if b then defined m w else defined m' w)"
  "defined (case x of None \<Rightarrow> n | Some a \<Rightarrow> f a) w = (case x of None \<Rightarrow> defined n w | Some a \<Rightarrow> defined (f a) w)"
  "defined (case y of (a, b) \<Rightarrow> g a b) w = (case y of (a, b) \<Rightarrow> defined (g a b) w)"
  "defined (Let z h) w = (let a = z in defined (h a) w)"
  by (auto split: option.split prod.split)

lemma defined_run:
  assumes "defined m w" "wp m P Q w"
  shows "\<exists>r w'. m w = Some (r, w') \<and> (case r of Inl e \<Rightarrow> Q e w' | Inr a \<Rightarrow> P a w')"
proof -
  from assms(1) obtain r w' where "m w = Some (r, w')" by (force simp: defined_def)
  with assms(2) show ?thesis by (auto simp: wp_def)
qed

end
