(* ===== verification/Email.thy ===== *)
theory Email
  imports World
begin

text \<open>
  \<open>email.rs\<close>, \<open>emails.rs\<close> and the email key of \<open>rate_limit.rs\<close>: which addresses are accepted, how an
  address is normalized, and every email the server sends. Template rendering (the \<open>tera\<close> crate)
  is a parameter; recipients, subjects, template names and contexts are the program's.
\<close>

section \<open>\<open>email.rs\<close>\<close>

definition is_valid_email :: "string \<Rightarrow> bool" where
  "is_valid_email input = (let email = trim_spaces input in
     length email \<le> 254 \<and>
     \<not> list_ex (\<lambda>(c, _). is_whitespace c \<or> is_control c) (utf8_chars email) \<and>
     (case split_once (CHR ''@'') email of
        None \<Rightarrow> False
      | Some (local, domain) \<Rightarrow>
          local \<noteq> [] \<and> CHR ''@'' \<notin> set domain \<and> CHR ''.'' \<in> set domain \<and>
          hd domain \<noteq> CHR ''.'' \<and> last domain \<noteq> CHR ''.''))"

section \<open>Normalization\<close>

text \<open>\<open>lower(btrim($1))\<close> in the SQL statements.\<close>

definition sql_normalize :: "ext \<Rightarrow> string \<Rightarrow> string" where
  "sql_normalize E email = x_pg_lower E (trim_spaces email)"

text \<open>\<open>rate_limit::email_key\<close>.\<close>

definition email_key :: "ext \<Rightarrow> string \<Rightarrow> string" where
  "email_key E email = x_to_lowercase E (trim_spaces email)"

section \<open>\<open>emails.rs\<close>\<close>

text \<open>Non-ASCII letters of the subjects, in UTF-8.\<close>

abbreviation e_acute :: string where "e_acute \<equiv> [CHR 0xC3, CHR 0xA9]"
abbreviation a_grave :: string where "a_grave \<equiv> [CHR 0xC3, CHR 0xA0]"

definition render_email :: "ext \<Rightarrow> string \<Rightarrow> string \<Rightarrow> string \<Rightarrow> (string \<times> tera_value) list \<Rightarrow> email" where
  "render_email E to subject template context =
     (let ctx = context @ [(''subject'', TStr subject)];
          text = x_render E (template @ ''.txt'') ctx
      in \<lparr>em_to = to, em_subject = subject, em_text = str_trim_end text @ [CHR 0x0A],
          em_html = x_render E (template @ ''.html'') ctx\<rparr>)"

definition magic_email :: "ext \<Rightarrow> string \<Rightarrow> string \<Rightarrow> string \<Rightarrow> string \<Rightarrow> string \<Rightarrow> bool \<Rightarrow> email" where
  "magic_email E to subject app_name link code signup =
     render_email E to subject ''magic_link''
       [(''app_name'', TStr app_name), (''link'', TStr link), (''code'', TStr code),
        (''signup'', TBool signup)]"

definition magic_link_email :: "ext \<Rightarrow> string \<Rightarrow> string \<Rightarrow> string \<Rightarrow> string \<Rightarrow> email" where
  "magic_link_email E to app_name link code =
     magic_email E to (''Votre lien de connexion '' @ a_grave @ '' '' @ app_name) app_name link code False"

definition magic_signup_email :: "ext \<Rightarrow> string \<Rightarrow> string \<Rightarrow> string \<Rightarrow> string \<Rightarrow> email" where
  "magic_signup_email E to app_name link code =
     magic_email E to (''Cr'' @ e_acute @ ''ez votre compte '' @ app_name) app_name link code True"

definition confirmation_code_email :: "ext \<Rightarrow> string \<Rightarrow> string \<Rightarrow> string \<Rightarrow> email" where
  "confirmation_code_email E to action code =
     render_email E to ''Votre code de confirmation'' ''confirmation_code''
       [(''action'', TStr action), (''code'', TStr code)]"

definition confirm_email_change_email :: "ext \<Rightarrow> string \<Rightarrow> string \<Rightarrow> email" where
  "confirm_email_change_email E to link =
     render_email E to ''Confirmez votre nouvelle adresse email'' ''confirm_email_change''
       [(''link'', TStr link)]"

definition email_changed_email :: "ext \<Rightarrow> string \<Rightarrow> string \<Rightarrow> email" where
  "email_changed_email E to new_email =
     render_email E to (''Votre adresse email a '' @ e_acute @ ''t'' @ e_acute @ '' modifi'' @ e_acute @ ''e'')
       ''email_changed'' [(''new_email'', TStr new_email)]"

definition account_deleted_email :: "ext \<Rightarrow> string \<Rightarrow> email" where
  "account_deleted_email E to =
     render_email E to (''Votre compte a '' @ e_acute @ ''t'' @ e_acute @ '' supprim'' @ e_acute)
       ''account_deleted'' []"

lemmas email_templates = magic_email_def magic_link_email_def magic_signup_email_def
  confirmation_code_email_def confirm_email_change_email_def email_changed_email_def
  account_deleted_email_def

section \<open>Lemmas\<close>

lemma em_to_render [simp]: "em_to (render_email E to subject template ctx) = to"
  by (simp add: render_email_def Let_def)

lemma email_key_sql: "lowercase_agrees E (trim_spaces email) \<Longrightarrow> email_key E email = sql_normalize E email"
  by (simp add: email_key_def sql_normalize_def lowercase_agrees_def)

text \<open>An accepted address, once trimmed, splits at its only \<open>@\<close> into a local part and a dotted domain.\<close>

lemma is_valid_email_parts:
  assumes "is_valid_email input"
  obtains local domain where "trim_spaces input = local @ CHR ''@'' # domain"
    "local \<noteq> []" "CHR ''@'' \<notin> set local" "CHR ''@'' \<notin> set domain" "CHR ''.'' \<in> set domain"
    "hd domain \<noteq> CHR ''.''" "last domain \<noteq> CHR ''.''" "length (trim_spaces input) \<le> 254"
proof -
  obtain local domain where s: "split_once (CHR ''@'') (trim_spaces input) = Some (local, domain)"
    using assms by (auto simp: is_valid_email_def Let_def split: option.splits)
  with assms show ?thesis
    using that [of local domain]
    by (simp add: is_valid_email_def Let_def split_once_Some)
qed

end
