(* ===== verification/RateLimit.thy ===== *)
theory RateLimit
  imports Email
begin

text \<open>
  \<open>rate_limit.rs\<close>: the three limiters, the address a request is counted against, and the trusted
  proxies. The \<open>governor\<close> crate decides from the quota and the history of a limiter whether a key
  may pass; the program only maps a refusal to \<open>RateLimited\<close>. A limiter's state is therefore the
  history of its checks, and the cleanup task, which forgets keys whose budget is full again, does
  not change it.
\<close>

section \<open>Limiters\<close>

datatype limiter = EmailPerAddress | EmailPerIp | TokenPerIp

fun limiter_quota :: "limiter \<Rightarrow> quota" where
  "limiter_quota EmailPerAddress = \<lparr>q_burst = 5, q_period = seconds (3 * 60)\<rparr>"
| "limiter_quota EmailPerIp = \<lparr>q_burst = 20, q_period = seconds 30\<rparr>"
| "limiter_quota TokenPerIp = \<lparr>q_burst = 30, q_period = seconds 2\<rparr>"

fun limiter_log :: "limiter \<Rightarrow> world \<Rightarrow> (string \<times> time) list" where
  "limiter_log EmailPerAddress w = w_email_per_address w"
| "limiter_log EmailPerIp w = w_email_per_ip w"
| "limiter_log TokenPerIp w = w_token_per_ip w"

fun log_check :: "limiter \<Rightarrow> string \<times> time \<Rightarrow> world \<Rightarrow> world" where
  "log_check EmailPerAddress c w = w\<lparr>w_email_per_address := w_email_per_address w @ [c]\<rparr>"
| "log_check EmailPerIp c w = w\<lparr>w_email_per_ip := w_email_per_ip w @ [c]\<rparr>"
| "log_check TokenPerIp c w = w\<lparr>w_token_per_ip := w_token_per_ip w @ [c]\<rparr>"

text \<open>\<open>Limiter::check\<close>.\<close>

definition limiter_check :: "ext \<Rightarrow> limiter \<Rightarrow> string \<Rightarrow> (api_error, unit) req" where
  "limiter_check E l key w = (let t = w_mono w 0;
       w' = log_check l (key, t) (w\<lparr>w_mono := shift 1 (w_mono w)\<rparr>)
     in case x_gov_check E (limiter_quota l) (limiter_log l w) key t of
         None \<Rightarrow> Some (Inr (), w')
       | Some wait \<Rightarrow> Some (Inl (RateLimited wait), w'))"

section \<open>Addresses\<close>

fun to_ipv4_mapped :: "ip_addr \<Rightarrow> ip_addr option" where
  "to_ipv4_mapped (V4 _ _ _ _) = None"
| "to_ipv4_mapped (V6 a b c d e f g h) =
     (if a = 0 \<and> b = 0 \<and> c = 0 \<and> d = 0 \<and> e = 0 \<and> f = 0xffff
      then Some (V4 (ucast (drop_bit 8 g)) (ucast g) (ucast (drop_bit 8 h)) (ucast h))
      else None)"

definition show_octet :: "8 word \<Rightarrow> string" where
  "show_octet o1 = digits_of (unat o1)"

text \<open>\<open>{:x}\<close> of a segment.\<close>

definition hex_digit :: "nat \<Rightarrow> char" where
  "hex_digit n = (if n < 10 then char_of (48 + n) else char_of (87 + n))"

fun hex_of :: "nat \<Rightarrow> string" where
  "hex_of n = (if n < 16 then [hex_digit n] else hex_of (n div 16) @ [hex_digit (n mod 16)])"

declare hex_of.simps [simp del]

text \<open>\<open>Display\<close> of an IPv6 address: the first longest run of at least two zero segments is written
  \<open>::\<close>. \<open>zero_run xs\<close> is the length of the run of zeros \<open>xs\<close> starts with.\<close>

fun zero_run :: "16 word list \<Rightarrow> nat" where
  "zero_run [] = 0"
| "zero_run (s # ss) = (if s = 0 then Suc (zero_run ss) else 0)"

fun longest_run :: "nat \<Rightarrow> 16 word list \<Rightarrow> nat \<times> nat \<Rightarrow> nat \<times> nat" where
  "longest_run i [] best = best"
| "longest_run i (s # ss) best =
     longest_run (Suc i) ss (if zero_run (s # ss) > snd best then (i, zero_run (s # ss)) else best)"

fun join_hex :: "16 word list \<Rightarrow> string" where
  "join_hex [] = []"
| "join_hex [s] = hex_of (unat s)"
| "join_hex (s # ss) = hex_of (unat s) @ '':'' @ join_hex ss"

definition show_v6 :: "16 word list \<Rightarrow> string" where
  "show_v6 ss = (case longest_run 0 ss (0, 0) of (start, len) \<Rightarrow>
     if len > 1 then join_hex (take start ss) @ ''::'' @ join_hex (drop (start + len) ss)
     else join_hex ss)"

fun show_ip :: "ip_addr \<Rightarrow> string" where
  "show_ip (V4 a b c d) =
     show_octet a @ ''.'' @ show_octet b @ ''.'' @ show_octet c @ ''.'' @ show_octet d"
| "show_ip (V6 a b c d e f g h) = (case to_ipv4_mapped (V6 a b c d e f g h) of
      Some v4 \<Rightarrow> ''::ffff:'' @ show_octet (ucast (drop_bit 8 g)) @ ''.'' @ show_octet (ucast g)
        @ ''.'' @ show_octet (ucast (drop_bit 8 h)) @ ''.'' @ show_octet (ucast h)
    | None \<Rightarrow> show_v6 [a, b, c, d, e, f, g, h])"

text \<open>\<open>ClientIp::key\<close>.\<close>

fun client_ip_key :: "ip_addr \<Rightarrow> string" where
  "client_ip_key (V4 a b c d) = show_ip (V4 a b c d)"
| "client_ip_key (V6 a b c d e f g h) = (case to_ipv4_mapped (V6 a b c d e f g h) of
      Some v4 \<Rightarrow> show_ip v4
    | None \<Rightarrow> show_ip (V6 a b c d 0 0 0 0) @ ''/64'')"

text \<open>\<open>resolve\<close>: the loop over the hops, closest first, stops after the first address not trusted.\<close>

fun walk_hops :: "ext \<Rightarrow> ip_addr list \<Rightarrow> ip_addr \<Rightarrow> string list \<Rightarrow> ip_addr" where
  "walk_hops E trusted client [] = client"
| "walk_hops E trusted client (hop # hops) = (case x_ip_parse E hop of
      None \<Rightarrow> client
    | Some ip \<Rightarrow> if ip \<notin> set trusted then ip else walk_hops E trusted ip hops)"

definition resolve :: "ext \<Rightarrow> ip_addr \<Rightarrow> string \<Rightarrow> ip_addr list \<Rightarrow> ip_addr" where
  "resolve E peer forwarded_for trusted =
     (if peer \<notin> set trusted then peer
      else walk_hops E trusted peer (rev (map str_trim (split_on (CHR '','') forwarded_for))))"

text \<open>\<open>parse_trusted_proxies\<close>: stops at the first entry that is not an address.\<close>

fun parse_proxies :: "ext \<Rightarrow> string list \<Rightarrow> string + ip_addr list" where
  "parse_proxies E [] = Inr []"
| "parse_proxies E (ip # ips) = (case x_ip_parse E ip of
      None \<Rightarrow> Inl (''BAUTH_TRUSTED_PROXIES: `'' @ ip @ ''` is not an IP address'')
    | Some a \<Rightarrow> (case parse_proxies E ips of Inl e \<Rightarrow> Inl e | Inr xs \<Rightarrow> Inr (a # xs)))"

definition parse_trusted_proxies :: "ext \<Rightarrow> string \<Rightarrow> string + ip_addr list" where
  "parse_trusted_proxies E v =
     parse_proxies E (filter (\<lambda>ip. ip \<noteq> []) (map str_trim (split_on (CHR '','') v)))"

section \<open>Lemmas\<close>

lemma wp_limiter_check [wp]: "wp (limiter_check E l key) P Q w =
  (let w' = log_check l (key, w_mono w 0) (w\<lparr>w_mono := shift 1 (w_mono w)\<rparr>) in
   case x_gov_check E (limiter_quota l) (limiter_log l w) key (w_mono w 0) of
     None \<Rightarrow> P () w' | Some wait \<Rightarrow> Q (RateLimited wait) w')"
  by (simp add: wp_def limiter_check_def Let_def split: option.split)

lemma log_check_simps [simp]:
  "w_db (log_check l c w) = w_db w" "w_tx (log_check l c w) = w_tx w"
  "w_outbox (log_check l c w) = w_outbox w" "w_keys (log_check l c w) = w_keys w"
  "w_utc (log_check l c w) = w_utc w" "w_rng (log_check l c w) = w_rng w"
  "w_ids (log_check l c w) = w_ids w" "w_faults (log_check l c w) = w_faults w"
  "w_db_clock (log_check l c w) = w_db_clock w" "w_mono (log_check l c w) = w_mono w"
  by (cases l, simp_all)+

lemma stmt_now_log_check [simp]: "stmt_now (log_check l c w) = stmt_now w"
  by (simp add: stmt_now_def split: option.split)

end
