(* ===== verification/Token.thy ===== *)
theory Token
  imports World
begin

text \<open>
  \<open>token.rs\<close> and \<open>pkce.rs\<close>: opaque secrets stored only as their SHA-256, and the PKCE checks.
\<close>

section \<open>\<open>token.rs\<close>\<close>

record secret_token =
  tok_plain :: string
  tok_hash :: bytes

definition token_hash :: "ext \<Rightarrow> string \<Rightarrow> bytes" where
  "token_hash E plain = x_sha256 E plain"

definition token_of_bytes :: "ext \<Rightarrow> bytes \<Rightarrow> secret_token" where
  "token_of_bytes E bs = (let plain = x_b64url E bs in
     \<lparr>tok_plain = plain, tok_hash = token_hash E plain\<rparr>)"

definition token_generate :: "ext \<Rightarrow> ('e, secret_token) req" where
  "token_generate E = and_then (random_bytes 32) (\<lambda>bs. ok (token_of_bytes E bs))"

section \<open>\<open>pkce.rs\<close>\<close>

definition is_base64url :: "string \<Rightarrow> bool" where
  "is_base64url s \<longleftrightarrow> list_all (\<lambda>b. is_ascii_alphanumeric b \<or> b = CHR ''-'' \<or> b = CHR ''_'') s"

definition is_valid_challenge :: "string \<Rightarrow> bool" where
  "is_valid_challenge c \<longleftrightarrow> length c = 43 \<and> is_base64url c"

definition is_valid_verifier :: "string \<Rightarrow> bool" where
  "is_valid_verifier v \<longleftrightarrow> 43 \<le> length v \<and> length v \<le> 128 \<and>
     list_all (\<lambda>b. is_ascii_alphanumeric b \<or> b \<in> {CHR ''-'', CHR ''.'', CHR ''_'', CHR ''~''}) v"

definition pkce_verify :: "ext \<Rightarrow> string \<Rightarrow> string \<Rightarrow> bool" where
  "pkce_verify E verifier challenge \<longleftrightarrow>
     is_valid_verifier verifier \<and> x_b64url E (x_sha256 E verifier) = challenge"

section \<open>Lemmas\<close>

lemma wp_token_generate [wp]: "wp (token_generate E) P Q w =
  P (token_of_bytes E (map (w_rng w) [0..<32])) (w\<lparr>w_rng := shift 32 (w_rng w)\<rparr>)"
  by (simp add: token_generate_def wp)

lemma tok_hash_plain [simp]: "tok_hash (token_of_bytes E bs) = token_hash E (tok_plain (token_of_bytes E bs))"
  by (simp add: token_of_bytes_def Let_def)

text \<open>What \<open>base64\<close> and \<open>sha2\<close> document: a SHA-256 digest has 32 bytes, and 32 bytes encode to 43
  URL-safe characters.\<close>

definition s256_shape :: "ext \<Rightarrow> bool" where
  "s256_shape E \<longleftrightarrow> (\<forall>m. length (x_sha256 E m) = 32) \<and>
     (\<forall>b. length b = 32 \<longrightarrow> length (x_b64url E b) = 43 \<and> is_base64url (x_b64url E b))"

lemma base64url_verifier: "length v = 43 \<Longrightarrow> is_base64url v \<Longrightarrow> is_valid_verifier v"
  by (auto simp: is_base64url_def is_valid_verifier_def list_all_iff)

end
