(* ===== verification/MagicCode.thy ===== *)
theory MagicCode
  imports Token
begin

text \<open>
  \<open>master_key.rs\<close> and \<open>magic_code.rs\<close>: the key that encrypts stored secrets and derives one key per
  purpose, and the 6-digit codes bound to what they unlock.

  \<open>random_below\<close> draws again until the value falls in the zone that makes the result uniform. It
  may in principle never return, so it is a partial function into \<open>option\<close>; the lemmas below give
  the exact draw it returns, that one acceptable draw is enough for it to return, and that every
  result below the bound is hit by equally many draws.
\<close>

section \<open>\<open>master_key.rs\<close>\<close>

datatype master_key_error = InvalidKey | DecryptFailed

record master_key =
  mk_cipher :: bytes
  mk_derivation :: bytes

definition master_key_from_base64 :: "ext \<Rightarrow> string \<Rightarrow> master_key_error + master_key" where
  "master_key_from_base64 E encoded = (case x_b64_decode E (str_trim encoded) of
      None \<Rightarrow> Inl InvalidKey
    | Some bs \<Rightarrow> if length bs = 32 then Inr \<lparr>mk_cipher = bs, mk_derivation = bs\<rparr> else Inl InvalidKey)"

definition master_key_derive :: "ext \<Rightarrow> master_key \<Rightarrow> string \<Rightarrow> bytes" where
  "master_key_derive E mk purpose = x_hmac E (mk_derivation mk) (''bauth/'' @ purpose)"

text \<open>\<open>nonce || ciphertext || tag\<close>, under a fresh 24-byte nonce.\<close>

definition seal_with :: "ext \<Rightarrow> master_key \<Rightarrow> bytes \<Rightarrow> bytes \<Rightarrow> bytes \<Rightarrow> bytes" where
  "seal_with E mk nonce plaintext context =
     nonce @ x_aead_encrypt E (mk_cipher mk) nonce context plaintext"

definition master_key_encrypt :: "ext \<Rightarrow> master_key \<Rightarrow> bytes \<Rightarrow> bytes \<Rightarrow> ('e, bytes) req" where
  "master_key_encrypt E mk plaintext context =
     and_then (random_bytes 24) (\<lambda>nonce. ok (seal_with E mk nonce plaintext context))"

definition master_key_decrypt :: "ext \<Rightarrow> master_key \<Rightarrow> bytes \<Rightarrow> bytes \<Rightarrow> master_key_error + bytes" where
  "master_key_decrypt E mk sealed context =
     (if length sealed < 24 then Inl DecryptFailed
      else case x_aead_decrypt E (mk_cipher mk) (take 24 sealed) context (drop 24 sealed) of
          None \<Rightarrow> Inl DecryptFailed
        | Some m \<Rightarrow> Inr m)"

section \<open>\<open>magic_code.rs\<close>\<close>

definition CODE_RANGE :: "32 word" where
  "CODE_RANGE = 1000000"

definition CODE_TTL :: time where
  "CODE_TTL = minutes 15"

definition MAX_FAILURES_PER_CODE :: int where
  "MAX_FAILURES_PER_CODE = 5"

definition MAX_FAILURES_PER_DAY :: int where
  "MAX_FAILURES_PER_DAY = 10"

record magic_code =
  mc_plain :: string
  mc_hash :: bytes

record code_keys =
  magic_link_key :: bytes
  confirmation_key :: bytes

definition code_key_new :: "ext \<Rightarrow> master_key \<Rightarrow> string \<Rightarrow> bytes" where
  "code_key_new E mk purpose = master_key_derive E mk purpose"

definition code_keys_new :: "ext \<Rightarrow> master_key \<Rightarrow> code_keys" where
  "code_keys_new E mk =
     \<lparr>magic_link_key = code_key_new E mk ''magic_code'',
      confirmation_key = code_key_new E mk ''confirmation_code''\<rparr>"

definition code_message :: "ext \<Rightarrow> uuid \<Rightarrow> string \<Rightarrow> bytes" where
  "code_message E owner code = x_uuid_bytes E owner @ code"

text \<open>\<open>u32::from_le_bytes\<close> of the next four random bytes.\<close>

definition draw :: "(nat \<Rightarrow> char) \<Rightarrow> 32 word" where
  "draw rng = of_char (rng 0) + 256 * of_char (rng 1) + 65536 * of_char (rng 2) + 16777216 * of_char (rng 3)"

definition zone :: "32 word \<Rightarrow> 32 word" where
  "zone rg = - 1 - (- 1 - rg + 1) mod rg"

partial_function (option) random_below ::
    "32 word \<Rightarrow> (nat \<Rightarrow> char) \<Rightarrow> (32 word \<times> (nat \<Rightarrow> char)) option" where
  "random_below rg rng =
     (if draw rng \<le> zone rg then Some (draw rng mod rg, shift 4 rng)
      else random_below rg (shift 4 rng))"

declare random_below.simps [code]

definition random_below_req :: "32 word \<Rightarrow> ('e, 32 word) req" where
  "random_below_req rg w = (case random_below rg (w_rng w) of
      None \<Rightarrow> None
    | Some (v, rng) \<Rightarrow> Some (Inr v, w\<lparr>w_rng := rng\<rparr>))"

text \<open>\<open>format!("{:06}", v)\<close>.\<close>

definition pad6 :: "nat \<Rightarrow> string" where
  "pad6 n = (let ds = digits_of n in replicate (6 - length ds) (CHR ''0'') @ ds)"

definition code_of :: "ext \<Rightarrow> bytes \<Rightarrow> uuid \<Rightarrow> 32 word \<Rightarrow> magic_code" where
  "code_of E key owner v = (let plain = pad6 (unat v) in
     \<lparr>mc_plain = plain, mc_hash = x_hmac E key (code_message E owner plain)\<rparr>)"

definition code_generate :: "ext \<Rightarrow> bytes \<Rightarrow> uuid \<Rightarrow> ('e, magic_code) req" where
  "code_generate E key owner =
     and_then (random_below_req CODE_RANGE) (\<lambda>v. ok (code_of E key owner v))"

definition code_verify :: "ext \<Rightarrow> bytes \<Rightarrow> uuid \<Rightarrow> string \<Rightarrow> bytes \<Rightarrow> bool" where
  "code_verify E key owner code hash \<longleftrightarrow> x_hmac_verify E key (code_message E owner code) hash"

definition is_well_formed :: "string \<Rightarrow> bool" where
  "is_well_formed code \<longleftrightarrow> length code = 6 \<and> list_all is_ascii_digit code"

definition check_format :: "string \<Rightarrow> api_error + unit" where
  "check_format code = (if is_well_formed code then Inr ()
     else Inl (InvalidRequest ''code must be 6 digits''))"

section \<open>Lemmas\<close>

lemma decrypt_seal:
  assumes "aead_opens E" "length nonce = 24"
  shows "master_key_decrypt E mk (seal_with E mk nonce m ctx) ctx = Inr m"
  using assms by (simp add: master_key_decrypt_def seal_with_def aead_opens_def)

lemma wp_master_key_encrypt [wp]: "wp (master_key_encrypt E mk m ctx) P Q w =
  P (seal_with E mk (map (w_rng w) [0..<24]) m ctx) (w\<lparr>w_rng := shift 24 (w_rng w)\<rparr>)"
  by (simp add: master_key_encrypt_def wp)

subsection \<open>The zone\<close>

lemma unat_zone:
  fixes rg :: "32 word"
  assumes "0 < rg"
  shows "unat (zone rg) + 1 = 2 ^ 32 - 2 ^ 32 mod unat rg"
proof -
  let ?r = "unat rg"
  have r: "0 < ?r" "?r < 2 ^ 32"
    using assms unsigned_less [of rg, where ?'a = nat] by (simp_all add: word_less_nat_alt)
  have "(- 1 - rg + 1 :: 32 word) = 0 - rg" by simp
  also have "unat (0 - rg) = 2 ^ 32 - ?r"
    using r by (subst unat_sub_if') simp
  finally have "unat ((- 1 - rg + 1) mod rg) = (2 ^ 32 - ?r) mod ?r"
    by (simp only: unat_mod)
  also have "\<dots> = 2 ^ 32 mod ?r"
    using r le_mod_geq [of ?r "2 ^ 32"] by simp
  finally have m: "unat ((- 1 - rg + 1) mod rg) = 2 ^ 32 mod ?r" .
  have "2 ^ 32 mod ?r < ?r" using r by simp
  with r have lt: "2 ^ 32 mod ?r < (2 ^ 32 :: nat)" by linarith
  have "unat (zone rg) = unat (- 1 :: 32 word) - unat ((- 1 - rg + 1) mod rg)"
    unfolding zone_def by (rule unat_sub) simp
  also have "\<dots> = (2 ^ 32 - 1) - 2 ^ 32 mod ?r"
    by (simp only: m unsigned_minus_1_eq_mask) (simp add: mask_eq_exp_minus_1)
  finally show ?thesis using lt by simp
qed

lemma zone_dvd:
  assumes "0 < rg"
  shows "unat rg dvd unat (zone rg) + 1"
  unfolding unat_zone [OF assms] by simp

lemma card_residue:
  fixes r R K :: nat
  assumes "r < R"
  shows "card {n. n < K * R \<and> n mod R = r} = K"
proof -
  have "{n. n < K * R \<and> n mod R = r} = (\<lambda>k. k * R + r) ` {..<K}"
  proof (intro equalityI subsetI)
    fix n assume n: "n \<in> {n. n < K * R \<and> n mod R = r}"
    then have "n = n div R * R + r" by auto
    moreover from n have "n div R < K" by (simp add: less_mult_imp_div_less)
    ultimately show "n \<in> (\<lambda>k. k * R + r) ` {..<K}" by blast
  next
    fix n assume "n \<in> (\<lambda>k. k * R + r) ` {..<K}"
    then obtain k where k: "k < K" "n = k * R + r" by auto
    then have "k * R + R \<le> K * R" by (metis Suc_leI add.commute mult_Suc mult_le_mono1)
    with k assms show "n \<in> {n. n < K * R \<and> n mod R = r}" by simp
  qed
  moreover have "inj_on (\<lambda>k. k * R + r) {..<K}"
    using assms by (auto simp: inj_on_def)
  ultimately show ?thesis by (simp add: card_image)
qed

text \<open>Every result below the bound comes from the same number of accepted draws.\<close>

lemma zone_uniform:
  fixes rg v :: "32 word"
  assumes "v < rg"
  shows "card {d. d \<le> zone rg \<and> d mod rg = v} = (unat (zone rg) + 1) div unat rg"
proof -
  have "0 < rg" using assms by (metis word_gt_0 word_zero_le leD)
  define K where "K = (unat (zone rg) + 1) div unat rg"
  have total: "unat (zone rg) + 1 = K * unat rg"
    using zone_dvd [OF \<open>0 < rg\<close>] by (simp add: K_def)
  have "inj_on (unat :: 32 word \<Rightarrow> nat) A" for A
    by (simp add: inj_on_def word_unat_eq_iff)
  then have "card {d. d \<le> zone rg \<and> d mod rg = v} = card (unat ` {d. d \<le> zone rg \<and> d mod rg = v})"
    by (simp add: card_image)
  also have "unat ` {d. d \<le> zone rg \<and> d mod rg = v} = {n. n < K * unat rg \<and> n mod unat rg = unat v}"
    (is "?L = ?R")
  proof (intro equalityI subsetI)
    fix n assume "n \<in> ?L"
    then show "n \<in> ?R"
      by (auto simp: word_le_nat_alt unat_mod [symmetric] simp flip: total)
  next
    fix n assume n: "n \<in> ?R"
    then have "n \<le> unat (zone rg)" using total by simp
    moreover have "unat (zone rg) < 2 ^ 32"
      using unsigned_less [of "zone rg", where ?'a = nat] by simp
    ultimately have u: "unat (of_nat n :: 32 word) = n"
      by (simp add: unat_of_nat)
    have "(of_nat n :: 32 word) \<le> zone rg"
      using \<open>n \<le> unat (zone rg)\<close> by (simp only: word_le_nat_alt u)
    moreover have "(of_nat n :: 32 word) mod rg = v"
      using n by (simp only: word_unat_eq_iff unat_mod u mem_Collect_eq)
    ultimately have "unat (of_nat n :: 32 word) \<in> ?L" by blast
    then show "n \<in> ?L" by (simp only: u)
  qed
  also have "card \<dots> = K"
    using assms by (intro card_residue) (simp add: word_less_nat_alt)
  finally show ?thesis by (simp add: K_def)
qed

subsection \<open>The loop\<close>

text \<open>The loop returns the first accepted draw, reduced, and has read everything up to it.\<close>

lemma random_below_first:
  assumes "draw (shift (4 * n) rng) \<le> zone rg"
    and "\<And>i. i < n \<Longrightarrow> \<not> draw (shift (4 * i) rng) \<le> zone rg"
  shows "random_below rg rng = Some (draw (shift (4 * n) rng) mod rg, shift (4 * n + 4) rng)"
  using assms
proof (induction n arbitrary: rng)
  case 0
  then show ?case by (subst random_below.simps) (simp add: shift_def)
next
  case (Suc n)
  have "\<not> draw rng \<le> zone rg" using Suc.prems(2) [of 0] by (simp add: shift_def)
  moreover have "random_below rg (shift 4 rng) =
      Some (draw (shift (4 * n) (shift 4 rng)) mod rg, shift (4 * n + 4) (shift 4 rng))"
  proof (rule Suc.IH)
    show "draw (shift (4 * n) (shift 4 rng)) \<le> zone rg"
      using Suc.prems(1) by (simp only: shift_shift mult_Suc_right)
    show "\<not> draw (shift (4 * i) (shift 4 rng)) \<le> zone rg" if "i < n" for i
    proof -
      from that have "\<not> draw (shift (4 * Suc i) rng) \<le> zone rg" by (intro Suc.prems(2)) simp
      then show ?thesis by (simp only: shift_shift mult_Suc_right simp_thms)
    qed
  qed
  ultimately show ?case
    by (subst random_below.simps) (simp add: add.assoc)
qed

lemma random_below_returns:
  assumes "draw (shift (4 * n) rng) \<le> zone rg"
  shows "\<exists>v rng'. random_below rg rng = Some (v, rng')"
proof -
  let ?ok = "\<lambda>n. draw (shift (4 * n) rng) \<le> zone rg"
  have "?ok (Least ?ok)" using assms by (rule LeastI)
  moreover have "\<And>i. i < Least ?ok \<Longrightarrow> \<not> ?ok i" by (rule not_less_Least)
  ultimately show ?thesis using random_below_first by blast
qed

lemma random_below_less:
  assumes "random_below rg rng = Some (v, rng')" "0 < rg"
  shows "v < rg"
proof -
  have "0 < rg \<longrightarrow> fst (v, rng') < rg"
  proof (rule random_below.raw_induct [where P = "\<lambda>rg _ r. 0 < rg \<longrightarrow> fst r < rg", OF _ assms(1)])
    fix f :: "32 word \<Rightarrow> (nat \<Rightarrow> char) \<Rightarrow> (32 word \<times> (nat \<Rightarrow> char)) option" and rg rng r
    assume "\<And>rg rng r. f rg rng = Some r \<Longrightarrow> 0 < rg \<longrightarrow> fst r < rg"
      and "(if draw rng \<le> zone rg then Some (draw rng mod rg, shift 4 rng)
            else f rg (shift 4 rng)) = Some r"
    then show "0 < rg \<longrightarrow> fst r < rg"
      by (auto simp: word_less_nat_alt unat_mod split: if_splits)
  qed
  with assms(2) show ?thesis by simp
qed

subsection \<open>Codes\<close>

lemma digits_of_digits: "list_all is_ascii_digit (digits_of n)"
proof (induction n rule: digits_of.induct)
  case (1 n)
  have "n mod 10 < 10" by simp
  then have "is_ascii_digit (char_of (48 + n mod 10))" by (simp add: is_ascii_digit_def)
  moreover have "n < 10 \<Longrightarrow> is_ascii_digit (char_of (48 + n))" by (simp add: is_ascii_digit_def)
  ultimately show ?case
    using "1" by (subst digits_of.simps) simp
qed

lemma length_digits_of: "n < 10 ^ Suc k \<Longrightarrow> length (digits_of n) \<le> Suc k"
proof (induction k arbitrary: n)
  case 0
  then show ?case by (subst digits_of.simps) simp
next
  case (Suc k)
  then have "n div 10 < 10 ^ Suc k" by (simp add: less_mult_imp_div_less mult.commute)
  then have "length (digits_of (n div 10)) \<le> Suc k" by (rule Suc.IH)
  then show ?case by (subst digits_of.simps) simp
qed

lemma pad6_well_formed: "n < 1000000 \<Longrightarrow> is_well_formed (pad6 n)"
  using length_digits_of [of n 5] digits_of_digits [of n]
  by (auto simp: is_well_formed_def pad6_def Let_def list_all_iff is_ascii_digit_def)

lemma digits_value_zeros: "digits_value a (replicate k (CHR ''0'') @ s) = digits_value (a * 10 ^ k) s"
  by (induction k arbitrary: a) (simp_all add: mult.assoc)

text \<open>Distinct values give distinct codes.\<close>

lemma digits_value_pad6: "digits_value 0 (pad6 n) = n"
  by (simp add: pad6_def Let_def digits_value_zeros digits_value_digits_of)

lemma wp_random_below_req [wp]: "wp (random_below_req rg) P Q w =
  (case random_below rg (w_rng w) of None \<Rightarrow> True | Some (v, rng) \<Rightarrow> P v (w\<lparr>w_rng := rng\<rparr>))"
  by (simp add: wp_def random_below_req_def split: option.split prod.split)

lemma wp_code_generate [wp]: "wp (code_generate E key owner) P Q w =
  (case random_below CODE_RANGE (w_rng w) of None \<Rightarrow> True
   | Some (v, rng) \<Rightarrow> P (code_of E key owner v) (w\<lparr>w_rng := rng\<rparr>))"
  by (simp add: code_generate_def wp split: option.split prod.split)

end
