(* ===== verification/Queries.thy ===== *)
theory Queries
  imports Email
begin

text \<open>
  The SQL statements of \<open>bauth_server/src/queries\<close>, one definition per function, named after its
  module. A statement reads \<open>now()\<close>, the value a \<open>DEFAULT uuidv7()\<close> id would get and the database;
  an \<open>INSERT\<close> or \<open>UPDATE\<close> that breaks a constraint of the schema answers the violation and changes
  nothing. \<open>find_code_candidate\<close> issues several statements and is a computation.

  What a statement locks is said in theory \<open>Interleave\<close>, where requests run concurrently.
\<close>

section \<open>\<open>queries/users.rs\<close>\<close>

definition users_create :: "ext \<Rightarrow> string \<Rightarrow> user option stmt" where
  "users_create E email now new_id d = (let e = sql_normalize E email in
     if e \<in> u_email ` set (users d) then Inr (None, d)
     else if new_id \<in> u_id ` set (users d) then Inl UniqueViolation
     else let u = \<lparr>u_id = new_id, u_email = e, u_email_verified_at = None, u_disabled_at = None,
                   u_created_at = now, u_updated_at = now\<rparr>
       in Inr (Some u, d\<lparr>users := users d @ [u]\<rparr>))"

definition users_find_by_email :: "ext \<Rightarrow> string \<Rightarrow> user option stmt" where
  "users_find_by_email E email now new_id d =
     Inr (List.find (\<lambda>u. u_email u = sql_normalize E email) (users d), d)"

definition users_find_by_id :: "uuid \<Rightarrow> user option stmt" where
  "users_find_by_id i now new_id d = Inr (List.find (\<lambda>u. u_id u = i) (users d), d)"

definition users_mark_email_verified :: "uuid \<Rightarrow> string \<Rightarrow> unit stmt" where
  "users_mark_email_verified i email now new_id d =
     Inr ((), d\<lparr>users := upd_where (\<lambda>u. u_id u = i \<and> u_email u = email)
       (\<lambda>u. u\<lparr>u_email_verified_at :=
                (case u_email_verified_at u of None \<Rightarrow> Some now | Some t \<Rightarrow> Some t),
              u_updated_at := now\<rparr>) (users d)\<rparr>)"

definition users_change_email :: "uuid \<Rightarrow> string \<Rightarrow> string \<Rightarrow> bool stmt" where
  "users_change_email i from_email to_email now new_id d =
     (let p = (\<lambda>u. u_id u = i \<and> u_email u = from_email) in
      if list_ex p (users d) \<and> list_ex (\<lambda>u. \<not> p u \<and> u_email u = to_email) (users d)
      then Inl UniqueViolation
      else Inr (count_where p (users d) = 1,
        d\<lparr>users := upd_where p
            (\<lambda>u. u\<lparr>u_email := to_email, u_email_verified_at := Some now, u_updated_at := now\<rparr>)
            (users d)\<rparr>))"

definition users_delete :: "uuid \<Rightarrow> unit stmt" where
  "users_delete i now new_id d = Inr ((), delete_users (\<lambda>u. u_id u = i) d)"

section \<open>\<open>queries/login_flows.rs\<close>\<close>

definition login_flows_create ::
    "string \<Rightarrow> string \<Rightarrow> string \<Rightarrow> string option \<Rightarrow> time \<Rightarrow> uuid stmt" where
  "login_flows_create client_id redirect_uri code_challenge st expires_at now new_id d =
     (if new_id \<in> f_id ` set (login_flows d) then Inl UniqueViolation
      else Inr (new_id, d\<lparr>login_flows := login_flows d @
        [\<lparr>f_id = new_id, f_client_id = client_id, f_redirect_uri = redirect_uri,
          f_code_challenge = code_challenge, f_state = st, f_magic_link_requests = 0,
          f_expires_at = expires_at, f_completed_at = None, f_created_at = now\<rparr>]\<rparr>))"

definition flow_pending :: "time \<Rightarrow> login_flow \<Rightarrow> bool" where
  "flow_pending now f \<longleftrightarrow> f_completed_at f = None \<and> f_expires_at f > now"

definition login_flows_complete :: "uuid \<Rightarrow> bool stmt" where
  "login_flows_complete i now new_id d =
     (let p = (\<lambda>f. f_id f = i \<and> flow_pending now f) in
      Inr (count_where p (login_flows d) = 1,
        d\<lparr>login_flows := upd_where p (\<lambda>f. f\<lparr>f_completed_at := Some now\<rparr>) (login_flows d)\<rparr>))"

record pending_magic_link_flow =
  pf_client_id :: string
  pf_requests :: int
  pf_expires_at :: time

definition login_flows_find_pending_magic_link_flow :: "uuid \<Rightarrow> pending_magic_link_flow option stmt" where
  "login_flows_find_pending_magic_link_flow i now new_id d =
     Inr (map_option
       (\<lambda>f. \<lparr>pf_client_id = f_client_id f, pf_requests = f_magic_link_requests f,
             pf_expires_at = f_expires_at f\<rparr>)
       (List.find (\<lambda>f. f_id f = i \<and> flow_pending now f) (login_flows d)), d)"

definition login_flows_count_magic_link_request :: "uuid \<Rightarrow> int \<Rightarrow> time \<Rightarrow> time option stmt" where
  "login_flows_count_magic_link_request i mx link_expires_at now new_id d =
     (case upd_returning
        (\<lambda>f. f_id f = i \<and> flow_pending now f \<and> f_magic_link_requests f < mx)
        (\<lambda>f. f\<lparr>f_magic_link_requests := f_magic_link_requests f + 1,
              f_expires_at := max (f_expires_at f) link_expires_at\<rparr>)
        (login_flows d) of
      (r, fs) \<Rightarrow> Inr (map_option f_expires_at r, d\<lparr>login_flows := fs\<rparr>))"

section \<open>\<open>queries/authorization_codes.rs\<close>\<close>

definition authorization_codes_create :: "bytes \<Rightarrow> uuid \<Rightarrow> uuid \<Rightarrow> time \<Rightarrow> unit stmt" where
  "authorization_codes_create code_hash flow_id user_id expires_at now new_id d =
     (if new_id \<in> c_id ` set (authorization_codes d)
         \<or> code_hash \<in> c_code_hash ` set (authorization_codes d)
         \<or> flow_id \<in> c_flow_id ` set (authorization_codes d) then Inl UniqueViolation
      else if flow_id \<notin> f_id ` set (login_flows d) \<or> user_id \<notin> u_id ` set (users d)
      then Inl ForeignKeyViolation
      else Inr ((), d\<lparr>authorization_codes := authorization_codes d @
        [\<lparr>c_id = new_id, c_code_hash = code_hash, c_flow_id = flow_id, c_user_id = user_id,
          c_expires_at = expires_at, c_consumed_at = None, c_created_at = now\<rparr>]\<rparr>))"

record consumed_code =
  cc_id :: uuid
  cc_user_id :: uuid
  cc_client_id :: string
  cc_redirect_uri :: string
  cc_code_challenge :: string

definition flow_of :: "db \<Rightarrow> uuid \<Rightarrow> login_flow option" where
  "flow_of d i = List.find (\<lambda>f. f_id f = i) (login_flows d)"

text \<open>\<open>UPDATE \<dots> FROM login_flows\<close>: a code whose flow is missing does not match.\<close>

definition authorization_codes_consume :: "bytes \<Rightarrow> consumed_code option stmt" where
  "authorization_codes_consume code_hash now new_id d =
     (let p = (\<lambda>c. flow_of d (c_flow_id c) \<noteq> None \<and> c_code_hash c = code_hash \<and>
                   c_consumed_at c = None \<and> c_expires_at c > now)
      in case upd_returning p (\<lambda>c. c\<lparr>c_consumed_at := Some now\<rparr>) (authorization_codes d) of
        (r, cs) \<Rightarrow> Inr (case r of None \<Rightarrow> None
            | Some c \<Rightarrow> map_option (\<lambda>f. \<lparr>cc_id = c_id c, cc_user_id = c_user_id c,
                  cc_client_id = f_client_id f, cc_redirect_uri = f_redirect_uri f,
                  cc_code_challenge = f_code_challenge f\<rparr>) (flow_of d (c_flow_id c)),
          d\<lparr>authorization_codes := cs\<rparr>))"

definition authorization_codes_find_consumed :: "bytes \<Rightarrow> uuid option stmt" where
  "authorization_codes_find_consumed code_hash now new_id d =
     Inr (map_option c_id (List.find (\<lambda>c. c_code_hash c = code_hash \<and> c_consumed_at c \<noteq> None)
       (authorization_codes d)), d)"

section \<open>\<open>queries/sessions.rs\<close>\<close>

definition sessions_create :: "uuid \<Rightarrow> string \<Rightarrow> uuid \<Rightarrow> time \<Rightarrow> uuid stmt" where
  "sessions_create user_id client_id authorization_code_id expires_at now new_id d =
     (if new_id \<in> s_id ` set (sessions d)
         \<or> Some authorization_code_id \<in> s_authorization_code_id ` set (sessions d)
      then Inl UniqueViolation
      else if user_id \<notin> u_id ` set (users d)
         \<or> authorization_code_id \<notin> c_id ` set (authorization_codes d)
      then Inl ForeignKeyViolation
      else Inr (new_id, d\<lparr>sessions := sessions d @
        [\<lparr>s_id = new_id, s_user_id = user_id, s_client_id = client_id,
          s_authorization_code_id = Some authorization_code_id, s_expires_at = expires_at,
          s_revoked_at = None, s_created_at = now\<rparr>]\<rparr>))"

definition revoke_where :: "(session \<Rightarrow> bool) \<Rightarrow> time \<Rightarrow> db \<Rightarrow> db" where
  "revoke_where p now d =
     d\<lparr>sessions := upd_where (\<lambda>s. p s \<and> s_revoked_at s = None)
        (\<lambda>s. s\<lparr>s_revoked_at := Some now\<rparr>) (sessions d)\<rparr>"

definition sessions_revoke_by_authorization_code :: "uuid \<Rightarrow> bool stmt" where
  "sessions_revoke_by_authorization_code code_id now new_id d =
     (let p = (\<lambda>s. s_authorization_code_id s = Some code_id) in
      Inr (count_where (\<lambda>s. p s \<and> s_revoked_at s = None) (sessions d) = 1, revoke_where p now d))"

definition sessions_revoke :: "uuid \<Rightarrow> unit stmt" where
  "sessions_revoke i now new_id d = Inr ((), revoke_where (\<lambda>s. s_id s = i) now d)"

definition sessions_revoke_by_refresh_token :: "bytes \<Rightarrow> string \<Rightarrow> uuid option stmt" where
  "sessions_revoke_by_refresh_token token_hash client_id now new_id d =
     (let p = (\<lambda>s. list_ex (\<lambda>r. r_session_id r = s_id s \<and> r_token_hash r = token_hash) (refresh_tokens d)
                   \<and> s_client_id s = client_id)
      in Inr (map_option s_id (List.find (\<lambda>s. p s \<and> s_revoked_at s = None) (sessions d)),
              revoke_where p now d))"

record authenticated_session =
  as_user_id :: uuid
  as_email :: string

definition sessions_find_authenticated :: "uuid \<Rightarrow> authenticated_session option stmt" where
  "sessions_find_authenticated i now new_id d =
     Inr (case List.find (\<lambda>s. s_id s = i \<and> s_revoked_at s = None \<and> s_expires_at s > now) (sessions d) of
         None \<Rightarrow> None
       | Some s \<Rightarrow> map_option (\<lambda>u. \<lparr>as_user_id = s_user_id s, as_email = u_email u\<rparr>)
           (List.find (\<lambda>u. u_id u = s_user_id s \<and> u_disabled_at u = None) (users d)), d)"

record active_session =
  av_id :: uuid
  av_client_id :: string
  av_created_at :: time
  av_last_used_at :: time
  av_expires_at :: time

definition last_used_at :: "db \<Rightarrow> session \<Rightarrow> time" where
  "last_used_at d s = (case map r_created_at (filter (\<lambda>r. r_session_id r = s_id s) (refresh_tokens d)) of
      [] \<Rightarrow> s_created_at s
    | t # ts \<Rightarrow> foldl max t ts)"

definition sessions_list_active_for_user :: "uuid \<Rightarrow> active_session list stmt" where
  "sessions_list_active_for_user user_id now new_id d =
     Inr (rev (sort_key av_last_used_at (map
         (\<lambda>s. \<lparr>av_id = s_id s, av_client_id = s_client_id s, av_created_at = s_created_at s,
               av_last_used_at = last_used_at d s, av_expires_at = s_expires_at s\<rparr>)
         (filter (\<lambda>s. s_user_id s = user_id \<and> s_revoked_at s = None \<and> s_expires_at s > now)
            (sessions d)))), d)"

definition sessions_revoke_for_user :: "uuid \<Rightarrow> uuid \<Rightarrow> bool stmt" where
  "sessions_revoke_for_user i user_id now new_id d =
     (let p = (\<lambda>s. s_id s = i \<and> s_user_id s = user_id) in
      Inr (count_where (\<lambda>s. p s \<and> s_revoked_at s = None) (sessions d) = 1, revoke_where p now d))"

section \<open>\<open>queries/refresh_tokens.rs\<close>\<close>

definition refresh_tokens_create :: "uuid \<Rightarrow> bytes \<Rightarrow> uuid option \<Rightarrow> unit stmt" where
  "refresh_tokens_create session_id token_hash parent_id now new_id d =
     (if new_id \<in> r_id ` set (refresh_tokens d) \<or> token_hash \<in> r_token_hash ` set (refresh_tokens d)
      then Inl UniqueViolation
      else if session_id \<notin> s_id ` set (sessions d)
         \<or> (case parent_id of None \<Rightarrow> False | Some q \<Rightarrow> q \<notin> r_id ` set (refresh_tokens d))
      then Inl ForeignKeyViolation
      else Inr ((), d\<lparr>refresh_tokens := refresh_tokens d @
        [\<lparr>r_id = new_id, r_session_id = session_id, r_parent_id = parent_id, r_token_hash = token_hash,
          r_rotated_at = None, r_superseded_at = None, r_created_at = now\<rparr>]\<rparr>))"

record refresh_token_with_session =
  rs_id :: uuid
  rs_rotated_at :: "time option"
  rs_superseded_at :: "time option"
  rs_session_id :: uuid
  rs_user_id :: uuid
  rs_client_id :: string
  rs_session_expires_at :: time
  rs_session_revoked_at :: "time option"

definition session_of :: "db \<Rightarrow> uuid \<Rightarrow> session option" where
  "session_of d i = List.find (\<lambda>s. s_id s = i) (sessions d)"

definition with_session :: "refresh_token_row \<Rightarrow> session \<Rightarrow> refresh_token_with_session" where
  "with_session r s = \<lparr>rs_id = r_id r, rs_rotated_at = r_rotated_at r,
     rs_superseded_at = r_superseded_at r, rs_session_id = s_id s, rs_user_id = s_user_id s,
     rs_client_id = s_client_id s, rs_session_expires_at = s_expires_at s,
     rs_session_revoked_at = s_revoked_at s\<rparr>"

definition refresh_tokens_find_for_update :: "bytes \<Rightarrow> refresh_token_with_session option stmt" where
  "refresh_tokens_find_for_update token_hash now new_id d =
     Inr (case List.find (\<lambda>r. r_token_hash r = token_hash) (refresh_tokens d) of
         None \<Rightarrow> None
       | Some r \<Rightarrow> map_option (with_session r) (session_of d (r_session_id r)), d)"

definition refresh_tokens_mark_rotated :: "uuid \<Rightarrow> unit stmt" where
  "refresh_tokens_mark_rotated i now new_id d =
     Inr ((), d\<lparr>refresh_tokens := upd_where (\<lambda>r. r_id r = i \<and> r_rotated_at r = None)
       (\<lambda>r. r\<lparr>r_rotated_at := Some now\<rparr>) (refresh_tokens d)\<rparr>)"

definition refresh_tokens_has_used_successor :: "uuid \<Rightarrow> bool stmt" where
  "refresh_tokens_has_used_successor i now new_id d =
     Inr (list_ex (\<lambda>r. r_parent_id r = Some i \<and> r_rotated_at r \<noteq> None) (refresh_tokens d), d)"

definition refresh_tokens_supersede_unused_successors :: "uuid \<Rightarrow> unit stmt" where
  "refresh_tokens_supersede_unused_successors i now new_id d =
     Inr ((), d\<lparr>refresh_tokens := upd_where
       (\<lambda>r. r_parent_id r = Some i \<and> r_rotated_at r = None \<and> r_superseded_at r = None)
       (\<lambda>r. r\<lparr>r_superseded_at := Some now\<rparr>) (refresh_tokens d)\<rparr>)"

section \<open>\<open>queries/signing_keys.rs\<close>\<close>

definition signing_keys_insert :: "uuid \<Rightarrow> bytes \<Rightarrow> bytes \<Rightarrow> time \<Rightarrow> unit stmt" where
  "signing_keys_insert i public_key encrypted_private_key active_at now new_id d =
     (if length public_key \<noteq> 32 then Inl CheckViolation
      else if i \<in> k_id ` set (signing_keys d) then Inl UniqueViolation
      else Inr ((), d\<lparr>signing_keys := signing_keys d @
        [\<lparr>k_id = i, k_public_key = public_key, k_encrypted_private_key = encrypted_private_key,
          k_active_at = active_at, k_retired_at = None, k_created_at = now\<rparr>]\<rparr>))"

definition signing_keys_list_published :: "time \<Rightarrow> time \<Rightarrow> signing_key_row list stmt" where
  "signing_keys_list_published at grace now new_id d =
     (let retired_after = at - grace in
      Inr (rev (sort_key k_active_at (filter
        (\<lambda>k. case k_retired_at k of None \<Rightarrow> True | Some t \<Rightarrow> t > retired_after) (signing_keys d))), d))"

definition signing_keys_retire_all_except :: "uuid \<Rightarrow> time \<Rightarrow> unit stmt" where
  "signing_keys_retire_all_except keep retired_at now new_id d =
     Inr ((), d\<lparr>signing_keys := upd_where
       (\<lambda>k. k_id k \<noteq> keep \<and> (case k_retired_at k of None \<Rightarrow> True | Some t \<Rightarrow> t > retired_at))
       (\<lambda>k. k\<lparr>k_retired_at := Some retired_at\<rparr>) (signing_keys d)\<rparr>)"

section \<open>\<open>queries/magic_links.rs\<close>\<close>

definition magic_links_create ::
    "ext \<Rightarrow> uuid \<Rightarrow> uuid option \<Rightarrow> string \<Rightarrow> bytes \<Rightarrow> bytes \<Rightarrow> time \<Rightarrow> string stmt" where
  "magic_links_create E flow_id user_id email token_hash code_hash expires_at now new_id d =
     (if new_id \<in> m_id ` set (magic_links d) \<or> token_hash \<in> m_token_hash ` set (magic_links d)
      then Inl UniqueViolation
      else if flow_id \<notin> f_id ` set (login_flows d)
         \<or> (case user_id of None \<Rightarrow> False | Some u \<Rightarrow> u \<notin> u_id ` set (users d))
      then Inl ForeignKeyViolation
      else let e = sql_normalize E email in Inr (e, d\<lparr>magic_links := magic_links d @
        [\<lparr>m_id = new_id, m_flow_id = flow_id, m_user_id = user_id, m_email = e,
          m_token_hash = token_hash, m_code_hash = code_hash, m_code_failures = 0,
          m_expires_at = expires_at, m_consumed_at = None, m_created_at = now\<rparr>]\<rparr>))"

record consumed_magic_link =
  cm_flow_id :: uuid
  cm_user_id :: "uuid option"
  cm_email :: string

definition magic_links_consume :: "bytes \<Rightarrow> consumed_magic_link option stmt" where
  "magic_links_consume token_hash now new_id d =
     (case upd_returning
        (\<lambda>m. m_token_hash m = token_hash \<and> m_consumed_at m = None \<and> m_expires_at m > now)
        (\<lambda>m. m\<lparr>m_consumed_at := Some now\<rparr>) (magic_links d) of
      (r, ms) \<Rightarrow> Inr (map_option
          (\<lambda>m. \<lparr>cm_flow_id = m_flow_id m, cm_user_id = m_user_id m, cm_email = m_email m\<rparr>) r,
        d\<lparr>magic_links := ms\<rparr>))"

text \<open>\<open>ORDER BY created_at DESC, id DESC LIMIT 1\<close>.\<close>

definition newest :: "('r \<Rightarrow> time) \<Rightarrow> ('r \<Rightarrow> uuid) \<Rightarrow> 'r list \<Rightarrow> 'r option" where
  "newest at i rows = foldl
     (\<lambda>best r. case best of None \<Rightarrow> Some r
        | Some b \<Rightarrow> if at b < at r \<or> (at b = at r \<and> i b < i r) then Some r else Some b)
     None rows"

definition newest_link :: "db \<Rightarrow> uuid \<Rightarrow> magic_link_row option" where
  "newest_link d flow_id = newest m_created_at m_id (filter (\<lambda>m. m_flow_id m = flow_id) (magic_links d))"

record link_candidate =
  lc_id :: uuid
  lc_user_id :: "uuid option"
  lc_email :: string
  lc_code_hash :: bytes

definition address_failures :: "string \<Rightarrow> time \<Rightarrow> db \<Rightarrow> int" where
  "address_failures email now d = sum_list (map m_code_failures
     (filter (\<lambda>m. m_email m = email \<and> m_created_at m > now - days 1) (magic_links d)))"

text \<open>The three statements of \<open>find_code_candidate\<close>.\<close>

definition magic_links_newest_email :: "uuid \<Rightarrow> string option stmt" where
  "magic_links_newest_email flow_id now new_id d = Inr (map_option m_email (newest_link d flow_id), d)"

definition lock_stmt :: "unit stmt" where
  "lock_stmt now new_id d = Inr ((), d)"

definition magic_links_candidate :: "uuid \<Rightarrow> string \<Rightarrow> int \<Rightarrow> int \<Rightarrow> link_candidate option stmt" where
  "magic_links_candidate flow_id email max_link_failures max_address_failures now new_id d =
     Inr (case newest_link d flow_id of None \<Rightarrow> None
       | Some m \<Rightarrow> if m_email m = email \<and> m_consumed_at m = None \<and> m_expires_at m > now
             \<and> m_code_failures m < max_link_failures
             \<and> address_failures email now d < max_address_failures
           then Some \<lparr>lc_id = m_id m, lc_user_id = m_user_id m, lc_email = m_email m,
                      lc_code_hash = m_code_hash m\<rparr>
           else None, d)"

definition magic_links_find_code_candidate ::
    "uuid \<Rightarrow> int \<Rightarrow> int \<Rightarrow> (sql_error, link_candidate option) req" where
  "magic_links_find_code_candidate flow_id max_link_failures max_address_failures =
     and_then (exec (magic_links_newest_email flow_id)) (\<lambda>e. case e of
         None \<Rightarrow> ok None
       | Some email \<Rightarrow> and_then (exec lock_stmt) (\<lambda>_.
           exec (magic_links_candidate flow_id email max_link_failures max_address_failures)))"

text \<open>\<open>fetch_one\<close> on no row is \<open>sqlx::Error::RowNotFound\<close>.\<close>

definition magic_links_record_code_failure :: "uuid \<Rightarrow> int \<Rightarrow> int stmt" where
  "magic_links_record_code_failure i max_link_failures now new_id d =
     (case upd_returning (\<lambda>m. m_id m = i)
        (\<lambda>m. m\<lparr>m_code_failures := m_code_failures m + 1,
              m_consumed_at := (if m_code_failures m + 1 \<ge> max_link_failures then Some now else None)\<rparr>)
        (magic_links d) of
      (None, _) \<Rightarrow> Inl RowNotFound
    | (Some m, ms) \<Rightarrow> Inr (m_code_failures m, d\<lparr>magic_links := ms\<rparr>))"

definition magic_links_consume_by_id :: "uuid \<Rightarrow> unit stmt" where
  "magic_links_consume_by_id i now new_id d =
     Inr ((), d\<lparr>magic_links := upd_where (\<lambda>m. m_id m = i)
       (\<lambda>m. m\<lparr>m_consumed_at := Some now\<rparr>) (magic_links d)\<rparr>)"

section \<open>\<open>queries/email_changes.rs\<close>\<close>

definition email_changes_create ::
    "ext \<Rightarrow> uuid \<Rightarrow> string \<Rightarrow> string \<Rightarrow> bytes \<Rightarrow> time \<Rightarrow> unit stmt" where
  "email_changes_create E user_id from_email to_email token_hash expires_at now new_id d =
     (if new_id \<in> e_id ` set (email_changes d) \<or> token_hash \<in> e_token_hash ` set (email_changes d)
      then Inl UniqueViolation
      else if user_id \<notin> u_id ` set (users d) then Inl ForeignKeyViolation
      else Inr ((), d\<lparr>email_changes := email_changes d @
        [\<lparr>e_id = new_id, e_user_id = user_id, e_from_email = from_email,
          e_to_email = sql_normalize E to_email, e_token_hash = token_hash,
          e_expires_at = expires_at, e_consumed_at = None, e_created_at = now\<rparr>]\<rparr>))"

record consumed_email_change =
  ce_user_id :: uuid
  ce_from_email :: string
  ce_to_email :: string

definition email_changes_consume :: "bytes \<Rightarrow> consumed_email_change option stmt" where
  "email_changes_consume token_hash now new_id d =
     (case upd_returning
        (\<lambda>e. e_token_hash e = token_hash \<and> e_consumed_at e = None \<and> e_expires_at e > now)
        (\<lambda>e. e\<lparr>e_consumed_at := Some now\<rparr>) (email_changes d) of
      (r, es) \<Rightarrow> Inr (map_option
          (\<lambda>e. \<lparr>ce_user_id = e_user_id e, ce_from_email = e_from_email e, ce_to_email = e_to_email e\<rparr>) r,
        d\<lparr>email_changes := es\<rparr>))"

section \<open>\<open>queries/confirmations.rs\<close>\<close>

definition confirmations_create ::
    "uuid \<Rightarrow> uuid \<Rightarrow> string \<Rightarrow> string \<Rightarrow> bytes \<Rightarrow> time \<Rightarrow> unit stmt" where
  "confirmations_create user_id session_id action email code_hash expires_at now new_id d =
     (if new_id \<in> n_id ` set (confirmations d) then Inl UniqueViolation
      else if user_id \<notin> u_id ` set (users d) \<or> session_id \<notin> s_id ` set (sessions d)
      then Inl ForeignKeyViolation
      else Inr ((), d\<lparr>confirmations := confirmations d @
        [\<lparr>n_id = new_id, n_user_id = user_id, n_session_id = session_id, n_action = action,
          n_email = email, n_code_hash = code_hash, n_code_failures = 0, n_expires_at = expires_at,
          n_consumed_at = None, n_created_at = now\<rparr>]\<rparr>))"

record confirmation_candidate =
  nc_id :: uuid
  nc_email :: string
  nc_code_hash :: bytes

definition newest_confirmation :: "db \<Rightarrow> uuid \<Rightarrow> string \<Rightarrow> confirmation_row option" where
  "newest_confirmation d session_id action = newest n_created_at n_id
     (filter (\<lambda>n. n_session_id n = session_id \<and> n_action n = action) (confirmations d))"

definition user_failures :: "uuid \<Rightarrow> time \<Rightarrow> db \<Rightarrow> int" where
  "user_failures user_id now d = sum_list (map n_code_failures
     (filter (\<lambda>n. n_user_id n = user_id \<and> n_created_at n > now - days 1) (confirmations d)))"

definition confirmations_candidate ::
    "uuid \<Rightarrow> uuid \<Rightarrow> string \<Rightarrow> int \<Rightarrow> int \<Rightarrow> confirmation_candidate option stmt" where
  "confirmations_candidate user_id session_id action max_code_failures max_user_failures now new_id d =
     Inr (case newest_confirmation d session_id action of None \<Rightarrow> None
       | Some n \<Rightarrow> if n_consumed_at n = None \<and> n_expires_at n > now
             \<and> n_code_failures n < max_code_failures
             \<and> user_failures user_id now d < max_user_failures
           then Some \<lparr>nc_id = n_id n, nc_email = n_email n, nc_code_hash = n_code_hash n\<rparr>
           else None, d)"

definition confirmations_find_code_candidate ::
    "uuid \<Rightarrow> uuid \<Rightarrow> string \<Rightarrow> int \<Rightarrow> int \<Rightarrow> (sql_error, confirmation_candidate option) req" where
  "confirmations_find_code_candidate user_id session_id action max_code_failures max_user_failures =
     and_then (exec lock_stmt) (\<lambda>_.
       exec (confirmations_candidate user_id session_id action max_code_failures max_user_failures))"

definition confirmations_record_code_failure :: "uuid \<Rightarrow> int \<Rightarrow> int stmt" where
  "confirmations_record_code_failure i max_code_failures now new_id d =
     (case upd_returning (\<lambda>n. n_id n = i)
        (\<lambda>n. n\<lparr>n_code_failures := n_code_failures n + 1,
              n_consumed_at := (if n_code_failures n + 1 \<ge> max_code_failures then Some now else None)\<rparr>)
        (confirmations d) of
      (None, _) \<Rightarrow> Inl RowNotFound
    | (Some n, ns) \<Rightarrow> Inr (n_code_failures n, d\<lparr>confirmations := ns\<rparr>))"

definition confirmations_consume_by_id :: "uuid \<Rightarrow> unit stmt" where
  "confirmations_consume_by_id i now new_id d =
     Inr ((), d\<lparr>confirmations := upd_where (\<lambda>n. n_id n = i)
       (\<lambda>n. n\<lparr>n_consumed_at := Some now\<rparr>) (confirmations d)\<rparr>)"

lemmas stmt_defs [sql] =
  users_create_def users_find_by_email_def users_find_by_id_def users_mark_email_verified_def
  users_change_email_def users_delete_def
  login_flows_create_def login_flows_complete_def login_flows_find_pending_magic_link_flow_def
  login_flows_count_magic_link_request_def
  authorization_codes_create_def authorization_codes_consume_def authorization_codes_find_consumed_def
  sessions_create_def sessions_revoke_by_authorization_code_def sessions_revoke_def
  sessions_revoke_by_refresh_token_def sessions_find_authenticated_def
  sessions_list_active_for_user_def sessions_revoke_for_user_def
  refresh_tokens_create_def refresh_tokens_find_for_update_def refresh_tokens_mark_rotated_def
  refresh_tokens_has_used_successor_def refresh_tokens_supersede_unused_successors_def
  signing_keys_insert_def signing_keys_list_published_def signing_keys_retire_all_except_def
  magic_links_create_def magic_links_consume_def magic_links_newest_email_def lock_stmt_def
  magic_links_candidate_def magic_links_record_code_failure_def magic_links_consume_by_id_def
  email_changes_create_def email_changes_consume_def
  confirmations_create_def confirmations_candidate_def confirmations_record_code_failure_def
  confirmations_consume_by_id_def

end
