(* ===== verification/App.thy ===== *)
theory App
  imports Clients RateLimit MagicCode Queries
begin

text \<open>
  What every route shares: the part of \<open>AppState\<close> (\<open>main.rs\<close>) that never changes while the server
  runs, and the \<open>?\<close> conversions of database errors into the two error types of the API.
\<close>

record app_state =
  st_issuer :: string
  st_clients :: clients
  st_code_keys :: code_keys
  st_trusted_proxies :: "ip_addr list"

text \<open>A statement in a route whose errors are \<open>ApiError\<close>, and in one whose errors are \<open>OAuthError\<close>.\<close>

definition sql :: "'a stmt \<Rightarrow> (api_error, 'a) req" where
  "sql q = map_err api_from_sql (exec q)"

definition osql :: "'a stmt \<Rightarrow> (oauth_error, 'a) req" where
  "osql q = map_err oauth_from_sql (exec q)"

text \<open>The \<open>ClientIp\<close> extractor: the peer address and the values of every \<open>X-Forwarded-For\<close> header.\<close>

fun join_commas :: "string list \<Rightarrow> string" where
  "join_commas [] = []"
| "join_commas [v] = v"
| "join_commas (v # vs) = v @ '','' @ join_commas vs"

definition client_ip_from_request :: "ext \<Rightarrow> app_state \<Rightarrow> ip_addr \<Rightarrow> string list \<Rightarrow> ip_addr" where
  "client_ip_from_request E st peer forwarded = resolve E peer (join_commas forwarded) (st_trusted_proxies st)"

text \<open>\<open>GET /health/ready\<close>.\<close>

definition ready :: "('e, nat) req" where
  "ready = and_then (attempt (exec lock_stmt)) (\<lambda>r. case r of Inr _ \<Rightarrow> ok 200 | Inl _ \<Rightarrow> ok 503)"

lemma wp_sql [wp]: "wp (sql q) P Q w = wp (exec q) P (\<lambda>e. Q (api_from_sql e)) w"
  by (simp only: sql_def wp_map_err)

lemma wp_osql [wp]: "wp (osql q) P Q w = wp (exec q) P (\<lambda>e. Q (oauth_from_sql e)) w"
  by (simp only: osql_def wp_map_err)

lemma defined_sql [wp]: "defined (sql q) w" "defined (osql q) w"
  by (simp_all add: sql_def osql_def wp)

lemma defined_limiter_check [wp]: "defined (limiter_check E l key) w"
  by (simp add: defined_def limiter_check_def Let_def split: option.split)

lemma defined_code_generate [wp]: "defined (code_generate E key owner) w \<longleftrightarrow> random_below CODE_RANGE (w_rng w) \<noteq> None"
  by (simp add: code_generate_def wp split: option.split prod.split) (simp add: defined_def random_below_req_def split: option.split)

lemma defined_token_generate [wp]: "defined (token_generate E) w"
  by (simp add: token_generate_def wp)

end
