(* ===== verification/SigningKeys.thy ===== *)
theory SigningKeys
  imports App
begin

text \<open>
  \<open>signing_keys.rs\<close>: the Ed25519 keys that sign access tokens, their encryption at rest, loading,
  creation on first start, and rotation with prepublication.
\<close>

section \<open>Constants and errors\<close>

definition ROTATION_INTERVAL :: time where "ROTATION_INTERVAL = days 30"
definition PREPUBLICATION :: time where "PREPUBLICATION = hours 24"
definition RETIRED_KEY_GRACE :: time where "RETIRED_KEY_GRACE = hours 24"
definition SEED_LEN :: nat where "SEED_LEN = 32"

definition ED25519_PKCS8_PREFIX :: bytes where
  "ED25519_PKCS8_PREFIX = map char_of [0x30, 0x2e, 0x02, 0x01, 0x00, 0x30, 0x05, 0x06,
     0x03, 0x2b, 0x65, 0x70, 0x04, 0x22, 0x04, 0x20 :: nat]"

datatype signing_key_error = KeyDatabase sql_error | KeyDecrypt uuid master_key_error | KeyInvalid uuid

section \<open>The key set\<close>

definition can_sign :: "loaded_key \<Rightarrow> time \<Rightarrow> bool" where
  "can_sign k now \<longleftrightarrow> lk_active_at k \<le> now \<and>
     (case lk_retired_at k of None \<Rightarrow> True | Some retired_at \<Rightarrow> retired_at > now)"

definition signing_key :: "signing_keys_set \<Rightarrow> time \<Rightarrow> loaded_key option" where
  "signing_key ks now = List.find (\<lambda>k. can_sign k now) (sk_keys ks)"

text \<open>\<open>JwkSet::find\<close>, then \<open>DecodingKey::from_jwk\<close>.\<close>

definition jwks_find :: "jwk_set \<Rightarrow> string \<Rightarrow> jwk option" where
  "jwks_find keys kid = List.find (\<lambda>k. jwk_kid k = Some kid) keys"

definition decoding_key :: "ext \<Rightarrow> signing_keys_set \<Rightarrow> string \<Rightarrow> bytes option" where
  "decoding_key E ks kid = (case jwks_find (sk_jwks ks) kid of None \<Rightarrow> None | Some k \<Rightarrow> x_jwk_key E k)"

definition key_context :: "ext \<Rightarrow> uuid \<Rightarrow> string" where
  "key_context E kid = ''signing_key:'' @ x_uuid_string E kid"

definition jwk_of :: "ext \<Rightarrow> uuid \<Rightarrow> bytes \<Rightarrow> jwk" where
  "jwk_of E kid public_key = \<lparr>jwk_kid = Some (x_uuid_string E kid), jwk_use = ''sig'', jwk_alg = EdDSA,
     jwk_kty = ''OKP'', jwk_crv = ''Ed25519'', jwk_x = x_b64url E public_key\<rparr>"

definition encoding_key :: "bytes \<Rightarrow> bytes" where
  "encoding_key seed = ED25519_PKCS8_PREFIX @ seed"

section \<open>Loading\<close>

text \<open>The loop of \<open>SigningKeys::load\<close>: it stops at the first key that cannot be decrypted.\<close>

fun load_rows :: "ext \<Rightarrow> master_key \<Rightarrow> signing_key_row list \<Rightarrow> signing_key_error + loaded_key list" where
  "load_rows E mk [] = Inr []"
| "load_rows E mk (row # rows) =
     (case master_key_decrypt E mk (k_encrypted_private_key row) (key_context E (k_id row)) of
        Inl e \<Rightarrow> Inl (KeyDecrypt (k_id row) e)
      | Inr seed \<Rightarrow>
          if length seed \<noteq> SEED_LEN then Inl (KeyInvalid (k_id row))
          else (case load_rows E mk rows of
              Inl e \<Rightarrow> Inl e
            | Inr keys \<Rightarrow> Inr (\<lparr>lk_kid = k_id row, lk_encoding_key = encoding_key seed,
                lk_active_at = k_active_at row, lk_retired_at = k_retired_at row\<rparr> # keys)))"

definition not_retired :: "time \<Rightarrow> signing_key_row \<Rightarrow> bool" where
  "not_retired now row \<longleftrightarrow> (case k_retired_at row of None \<Rightarrow> True | Some at \<Rightarrow> at > now)"

definition key_set_of_rows ::
    "ext \<Rightarrow> master_key \<Rightarrow> time \<Rightarrow> signing_key_row list \<Rightarrow> signing_key_error + signing_keys_set" where
  "key_set_of_rows E mk now rows = (case load_rows E mk (filter (not_retired now) rows) of
      Inl e \<Rightarrow> Inl e
    | Inr keys \<Rightarrow> Inr \<lparr>sk_keys = keys, sk_jwks = map (\<lambda>row. jwk_of E (k_id row) (k_public_key row)) rows\<rparr>)"

definition signing_keys_load :: "ext \<Rightarrow> master_key \<Rightarrow> (signing_key_error, signing_keys_set) req" where
  "signing_keys_load E mk =
     and_then utc_now (\<lambda>now.
     and_then (map_err KeyDatabase (exec (signing_keys_list_published now RETIRED_KEY_GRACE))) (\<lambda>rows.
     result (key_set_of_rows E mk now rows)))"

section \<open>Generating, ensuring, rotating\<close>

record generated_key =
  gk_kid :: uuid
  gk_public_key :: bytes
  gk_encrypted_private_key :: bytes

definition key_generate :: "ext \<Rightarrow> master_key \<Rightarrow> ('e, generated_key) req" where
  "key_generate E mk =
     and_then uuid_now_v7 (\<lambda>kid.
     and_then (random_bytes SEED_LEN) (\<lambda>seed.
     and_then (master_key_encrypt E mk seed (key_context E kid)) (\<lambda>sealed.
     ok \<lparr>gk_kid = kid, gk_public_key = x_ed25519_public E seed, gk_encrypted_private_key = sealed\<rparr>)))"

definition ensure_and_load :: "ext \<Rightarrow> master_key \<Rightarrow> (signing_key_error, signing_keys_set) req" where
  "ensure_and_load E mk =
     and_then (signing_keys_load E mk) (\<lambda>keys.
     and_then utc_now (\<lambda>now.
     if signing_key keys now \<noteq> None then ok keys
     else
       and_then (key_generate E mk) (\<lambda>key.
       and_then utc_now (\<lambda>active_at.
       and_then (map_err KeyDatabase (exec (signing_keys_insert (gk_kid key) (gk_public_key key)
           (gk_encrypted_private_key key) active_at))) (\<lambda>_.
       signing_keys_load E mk)))))"

text \<open>\<open>locked\<close> is the answer of \<open>pg_try_advisory_xact_lock\<close>: another instance may hold the lock.\<close>

definition rotation_due :: "time \<Rightarrow> signing_key_row list \<Rightarrow> bool" where
  "rotation_due now rows =
     (let pending = list_ex (\<lambda>row. k_active_at row > now) rows;
          current = List.find (\<lambda>row. k_active_at row \<le> now \<and> not_retired now row) rows;
          due = (case current of None \<Rightarrow> True | Some key \<Rightarrow> now - k_active_at key \<ge> ROTATION_INTERVAL)
      in \<not> (pending \<or> \<not> due))"

definition rotate_if_due :: "ext \<Rightarrow> master_key \<Rightarrow> bool \<Rightarrow> (signing_key_error, uuid option) req" where
  "rotate_if_due E mk locked = scoped (
     and_then (map_err KeyDatabase begin_tx) (\<lambda>_.
     and_then (map_err KeyDatabase (exec lock_stmt)) (\<lambda>_.
     if \<not> locked then ok None
     else
       and_then utc_now (\<lambda>now.
       and_then (map_err KeyDatabase (exec (signing_keys_list_published now RETIRED_KEY_GRACE))) (\<lambda>rows.
       if \<not> rotation_due now rows then ok None
       else
         and_then (key_generate E mk) (\<lambda>key.
         let takes_over_at = now + PREPUBLICATION in
         and_then (map_err KeyDatabase (exec (signing_keys_insert (gk_kid key) (gk_public_key key)
             (gk_encrypted_private_key key) takes_over_at))) (\<lambda>_.
         and_then (map_err KeyDatabase (exec (signing_keys_retire_all_except (gk_kid key) takes_over_at))) (\<lambda>_.
         and_then (map_err KeyDatabase commit_tx) (\<lambda>_.
         ok (Some (gk_kid key)))))))))))"

definition reload :: "ext \<Rightarrow> master_key \<Rightarrow> (signing_key_error, unit) req" where
  "reload E mk = and_then (ensure_and_load E mk) store_keys"

end
