(* ===== verification/AccessToken.thy ===== *)
theory AccessToken
  imports SigningKeys
begin

text \<open>
  \<open>access_token.rs\<close>, \<open>current_user.rs\<close> and \<open>routes/well_known.rs\<close>: issuing access tokens, checking
  them on bauth's own routes, and the documents other services verify them with.
\<close>

section \<open>\<open>access_token.rs\<close>\<close>

definition ACCESS_TOKEN_TTL :: time where "ACCESS_TOKEN_TTL = minutes 15"

record issued_access_token =
  ia_token :: string
  ia_expires_in :: int

text \<open>\<open>DateTime::timestamp\<close>: whole seconds, rounded down.\<close>

definition timestamp :: "time \<Rightarrow> int" where
  "timestamp t = t div seconds 1"

definition access_claims :: "string \<Rightarrow> uuid \<Rightarrow> uuid \<Rightarrow> client \<Rightarrow> time \<Rightarrow> uuid \<Rightarrow> access_token_claims" where
  "access_claims issuer user_id session_id client now jti =
     \<lparr>iss_claim = issuer, sub_claim = user_id, aud_claim = audience client, client_id_claim = cl_id client,
      sid_claim = session_id, iat_claim = timestamp now, exp_claim = timestamp (now + ACCESS_TOKEN_TTL),
      jti_claim = jti\<rparr>"

definition access_header :: "ext \<Rightarrow> loaded_key \<Rightarrow> jwt_header" where
  "access_header E key = \<lparr>hdr_alg = EdDSA, hdr_typ = Some ''at+jwt'', hdr_kid = Some (x_uuid_string E (lk_kid key))\<rparr>"

definition issue ::
    "ext \<Rightarrow> signing_keys_set \<Rightarrow> string \<Rightarrow> uuid \<Rightarrow> uuid \<Rightarrow> client \<Rightarrow> time \<Rightarrow> (issue_error, issued_access_token) req" where
  "issue E keys issuer user_id session_id client now =
     and_then (ok_or (signing_key keys now) NoSigningKey) (\<lambda>key.
     and_then uuid_now_v7 (\<lambda>jti.
     and_then (ok_or (x_jwt_encode E (access_header E key)
         (access_claims issuer user_id session_id client now jti) (lk_encoding_key key)) JwtError) (\<lambda>tok.
     ok \<lparr>ia_token = tok, ia_expires_in = ACCESS_TOKEN_TTL div seconds 1\<rparr>)))"

section \<open>\<open>current_user.rs\<close>\<close>

definition LEEWAY_SECONDS :: int where "LEEWAY_SECONDS = 30"

record current_user =
  cu_id :: uuid
  cu_email :: string
  cu_session_id :: uuid
  cu_client_id :: string

definition strip_prefix :: "string \<Rightarrow> string \<Rightarrow> string option" where
  "strip_prefix p s = (if take (length p) s = p then Some (drop (length p) s) else None)"

definition own_validation :: "string \<Rightarrow> validation" where
  "own_validation issuer = \<lparr>val_alg = EdDSA, val_iss = issuer, val_aud = None,
     val_required = [''exp'', ''iss'', ''sub''], val_leeway = LEEWAY_SECONDS\<rparr>"

text \<open>\<open>auth\<close> is the \<open>Authorization\<close> header, if it is there and visible ASCII. \<open>jsonwebtoken\<close> compares
  \<open>exp\<close> with the system clock, read when it decodes.\<close>

definition current_user_from_request ::
    "ext \<Rightarrow> app_state \<Rightarrow> string option \<Rightarrow> (api_error, current_user) req" where
  "current_user_from_request E st auth =
     and_then (ok_or (case auth of None \<Rightarrow> None | Some v \<Rightarrow> strip_prefix ''Bearer '' v) Unauthorized) (\<lambda>tok.
     and_then (ok_or (x_jwt_decode_header E tok) Unauthorized) (\<lambda>h.
     if hdr_alg h \<noteq> EdDSA \<or> hdr_typ h \<noteq> Some ''at+jwt'' then err Unauthorized
     else
       and_then load_keys (\<lambda>keys.
       and_then (ok_or (case hdr_kid h of None \<Rightarrow> None | Some kid \<Rightarrow> decoding_key E keys kid) Unauthorized) (\<lambda>key.
       and_then utc_now (\<lambda>now.
       and_then (ok_or (x_jwt_decode E tok key (own_validation (st_issuer st)) now) Unauthorized) (\<lambda>claims.
       and_then (sql (sessions_find_authenticated (sid_claim claims))) (\<lambda>found.
       and_then (ok_or found Unauthorized) (\<lambda>session.
       if as_user_id session \<noteq> sub_claim claims then err Unauthorized
       else ok \<lparr>cu_id = as_user_id session, cu_email = as_email session,
                cu_session_id = sid_claim claims, cu_client_id = client_id_claim claims\<rparr>))))))))"

section \<open>\<open>routes/well_known.rs\<close>\<close>

definition well_known_jwks :: "('e, (string \<times> string) list \<times> jwk_set) req" where
  "well_known_jwks = and_then load_keys (\<lambda>keys.
     ok ([(''cache-control'', ''public, max-age=3600'')], sk_jwks keys))"

record server_metadata =
  md_issuer :: string
  md_token_endpoint :: string
  md_revocation_endpoint :: string
  md_jwks_uri :: string
  md_response_types :: "string list"
  md_grant_types :: "string list"
  md_challenge_methods :: "string list"
  md_token_auth_methods :: "string list"
  md_revocation_auth_methods :: "string list"

definition authorization_server_metadata :: "app_state \<Rightarrow> server_metadata" where
  "authorization_server_metadata st = (let issuer = st_issuer st in
     \<lparr>md_issuer = issuer, md_token_endpoint = issuer @ ''/oauth/token'',
      md_revocation_endpoint = issuer @ ''/oauth/revoke'',
      md_jwks_uri = issuer @ ''/.well-known/jwks.json'',
      md_response_types = [''code''],
      md_grant_types = [''authorization_code'', ''refresh_token''],
      md_challenge_methods = [''S256''], md_token_auth_methods = [''none''],
      md_revocation_auth_methods = [''none'']\<rparr>)"

end
