(* ===== verification/Sessions.thy ===== *)
theory Sessions
  imports AccessToken
begin

text \<open>\<open>sessions.rs\<close> and \<open>login_flow.rs\<close>: opening a session with its first refresh token, adding a
  refresh token, and completing a login flow with its authorization code.\<close>

section \<open>\<open>sessions.rs\<close>\<close>

definition SESSION_TTL :: time where "SESSION_TTL = days 30"
definition REFRESH_REUSE_GRACE :: time where "REFRESH_REUSE_GRACE = seconds 30"

record opened_session =
  os_session_id :: uuid
  os_refresh_token :: string

definition new_refresh_token :: "ext \<Rightarrow> uuid \<Rightarrow> uuid option \<Rightarrow> (sql_error, string) req" where
  "new_refresh_token E session_id parent_id =
     and_then (token_generate E) (\<lambda>tok.
     and_then (exec (refresh_tokens_create session_id (tok_hash tok) parent_id)) (\<lambda>_.
     ok (tok_plain tok)))"

definition sessions_open :: "ext \<Rightarrow> uuid \<Rightarrow> string \<Rightarrow> uuid \<Rightarrow> (sql_error, opened_session) req" where
  "sessions_open E user_id client_id authorization_code_id =
     and_then utc_now (\<lambda>now.
     and_then (exec (sessions_create user_id client_id authorization_code_id (now + SESSION_TTL))) (\<lambda>session_id.
     and_then (new_refresh_token E session_id None) (\<lambda>refresh_token.
     ok \<lparr>os_session_id = session_id, os_refresh_token = refresh_token\<rparr>)))"

section \<open>\<open>login_flow.rs\<close>\<close>

definition FLOW_CODE_TTL :: time where "FLOW_CODE_TTL = seconds 60"

datatype login_response = Completed string

definition flow_complete :: "ext \<Rightarrow> uuid \<Rightarrow> uuid \<Rightarrow> (sql_error, login_response option) req" where
  "flow_complete E flow_id user_id =
     and_then (exec (login_flows_complete flow_id)) (\<lambda>done.
     if \<not> done then ok None
     else
       and_then (token_generate E) (\<lambda>code.
       and_then utc_now (\<lambda>now.
       and_then (exec (authorization_codes_create (tok_hash code) flow_id user_id (now + FLOW_CODE_TTL))) (\<lambda>_.
       ok (Some (Completed (tok_plain code)))))))"

end
