(* ===== verification/OAuth.thy ===== *)
theory OAuth
  imports Sessions
begin

text \<open>
  \<open>routes/oauth.rs\<close>: \<open>POST /oauth/token\<close> with its two grants and \<open>POST /oauth/revoke\<close>. A response
  carries \<open>Cache-Control: no-store\<close>; the extraction of the form is left out.
\<close>

record token_request =
  tr_grant_type :: string
  tr_client_id :: string
  tr_code :: "string option"
  tr_redirect_uri :: "string option"
  tr_code_verifier :: "string option"
  tr_refresh_token :: "string option"

record token_response =
  tp_access_token :: string
  tp_token_type :: string
  tp_expires_in :: int
  tp_refresh_token :: string

definition required :: "string option \<Rightarrow> string \<Rightarrow> (oauth_error, string) req" where
  "required v name = ok_or v (OInvalidRequest (''missing `'' @ name @ ''`''))"

definition reject_unusable_code :: "bytes \<Rightarrow> (oauth_error, oauth_error) req" where
  "reject_unusable_code code_hash =
     and_then (osql (authorization_codes_find_consumed code_hash)) (\<lambda>found.
     and_then (case found of
         None \<Rightarrow> ok False
       | Some code_id \<Rightarrow> osql (sessions_revoke_by_authorization_code code_id)) (\<lambda>_.
     ok (OInvalidGrant ''code is invalid, expired or already used'')))"

definition user_unusable :: "user option \<Rightarrow> bool" where
  "user_unusable user = (case user of None \<Rightarrow> True | Some u \<Rightarrow> u_disabled_at u \<noteq> None)"

definition token_response_of :: "issued_access_token \<Rightarrow> string \<Rightarrow> token_response" where
  "token_response_of access refresh_token =
     \<lparr>tp_access_token = ia_token access, tp_token_type = ''Bearer'',
      tp_expires_in = ia_expires_in access, tp_refresh_token = refresh_token\<rparr>"

definition authorization_code_grant ::
    "ext \<Rightarrow> app_state \<Rightarrow> token_request \<Rightarrow> (oauth_error, token_response) req" where
  "authorization_code_grant E st input = scoped (
     and_then (required (tr_code input) ''code'') (\<lambda>code.
     and_then (required (tr_redirect_uri input) ''redirect_uri'') (\<lambda>redirect_uri.
     and_then (required (tr_code_verifier input) ''code_verifier'') (\<lambda>code_verifier.
     and_then (ok_or (st_clients st (tr_client_id input)) OInvalidClient) (\<lambda>client.
     let code_hash = token_hash E code in
     and_then (map_err oauth_from_sql begin_tx) (\<lambda>_.
     and_then (osql (authorization_codes_consume code_hash)) (\<lambda>found.
     case found of
       None \<Rightarrow>
         and_then (map_err oauth_from_sql rollback_tx) (\<lambda>_.
         and_then (reject_unusable_code code_hash) err)
     | Some consumed \<Rightarrow>
         if cc_client_id consumed \<noteq> cl_id client
         then err (OInvalidGrant ''code was issued to another client'')
         else if cc_redirect_uri consumed \<noteq> redirect_uri
         then err (OInvalidGrant ''redirect_uri does not match'')
         else if \<not> pkce_verify E code_verifier (cc_code_challenge consumed)
         then err (OInvalidGrant ''code_verifier does not match'')
         else
           and_then (osql (users_find_by_id (cc_user_id consumed))) (\<lambda>user.
           if user_unusable user then err (OInvalidGrant ''account is disabled'')
           else
             and_then (map_err oauth_from_sql
               (sessions_open E (cc_user_id consumed) (cl_id client) (cc_id consumed))) (\<lambda>session.
             and_then load_keys (\<lambda>keys.
             and_then utc_now (\<lambda>now.
             and_then (map_err oauth_from_issue
               (issue E keys (st_issuer st) (cc_user_id consumed) (os_session_id session) client now)) (\<lambda>access.
             and_then (map_err oauth_from_sql commit_tx) (\<lambda>_.
             ok (token_response_of access (os_refresh_token session)))))))))))))))"

text \<open>The \<open>match (current.superseded_at, current.rotated_at)\<close> of \<open>refresh_token\<close>: whether the token is
  a stolen copy, with the statements each arm runs.\<close>

definition refresh_stolen :: "refresh_token_with_session \<Rightarrow> time \<Rightarrow> (oauth_error, bool) req" where
  "refresh_stolen current now =
     (case (rs_superseded_at current, rs_rotated_at current) of
        (Some _, _) \<Rightarrow> ok True
      | (None, None) \<Rightarrow> and_then (osql (refresh_tokens_mark_rotated (rs_id current))) (\<lambda>_. ok False)
      | (None, Some rotated_at) \<Rightarrow>
          if now - rotated_at \<le> REFRESH_REUSE_GRACE then ok False
          else
            and_then (osql (refresh_tokens_has_used_successor (rs_id current))) (\<lambda>stolen.
            if stolen then ok True
            else and_then (osql (refresh_tokens_supersede_unused_successors (rs_id current))) (\<lambda>_. ok False)))"

text \<open>Its end, once the token is known not to be stolen: the account is checked, the token rotated.\<close>

definition refresh_finish ::
    "ext \<Rightarrow> app_state \<Rightarrow> client \<Rightarrow> refresh_token_with_session \<Rightarrow> time \<Rightarrow> (oauth_error, token_response) req" where
  "refresh_finish E st client current now =
     and_then (osql (users_find_by_id (rs_user_id current))) (\<lambda>user.
     if user_unusable user then
       and_then (osql (sessions_revoke (rs_session_id current))) (\<lambda>_.
       and_then (map_err oauth_from_sql commit_tx) (\<lambda>_.
       err (OInvalidGrant ''account is disabled'')))
     else
       and_then (map_err oauth_from_sql
         (new_refresh_token E (rs_session_id current) (Some (rs_id current)))) (\<lambda>fresh.
       and_then load_keys (\<lambda>keys.
       and_then (map_err oauth_from_issue
         (issue E keys (st_issuer st) (rs_user_id current) (rs_session_id current) client now)) (\<lambda>access.
       and_then (map_err oauth_from_sql commit_tx) (\<lambda>_.
       ok (token_response_of access fresh))))))"

definition refresh_token_grant ::
    "ext \<Rightarrow> app_state \<Rightarrow> token_request \<Rightarrow> (oauth_error, token_response) req" where
  "refresh_token_grant E st input = scoped (
     and_then (required (tr_refresh_token input) ''refresh_token'') (\<lambda>refresh_token.
     and_then (ok_or (st_clients st (tr_client_id input)) OInvalidClient) (\<lambda>client.
     let th = token_hash E refresh_token in
     and_then utc_now (\<lambda>now.
     and_then (map_err oauth_from_sql begin_tx) (\<lambda>_.
     and_then (osql (refresh_tokens_find_for_update th)) (\<lambda>found.
     case found of
       None \<Rightarrow> err (OInvalidGrant ''refresh token is invalid'')
     | Some current \<Rightarrow>
         if rs_client_id current \<noteq> cl_id client
         then err (OInvalidGrant ''refresh token was issued to another client'')
         else if rs_session_revoked_at current \<noteq> None \<or> rs_session_expires_at current \<le> now
         then err (OInvalidGrant ''session is expired or revoked'')
         else
           and_then (refresh_stolen current now) (\<lambda>stolen.
           if stolen then
             and_then (osql (sessions_revoke (rs_session_id current))) (\<lambda>_.
             and_then (map_err oauth_from_sql commit_tx) (\<lambda>_.
             err (OInvalidGrant ''refresh token was already used'')))
           else refresh_finish E st client current now)))))))"

definition oauth_token :: "ext \<Rightarrow> app_state \<Rightarrow> token_request \<Rightarrow> (oauth_error, token_response) req" where
  "oauth_token E st input =
     (if tr_grant_type input = ''authorization_code'' then authorization_code_grant E st input
      else if tr_grant_type input = ''refresh_token'' then refresh_token_grant E st input
      else err OUnsupportedGrantType)"

record revoke_request =
  rv_token :: string
  rv_client_id :: string

text \<open>Answers the status code 200 whether there was something to revoke or not.\<close>

definition oauth_revoke :: "ext \<Rightarrow> app_state \<Rightarrow> revoke_request \<Rightarrow> (oauth_error, nat) req" where
  "oauth_revoke E st input =
     and_then (ok_or (st_clients st (rv_client_id input)) OInvalidClient) (\<lambda>client.
     and_then (osql (sessions_revoke_by_refresh_token (token_hash E (rv_token input)) (cl_id client))) (\<lambda>_.
     ok 200))"

end
