(* ===== verification/Login.thy ===== *)
theory Login
  imports Sessions
begin

text \<open>
  \<open>routes/login.rs\<close> and \<open>routes/magic_link.rs\<close>: starting a login flow, asking for the email with the
  link and the code, and logging in with either. \<open>ip\<close> is the \<open>ClientIp\<close> the extractor resolved.
\<close>

section \<open>\<open>routes/login.rs\<close>\<close>

definition FLOW_TTL :: time where "FLOW_TTL = minutes 15"
definition MAX_STATE_LEN :: nat where "MAX_STATE_LEN = 512"

record create_flow_request =
  cf_client_id :: string
  cf_redirect_uri :: string
  cf_code_challenge :: string
  cf_code_challenge_method :: string
  cf_state :: "string option"

datatype login_method = MagicLink

record flow_response =
  fr_flow_id :: uuid
  fr_methods :: "login_method list"
  fr_expires_at :: time

definition create_flow :: "app_state \<Rightarrow> create_flow_request \<Rightarrow> (api_error, nat \<times> flow_response) req" where
  "create_flow st input =
     and_then (ok_or (st_clients st (cf_client_id input)) InvalidClient) (\<lambda>client.
     if \<not> allows_redirect_uri client (cf_redirect_uri input) then err InvalidRedirectUri
     else if cf_code_challenge_method input \<noteq> ''S256'' \<or> \<not> is_valid_challenge (cf_code_challenge input)
     then err InvalidCodeChallenge
     else if (case cf_state input of None \<Rightarrow> False | Some s \<Rightarrow> length s > MAX_STATE_LEN)
     then err (InvalidRequest ''state must be at most 512 bytes'')
     else
       and_then utc_now (\<lambda>now.
       let expires_at = now + FLOW_TTL in
       and_then (sql (login_flows_create (cl_id client) (cf_redirect_uri input) (cf_code_challenge input)
         (cf_state input) expires_at)) (\<lambda>flow_id.
       ok (201, \<lparr>fr_flow_id = flow_id, fr_methods = [MagicLink], fr_expires_at = expires_at\<rparr>))))"

section \<open>\<open>routes/magic_link.rs\<close>\<close>

definition MAX_EMAILS_PER_FLOW :: int where "MAX_EMAILS_PER_FLOW = 3"

datatype magic_link_status = MagicLinkSent

record magic_link_response =
  mr_status :: magic_link_status
  mr_expires_at :: time

datatype recipient = Account uuid | SignUp

definition recipient_of :: "client \<Rightarrow> user option \<Rightarrow> recipient option" where
  "recipient_of client user = (case user of
      Some u \<Rightarrow> if u_disabled_at u = None then Some (Account (u_id u)) else None
    | None \<Rightarrow> if cl_allow_signup client then Some SignUp else None)"

text \<open>\<open>TimeDelta::to_std().unwrap_or_default()\<close>, from microseconds.\<close>

definition to_std_or_default :: "time \<Rightarrow> duration" where
  "to_std_or_default t = (if t < 0 then \<lparr>dur_secs = 0, dur_nanos = 0\<rparr>
     else \<lparr>dur_secs = of_int (t div 1000000), dur_nanos = of_int (t mod 1000000 * 1000)\<rparr>)"

definition flow_exhausted :: "pending_magic_link_flow \<Rightarrow> (api_error, 'a) req" where
  "flow_exhausted flow = and_then utc_now (\<lambda>now.
     err (RateLimited (to_std_or_default (pf_expires_at flow - now))))"

text \<open>The email with its link and code, for one recipient.\<close>

definition send_magic_link ::
    "ext \<Rightarrow> app_state \<Rightarrow> client \<Rightarrow> uuid \<Rightarrow> string \<Rightarrow> time \<Rightarrow> recipient \<Rightarrow> (api_error, unit) req" where
  "send_magic_link E st client flow_id email_input expires_at recipient =
     and_then (token_generate E) (\<lambda>tok.
     and_then (code_generate E (magic_link_key (st_code_keys st)) flow_id) (\<lambda>code.
     let user_id = (case recipient of Account u \<Rightarrow> Some u | SignUp \<Rightarrow> None) in
     and_then (sql (magic_links_create E flow_id user_id email_input (tok_hash tok) (mc_hash code) expires_at)) (\<lambda>email.
     let link = cl_magic_link_url client @ ''#token='' @ tok_plain tok;
         message = (case recipient of
             Account _ \<Rightarrow> magic_link_email E email (cl_name client) link (mc_plain code)
           | SignUp \<Rightarrow> magic_signup_email E email (cl_name client) link (mc_plain code)) in
     send_in_background message)))"

definition magic_link_request ::
    "ext \<Rightarrow> app_state \<Rightarrow> ip_addr \<Rightarrow> uuid \<Rightarrow> string \<Rightarrow> (api_error, nat \<times> magic_link_response) req" where
  "magic_link_request E st ip flow_id email_input =
     and_then (limiter_check E EmailPerIp (client_ip_key ip)) (\<lambda>_.
     if \<not> is_valid_email email_input then err InvalidEmail
     else
       and_then (sql (login_flows_find_pending_magic_link_flow flow_id)) (\<lambda>found.
       case found of None \<Rightarrow> err FlowExpired | Some flow \<Rightarrow>
       if pf_requests flow \<ge> MAX_EMAILS_PER_FLOW then flow_exhausted flow
       else
         and_then (ok_or (st_clients st (pf_client_id flow)) InvalidClient) (\<lambda>client.
         and_then (limiter_check E EmailPerAddress (email_key E email_input)) (\<lambda>_.
         and_then utc_now (\<lambda>now.
         let expires_at = now + CODE_TTL in
         and_then (sql (login_flows_count_magic_link_request flow_id MAX_EMAILS_PER_FLOW expires_at)) (\<lambda>counted.
         case counted of None \<Rightarrow> flow_exhausted flow | Some flow_expires_at \<Rightarrow>
         and_then (sql (users_find_by_email E email_input)) (\<lambda>user.
         and_then (case recipient_of client user of
             None \<Rightarrow> ok ()
           | Some recipient \<Rightarrow> send_magic_link E st client flow_id email_input expires_at recipient) (\<lambda>_.
         ok (202, \<lparr>mr_status = MagicLinkSent, mr_expires_at = flow_expires_at\<rparr>)))))))))"

text \<open>\<open>log_in\<close>: finding or creating the account (\<open>let user = match user_id\<close>), and its end once the account
  is known to be usable.\<close>

definition login_user :: "ext \<Rightarrow> uuid option \<Rightarrow> string \<Rightarrow> (api_error, user option) req" where
  "login_user E user_id email = (case user_id of
      Some i \<Rightarrow> sql (users_find_by_id i)
    | None \<Rightarrow> and_then (sql (users_create E email)) (\<lambda>created. case created of
          Some user \<Rightarrow> ok (Some user)
        | None \<Rightarrow> sql (users_find_by_email E email)))"

definition log_in_end :: "ext \<Rightarrow> uuid \<Rightarrow> user \<Rightarrow> (api_error, login_response \<times> uuid) req" where
  "log_in_end E flow_id user =
     and_then (sql (users_mark_email_verified (u_id user) (u_email user))) (\<lambda>_.
     and_then (map_err api_from_sql (flow_complete E flow_id (u_id user))) (\<lambda>response.
     and_then (ok_or response FlowExpired) (\<lambda>r. ok (r, u_id user))))"

definition log_in ::
    "ext \<Rightarrow> uuid \<Rightarrow> uuid option \<Rightarrow> string \<Rightarrow> api_error \<Rightarrow> (api_error, login_response \<times> uuid) req" where
  "log_in E flow_id user_id email stale =
     and_then (login_user E user_id email) (\<lambda>found.
     and_then (ok_or found stale) (\<lambda>user.
     if u_disabled_at user \<noteq> None then err AccountDisabled
     else if u_email user \<noteq> email then err stale
     else log_in_end E flow_id user))"

definition magic_link_confirm ::
    "ext \<Rightarrow> app_state \<Rightarrow> ip_addr \<Rightarrow> string \<Rightarrow> (api_error, login_response) req" where
  "magic_link_confirm E st ip tok = scoped (
     and_then (limiter_check E TokenPerIp (client_ip_key ip)) (\<lambda>_.
     let th = token_hash E tok in
     and_then (map_err api_from_sql begin_tx) (\<lambda>_.
     and_then (sql (magic_links_consume th)) (\<lambda>found.
     and_then (ok_or found InvalidToken) (\<lambda>link.
     and_then (log_in E (cm_flow_id link) (cm_user_id link) (cm_email link) InvalidToken) (\<lambda>(response, user_id).
     and_then (map_err api_from_sql commit_tx) (\<lambda>_.
     ok response)))))))"

text \<open>\<open>confirm_code\<close> once the newest email was found usable: the code is compared, and counted or used.\<close>

definition use_code ::
    "ext \<Rightarrow> app_state \<Rightarrow> uuid \<Rightarrow> string \<Rightarrow> link_candidate \<Rightarrow> (api_error, login_response) req" where
  "use_code E st flow_id code link =
     (if \<not> code_verify E (magic_link_key (st_code_keys st)) flow_id code (lc_code_hash link) then
        and_then (sql (magic_links_record_code_failure (lc_id link) MAX_FAILURES_PER_CODE)) (\<lambda>failures.
        and_then (map_err api_from_sql commit_tx) (\<lambda>_.
        err InvalidCode))
      else
        and_then (sql (magic_links_consume_by_id (lc_id link))) (\<lambda>_.
        and_then (log_in E flow_id (lc_user_id link) (lc_email link) InvalidCode) (\<lambda>(response, user_id).
        and_then (map_err api_from_sql commit_tx) (\<lambda>_.
        ok response))))"

definition confirm_code ::
    "ext \<Rightarrow> app_state \<Rightarrow> ip_addr \<Rightarrow> uuid \<Rightarrow> string \<Rightarrow> (api_error, login_response) req" where
  "confirm_code E st ip flow_id code = scoped (
     and_then (limiter_check E TokenPerIp (client_ip_key ip)) (\<lambda>_.
     and_then (result (check_format code)) (\<lambda>_.
     and_then (map_err api_from_sql begin_tx) (\<lambda>_.
     and_then (map_err api_from_sql
       (magic_links_find_code_candidate flow_id MAX_FAILURES_PER_CODE MAX_FAILURES_PER_DAY)) (\<lambda>found.
     and_then (ok_or found InvalidCode) (\<lambda>link.
     use_code E st flow_id code link))))))"

end
