(* ===== verification/Me.thy ===== *)
theory Me
  imports Sessions
begin

text \<open>
  \<open>routes/me.rs\<close> and \<open>routes/email_change.rs\<close>: the account routes behind an access token, and the link
  that moves an account to a new address. \<open>user\<close> is what the \<open>CurrentUser\<close> extractor returned
  (\<open>current_user_from_request\<close>), \<open>ip\<close> what the \<open>ClientIp\<close> extractor returned.
\<close>

section \<open>Reading the account and its sessions\<close>

definition EMAIL_CHANGE_TTL :: time where "EMAIL_CHANGE_TTL = hours 1"

record me_response =
  me_id :: uuid
  me_email :: string
  me_email_verified :: bool
  me_created_at :: time

definition me_get :: "current_user \<Rightarrow> (api_error, me_response) req" where
  "me_get user =
     and_then (sql (users_find_by_id (cu_id user))) (\<lambda>found.
     and_then (ok_or found Unauthorized) (\<lambda>account.
     ok \<lparr>me_id = u_id account, me_email = u_email account,
         me_email_verified = (u_email_verified_at account \<noteq> None), me_created_at = u_created_at account\<rparr>))"

record session_response =
  sr_id :: uuid
  sr_client_id :: string
  sr_client_name :: "string option"
  sr_created_at :: time
  sr_last_used_at :: time
  sr_expires_at :: time
  sr_current :: bool

definition session_response_of :: "app_state \<Rightarrow> current_user \<Rightarrow> active_session \<Rightarrow> session_response" where
  "session_response_of st user s =
     \<lparr>sr_id = av_id s, sr_client_id = av_client_id s,
      sr_client_name = map_option cl_name (st_clients st (av_client_id s)),
      sr_created_at = av_created_at s, sr_last_used_at = av_last_used_at s,
      sr_expires_at = av_expires_at s, sr_current = (av_id s = cu_session_id user)\<rparr>"

definition list_sessions :: "app_state \<Rightarrow> current_user \<Rightarrow> (api_error, session_response list) req" where
  "list_sessions st user =
     and_then (sql (sessions_list_active_for_user (cu_id user))) (\<lambda>active.
     ok (map (session_response_of st user) active))"

definition revoke_session :: "current_user \<Rightarrow> uuid \<Rightarrow> (api_error, nat) req" where
  "revoke_session user session_id =
     and_then (sql (sessions_revoke_for_user session_id (cu_id user))) (\<lambda>revoked.
     if \<not> revoked then err NotFound else ok 204)"

section \<open>Confirmation codes\<close>

datatype confirmation_action = ChangeEmail | DeleteAccount

fun action_as_str :: "confirmation_action \<Rightarrow> string" where
  "action_as_str ChangeEmail = ''change_email''"
| "action_as_str DeleteAccount = ''delete_account''"

fun action_describe :: "confirmation_action \<Rightarrow> string" where
  "action_describe ChangeEmail = ''modifier l'' @ [CHR 0x27] @ ''adresse email de votre compte''"
| "action_describe DeleteAccount = ''supprimer votre compte''"

datatype confirmation_status = ConfirmationSent

definition request_confirmation ::
    "ext \<Rightarrow> app_state \<Rightarrow> ip_addr \<Rightarrow> current_user \<Rightarrow> confirmation_action \<Rightarrow>
     (api_error, nat \<times> confirmation_status) req" where
  "request_confirmation E st ip user action =
     and_then (limiter_check E EmailPerIp (client_ip_key ip)) (\<lambda>_.
     and_then (limiter_check E EmailPerAddress (email_key E (cu_email user))) (\<lambda>_.
     and_then (code_generate E (confirmation_key (st_code_keys st)) (cu_session_id user)) (\<lambda>code.
     and_then utc_now (\<lambda>now.
     and_then (sql (confirmations_create (cu_id user) (cu_session_id user) (action_as_str action)
       (cu_email user) (mc_hash code) (now + CODE_TTL))) (\<lambda>_.
     and_then (send_in_background
       (confirmation_code_email E (cu_email user) (action_describe action) (mc_plain code))) (\<lambda>_.
     ok (202, ConfirmationSent)))))))"

definition check_code ::
    "ext \<Rightarrow> app_state \<Rightarrow> ip_addr \<Rightarrow> current_user \<Rightarrow> confirmation_action \<Rightarrow> string \<Rightarrow> (api_error, unit) req" where
  "check_code E st ip user action code = scoped (
     and_then (limiter_check E TokenPerIp (client_ip_key ip)) (\<lambda>_.
     and_then (result (check_format code)) (\<lambda>_.
     and_then (map_err api_from_sql begin_tx) (\<lambda>_.
     and_then (map_err api_from_sql
       (confirmations_find_code_candidate (cu_id user) (cu_session_id user) (action_as_str action)
          MAX_FAILURES_PER_CODE MAX_FAILURES_PER_DAY)) (\<lambda>found.
     and_then (ok_or found InvalidCode) (\<lambda>confirmation.
     if nc_email confirmation \<noteq> cu_email user then err InvalidCode
     else if \<not> code_verify E (confirmation_key (st_code_keys st)) (cu_session_id user) code
               (nc_code_hash confirmation) then
       and_then (sql (confirmations_record_code_failure (nc_id confirmation) MAX_FAILURES_PER_CODE)) (\<lambda>failures.
       and_then (map_err api_from_sql commit_tx) (\<lambda>_.
       err InvalidCode))
     else
       and_then (sql (confirmations_consume_by_id (nc_id confirmation))) (\<lambda>_.
       and_then (map_err api_from_sql commit_tx) (\<lambda>_.
       ok ()))))))))"

section \<open>Changing the address\<close>

text \<open>\<open>email_change::page\<close>.\<close>

definition email_change_page :: "client \<Rightarrow> api_error + string" where
  "email_change_page c = (case cl_email_change_url c of
      None \<Rightarrow> Inl (InvalidRequest ''email change is not enabled for this client'')
    | Some u \<Rightarrow> Inr u)"

definition change_email ::
    "ext \<Rightarrow> app_state \<Rightarrow> ip_addr \<Rightarrow> current_user \<Rightarrow> string \<Rightarrow> string \<Rightarrow>
     (api_error, nat \<times> confirmation_status) req" where
  "change_email E st ip user code new_email =
     (if \<not> is_valid_email new_email then err InvalidEmail
      else let new_email_key = email_key E new_email in
      if new_email_key = cu_email user then err (InvalidRequest ''new_email is the current address'')
      else
        and_then (ok_or (st_clients st (cu_client_id user)) InvalidClient) (\<lambda>client.
        and_then (result (email_change_page client)) (\<lambda>page.
        and_then (limiter_check E EmailPerAddress new_email_key) (\<lambda>_.
        and_then (check_code E st ip user ChangeEmail code) (\<lambda>_.
        and_then (sql (users_find_by_email E new_email)) (\<lambda>taken.
        and_then (if taken = None then
            and_then (token_generate E) (\<lambda>tok.
            and_then utc_now (\<lambda>now.
            and_then (sql (email_changes_create E (cu_id user) (cu_email user) new_email (tok_hash tok)
              (now + EMAIL_CHANGE_TTL))) (\<lambda>_.
            send_in_background (confirm_email_change_email E new_email_key
              (page @ ''#token='' @ tok_plain tok)))))
          else ok ()) (\<lambda>_.
        ok (202, ConfirmationSent))))))))"

definition email_change_confirm ::
    "ext \<Rightarrow> app_state \<Rightarrow> ip_addr \<Rightarrow> string \<Rightarrow> (api_error, nat) req" where
  "email_change_confirm E st ip tok = scoped (
     and_then (limiter_check E TokenPerIp (client_ip_key ip)) (\<lambda>_.
     let th = token_hash E tok in
     and_then (map_err api_from_sql begin_tx) (\<lambda>_.
     and_then (sql (email_changes_consume th)) (\<lambda>found.
     and_then (ok_or found InvalidToken) (\<lambda>change.
     and_then (sql (users_find_by_id (ce_user_id change))) (\<lambda>account.
     and_then (ok_or account InvalidToken) (\<lambda>user.
     if u_disabled_at user \<noteq> None then err AccountDisabled
     else
       and_then (attempt (exec (users_change_email (u_id user) (ce_from_email change) (ce_to_email change)))) (\<lambda>r.
       and_then (case r of
           Inr moved \<Rightarrow> if moved then ok () else err InvalidToken
         | Inl e \<Rightarrow> if e = UniqueViolation then err EmailTaken else err (api_from_sql e)) (\<lambda>_.
       and_then (map_err api_from_sql commit_tx) (\<lambda>_.
       and_then (send_in_background (email_changed_email E (ce_from_email change) (ce_to_email change))) (\<lambda>_.
       ok 204)))))))))))"

section \<open>Deleting the account\<close>

definition delete_account ::
    "ext \<Rightarrow> app_state \<Rightarrow> ip_addr \<Rightarrow> current_user \<Rightarrow> string \<Rightarrow> (api_error, nat) req" where
  "delete_account E st ip user code =
     and_then (check_code E st ip user DeleteAccount code) (\<lambda>_.
     and_then (sql (users_delete (cu_id user))) (\<lambda>_.
     and_then (send_in_background (account_deleted_email E (cu_email user))) (\<lambda>_.
     ok 204)))"

end
