(* ===== verification/Invariant.thy ===== *)
theory Invariant
  imports OAuth Login Me Purge
begin

text \<open>
  Whole-program invariants of the database. \<open>triple\<close> is a Hoare triple over request computations that
  carries an invariant \<open>I\<close> of the database, also for the snapshot an open transaction would go back
  to, so that a rollback or a dropped transaction keeps it. \<open>U\<close> is a set of ids that are never
  generated again.

  The locale \<open>db_invariant\<close> states what an invariant owes: every statement of the program keeps it,
  under what its callers establish first (a code is only created for a completed flow, a session
  only for a consumed code, a failure only counted on a candidate, a refresh token only rotated within its session). From that, every route and job
  keeps it, proved once here; theories \<open>Integrity\<close> and \<open>System\<close> interpret the locale.
\<close>

section \<open>Triples\<close>

definition step_ok :: "uuid set \<Rightarrow> (db \<Rightarrow> bool) \<Rightarrow> (db \<Rightarrow> bool) \<Rightarrow> 'a stmt \<Rightarrow> bool" where
  "step_ok U I P q \<longleftrightarrow> (\<forall>now new_id d a d'. new_id \<notin> U \<longrightarrow> I d \<longrightarrow> P d \<longrightarrow>
     q now new_id d = Inr (a, d') \<longrightarrow> I d')"

abbreviation stmt_ok :: "uuid set \<Rightarrow> (db \<Rightarrow> bool) \<Rightarrow> 'a stmt \<Rightarrow> bool" where
  "stmt_ok U I q \<equiv> step_ok U I (\<lambda>_. True) q"

definition holds :: "uuid set \<Rightarrow> (db \<Rightarrow> bool) \<Rightarrow> world \<Rightarrow> bool" where
  "holds U I w \<longleftrightarrow> I (w_db w) \<and> (\<forall>s. w_tx w = Some s \<longrightarrow> I (fst s)) \<and> (\<forall>n. w_ids w n \<notin> U)"

definition triple :: "uuid set \<Rightarrow> (db \<Rightarrow> bool) \<Rightarrow> (db \<Rightarrow> bool) \<Rightarrow> ('e, 'a) req \<Rightarrow> ('a \<Rightarrow> db \<Rightarrow> bool) \<Rightarrow> bool" where
  "triple U I P m Q \<longleftrightarrow> (\<forall>w. holds U I w \<longrightarrow> P (w_db w) \<longrightarrow>
     wp m (\<lambda>a w'. holds U I w' \<and> Q a (w_db w')) (\<lambda>_ w'. holds U I w') w)"

abbreviation preserves :: "uuid set \<Rightarrow> (db \<Rightarrow> bool) \<Rightarrow> ('e, 'a) req \<Rightarrow> bool" where
  "preserves U I m \<equiv> triple U I (\<lambda>_. True) m (\<lambda>_ _. True)"

definition read_only :: "'a stmt \<Rightarrow> bool" where
  "read_only q \<longleftrightarrow> (\<forall>now new_id d a d'. q now new_id d = Inr (a, d') \<longrightarrow> d' = d)"

lemma preserves_run:
  assumes "preserves U I m" "holds U I w" "m w = Some (r, w')"
  shows "holds U I w'"
  using assms by (cases r) (auto simp: triple_def wp_def)

lemma triple_weaken:
  "\<lbrakk>triple U I P m Q; \<And>d. P' d \<Longrightarrow> P d; \<And>a d. Q a d \<Longrightarrow> Q' a d\<rbrakk> \<Longrightarrow> triple U I P' m Q'"
  unfolding triple_def by (blast intro: wp_mono)

lemma step_ok_any: "stmt_ok U I q \<Longrightarrow> step_ok U I P q"
  by (simp add: step_ok_def)

lemma triple_pre: "preserves U I m \<Longrightarrow> triple U I P m (\<lambda>_ _. True)"
  by (erule triple_weaken) auto

lemma triple_and_then:
  assumes "triple U I P m R" "\<And>a. triple U I (R a) (f a) Q"
  shows "triple U I P (and_then m f) Q"
  unfolding triple_def
proof (intro allI impI)
  fix w assume "holds U I w" "P (w_db w)"
  with assms(1) have "wp m (\<lambda>a w'. holds U I w' \<and> R a (w_db w')) (\<lambda>_ w'. holds U I w') w"
    by (simp add: triple_def)
  then show "wp (and_then m f) (\<lambda>a w'. holds U I w' \<and> Q a (w_db w')) (\<lambda>_ w'. holds U I w') w"
    unfolding wp_and_then
    by (rule wp_mono) (use assms(2) in \<open>auto simp: triple_def\<close>)
qed

lemma preserves_and_then [keeps]:
  "\<lbrakk>preserves U I m; \<And>a. preserves U I (f a)\<rbrakk> \<Longrightarrow> preserves U I (and_then m f)"
  by (rule triple_and_then)

lemma triple_map_err [keeps]: "triple U I P m Q \<Longrightarrow> triple U I P (map_err g m) Q"
  by (simp add: triple_def wp)

lemma preserves_attempt [keeps]: "preserves U I m \<Longrightarrow> preserves U I (attempt m)"
  by (simp add: triple_def wp)

lemma triple_ok [keeps]: "triple U I P (ok a) (\<lambda>_. P)"
  and triple_err [keeps]: "triple U I P (err e) Q"
  and triple_ok_or [keeps]: "triple U I P (ok_or x e) (\<lambda>_. P)"
  and triple_result [keeps]: "triple U I P (result r) (\<lambda>_. P)"
  by (simp_all add: triple_def wp split: option.split sum.split)

lemma triple_ok_if: "(\<And>d. P d \<Longrightarrow> Q a d) \<Longrightarrow> triple U I P (ok a) Q"
  by (simp add: triple_def wp)

lemma holds_upd [simp]:
  "holds U I (w\<lparr>w_utc := a\<rparr>) = holds U I w" "holds U I (w\<lparr>w_mono := a\<rparr>) = holds U I w"
  "holds U I (w\<lparr>w_rng := b\<rparr>) = holds U I w" "holds U I (w\<lparr>w_outbox := c\<rparr>) = holds U I w"
  "holds U I (w\<lparr>w_keys := k\<rparr>) = holds U I w" "holds U I (log_check l x w) = holds U I w"
  by (simp_all add: holds_def)

lemma holds_shift [simp]: "holds U I w \<Longrightarrow> holds U I (w\<lparr>w_ids := shift n (w_ids w)\<rparr>)"
  by (simp add: holds_def)

lemma holds_after_stmt [simp]: "holds U I w \<Longrightarrow> holds U I (after_stmt w)"
  by (simp add: holds_def)

lemma holds_drop_tx [simp]: "holds U I w \<Longrightarrow> holds U I (drop_tx w)"
  by (auto simp: holds_def drop_tx_def split: option.split)

lemma triple_utc_now [keeps]: "triple U I P utc_now (\<lambda>_. P)"
  and triple_instant_now [keeps]: "triple U I P instant_now (\<lambda>_. P)"
  and triple_uuid_now_v7 [keeps]: "triple U I P uuid_now_v7 (\<lambda>_. P)"
  and triple_random_bytes [keeps]: "triple U I P (random_bytes n) (\<lambda>_. P)"
  and triple_send [keeps]: "triple U I P (send_in_background m) (\<lambda>_. P)"
  and triple_store_keys [keeps]: "triple U I P (store_keys ks) (\<lambda>_. P)"
  and triple_load_keys [keeps]: "triple U I P load_keys (\<lambda>_. P)"
  and triple_token_generate [keeps]: "triple U I P (token_generate E) (\<lambda>_. P)"
  and triple_encrypt [keeps]: "triple U I P (master_key_encrypt E mk s c) (\<lambda>_. P)"
  by (simp_all add: triple_def wp)

lemma triple_code_generate [keeps]: "triple U I P (code_generate E k owner) (\<lambda>_. P)"
  and triple_limiter_check [keeps]: "triple U I P (limiter_check E l key) (\<lambda>_. P)"
  by (simp_all add: triple_def wp Let_def split: option.split prod.split)

lemma triple_exec_with:
  assumes "step_ok U I P q"
    and "\<And>now new_id d a d'. \<lbrakk>I d; P d; q now new_id d = Inr (a, d')\<rbrakk> \<Longrightarrow> Q a d'"
  shows "triple U I P (exec q) Q"
  unfolding triple_def wp
proof (intro allI impI)
  fix w assume w: "holds U I w" "P (w_db w)"
  show "if w_faults w 0 then holds U I (after_stmt w)
    else case q (stmt_now w) (w_ids w 0) (w_db w) of
        Inl e \<Rightarrow> holds U I (after_stmt w)
      | Inr (a, d) \<Rightarrow> holds U I (after_stmt w\<lparr>w_db := d\<rparr>) \<and> Q a (w_db (after_stmt w\<lparr>w_db := d\<rparr>))"
  proof (cases "q (stmt_now w) (w_ids w 0) (w_db w)")
    case (Inl e)
    with w show ?thesis by simp
  next
    case (Inr r)
    then obtain a d where q: "q (stmt_now w) (w_ids w 0) (w_db w) = Inr (a, d)" by (cases r) auto
    then have "I d" using assms(1) w unfolding step_ok_def holds_def by blast
    moreover have "Q a d" using assms(2) w q unfolding holds_def by blast
    ultimately show ?thesis using q w by (simp add: holds_def)
  qed
qed

lemma triple_exec:
  assumes "step_ok U I P q"
    and "\<And>now new_id d a d'. \<lbrakk>P d; q now new_id d = Inr (a, d')\<rbrakk> \<Longrightarrow> Q a d'"
  shows "triple U I P (exec q) Q"
  using assms by (intro triple_exec_with)

lemma preserves_exec [keeps]: "stmt_ok U I q \<Longrightarrow> preserves U I (exec q)"
  by (rule triple_exec) auto

lemma triple_read: "read_only q \<Longrightarrow> triple U I P (exec q) (\<lambda>_. P)"
  unfolding read_only_def by (rule triple_exec) (unfold step_ok_def, blast+)

lemma preserves_sql [keeps]: "stmt_ok U I q \<Longrightarrow> preserves U I (sql q)"
  and preserves_osql [keeps]: "stmt_ok U I q \<Longrightarrow> preserves U I (osql q)"
  by (simp_all add: sql_def osql_def triple_map_err preserves_exec)

lemma preserves_begin [keeps]: "preserves U I begin_tx"
  and preserves_commit [keeps]: "preserves U I commit_tx"
  and preserves_rollback [keeps]: "preserves U I rollback_tx"
  by (auto simp: triple_def wp holds_def drop_tx_def split: option.split)

lemma preserves_scoped [keeps]: "preserves U I m \<Longrightarrow> preserves U I (scoped m)"
  unfolding triple_def wp by (blast intro: wp_mono holds_drop_tx)

lemma preserves_if [keeps]:
  "\<lbrakk>b \<Longrightarrow> triple U I P m Q; \<not> b \<Longrightarrow> triple U I P m' Q\<rbrakk> \<Longrightarrow> triple U I P (if b then m else m') Q"
  by simp

lemma preserves_option [keeps]:
  "\<lbrakk>triple U I P m Q; \<And>a. triple U I P (f a) Q\<rbrakk> \<Longrightarrow> triple U I P (case x of None \<Rightarrow> m | Some a \<Rightarrow> f a) Q"
  by (cases x) simp_all

lemma preserves_sum [keeps]:
  "\<lbrakk>\<And>a. triple U I P (g a) Q; \<And>a. triple U I P (f a) Q\<rbrakk> \<Longrightarrow> triple U I P (case x of Inl a \<Rightarrow> g a | Inr a \<Rightarrow> f a) Q"
  by (cases x) simp_all

lemma preserves_prod [keeps]:
  "(\<And>a b. triple U I P (f a b) Q) \<Longrightarrow> triple U I P (case x of (a, b) \<Rightarrow> f a b) Q"
  by (cases x) simp_all

lemma preserves_Let [keeps]: "(\<And>a. triple U I P (f a) Q) \<Longrightarrow> triple U I P (Let x f) Q"
  by simp

lemma read_only_ok: "read_only q \<Longrightarrow> stmt_ok U I q"
  unfolding read_only_def step_ok_def by blast

lemma read_only_stmts:
  "read_only (users_find_by_email E email)" "read_only (users_find_by_id i)"
  "read_only (login_flows_find_pending_magic_link_flow i)"
  "read_only (authorization_codes_find_consumed h)" "read_only (sessions_find_authenticated i)"
  "read_only (sessions_list_active_for_user i)" "read_only (refresh_tokens_find_for_update h)"
  "read_only (refresh_tokens_has_used_successor i)" "read_only (signing_keys_list_published t g)"
  "read_only (magic_links_newest_email i)" "read_only lock_stmt"
  "read_only (magic_links_candidate i e a b)" "read_only (confirmations_candidate u s c a b)"
  by (auto simp: read_only_def sql Let_def)

lemmas read_stmts_ok [keeps] = read_only_stmts [THEN read_only_ok]

lemma preserves_in_batches [keeps]:
  assumes "preserves U I m"
  shows "preserves U I (in_batches m n)"
proof -
  have "holds U I w'" if "in_batches m n w = Some (r, w')" "holds U I w" for w r w'
    by (rule in_batches_keeps [where J = "holds U I", OF preserves_run [OF assms] that(2,1)])
  then show ?thesis by (auto simp: triple_def wp_def split: option.split sum.split)
qed

lemma newest_Some:
  assumes "newest at i rows = Some r"
  shows "r \<in> set rows"
proof -
  have "foldl (\<lambda>best r. case best of None \<Rightarrow> Some r
      | Some b \<Rightarrow> if at b < at r \<or> (at b = at r \<and> i b < i r) then Some r else Some b) best rows = Some r
    \<Longrightarrow> r \<in> set rows \<or> best = Some r" for best
    by (induction rows arbitrary: best) (force split: option.splits if_splits)+
  with assms show ?thesis unfolding newest_def by blast
qed

lemma newest_link_set: "newest_link d f = Some m \<Longrightarrow> m \<in> set (magic_links d) \<and> m_flow_id m = f"
  by (auto simp: newest_link_def dest: newest_Some)

lemma newest_confirmation_set: "newest_confirmation d s a = Some n \<Longrightarrow>
    n \<in> set (confirmations d) \<and> n_session_id n = s \<and> n_action n = a"
  by (auto simp: newest_confirmation_def dest: newest_Some)

section \<open>What an invariant owes\<close>

text \<open>What the callers establish before a statement that is only safe in context.\<close>

definition flow_completed :: "uuid \<Rightarrow> db \<Rightarrow> bool" where
  "flow_completed i d \<longleftrightarrow> (\<exists>f \<in> set (login_flows d). f_id f = i \<and> f_completed_at f \<noteq> None)"

definition code_consumed :: "uuid \<Rightarrow> db \<Rightarrow> bool" where
  "code_consumed i d \<longleftrightarrow> (\<exists>c \<in> set (authorization_codes d). c_id c = i \<and> c_consumed_at c \<noteq> None)"

definition link_open :: "uuid \<Rightarrow> db \<Rightarrow> bool" where
  "link_open i d \<longleftrightarrow> (\<exists>m \<in> set (magic_links d). m_id m = i \<and> m_consumed_at m = None \<and>
     m_code_failures m < MAX_FAILURES_PER_CODE)"

definition confirmation_open :: "uuid \<Rightarrow> db \<Rightarrow> bool" where
  "confirmation_open i d \<longleftrightarrow> (\<exists>n \<in> set (confirmations d). n_id n = i \<and> n_consumed_at n = None \<and>
     n_code_failures n < MAX_FAILURES_PER_CODE)"

definition token_open :: "uuid \<Rightarrow> db \<Rightarrow> bool" where
  "token_open i d \<longleftrightarrow> (\<exists>r \<in> set (refresh_tokens d). r_id r = i \<and> r_superseded_at r = None)"

definition token_read :: "refresh_token_with_session \<Rightarrow> db \<Rightarrow> bool" where
  "token_read c d \<longleftrightarrow> (\<exists>r \<in> set (refresh_tokens d). r_id r = rs_id c \<and> r_session_id r = rs_session_id c \<and>
     r_superseded_at r = rs_superseded_at c \<and> r_rotated_at r = rs_rotated_at c)"

text \<open>A refresh token is created for a session of its own transaction, or after a token of the session that was
  rotated and is not superseded.\<close>

definition token_rotated :: "uuid \<Rightarrow> uuid \<Rightarrow> db \<Rightarrow> bool" where
  "token_rotated s i d \<longleftrightarrow> (\<exists>r \<in> set (refresh_tokens d). r_id r = i \<and> r_session_id r = s \<and>
     r_rotated_at r \<noteq> None \<and> r_superseded_at r = None)"

definition token_slot :: "(db \<Rightarrow> bool) \<Rightarrow> uuid \<Rightarrow> uuid option \<Rightarrow> db \<Rightarrow> bool" where
  "token_slot I s q d \<longleftrightarrow> (case q of
      None \<Rightarrow> \<exists>d0. I d0 \<and> s \<notin> s_id ` set (sessions d0) \<and> refresh_tokens d = refresh_tokens d0
    | Some i \<Rightarrow> token_rotated s i d)"

lemma token_rotated_mark:
  assumes "token_read c d" "rs_superseded_at c = None" "refresh_tokens_mark_rotated (rs_id c) now new_id d = Inr (a, d')"
  shows "token_rotated (rs_session_id c) (rs_id c) d'"
proof -
  from assms(1,2) obtain r where r: "r \<in> set (refresh_tokens d)" "r_id r = rs_id c" "r_session_id r = rs_session_id c"
    "r_superseded_at r = None" by (auto simp: token_read_def)
  let ?p = "\<lambda>r. r_id r = rs_id c \<and> r_rotated_at r = None" and ?g = "\<lambda>r :: refresh_token_row. r\<lparr>r_rotated_at := Some now\<rparr>"
  have "refresh_tokens d' = upd_where ?p ?g (refresh_tokens d)" using assms(3) by (auto simp: refresh_tokens_mark_rotated_def)
  with r show ?thesis
    unfolding token_rotated_def by (intro bexI [of _ "if ?p r then ?g r else r"]) (auto simp: set_upd_where)
qed

lemma token_rotated_supersede:
  assumes "token_rotated s i d" "refresh_tokens_supersede_unused_successors k now new_id d = Inr (a, d')"
  shows "token_rotated s i d'"
  using assms unfolding token_rotated_def refresh_tokens_supersede_unused_successors_def
  by (fastforce simp: set_upd_where)

locale db_invariant =
  fixes E :: ext and U :: "uuid set" and I :: "db \<Rightarrow> bool"
  assumes users_create_ok: "\<And>e. stmt_ok U I (users_create E e)"
    and mark_verified_ok: "\<And>i e. stmt_ok U I (users_mark_email_verified i e)"
    and users_change_email_ok: "\<And>i a b. stmt_ok U I (users_change_email i a b)"
    and flows_create_ok: "\<And>c r ch s t. stmt_ok U I (login_flows_create c r ch s t)"
    and flows_complete_ok: "\<And>i. stmt_ok U I (login_flows_complete i)"
    and flows_count_ok: "\<And>i t. stmt_ok U I (login_flows_count_magic_link_request i MAX_EMAILS_PER_FLOW t)"
    and codes_create_ok: "\<And>h f u t. step_ok U I (flow_completed f) (authorization_codes_create h f u t)"
    and codes_consume_ok: "\<And>h. stmt_ok U I (authorization_codes_consume h)"
    and sessions_create_ok: "\<And>u c k t. step_ok U I (code_consumed k) (sessions_create u c k t)"
    and revoke_ok: "\<And>p now d. I d \<Longrightarrow> I (revoke_where p now d)"
    and tokens_create_ok: "\<And>s h q. step_ok U I (token_slot I s q) (refresh_tokens_create s h q)"
    and mark_rotated_ok: "\<And>i. step_ok U I (token_open i) (refresh_tokens_mark_rotated i)"
    and supersede_ok: "\<And>i. stmt_ok U I (refresh_tokens_supersede_unused_successors i)"
    and keys_insert_ok: "\<And>i p e t. stmt_ok U I (signing_keys_insert i p e t)"
    and keys_retire_ok: "\<And>i t. stmt_ok U I (signing_keys_retire_all_except i t)"
    and links_create_ok: "\<And>f u e h c t. stmt_ok U I (magic_links_create E f u e h c t)"
    and links_consume_ok: "\<And>h. stmt_ok U I (magic_links_consume h)"
    and links_failure_ok:
      "\<And>i. step_ok U I (link_open i) (magic_links_record_code_failure i MAX_FAILURES_PER_CODE)"
    and links_consume_by_id_ok: "\<And>i. stmt_ok U I (magic_links_consume_by_id i)"
    and changes_create_ok: "\<And>u a b h t. stmt_ok U I (email_changes_create E u a b h t)"
    and changes_consume_ok: "\<And>h. stmt_ok U I (email_changes_consume h)"
    and confirmations_create_ok: "\<And>u s a e c t. stmt_ok U I (confirmations_create u s a e c t)"
    and confirmations_failure_ok:
      "\<And>i. step_ok U I (confirmation_open i) (confirmations_record_code_failure i MAX_FAILURES_PER_CODE)"
    and confirmations_consume_ok: "\<And>i. stmt_ok U I (confirmations_consume_by_id i)"
    and delete_flows_ok: "\<And>p d. I d \<Longrightarrow> I (delete_login_flows p d)"
    and delete_changes_ok: "\<And>p d. I d \<Longrightarrow> I (delete_email_changes p d)"
    and delete_confirmations_ok: "\<And>p d. I d \<Longrightarrow> I (delete_confirmations p d)"
    and delete_sessions_ok: "\<And>p d. I d \<Longrightarrow> I (delete_sessions p d)"
    and delete_users_ok: "\<And>p d. I d \<Longrightarrow> I (delete_users p d)"
    and delete_keys_ok: "\<And>p d. I d \<Longrightarrow> I (delete_signing_keys p d)"
begin

lemmas stmts_ok = users_create_ok mark_verified_ok users_change_email_ok flows_create_ok
  flows_complete_ok flows_count_ok codes_consume_ok supersede_ok
  keys_insert_ok keys_retire_ok links_create_ok links_consume_ok links_consume_by_id_ok
  changes_create_ok changes_consume_ok confirmations_create_ok confirmations_consume_ok

lemma revocations_ok:
  "stmt_ok U I (sessions_revoke i)" "stmt_ok U I (sessions_revoke_by_authorization_code i)"
  "stmt_ok U I (sessions_revoke_by_refresh_token h c)" "stmt_ok U I (sessions_revoke_for_user i u)"
  by (auto simp: step_ok_def sql Let_def revoke_ok)

lemma deletions_ok:
  "stmt_ok U I (users_delete i)" "stmt_ok U I purge_signing_keys"
  "(\<And>p d. I d \<Longrightarrow> I (del p d)) \<Longrightarrow> stmt_ok U I (delete_batch rows key del old)"
  by (auto simp: step_ok_def sql purge_signing_keys_def delete_batch_def Let_def delete_users_ok delete_keys_ok)

lemma flow_complete_keeps: "preserves U I (flow_complete E' f u)"
proof -
  have complete: "triple U I (\<lambda>_. True) (exec (login_flows_complete f)) (\<lambda>r d. r \<longrightarrow> flow_completed f d)"
  proof (rule triple_exec [OF flows_complete_ok])
    fix now new_id d r d'
    assume "login_flows_complete f now new_id d = Inr (r, d')"
    then have r: "r \<longleftrightarrow> count_where (\<lambda>g. f_id g = f \<and> flow_pending now g) (login_flows d) = 1"
      and d': "login_flows d' = upd_where (\<lambda>g. f_id g = f \<and> flow_pending now g)
        (\<lambda>g. g\<lparr>f_completed_at := Some now\<rparr>) (login_flows d)"
      by (auto simp: login_flows_complete_def Let_def)
    show "r \<longrightarrow> flow_completed f d'"
    proof
      assume r
      then have "filter (\<lambda>g. f_id g = f \<and> flow_pending now g) (login_flows d) \<noteq> []"
        using r by (auto simp: count_where_def)
      then obtain g where "g \<in> set (login_flows d)" "f_id g = f" "flow_pending now g"
        by (auto simp: filter_empty_conv)
      then show "flow_completed f d'"
        unfolding flow_completed_def d' in_upd_where
        by (intro bexI [of _ "g\<lparr>f_completed_at := Some now\<rparr>"]) (auto simp: set_upd_where)
    qed
  qed
  have create: "triple U I (flow_completed f) (exec (authorization_codes_create h f u t)) (\<lambda>_ _. True)" for h t
    by (rule triple_exec [OF codes_create_ok]) simp
  have rest: "triple U I (flow_completed f)
      (and_then (token_generate E') (\<lambda>code. and_then utc_now (\<lambda>now.
         and_then (exec (authorization_codes_create (tok_hash code) f u (now + FLOW_CODE_TTL))) (\<lambda>_.
         ok (Some (Completed (tok_plain code))))))) (\<lambda>_ _. True)"
    by (rule triple_and_then [OF triple_token_generate], rule triple_and_then [OF triple_utc_now],
        rule triple_and_then [OF create], rule triple_ok)
  show ?thesis
    unfolding flow_complete_def
    by (rule triple_and_then [OF complete], rule preserves_if)
       (rule triple_pre, rule triple_ok, rule triple_weaken [OF rest], simp_all)
qed

lemma log_in_keeps: "preserves U I (log_in E f u e s)"
  unfolding log_in_def login_user_def log_in_end_def by (intro keeps stmts_ok flow_complete_keeps)

lemma new_refresh_token_triple: "triple U I (token_slot I s q) (new_refresh_token E' s q) (\<lambda>_ _. True)"
proof -
  have "triple U I (token_slot I s q) (exec (refresh_tokens_create s h q)) (\<lambda>_ _. True)" for h
    by (rule triple_exec [OF tokens_create_ok]) simp
  then show ?thesis
    unfolding new_refresh_token_def by (intro triple_and_then [OF triple_token_generate] triple_and_then [where R = "\<lambda>_ _. True"] triple_ok)
qed

lemma issue_keeps: "preserves U I (issue E' ks is u s c now)"
  unfolding issue_def by (intro keeps)

lemma load_keeps: "preserves U I (signing_keys_load E' mk)"
  unfolding signing_keys_load_def by (intro keeps)

lemma key_generate_keeps: "preserves U I (key_generate E' mk)"
  unfolding key_generate_def by (intro keeps)

subsection \<open>The token endpoint\<close>

lemma consume_triple: "triple U I (\<lambda>_. True) (osql (authorization_codes_consume h))
    (\<lambda>r d. case r of None \<Rightarrow> True | Some c \<Rightarrow> code_consumed (cc_id c) d)"
  unfolding osql_def
proof (intro triple_map_err triple_exec [OF codes_consume_ok])
  fix now new_id d r d'
  assume q: "authorization_codes_consume h now new_id d = Inr (r, d')"
  show "case r of None \<Rightarrow> True | Some c \<Rightarrow> code_consumed (cc_id c) d'"
  proof (cases r)
    case (Some c)
    let ?p = "\<lambda>c. flow_of d (c_flow_id c) \<noteq> None \<and> c_code_hash c = h \<and> c_consumed_at c = None \<and> c_expires_at c > now"
    from q Some obtain row where row: "List.find ?p (authorization_codes d) = Some row" "cc_id c = c_id row"
      by (auto simp: authorization_codes_consume_def Let_def upd_returning_def split: option.splits)
    then have "row \<in> set (authorization_codes d)" "?p row" by (auto dest: find_Some_set)
    moreover have "authorization_codes d' = upd_where ?p (\<lambda>c. c\<lparr>c_consumed_at := Some now\<rparr>) (authorization_codes d)"
      using q by (auto simp: authorization_codes_consume_def Let_def upd_returning_def)
    ultimately have "row\<lparr>c_consumed_at := Some now\<rparr> \<in> set (authorization_codes d')"
      by (auto simp: set_upd_where)
    with row(2) Some show ?thesis
      by (auto simp: code_consumed_def intro!: bexI [of _ "row\<lparr>c_consumed_at := Some now\<rparr>"])
  qed simp
qed

lemma consume_then:
  assumes "preserves U I m" "\<And>c. triple U I (code_consumed (cc_id c)) (f c) (\<lambda>_ _. True)"
  shows "preserves U I (and_then (osql (authorization_codes_consume h))
    (\<lambda>found. case found of None \<Rightarrow> m | Some c \<Rightarrow> f c))"
  by (rule triple_and_then [OF consume_triple]) (auto simp: assms split: option.split)

lemma read_then:
  assumes "\<And>a. triple U I P (f a) (\<lambda>_ _. True)"
  shows "triple U I P (and_then (osql (users_find_by_id i)) f) (\<lambda>_ _. True)"
  unfolding osql_def
  by (rule triple_and_then [OF triple_map_err [OF triple_read [OF read_only_stmts(2)]] assms])

lemma sessions_open_keeps:
  "triple U I (code_consumed k) (sessions_open E' u c k) (\<lambda>_ _. True)"
proof -
  have create: "triple U I (code_consumed k) (exec (sessions_create u c k t)) (\<lambda>i. token_slot I i None)" for t
    by (rule triple_exec_with [OF sessions_create_ok]) (auto simp: sessions_create_def token_slot_def split: if_splits)
  show ?thesis
    unfolding sessions_open_def
    by (intro triple_and_then [OF triple_utc_now] triple_and_then [OF create] triple_and_then [OF new_refresh_token_triple] triple_ok)
qed

lemma open_then:
  assumes "\<And>a. preserves U I (f a)"
  shows "triple U I (code_consumed k) (and_then (map_err g (sessions_open E' u c k)) f) (\<lambda>_ _. True)"
  by (rule triple_and_then [OF triple_map_err [OF sessions_open_keeps] assms])

lemma reject_keeps: "preserves U I (reject_unusable_code h)"
  unfolding reject_unusable_code_def by (intro keeps revocations_ok)

lemma authorization_code_grant_keeps: "preserves U I (authorization_code_grant E st input)"
  unfolding authorization_code_grant_def required_def
  by (intro consume_then read_then open_then keeps reject_keeps issue_keeps)

lemma find_for_update_triple: "triple U I (\<lambda>_. True) (osql (refresh_tokens_find_for_update h))
    (\<lambda>r d. case r of None \<Rightarrow> True | Some c \<Rightarrow> token_read c d)"
  unfolding osql_def
proof (intro triple_map_err triple_exec [OF read_only_ok])
  fix now new_id d r d'
  assume "refresh_tokens_find_for_update h now new_id d = Inr (r, d')"
  then show "case r of None \<Rightarrow> True | Some c \<Rightarrow> token_read c d'"
    by (fastforce simp: refresh_tokens_find_for_update_def token_read_def with_session_def session_of_def
        dest: find_Some_set split: option.splits)
qed (rule read_only_stmts)

text \<open>A token that is not stolen is a rotated one afterwards.\<close>

lemma refresh_stolen_triple:
  "triple U I (token_read c) (refresh_stolen c now) (\<lambda>stolen d. stolen \<or> token_rotated (rs_session_id c) (rs_id c) d)"
proof -
  let ?R = "token_rotated (rs_session_id c) (rs_id c)"
  consider (superseded) t where "rs_superseded_at c = Some t" | (fresh) "rs_superseded_at c = None" "rs_rotated_at c = None"
    | (rotated) t where "rs_superseded_at c = None" "rs_rotated_at c = Some t" by (cases "rs_rotated_at c") auto
  then show ?thesis
  proof cases
    case superseded
    have "triple U I (token_read c) (ok True) (\<lambda>stolen d. stolen \<or> ?R d)" by (rule triple_ok_if) simp
    with superseded show ?thesis by (simp add: refresh_stolen_def)
  next
    case fresh
    have "triple U I (token_read c) (osql (refresh_tokens_mark_rotated (rs_id c))) (\<lambda>_. ?R)"
      unfolding osql_def
    proof (intro triple_map_err triple_exec)
      show "step_ok U I (token_read c) (refresh_tokens_mark_rotated (rs_id c))"
        using mark_rotated_ok [of "rs_id c"] fresh unfolding step_ok_def token_read_def token_open_def by metis
    qed (rule token_rotated_mark [OF _ fresh(1)])
    from triple_and_then [OF this triple_ok_if [where Q = "\<lambda>stolen d. stolen \<or> ?R d" and a = False]] fresh
    show ?thesis by (simp add: refresh_stolen_def)
  next
    case rotated
    have used: "triple U I ?R (osql (refresh_tokens_has_used_successor (rs_id c))) (\<lambda>_. ?R)"
      unfolding osql_def by (intro triple_map_err triple_read read_only_stmts)
    have supersede: "triple U I ?R (osql (refresh_tokens_supersede_unused_successors (rs_id c))) (\<lambda>_. ?R)"
      unfolding osql_def
      by (intro triple_map_err triple_exec step_ok_any [OF supersede_ok]) (rule token_rotated_supersede)
    have "triple U I ?R (if now - t \<le> REFRESH_REUSE_GRACE then ok False
        else and_then (osql (refresh_tokens_has_used_successor (rs_id c))) (\<lambda>stolen. if stolen then ok True
          else and_then (osql (refresh_tokens_supersede_unused_successors (rs_id c))) (\<lambda>_. ok False)))
        (\<lambda>stolen d. stolen \<or> ?R d)"
      by (intro preserves_if triple_and_then [OF used] triple_and_then [OF supersede] triple_ok_if) simp_all
    then have "triple U I ?R (refresh_stolen c now) (\<lambda>stolen d. stolen \<or> ?R d)"
      using rotated by (simp add: refresh_stolen_def)
    moreover have "?R d" if "token_read c d" for d
      using that rotated unfolding token_read_def token_rotated_def by (metis option.distinct(1))
    ultimately show ?thesis by (auto elim: triple_weaken)
  qed
qed

lemma refresh_finish_triple:
  "triple U I (token_rotated (rs_session_id c) (rs_id c)) (refresh_finish E st client c now) (\<lambda>_ _. True)"
proof -
  have new: "triple U I (token_rotated (rs_session_id c) (rs_id c))
      (new_refresh_token E (rs_session_id c) (Some (rs_id c))) (\<lambda>_ _. True)"
    by (rule triple_weaken [OF new_refresh_token_triple]) (simp_all add: token_slot_def)
  show ?thesis
    unfolding refresh_finish_def
    by (intro read_then preserves_if triple_pre [OF preserves_and_then] triple_and_then [OF triple_map_err [OF new]]
        keeps revocations_ok issue_keeps)
qed

lemma find_for_update_then:
  assumes "preserves U I m" "\<And>c. triple U I (token_read c) (f c) (\<lambda>_ _. True)"
  shows "preserves U I (and_then (osql (refresh_tokens_find_for_update h)) (\<lambda>found. case found of None \<Rightarrow> m | Some c \<Rightarrow> f c))"
  by (rule triple_and_then [OF find_for_update_triple]) (auto simp: assms split: option.split)

lemma stolen_then:
  assumes "preserves U I m" "triple U I (token_rotated (rs_session_id c) (rs_id c)) n (\<lambda>_ _. True)"
  shows "triple U I (token_read c) (and_then (refresh_stolen c now) (\<lambda>stolen. if stolen then m else n)) (\<lambda>_ _. True)"
proof (rule triple_and_then [OF refresh_stolen_triple])
  fix stolen
  show "triple U I (\<lambda>d. stolen \<or> token_rotated (rs_session_id c) (rs_id c) d) (if stolen then m else n) (\<lambda>_ _. True)"
    using assms by (cases stolen) (auto elim: triple_weaken)
qed

lemma refresh_token_grant_keeps: "preserves U I (refresh_token_grant E st input)"
  unfolding refresh_token_grant_def required_def
  by (intro find_for_update_then stolen_then refresh_finish_triple triple_pre [OF preserves_and_then] keeps revocations_ok)

lemma oauth_token_keeps: "preserves U I (oauth_token E st input)"
  unfolding oauth_token_def
  by (intro keeps authorization_code_grant_keeps refresh_token_grant_keeps)

lemma oauth_revoke_keeps: "preserves U I (oauth_revoke E st input)"
  unfolding oauth_revoke_def by (intro keeps revocations_ok)

subsection \<open>Logging in\<close>

lemma create_flow_keeps: "preserves U I (create_flow st input)"
  unfolding create_flow_def by (intro keeps stmts_ok)

lemma send_magic_link_keeps: "preserves U I (send_magic_link E st c f e t r)"
  unfolding send_magic_link_def by (intro keeps stmts_ok)

lemma flow_exhausted_keeps: "preserves U I (flow_exhausted flow)"
  unfolding flow_exhausted_def by (intro keeps)

lemma magic_link_request_keeps: "preserves U I (magic_link_request E st ip f e)"
  unfolding magic_link_request_def
  by (intro keeps stmts_ok flow_exhausted_keeps send_magic_link_keeps)

lemma magic_link_confirm_keeps: "preserves U I (magic_link_confirm E st ip tok)"
  unfolding magic_link_confirm_def by (intro keeps stmts_ok log_in_keeps)

lemma link_candidate_triple:
  "triple U I (\<lambda>_. True) (magic_links_find_code_candidate f MAX_FAILURES_PER_CODE b)
     (\<lambda>r d. case r of None \<Rightarrow> True | Some l \<Rightarrow> link_open (lc_id l) d)"
proof -
  have candidate: "triple U I (\<lambda>_. True) (exec (magic_links_candidate f e MAX_FAILURES_PER_CODE b))
     (\<lambda>r d. case r of None \<Rightarrow> True | Some l \<Rightarrow> link_open (lc_id l) d)" for e
  proof (rule triple_exec [OF read_only_ok [OF read_only_stmts(12)]])
    fix now new_id d r d'
    assume "magic_links_candidate f e MAX_FAILURES_PER_CODE b now new_id d = Inr (r, d')"
    then show "case r of None \<Rightarrow> True | Some l \<Rightarrow> link_open (lc_id l) d'"
      using newest_link_set [of d f]
      by (auto simp: magic_links_candidate_def link_open_def split: option.splits if_splits)
  qed
  have none: "triple U I (\<lambda>_. True) (ok None) (\<lambda>r d. case r of None \<Rightarrow> True | Some l \<Rightarrow> link_open (lc_id l) d)"
    by (simp add: triple_def wp)
  show ?thesis
    unfolding magic_links_find_code_candidate_def
    by (intro triple_and_then [where R = "\<lambda>_ _. True"] preserves_option none candidate preserves_exec read_stmts_ok)
qed

lemma confirm_code_keeps: "preserves U I (confirm_code E st ip f code)"
proof -
  have failure: "triple U I (link_open i) (sql (magic_links_record_code_failure i MAX_FAILURES_PER_CODE))
      (\<lambda>_ _. True)" for i
    unfolding sql_def by (intro triple_map_err triple_exec [OF links_failure_ok]) simp
  show ?thesis
    unfolding confirm_code_def use_code_def
    apply (intro preserves_scoped preserves_and_then [OF triple_limiter_check]
        preserves_and_then [OF triple_result] preserves_and_then [OF triple_map_err [OF preserves_begin]])
    apply (rule triple_and_then [OF triple_map_err [OF link_candidate_triple]])
    apply (rule triple_and_then [where R = "\<lambda>l. link_open (lc_id l)"])
     apply (simp add: triple_def wp split: option.split)
    apply (rule preserves_if)
     apply (rule triple_and_then [OF failure])
     apply (intro keeps)
    apply (rule triple_pre)
    apply (intro keeps stmts_ok log_in_keeps)
    done
qed

subsection \<open>The account\<close>

lemma current_user_keeps: "preserves U I (current_user_from_request E' st auth)"
  unfolding current_user_from_request_def by (intro keeps)

lemma me_get_keeps: "preserves U I (me_get user)"
  unfolding me_get_def by (intro keeps)

lemma list_sessions_keeps: "preserves U I (list_sessions st user)"
  unfolding list_sessions_def by (intro keeps)

lemma revoke_session_keeps: "preserves U I (revoke_session user i)"
  unfolding revoke_session_def by (intro keeps revocations_ok)

lemma request_confirmation_keeps: "preserves U I (request_confirmation E' st ip user action)"
  unfolding request_confirmation_def by (intro keeps stmts_ok)

lemma confirmation_candidate_triple:
  "triple U I (\<lambda>_. True) (confirmations_find_code_candidate u s a MAX_FAILURES_PER_CODE b)
     (\<lambda>r d. case r of None \<Rightarrow> True | Some l \<Rightarrow> confirmation_open (nc_id l) d)"
proof -
  have candidate: "triple U I (\<lambda>_. True) (exec (confirmations_candidate u s a MAX_FAILURES_PER_CODE b))
     (\<lambda>r d. case r of None \<Rightarrow> True | Some l \<Rightarrow> confirmation_open (nc_id l) d)"
  proof (rule triple_exec [OF read_only_ok [OF read_only_stmts(13)]])
    fix now new_id d r d'
    assume "confirmations_candidate u s a MAX_FAILURES_PER_CODE b now new_id d = Inr (r, d')"
    then show "case r of None \<Rightarrow> True | Some l \<Rightarrow> confirmation_open (nc_id l) d'"
      using newest_confirmation_set [of d s a]
      by (auto simp: confirmations_candidate_def confirmation_open_def split: option.splits if_splits)
  qed
  show ?thesis
    unfolding confirmations_find_code_candidate_def
    by (intro triple_and_then [where R = "\<lambda>_ _. True"] candidate preserves_exec read_stmts_ok)
qed

lemma check_code_keeps: "preserves U I (check_code E' st ip user action code)"
proof -
  have failure: "triple U I (confirmation_open i)
      (sql (confirmations_record_code_failure i MAX_FAILURES_PER_CODE)) (\<lambda>_ _. True)" for i
    unfolding sql_def by (intro triple_map_err triple_exec [OF confirmations_failure_ok]) simp
  show ?thesis
    unfolding check_code_def
    apply (intro preserves_scoped preserves_and_then [OF triple_limiter_check]
        preserves_and_then [OF triple_result] preserves_and_then [OF triple_map_err [OF preserves_begin]])
    apply (rule triple_and_then [OF triple_map_err [OF confirmation_candidate_triple]])
    apply (rule triple_and_then [where R = "\<lambda>l. confirmation_open (nc_id l)"])
     apply (simp add: triple_def wp split: option.split)
    apply (rule preserves_if, rule triple_err)
    apply (rule preserves_if)
     apply (rule triple_and_then [OF failure])
     apply (intro keeps)
    apply (rule triple_pre)
    apply (intro keeps stmts_ok)
    done
qed

lemma change_email_keeps: "preserves U I (change_email E st ip user code e)"
  unfolding change_email_def by (intro keeps stmts_ok check_code_keeps)

lemma email_change_confirm_keeps: "preserves U I (email_change_confirm E st ip tok)"
  unfolding email_change_confirm_def by (intro keeps stmts_ok)

lemma delete_account_keeps: "preserves U I (delete_account E st ip user code)"
  unfolding delete_account_def by (intro keeps check_code_keeps deletions_ok)

subsection \<open>The jobs\<close>

lemma ensure_and_load_keeps: "preserves U I (ensure_and_load E' mk)"
  unfolding ensure_and_load_def by (intro keeps stmts_ok load_keeps key_generate_keeps)

lemma reload_keeps: "preserves U I (reload E' mk)"
  unfolding reload_def by (intro keeps ensure_and_load_keeps)

lemma rotate_keeps: "preserves U I (rotate_if_due E' mk locked)"
  unfolding rotate_if_due_def by (intro keeps stmts_ok key_generate_keeps)

lemma purge_keeps: "preserves U I purge"
  unfolding purge_def
  by (intro keeps deletions_ok delete_flows_ok delete_changes_ok delete_confirmations_ok
      delete_sessions_ok delete_users_ok)

lemma jobs_keep:
  "preserves U I (purge_job locked)" "preserves U I (reload_keys_job E' mk)"
  "preserves U I (rotate_keys_job E' mk locked)"
  unfolding purge_job_def reload_keys_job_def rotate_keys_job_def purge_run_def
  by (intro keeps purge_keeps reload_keeps rotate_keeps)+

end

end
