(* ===== verification/Integrity.thy ===== *)
theory Integrity
  imports Invariant
begin

text \<open>
  The constraints of the schema hold in every state the program produces: each statement keeps
  primary, unique and foreign keys (the violations it reports are the only way it refuses), and each
  cascade leaves no row pointing to a deleted one. This discharges the locale \<open>db_invariant\<close> for
  \<open>wf_db\<close>.
\<close>

section \<open>Updates\<close>

lemma ball_upd_where: "(\<forall>r \<in> set (upd_where p f rows). Q r) \<longleftrightarrow> (\<forall>r \<in> set rows. Q (if p r then f r else r))"
  by (auto simp: upd_where_def)

lemma image_upd_where [simp]: "(\<And>r. k (f r) = k r) \<Longrightarrow> k ` set (upd_where p f rows) = k ` set rows"
  using map_upd_where [of k f p rows] by (metis image_set)

lemma parents_first_append: "parents_first A (xs @ [r]) \<longleftrightarrow> parents_first A xs \<and>
    (case r_parent_id r of None \<Rightarrow> True | Some q \<Rightarrow> q \<in> A \<union> r_id ` set xs)"
  by (induction xs arbitrary: A) (auto split: option.split)

lemma parents_first_upd [simp]:
  "\<lbrakk>\<And>r. r_id (f r) = r_id r; \<And>r. r_parent_id (f r) = r_parent_id r\<rbrakk> \<Longrightarrow>
    parents_first A (upd_where p f rows) = parents_first A rows"
  by (induction rows arbitrary: A) auto

lemma map_filter_upd_where [simp]:
  "(\<And>r. k (f r) = k r) \<Longrightarrow> List.map_filter k (upd_where p f rows) = List.map_filter k rows"
  by (induction rows) (auto split: option.split)

lemma map_filter_append [simp]:
  "List.map_filter k (xs @ ys) = List.map_filter k xs @ List.map_filter k ys"
  by (induction xs) (auto split: option.split)

lemma set_map_filter: "x \<in> set (List.map_filter k xs) \<longleftrightarrow> (\<exists>r \<in> set xs. k r = Some x)"
  by (induction xs) (auto split: option.splits)

lemmas wf_defs = wf_db_def unique_keys_def foreign_keys_def

lemma wf_references:
  assumes "wf_db d"
  shows wf_code_flow: "c \<in> set (authorization_codes d) \<Longrightarrow> c_flow_id c \<in> f_id ` set (login_flows d)"
    and wf_code_user: "c \<in> set (authorization_codes d) \<Longrightarrow> c_user_id c \<in> u_id ` set (users d)"
    and wf_session_user: "s \<in> set (sessions d) \<Longrightarrow> s_user_id s \<in> u_id ` set (users d)"
    and wf_session_code: "\<lbrakk>s \<in> set (sessions d); s_authorization_code_id s = Some k\<rbrakk> \<Longrightarrow>
      k \<in> c_id ` set (authorization_codes d)"
    and wf_token_session: "r \<in> set (refresh_tokens d) \<Longrightarrow> r_session_id r \<in> s_id ` set (sessions d)"
    and wf_link_flow: "m \<in> set (magic_links d) \<Longrightarrow> m_flow_id m \<in> f_id ` set (login_flows d)"
    and wf_link_user: "\<lbrakk>m \<in> set (magic_links d); m_user_id m = Some u\<rbrakk> \<Longrightarrow> u \<in> u_id ` set (users d)"
    and wf_change_user: "e \<in> set (email_changes d) \<Longrightarrow> e_user_id e \<in> u_id ` set (users d)"
    and wf_confirmation_user: "n \<in> set (confirmations d) \<Longrightarrow> n_user_id n \<in> u_id ` set (users d)"
    and wf_confirmation_session: "n \<in> set (confirmations d) \<Longrightarrow> n_session_id n \<in> s_id ` set (sessions d)"
  using assms by (simp_all add: wf_defs)

text \<open>Statements that only change columns without constraints.\<close>

lemma wf_updates:
  "stmt_ok U wf_db (users_mark_email_verified i e)"
  "stmt_ok U wf_db (login_flows_complete i)"
  "stmt_ok U wf_db (login_flows_count_magic_link_request i mx t)"
  "stmt_ok U wf_db (authorization_codes_consume h)"
  "stmt_ok U wf_db (refresh_tokens_mark_rotated i)"
  "stmt_ok U wf_db (refresh_tokens_supersede_unused_successors i)"
  "stmt_ok U wf_db (signing_keys_retire_all_except i t)"
  "stmt_ok U wf_db (magic_links_consume h)"
  "stmt_ok U wf_db (magic_links_consume_by_id i)"
  "stmt_ok U wf_db (email_changes_consume h)"
  "stmt_ok U wf_db (confirmations_consume_by_id i)"
  by (simp_all add: step_ok_def sql Let_def upd_returning_def wf_defs ball_upd_where
      split: option.split prod.split)

lemma wf_failures:
  "step_ok U wf_db P (magic_links_record_code_failure i mx)"
  "step_ok U wf_db P (confirmations_record_code_failure i mx)"
  by (auto simp: step_ok_def sql upd_returning_def wf_defs ball_upd_where split: option.splits)

lemma wf_revoke: "wf_db d \<Longrightarrow> wf_db (revoke_where p now d)"
  by (simp add: revoke_where_def wf_defs ball_upd_where)

section \<open>Inserts\<close>

lemma wf_inserts:
  "stmt_ok U wf_db (users_create E e)"
  "stmt_ok U wf_db (login_flows_create c r ch st t)"
  "stmt_ok U wf_db (signing_keys_insert k pk ek t)"
  "stmt_ok U wf_db (email_changes_create E u a b h t)"
  "stmt_ok U wf_db (confirmations_create u s ac e h t)"
  by (simp_all add: step_ok_def sql Let_def wf_defs)

lemma wf_codes_create: "step_ok U wf_db P (authorization_codes_create h f u t)"
  by (auto simp: step_ok_def sql Let_def wf_defs split: if_splits)

lemma wf_sessions_create: "step_ok U wf_db P (sessions_create u c k t)"
  by (auto simp: step_ok_def sql Let_def wf_defs set_map_filter image_iff split: if_splits)

lemma wf_tokens_create: "step_ok U wf_db P (refresh_tokens_create s h q)"
  by (auto simp: step_ok_def sql Let_def wf_defs parents_first_append split: if_splits option.splits)

lemma wf_links_create: "stmt_ok U wf_db (magic_links_create E f u e h c t)"
  by (auto simp: step_ok_def sql Let_def wf_defs split: if_splits option.splits)

section \<open>Moving an account to another address\<close>

lemma distinct_change_key:
  assumes "distinct (map k rows)" "distinct (map j rows)"
    and "\<And>r. k (f r) = v" "\<And>r. p r \<Longrightarrow> j r = x"
    and "\<And>r. r \<in> set rows \<Longrightarrow> \<not> p r \<Longrightarrow> k r \<noteq> v"
  shows "distinct (map k (upd_where p f rows))"
  using assms
proof (induction rows)
  case Nil
  then show ?case by simp
next
  case (Cons r rows)
  then have IH: "distinct (map k (upd_where p f rows))" by simp
  show ?case
  proof (cases "p r")
    case True
    have none: "\<not> p q" if "q \<in> set rows" for q
    proof
      assume "p q"
      then have "j r = j q" using True by (simp add: Cons.prems(4))
      with Cons.prems(2) that show False by force
    qed
    then have "upd_where p f rows = rows" by (rule upd_where_none)
    with True IH Cons.prems none show ?thesis by auto
  next
    case False
    then have "k r \<noteq> v" using Cons.prems(5) by simp
    with False IH Cons.prems(1,3) show ?thesis by (auto simp: set_upd_where)
  qed
qed

lemma wf_change_email: "stmt_ok U wf_db (users_change_email i a b)"
proof -
  have "wf_db (d\<lparr>users := upd_where (\<lambda>u. u_id u = i \<and> u_email u = a)
      (\<lambda>u. u\<lparr>u_email := b, u_email_verified_at := Some now, u_updated_at := now\<rparr>) (users d)\<rparr>)"
    if wf: "wf_db d" and free: "list_ex (\<lambda>u. u_id u = i \<and> u_email u = a) (users d) \<longrightarrow>
      \<not> list_ex (\<lambda>u. \<not> (u_id u = i \<and> u_email u = a) \<and> u_email u = b) (users d)" for d now
  proof (cases "list_ex (\<lambda>u. u_id u = i \<and> u_email u = a) (users d)")
    case True
    with free have "\<not> (u_id u = i \<and> u_email u = a) \<Longrightarrow> u_email u \<noteq> b" if "u \<in> set (users d)" for u
      using that by (auto simp: list_ex_iff)
    then have "distinct (map u_email (upd_where (\<lambda>u. u_id u = i \<and> u_email u = a)
      (\<lambda>u. u\<lparr>u_email := b, u_email_verified_at := Some now, u_updated_at := now\<rparr>) (users d)))"
      using wf by (intro distinct_change_key [where j = u_id and v = b and x = i]) (auto simp: wf_defs)
    with wf show ?thesis by (simp add: wf_defs)
  next
    case False
    then have "\<not> (u_id u = i \<and> u_email u = a)" if "u \<in> set (users d)" for u
      using that by (auto simp: list_ex_iff)
    then have "upd_where (\<lambda>u. u_id u = i \<and> u_email u = a)
      (\<lambda>u. u\<lparr>u_email := b, u_email_verified_at := Some now, u_updated_at := now\<rparr>) (users d) = users d"
      by (intro upd_where_none) blast
    with wf show ?thesis by simp
  qed
  then show ?thesis
    by (auto simp: step_ok_def users_change_email_def Let_def split: if_splits)
qed

section \<open>Deletes\<close>

lemma set_sweep: "r \<in> set (sweep_tokens p dead rs) \<Longrightarrow> r \<in> set rs \<and> \<not> p r"
  by (induction p dead rs rule: sweep_tokens.induct) (auto split: if_splits option.splits)

lemma distinct_sweep: "distinct (map k rs) \<Longrightarrow> distinct (map k (sweep_tokens p dead rs))"
  by (induction p dead rs rule: sweep_tokens.induct) (auto dest: set_sweep)

lemma parents_first_mono: "parents_first A rs \<Longrightarrow> A \<subseteq> B \<Longrightarrow> parents_first B rs"
proof (induction rs arbitrary: A B)
  case (Cons r rs)
  from Cons.prems have "parents_first (insert (r_id r) B) rs"
    by (auto intro: Cons.IH [of "insert (r_id r) A" "insert (r_id r) B"])
  with Cons.prems show ?case by (auto split: option.splits)
qed simp

lemma parents_first_in:
  "\<lbrakk>parents_first A rs; r \<in> set rs; r_parent_id r = Some q\<rbrakk> \<Longrightarrow> q \<in> A \<union> r_id ` set rs"
  by (induction rs arbitrary: A) (auto split: option.splits)

lemma parents_first_sweep:
  "\<lbrakk>parents_first A rs; distinct (map r_id rs); r_id ` set rs \<inter> set dead = {}\<rbrakk> \<Longrightarrow>
    parents_first (A - set dead) (sweep_tokens p dead rs)"
proof (induction p dead rs arbitrary: A rule: sweep_tokens.induct)
  case (1 p dead)
  then show ?case by simp
next
  case (2 p dead r rs)
  show ?case
  proof (cases "p r \<or> (case r_parent_id r of None \<Rightarrow> False | Some q \<Rightarrow> q \<in> set dead)")
    case True
    have "parents_first (insert (r_id r) A - set (r_id r # dead)) (sweep_tokens p (r_id r # dead) rs)"
    proof (rule "2.IH"(1) [OF True])
      show "parents_first (insert (r_id r) A) rs" using "2.prems"(1) by simp
      show "distinct (map r_id rs)" "r_id ` set rs \<inter> set (r_id r # dead) = {}" using "2.prems"(2,3) by auto
    qed
    then have "parents_first (A - set dead) (sweep_tokens p (r_id r # dead) rs)"
      by (rule parents_first_mono) auto
    with True show ?thesis by simp
  next
    case False
    have "parents_first (insert (r_id r) A - set dead) (sweep_tokens p dead rs)"
    proof (rule "2.IH"(2) [OF False])
      show "parents_first (insert (r_id r) A) rs" using "2.prems"(1) by simp
      show "distinct (map r_id rs)" "r_id ` set rs \<inter> set dead = {}" using "2.prems"(2,3) by auto
    qed
    moreover have "insert (r_id r) A - set dead = insert (r_id r) (A - set dead)"
      using "2.prems"(3) by auto
    ultimately show ?thesis
      using False "2.prems"(1) by (auto split: option.splits)
  qed
qed

lemma distinct_map_filter_del:
  "distinct (List.map_filter k rows) \<Longrightarrow> distinct (List.map_filter k (del_where p rows))"
  by (induction rows) (auto simp: set_map_filter split: option.splits)

lemma distinct_map_filter_clear:
  assumes "\<And>r. k (f r) = None"
  shows "distinct (List.map_filter k rows) \<Longrightarrow> distinct (List.map_filter k (upd_where p f rows))"
  by (induction rows) (auto simp: assms set_map_filter set_upd_where split: option.splits)

lemma in_image_del: "x \<in> k ` set (del_where p rows) \<longleftrightarrow> (\<exists>r \<in> set rows. \<not> p r \<and> x = k r)"
  by auto

lemma wf_delete_sessions:
  assumes wf: "wf_db d"
  shows "wf_db (delete_sessions p d)"
proof -
  let ?gone = "map s_id (filter p (sessions d))"
  let ?ts = "sweep_tokens (\<lambda>r. r_session_id r \<in> set ?gone) [] (refresh_tokens d)"
  have ids: "distinct (map s_id (sessions d))" and tok: "distinct (map r_id (refresh_tokens d))"
    using wf by (auto simp: wf_defs)
  have alive: "s_id s \<notin> set ?gone \<longleftrightarrow> \<not> p s" if "s \<in> set (sessions d)" for s
    using that distinct_key_eq [OF ids] by fastforce
  have first: "parents_first {} ?ts"
    using parents_first_sweep [of "{}" "refresh_tokens d" "[]"] wf tok by (simp add: wf_db_def)
  have tok_fk: "r_session_id r \<in> s_id ` set (del_where p (sessions d))" if "r \<in> set ?ts" for r
  proof -
    from set_sweep [OF that] have "r \<in> set (refresh_tokens d)" "r_session_id r \<notin> set ?gone" by auto
    moreover from wf_token_session [OF wf this(1)]
    obtain s where "s \<in> set (sessions d)" "r_session_id r = s_id s" by auto
    ultimately show ?thesis using alive by auto
  qed
  have conf_fk: "n_session_id n \<in> s_id ` set (del_where p (sessions d))"
    if "n \<in> set (confirmations d)" "n_session_id n \<notin> set ?gone" for n
  proof -
    from wf_confirmation_session [OF wf that(1)]
    obtain s where "s \<in> set (sessions d)" "n_session_id n = s_id s" by auto
    with that(2) show ?thesis using alive by auto
  qed
  have "unique_keys (delete_sessions p d)"
    using wf by (auto simp: delete_sessions_def Let_def wf_defs
        intro: distinct_sweep distinct_map_filter_del)
  moreover have "foreign_keys (delete_sessions p d)"
    using wf tok_fk conf_fk parents_first_in [OF first]
    by (auto simp: delete_sessions_def Let_def wf_defs)
  ultimately show ?thesis
    using first by (simp add: wf_db_def delete_sessions_def Let_def)
qed

lemma wf_delete_codes:
  assumes wf: "wf_db d"
  shows "wf_db (delete_authorization_codes p d)"
proof -
  let ?gone = "map c_id (filter p (authorization_codes d))"
  have ids: "distinct (map c_id (authorization_codes d))" using wf by (auto simp: wf_defs)
  have alive: "c_id c \<notin> set ?gone \<longleftrightarrow> \<not> p c" if "c \<in> set (authorization_codes d)" for c
    using that distinct_key_eq [OF ids] by fastforce
  have fk: "k \<in> c_id ` set (del_where p (authorization_codes d))"
    if "s \<in> set (sessions d)" "s_authorization_code_id s = Some k" "k \<notin> set ?gone" for s k
  proof -
    from wf_session_code [OF wf that(1,2)]
    obtain c where "c \<in> set (authorization_codes d)" "k = c_id c" by auto
    with that(3) show ?thesis using alive by auto
  qed
  have "unique_keys (delete_authorization_codes p d)"
    using wf by (auto simp: delete_authorization_codes_def Let_def wf_defs
        intro: distinct_map_filter_clear)
  moreover have "foreign_keys (delete_authorization_codes p d)"
    using wf fk by (auto simp: delete_authorization_codes_def Let_def wf_defs ball_upd_where
        split: option.splits)
  ultimately show ?thesis
    using wf by (simp add: wf_db_def delete_authorization_codes_def Let_def)
qed

lemma wf_simple_deletes:
  assumes "wf_db d"
  shows wf_delete_links: "wf_db (d\<lparr>magic_links := del_where pl (magic_links d)\<rparr>)"
    and wf_delete_changes: "wf_db (delete_email_changes pe d)"
    and wf_delete_confirmations: "wf_db (delete_confirmations pn d)"
    and wf_delete_keys: "wf_db (delete_signing_keys pk d)"
  using assms
  by (auto simp: wf_defs delete_email_changes_def delete_confirmations_def delete_signing_keys_def)

text \<open>The rows that reference a flow, or an account, go first; then it can go itself.\<close>

lemma wf_drop_flows:
  assumes wf: "wf_db d"
    and codes: "\<And>c f. \<lbrakk>c \<in> set (authorization_codes d); f \<in> set (login_flows d); p f\<rbrakk> \<Longrightarrow> c_flow_id c \<noteq> f_id f"
    and links: "\<And>m f. \<lbrakk>m \<in> set (magic_links d); f \<in> set (login_flows d); p f\<rbrakk> \<Longrightarrow> m_flow_id m \<noteq> f_id f"
  shows "wf_db (d\<lparr>login_flows := del_where p (login_flows d)\<rparr>)"
proof -
  have "\<forall>c \<in> set (authorization_codes d). c_flow_id c \<in> f_id ` {f \<in> set (login_flows d). \<not> p f}"
    using wf_code_flow [OF wf] codes by fastforce
  moreover have "\<forall>m \<in> set (magic_links d). m_flow_id m \<in> f_id ` {f \<in> set (login_flows d). \<not> p f}"
    using wf_link_flow [OF wf] links by fastforce
  ultimately show ?thesis using wf by (auto simp: wf_defs)
qed

lemma wf_delete_flows:
  assumes wf: "wf_db d"
  shows "wf_db (delete_login_flows p d)"
proof -
  let ?gone = "set (map f_id (filter p (login_flows d)))"
  let ?d = "delete_authorization_codes (\<lambda>c. c_flow_id c \<in> ?gone)
    (d\<lparr>magic_links := del_where (\<lambda>m. m_flow_id m \<in> ?gone) (magic_links d)\<rparr>)"
  have "wf_db (?d\<lparr>login_flows := del_where p (login_flows ?d)\<rparr>)"
  proof (rule wf_drop_flows)
    show "wf_db ?d" by (intro wf_delete_codes wf_delete_links wf)
  qed (auto simp: delete_authorization_codes_def Let_def)
  moreover have "delete_login_flows p d = ?d\<lparr>login_flows := del_where p (login_flows ?d)\<rparr>"
    by (rule db.equality)
       (simp_all add: delete_login_flows_def delete_authorization_codes_def Let_def cong: option.case_cong)
  ultimately show ?thesis by simp
qed

lemma wf_drop_users:
  assumes wf: "wf_db d"
    and "\<And>c u. \<lbrakk>c \<in> set (authorization_codes d); u \<in> set (users d); p u\<rbrakk> \<Longrightarrow> c_user_id c \<noteq> u_id u"
    and "\<And>s u. \<lbrakk>s \<in> set (sessions d); u \<in> set (users d); p u\<rbrakk> \<Longrightarrow> s_user_id s \<noteq> u_id u"
    and "\<And>m u. \<lbrakk>m \<in> set (magic_links d); u \<in> set (users d); p u\<rbrakk> \<Longrightarrow> m_user_id m \<noteq> Some (u_id u)"
    and "\<And>e u. \<lbrakk>e \<in> set (email_changes d); u \<in> set (users d); p u\<rbrakk> \<Longrightarrow> e_user_id e \<noteq> u_id u"
    and "\<And>n u. \<lbrakk>n \<in> set (confirmations d); u \<in> set (users d); p u\<rbrakk> \<Longrightarrow> n_user_id n \<noteq> u_id u"
  shows "wf_db (d\<lparr>users := del_where p (users d)\<rparr>)"
proof -
  let ?ids = "u_id ` {u \<in> set (users d). \<not> p u}"
  have "\<forall>c \<in> set (authorization_codes d). c_user_id c \<in> ?ids"
    using wf_code_user [OF wf] assms(2) by fastforce
  moreover have "\<forall>s \<in> set (sessions d). s_user_id s \<in> ?ids"
    using wf_session_user [OF wf] assms(3) by fastforce
  moreover have "\<forall>m \<in> set (magic_links d). \<forall>u. m_user_id m = Some u \<longrightarrow> u \<in> ?ids"
    using wf_link_user [OF wf] assms(4) by fastforce
  moreover have "\<forall>e \<in> set (email_changes d). e_user_id e \<in> ?ids"
    using wf_change_user [OF wf] assms(5) by fastforce
  moreover have "\<forall>n \<in> set (confirmations d). n_user_id n \<in> ?ids"
    using wf_confirmation_user [OF wf] assms(6) by fastforce
  ultimately show ?thesis using wf by (simp add: wf_defs distinct_del_where)
qed

lemma wf_delete_users:
  assumes wf: "wf_db d"
  shows "wf_db (delete_users p d)"
proof -
  let ?gone = "set (map u_id (filter p (users d)))"
  let ?d1 = "delete_confirmations (\<lambda>n. n_user_id n \<in> ?gone) (delete_email_changes (\<lambda>e. e_user_id e \<in> ?gone)
    (d\<lparr>magic_links := del_where
       (\<lambda>m. case m_user_id m of None \<Rightarrow> False | Some u \<Rightarrow> u \<in> ?gone) (magic_links d)\<rparr>))"
  let ?d = "delete_sessions (\<lambda>s. s_user_id s \<in> ?gone)
    (delete_authorization_codes (\<lambda>c. c_user_id c \<in> ?gone) ?d1)"
  note tables = delete_sessions_def delete_authorization_codes_def delete_confirmations_def
    delete_email_changes_def Let_def
  have "wf_db (?d\<lparr>users := del_where p (users ?d)\<rparr>)"
  proof (rule wf_drop_users)
    show "wf_db ?d"
      by (intro wf_delete_sessions wf_delete_codes wf_delete_confirmations wf_delete_changes wf_delete_links wf)
  qed (auto simp: tables set_upd_where)
  moreover have "delete_users p d = ?d\<lparr>users := del_where p (users ?d)\<rparr>"
    by (rule db.equality) (simp_all add: delete_users_def tables cong: option.case_cong)
  ultimately show ?thesis by simp
qed

interpretation wf: db_invariant E U wf_db for E U
  by unfold_locales (auto intro: wf_updates wf_updates [THEN step_ok_any] wf_failures wf_revoke wf_inserts wf_codes_create
      wf_sessions_create wf_tokens_create wf_links_create wf_change_email wf_delete_flows
      wf_delete_changes wf_delete_confirmations wf_delete_sessions wf_delete_users wf_delete_keys)

end
