(* ===== verification/System.thy ===== *)
theory System
  imports Integrity
begin

text \<open>
  The whole server: the router of \<open>routes/mod.rs\<close> with the extractors each route runs first, the
  scheduled jobs, and the transition system they generate. Requests and jobs run one after another
  (theory \<open>Interleave\<close> has requests that alternate);
  each may fail at any statement, because the faults of a world are arbitrary.
\<close>

section \<open>The router\<close>

text \<open>Who calls: the TCP peer and the \<open>X-Forwarded-For\<close> headers; \<open>auth\<close> is the \<open>Authorization\<close> header.\<close>

record caller =
  ca_peer :: ip_addr
  ca_forwarded :: "string list"

datatype request =
    PostFlow create_flow_request
  | PostMagicLink caller uuid string
  | PostMagicCode caller uuid string
  | PostMagicLinkConfirm caller string
  | PostEmailChangeConfirm caller string
  | GetMe "string option"
  | DeleteMe caller "string option" string
  | PostConfirmation caller "string option" confirmation_action
  | PostMeEmail caller "string option" string string
  | GetSessions "string option"
  | DeleteSession "string option" uuid
  | PostToken token_request
  | PostRevoke revoke_request
  | GetJwks
  | GetMetadata
  | GetReady

datatype response =
    FlowCreated "nat \<times> flow_response"
  | MagicLinkAccepted "nat \<times> magic_link_response"
  | LoggedIn login_response
  | StatusOnly nat
  | MeBody me_response
  | ConfirmationAccepted "nat \<times> confirmation_status"
  | SessionsBody "session_response list"
  | TokenBody token_response
  | JwksBody "(string \<times> string) list \<times> jwk_set"
  | MetadataBody server_metadata

datatype failure = ApiFailure api_error | OAuthFailure oauth_error

definition api_route :: "('a \<Rightarrow> response) \<Rightarrow> (api_error, 'a) req \<Rightarrow> (failure, response) req" where
  "api_route f m = map_err ApiFailure (and_then m (\<lambda>a. ok (f a)))"

definition oauth_route :: "('a \<Rightarrow> response) \<Rightarrow> (oauth_error, 'a) req \<Rightarrow> (failure, response) req" where
  "oauth_route f m = map_err OAuthFailure (and_then m (\<lambda>a. ok (f a)))"

abbreviation ip_of :: "ext \<Rightarrow> app_state \<Rightarrow> caller \<Rightarrow> ip_addr" where
  "ip_of E st c \<equiv> client_ip_from_request E st (ca_peer c) (ca_forwarded c)"

fun serve :: "ext \<Rightarrow> app_state \<Rightarrow> request \<Rightarrow> (failure, response) req" where
  "serve E st (PostFlow input) = api_route FlowCreated (create_flow st input)"
| "serve E st (PostMagicLink c flow email) =
     api_route MagicLinkAccepted (magic_link_request E st (ip_of E st c) flow email)"
| "serve E st (PostMagicCode c flow code) = api_route LoggedIn (confirm_code E st (ip_of E st c) flow code)"
| "serve E st (PostMagicLinkConfirm c tok) = api_route LoggedIn (magic_link_confirm E st (ip_of E st c) tok)"
| "serve E st (PostEmailChangeConfirm c tok) =
     api_route StatusOnly (email_change_confirm E st (ip_of E st c) tok)"
| "serve E st (GetMe auth) = api_route MeBody (and_then (current_user_from_request E st auth) me_get)"
| "serve E st (DeleteMe c auth code) = api_route StatusOnly
     (and_then (current_user_from_request E st auth) (\<lambda>user. delete_account E st (ip_of E st c) user code))"
| "serve E st (PostConfirmation c auth action) = api_route ConfirmationAccepted
     (and_then (current_user_from_request E st auth) (\<lambda>user. request_confirmation E st (ip_of E st c) user action))"
| "serve E st (PostMeEmail c auth code new_email) = api_route ConfirmationAccepted
     (and_then (current_user_from_request E st auth) (\<lambda>user. change_email E st (ip_of E st c) user code new_email))"
| "serve E st (GetSessions auth) = api_route SessionsBody
     (and_then (current_user_from_request E st auth) (list_sessions st))"
| "serve E st (DeleteSession auth i) = api_route StatusOnly
     (and_then (current_user_from_request E st auth) (\<lambda>user. revoke_session user i))"
| "serve E st (PostToken input) = oauth_route TokenBody (oauth_token E st input)"
| "serve E st (PostRevoke input) = oauth_route StatusOnly (oauth_revoke E st input)"
| "serve E st GetJwks = and_then well_known_jwks (\<lambda>b. ok (JwksBody b))"
| "serve E st GetMetadata = ok (MetadataBody (authorization_server_metadata st))"
| "serve E st GetReady = and_then ready (\<lambda>s. ok (StatusOnly s))"

datatype job = PurgeJob bool | ReloadKeysJob | RotateKeysJob bool

fun run_job :: "ext \<Rightarrow> master_key \<Rightarrow> job \<Rightarrow> (failure, unit) req" where
  "run_job E mk (PurgeJob locked) = purge_job locked"
| "run_job E mk ReloadKeysJob = reload_keys_job E mk"
| "run_job E mk (RotateKeysJob locked) = rotate_keys_job E mk locked"

section \<open>The transition system\<close>

inductive step :: "ext \<Rightarrow> app_state \<Rightarrow> master_key \<Rightarrow> world \<Rightarrow> world \<Rightarrow> bool" for E st mk where
  serve_step: "serve E st r w = Some (x, w') \<Longrightarrow> step E st mk w w'"
| job_step: "run_job E mk j w = Some (x, w') \<Longrightarrow> step E st mk w w'"

inductive reachable :: "ext \<Rightarrow> app_state \<Rightarrow> master_key \<Rightarrow> world \<Rightarrow> world \<Rightarrow> bool" for E st mk w where
  start: "reachable E st mk w w"
| step: "\<lbrakk>reachable E st mk w w'; step E st mk w' w''\<rbrakk> \<Longrightarrow> reachable E st mk w w''"

inductive_cases stepE: "step E st mk w w'"

context db_invariant
begin

lemma serve_keeps: "preserves U I (serve E st r)"
  by (cases r)
     (auto simp: api_route_def oauth_route_def well_known_jwks_def ready_def
       intro!: keeps create_flow_keeps magic_link_request_keeps confirm_code_keeps magic_link_confirm_keeps
         email_change_confirm_keeps current_user_keeps me_get_keeps delete_account_keeps
         request_confirmation_keeps change_email_keeps list_sessions_keeps revoke_session_keeps
         oauth_token_keeps oauth_revoke_keeps)

lemma run_job_keeps: "preserves U I (run_job E mk j)"
  by (cases j) (simp_all add: jobs_keep)

lemma reachable_keeps:
  assumes "reachable E st mk w w'" "holds U I w"
  shows "holds U I w'"
  using assms(1)
proof (induction rule: reachable.induct)
  case start
  then show ?case by (rule assms(2))
next
  case (step w' w'')
  from step.hyps(2) show ?case
    by (cases rule: stepE) (use step.IH in \<open>blast intro: preserves_run [OF serve_keeps] preserves_run [OF run_job_keeps]\<close>)+
qed

end

section \<open>No transaction outlives a request\<close>

definition leaves_no_tx :: "('e, 'a) req \<Rightarrow> bool" where
  "leaves_no_tx m \<longleftrightarrow> (\<forall>w. w_tx w = None \<longrightarrow> wp m (\<lambda>_ w'. w_tx w' = None) (\<lambda>_ w'. w_tx w' = None) w)"

lemma leaves_no_tx_run: "\<lbrakk>leaves_no_tx m; w_tx w = None; m w = Some (r, w')\<rbrakk> \<Longrightarrow> w_tx w' = None"
  unfolding leaves_no_tx_def wp_def by (drule spec [of _ w]) (auto split: sum.splits)

lemma leaves_no_tx_prim [closes]:
  "leaves_no_tx (ok a)" "leaves_no_tx (err e)" "leaves_no_tx utc_now" "leaves_no_tx instant_now"
  "leaves_no_tx uuid_now_v7" "leaves_no_tx (random_bytes n)" "leaves_no_tx (send_in_background x)"
  "leaves_no_tx load_keys" "leaves_no_tx (store_keys ks)" "leaves_no_tx (ok_or y e)" "leaves_no_tx (result z)"
  "leaves_no_tx (token_generate E)" "leaves_no_tx (master_key_encrypt E mk p c)"
  by (simp_all add: leaves_no_tx_def wp split: option.split sum.split)

lemma leaves_no_tx_ext [closes]:
  "leaves_no_tx (limiter_check E l key)" "leaves_no_tx (code_generate E k owner)"
  by (simp_all add: leaves_no_tx_def wp Let_def split: option.split prod.split)

lemma leaves_no_tx_stmt [closes]: "leaves_no_tx (exec q)" "leaves_no_tx (sql q)" "leaves_no_tx (osql q)"
  by (simp_all add: leaves_no_tx_def wp split: sum.split prod.split)

lemma leaves_no_tx_scoped [closes]: "leaves_no_tx (scoped m)"
  by (simp add: leaves_no_tx_def wp)

lemma leaves_no_tx_and_then [closes]:
  "\<lbrakk>leaves_no_tx m; \<And>a. leaves_no_tx (f a)\<rbrakk> \<Longrightarrow> leaves_no_tx (and_then m f)"
  unfolding leaves_no_tx_def wp by (blast intro: wp_mono)

lemma leaves_no_tx_map_err [closes]: "leaves_no_tx m \<Longrightarrow> leaves_no_tx (map_err g m)"
  and leaves_no_tx_attempt [closes]: "leaves_no_tx m \<Longrightarrow> leaves_no_tx (attempt m)"
  by (simp_all add: leaves_no_tx_def wp)

lemma leaves_no_tx_cases [closes]:
  "\<lbrakk>leaves_no_tx m; leaves_no_tx m'\<rbrakk> \<Longrightarrow> leaves_no_tx (if b then m else m')"
  "\<lbrakk>leaves_no_tx n; \<And>a. leaves_no_tx (f a)\<rbrakk> \<Longrightarrow> leaves_no_tx (case x of None \<Rightarrow> n | Some a \<Rightarrow> f a)"
  "\<lbrakk>\<And>e. leaves_no_tx (g e); \<And>a. leaves_no_tx (h a)\<rbrakk> \<Longrightarrow> leaves_no_tx (case s of Inl e \<Rightarrow> g e | Inr a \<Rightarrow> h a)"
  "(\<And>a b. leaves_no_tx (k a b)) \<Longrightarrow> leaves_no_tx (case y of (a, b) \<Rightarrow> k a b)"
  "(\<And>a. leaves_no_tx (j a)) \<Longrightarrow> leaves_no_tx (Let z j)"
  by (auto split: option.split sum.split prod.split)

lemma leaves_no_tx_in_batches [closes]:
  assumes "leaves_no_tx m"
  shows "leaves_no_tx (in_batches m n)"
proof -
  have "w_tx w' = None" if "in_batches m n w = Some (r, w')" "w_tx w = None" for w r w'
    by (rule in_batches_keeps [where J = "\<lambda>w. w_tx w = None", OF leaves_no_tx_run [OF assms] that(2,1)])
  then show ?thesis by (auto simp: leaves_no_tx_def wp_def split: option.split sum.split)
qed

lemma routes_leave_no_tx [closes]:
  "leaves_no_tx (create_flow st i)" "leaves_no_tx (magic_link_request E st ip f m)"
  "leaves_no_tx (confirm_code E st ip f c)" "leaves_no_tx (magic_link_confirm E st ip t)"
  "leaves_no_tx (email_change_confirm E st ip t)" "leaves_no_tx (current_user_from_request E st auth)"
  "leaves_no_tx (me_get u)" "leaves_no_tx (delete_account E st ip u c)"
  "leaves_no_tx (request_confirmation E st ip u act)" "leaves_no_tx (change_email E st ip u c m)"
  "leaves_no_tx (list_sessions st u)" "leaves_no_tx (revoke_session u k)" "leaves_no_tx (oauth_token E st tr)"
  "leaves_no_tx (oauth_revoke E st rv)" "leaves_no_tx well_known_jwks" "leaves_no_tx ready"
  unfolding create_flow_def magic_link_request_def send_magic_link_def flow_exhausted_def confirm_code_def
    magic_link_confirm_def email_change_confirm_def current_user_from_request_def me_get_def delete_account_def
    check_code_def request_confirmation_def change_email_def list_sessions_def revoke_session_def
    oauth_token_def authorization_code_grant_def refresh_token_grant_def oauth_revoke_def well_known_jwks_def
    ready_def
  by (intro closes)+

lemma serve_leaves_no_tx: "leaves_no_tx (serve E st r)"
  by (cases r; simp only: serve.simps api_route_def oauth_route_def) (intro closes)+

lemma run_job_leaves_no_tx: "leaves_no_tx (run_job E mk j)"
  by (cases j; simp only: run_job.simps purge_job_def purge_run_def purge_def reload_keys_job_def
      rotate_keys_job_def rotate_if_due_def reload_def ensure_and_load_def signing_keys_load_def key_generate_def)
     (intro closes)+

lemma reachable_no_tx:
  assumes "reachable E st mk w w'" "w_tx w = None"
  shows "w_tx w' = None"
  using assms(1)
proof (induction rule: reachable.induct)
  case start
  then show ?case by (rule assms(2))
next
  case (step w' w'')
  from step.hyps(2) show ?case
    by (cases rule: stepE)
       (blast intro: leaves_no_tx_run [OF serve_leaves_no_tx] leaves_no_tx_run [OF run_job_leaves_no_tx] step.IH)+
qed

lemma wf_reachable:
  "reachable E st mk w w' \<Longrightarrow> holds {} wf_db w \<Longrightarrow> wf_db (w_db w')"
  using wf.reachable_keeps [of E st mk w w' "{}"] by (simp add: holds_def)

end
