(* ===== verification/Lifecycle.thy ===== *)
theory Lifecycle
  imports System
begin

text \<open>
  Further invariants of the running server, each an interpretation of \<open>db_invariant\<close>: the counters of
  emails and wrong codes stay within their limits; authorization codes only exist for completed flows
  and sessions only for consumed codes; and what is spent stays spent (a revoked session, a completed
  flow, a consumed code or link, a deleted account), as long as its id is not generated again.
\<close>

lemmas table_defs = sql Let_def upd_returning_def revoke_where_def delete_login_flows_def
  delete_authorization_codes_def delete_sessions_def delete_users_def delete_email_changes_def
  delete_confirmations_def delete_signing_keys_def ball_upd_where

section \<open>Counters\<close>

definition flow_counter_ok :: "login_flow \<Rightarrow> bool" where
  "flow_counter_ok f \<longleftrightarrow> 0 \<le> f_magic_link_requests f \<and> f_magic_link_requests f \<le> MAX_EMAILS_PER_FLOW"

definition link_counter_ok :: "magic_link_row \<Rightarrow> bool" where
  "link_counter_ok m \<longleftrightarrow> 0 \<le> m_code_failures m \<and> m_code_failures m \<le> MAX_FAILURES_PER_CODE \<and>
     (m_code_failures m = MAX_FAILURES_PER_CODE \<longrightarrow> m_consumed_at m \<noteq> None)"

definition confirmation_counter_ok :: "confirmation_row \<Rightarrow> bool" where
  "confirmation_counter_ok n \<longleftrightarrow> 0 \<le> n_code_failures n \<and> n_code_failures n \<le> MAX_FAILURES_PER_CODE \<and>
     (n_code_failures n = MAX_FAILURES_PER_CODE \<longrightarrow> n_consumed_at n \<noteq> None)"

definition counters_ok :: "db \<Rightarrow> bool" where
  "counters_ok d \<longleftrightarrow> (\<forall>f \<in> set (login_flows d). flow_counter_ok f) \<and>
     (\<forall>m \<in> set (magic_links d). link_counter_ok m) \<and>
     (\<forall>n \<in> set (confirmations d). confirmation_counter_ok n) \<and>
     distinct (map m_id (magic_links d)) \<and> distinct (map n_id (confirmations d))"

lemma counters_link_failure:
  "step_ok U counters_ok (link_open i) (magic_links_record_code_failure i MAX_FAILURES_PER_CODE)"
  unfolding step_ok_def
proof (intro allI impI)
  fix now new_id d a d'
  assume I: "counters_ok d" and "link_open i d"
    and q: "magic_links_record_code_failure i MAX_FAILURES_PER_CODE now new_id d = Inr (a, d')"
  then obtain m where m: "m \<in> set (magic_links d)" "m_id m = i" "m_code_failures m < MAX_FAILURES_PER_CODE"
    by (auto simp: link_open_def)
  have one: "r = m" if "r \<in> set (magic_links d)" "m_id r = i" for r
    using that m I by (auto simp: counters_ok_def intro: distinct_key_eq)
  let ?f = "\<lambda>m. m\<lparr>m_code_failures := m_code_failures m + 1,
    m_consumed_at := if m_code_failures m + 1 \<ge> MAX_FAILURES_PER_CODE then Some now else None\<rparr>"
  have d': "d' = d\<lparr>magic_links := upd_where (\<lambda>m. m_id m = i) ?f (magic_links d)\<rparr>"
    using q by (auto simp: magic_links_record_code_failure_def upd_returning_def split: option.splits)
  have "link_counter_ok (?f m)"
    using m(3) I m(1) by (auto simp: counters_ok_def link_counter_ok_def)
  with one I show "counters_ok d'"
    unfolding d' by (auto simp: counters_ok_def ball_upd_where)
qed

lemma counters_confirmation_failure:
  "step_ok U counters_ok (confirmation_open i) (confirmations_record_code_failure i MAX_FAILURES_PER_CODE)"
  unfolding step_ok_def
proof (intro allI impI)
  fix now new_id d a d'
  assume I: "counters_ok d" and "confirmation_open i d"
    and q: "confirmations_record_code_failure i MAX_FAILURES_PER_CODE now new_id d = Inr (a, d')"
  then obtain m where m: "m \<in> set (confirmations d)" "n_id m = i" "n_code_failures m < MAX_FAILURES_PER_CODE"
    by (auto simp: confirmation_open_def)
  have one: "r = m" if "r \<in> set (confirmations d)" "n_id r = i" for r
    using that m I by (auto simp: counters_ok_def intro: distinct_key_eq)
  let ?f = "\<lambda>m. m\<lparr>n_code_failures := n_code_failures m + 1,
    n_consumed_at := if n_code_failures m + 1 \<ge> MAX_FAILURES_PER_CODE then Some now else None\<rparr>"
  have d': "d' = d\<lparr>confirmations := upd_where (\<lambda>m. n_id m = i) ?f (confirmations d)\<rparr>"
    using q by (auto simp: confirmations_record_code_failure_def upd_returning_def split: option.splits)
  have "confirmation_counter_ok (?f m)"
    using m(3) I m(1) by (auto simp: counters_ok_def confirmation_counter_ok_def)
  with one I show "counters_ok d'"
    unfolding d' by (auto simp: counters_ok_def ball_upd_where)
qed

interpretation counters: db_invariant E U counters_ok for E U
  by (unfold_locales;
      (rule counters_link_failure counters_confirmation_failure |
       auto simp: step_ok_def table_defs counters_ok_def flow_counter_ok_def link_counter_ok_def
        confirmation_counter_ok_def MAX_EMAILS_PER_FLOW_def MAX_FAILURES_PER_CODE_def
        split: if_splits option.splits))

section \<open>Where codes and sessions come from\<close>

definition provenance :: "db \<Rightarrow> bool" where
  "provenance d \<longleftrightarrow> (\<forall>c \<in> set (authorization_codes d). flow_completed (c_flow_id c) d) \<and>
     (\<forall>s \<in> set (sessions d). \<forall>k. s_authorization_code_id s = Some k \<longrightarrow> code_consumed k d)"

lemma provenanceI:
  assumes "\<And>c. c \<in> set (authorization_codes d) \<Longrightarrow> flow_completed (c_flow_id c) d"
    and "\<And>s k. \<lbrakk>s \<in> set (sessions d); s_authorization_code_id s = Some k\<rbrakk> \<Longrightarrow> code_consumed k d"
  shows "provenance d"
  using assms by (auto simp: provenance_def)

lemma provenance_frame:
  assumes "provenance d" "authorization_codes d' = authorization_codes d" "sessions d' = sessions d"
    and "\<And>i. flow_completed i d \<Longrightarrow> flow_completed i d'"
  shows "provenance d'"
  using assms by (auto simp: provenance_def code_consumed_def)

lemma flow_completed_upd:
  assumes "flow_completed i d" "login_flows d' = upd_where p g (login_flows d)"
    and "\<And>f. f_id (g f) = f_id f" "\<And>f. f_completed_at f \<noteq> None \<Longrightarrow> f_completed_at (g f) \<noteq> None"
  shows "flow_completed i d'"
proof -
  from assms(1) obtain f where "f \<in> set (login_flows d)" "f_id f = i" "f_completed_at f \<noteq> None"
    by (auto simp: flow_completed_def)
  with assms(2-4) show ?thesis
    unfolding flow_completed_def by (intro bexI [of _ "if p f then g f else f"]) (auto simp: set_upd_where)
qed

lemma code_consumed_upd:
  assumes "code_consumed i d" "authorization_codes d' = upd_where p g (authorization_codes d)"
    and "\<And>c. c_id (g c) = c_id c" "\<And>c. c_consumed_at c \<noteq> None \<Longrightarrow> c_consumed_at (g c) \<noteq> None"
  shows "code_consumed i d'"
proof -
  from assms(1) obtain c where "c \<in> set (authorization_codes d)" "c_id c = i" "c_consumed_at c \<noteq> None"
    by (auto simp: code_consumed_def)
  with assms(2-4) show ?thesis
    unfolding code_consumed_def by (intro bexI [of _ "if p c then g c else c"]) (auto simp: set_upd_where)
qed

lemma provenance_updates:
  "stmt_ok U provenance (login_flows_complete i)"
  "stmt_ok U provenance (login_flows_count_magic_link_request i mx t)"
  unfolding step_ok_def
  by (auto simp: sql Let_def upd_returning_def elim!: provenance_frame flow_completed_upd)

lemma provenance_codes_create: "step_ok U provenance (flow_completed f) (authorization_codes_create h f u t)"
  by (auto simp: step_ok_def sql Let_def provenance_def flow_completed_def code_consumed_def split: if_splits)

lemma provenance_codes_consume: "stmt_ok U provenance (authorization_codes_consume h)"
  unfolding step_ok_def
proof (intro allI impI)
  fix now new_id d a d'
  assume I: "provenance d" and "authorization_codes_consume h now new_id d = Inr (a, d')"
  then obtain p where d': "d' = d\<lparr>authorization_codes :=
      upd_where p (\<lambda>c. c\<lparr>c_consumed_at := Some now\<rparr>) (authorization_codes d)\<rparr>"
    by (auto simp: sql Let_def upd_returning_def)
  show "provenance d'"
  proof (rule provenanceI)
    show "flow_completed (c_flow_id c) d'" if "c \<in> set (authorization_codes d')" for c
      using that I by (auto simp: d' provenance_def flow_completed_def set_upd_where)
    show "code_consumed k d'" if "s \<in> set (sessions d')" "s_authorization_code_id s = Some k" for s k
    proof -
      have "code_consumed k d" using that I by (auto simp: d' provenance_def)
      then show ?thesis
        by (rule code_consumed_upd [where g = "\<lambda>c. c\<lparr>c_consumed_at := Some now\<rparr>" and p = p]) (simp_all add: d')
    qed
  qed
qed

lemma provenance_sessions_create: "step_ok U provenance (code_consumed k) (sessions_create u c k t)"
  by (auto simp: step_ok_def sql Let_def provenance_def flow_completed_def code_consumed_def split: if_splits)

lemma provenance_delete_codes:
  assumes "provenance d"
  shows "provenance (delete_authorization_codes p d)"
proof (rule provenanceI)
  let ?d = "delete_authorization_codes p d"
  show "flow_completed (c_flow_id c) ?d" if "c \<in> set (authorization_codes ?d)" for c
    using that assms
    by (auto simp: delete_authorization_codes_def Let_def provenance_def flow_completed_def)
  show "code_consumed k ?d" if s: "s \<in> set (sessions ?d)" "s_authorization_code_id s = Some k" for s k
  proof -
    have d: "s \<in> set (sessions d)" "k \<notin> c_id ` {c \<in> set (authorization_codes d). p c}"
      using s by (auto simp: delete_authorization_codes_def Let_def set_upd_where split: option.splits)
    from d(1) obtain c
      where "c \<in> set (authorization_codes d)" "c_id c = k" "c_consumed_at c \<noteq> None"
      using assms s(2) by (fastforce simp: provenance_def code_consumed_def)
    moreover with d(2) have "\<not> p c" by force
    ultimately have "\<exists>c \<in> set (authorization_codes d). \<not> p c \<and> c_id c = k \<and> c_consumed_at c \<noteq> None"
      by blast
    then show ?thesis by (auto simp: delete_authorization_codes_def Let_def code_consumed_def)
  qed
qed

lemma provenance_drop_flows:
  assumes "provenance e" "\<And>c. c \<in> set (authorization_codes e) \<Longrightarrow>
      \<exists>f \<in> set fs. f_id f = c_flow_id c \<and> f_completed_at f \<noteq> None"
  shows "provenance (e\<lparr>login_flows := fs\<rparr>)"
  using assms by (intro provenanceI) (auto simp: provenance_def flow_completed_def code_consumed_def)

lemma provenance_deletes:
  assumes "provenance d"
  shows "provenance (delete_login_flows p d)" "provenance (delete_sessions ps d)"
    "provenance (delete_users pu d)" "provenance (revoke_where pr now d)"
proof -
  let ?gone = "set (map f_id (filter p (login_flows d)))"
  let ?d = "delete_authorization_codes (\<lambda>c. c_flow_id c \<in> ?gone)
    (d\<lparr>magic_links := del_where (\<lambda>m. m_flow_id m \<in> ?gone) (magic_links d)\<rparr>)"
  have drop: "provenance (delete_sessions q (e :: db))" if "provenance e" for q e
    using that by (auto simp: delete_sessions_def Let_def provenance_def flow_completed_def code_consumed_def)
  show "provenance (delete_sessions ps d)" by (rule drop [OF assms])
  have prov: "provenance ?d"
    by (rule provenance_delete_codes) (use assms in \<open>auto elim: provenance_frame simp: flow_completed_def\<close>)
  have left: "\<exists>f \<in> set (login_flows d). \<not> p f \<and> f_id f = c_flow_id c \<and> f_completed_at f \<noteq> None"
    if "c \<in> set (authorization_codes ?d)" for c
  proof -
    have c: "c \<in> set (authorization_codes d)" "c_flow_id c \<notin> f_id ` {f \<in> set (login_flows d). p f}"
      using that by (auto simp: delete_authorization_codes_def Let_def)
    from c(1) obtain f where "f \<in> set (login_flows d)" "f_id f = c_flow_id c" "f_completed_at f \<noteq> None"
      using assms by (fastforce simp: provenance_def flow_completed_def)
    moreover with c(2) have "\<not> p f" by force
    ultimately show ?thesis by blast
  qed
  have "provenance (?d\<lparr>login_flows := del_where p (login_flows d)\<rparr>)"
    by (rule provenance_drop_flows [OF prov], drule left) (simp only: set_del_where, blast)
  moreover have "delete_login_flows p d = ?d\<lparr>login_flows := del_where p (login_flows d)\<rparr>"
    by (rule db.equality)
       (simp_all add: delete_login_flows_def delete_authorization_codes_def Let_def cong: option.case_cong)
  ultimately show "provenance (delete_login_flows p d)" by simp
  show "provenance (delete_users pu d)"
    unfolding delete_users_def Let_def
    by (intro drop provenance_delete_codes) (use assms in \<open>auto elim: provenance_frame simp: flow_completed_def\<close>)
  show "provenance (revoke_where pr now d)"
    using assms by (auto simp: revoke_where_def provenance_def flow_completed_def code_consumed_def set_upd_where)
qed

interpretation provenance: db_invariant E U provenance for E U
  by (unfold_locales;
      (rule provenance_updates provenance_codes_create provenance_codes_consume provenance_sessions_create
         provenance_deletes, assumption? |
       auto simp: step_ok_def sql Let_def upd_returning_def delete_email_changes_def delete_confirmations_def
         delete_signing_keys_def split: if_splits option.splits
         elim!: provenance_frame simp: flow_completed_def))

section \<open>What is spent stays spent\<close>

definition session_dead :: "uuid \<Rightarrow> db \<Rightarrow> bool" where
  "session_dead i d \<longleftrightarrow> (\<forall>s \<in> set (sessions d). s_id s = i \<longrightarrow> s_revoked_at s \<noteq> None)"

interpretation session_dead: db_invariant E "{i}" "session_dead i" for E i
  by (unfold_locales;
      (auto simp: step_ok_def table_defs session_dead_def set_upd_where split: if_splits option.splits))

definition flow_closed :: "uuid \<Rightarrow> db \<Rightarrow> bool" where
  "flow_closed i d \<longleftrightarrow> (\<forall>f \<in> set (login_flows d). f_id f = i \<longrightarrow> f_completed_at f \<noteq> None)"

interpretation flow_closed: db_invariant E "{i}" "flow_closed i" for E i
  by (unfold_locales;
      (auto simp: step_ok_def table_defs flow_closed_def split: if_splits option.splits))

definition code_spent :: "uuid \<Rightarrow> db \<Rightarrow> bool" where
  "code_spent i d \<longleftrightarrow> (\<forall>c \<in> set (authorization_codes d). c_id c = i \<longrightarrow> c_consumed_at c \<noteq> None)"

interpretation code_spent: db_invariant E "{i}" "code_spent i" for E i
  by (unfold_locales;
      (auto simp: step_ok_def table_defs code_spent_def split: if_splits option.splits))

definition link_spent :: "uuid \<Rightarrow> db \<Rightarrow> bool" where
  "link_spent i d \<longleftrightarrow> (\<forall>m \<in> set (magic_links d). m_id m = i \<longrightarrow> m_consumed_at m \<noteq> None)"

interpretation link_spent: db_invariant E "{i}" "link_spent i" for E i
  by (unfold_locales;
      (auto simp: step_ok_def table_defs link_spent_def link_open_def split: if_splits option.splits))

definition account_gone :: "uuid \<Rightarrow> db \<Rightarrow> bool" where
  "account_gone i d \<longleftrightarrow> i \<notin> u_id ` set (users d)"

interpretation account_gone: db_invariant E "{i}" "account_gone i" for E i
  by (unfold_locales;
      (auto simp: step_ok_def table_defs account_gone_def image_iff set_upd_where split: if_splits option.splits))

end
