(* ===== verification/Lineage.thy ===== *)
theory Lineage
  imports Lifecycle
begin

text \<open>
  The refresh tokens of a session are a family tree: one token issued at login, and every other descends from it
  within the session; only a token that was used has successors, and a superseded one has none. Each statement keeps
  that, so deleting a session removes exactly its own tokens although the cascade of the schema follows the parents.
\<close>

section \<open>The family tree\<close>

definition family :: "refresh_token_row list \<Rightarrow> bool" where
  "family ts \<longleftrightarrow>
     (\<forall>r \<in> set ts. \<forall>q \<in> set ts. r_parent_id r = Some (r_id q) \<longrightarrow>
        r_session_id r = r_session_id q \<and> r_rotated_at q \<noteq> None \<and> r_superseded_at q = None) \<and>
     (\<forall>r \<in> set ts. \<forall>q \<in> set ts. r_parent_id r = None \<and> r_parent_id q = None \<and> r_session_id r = r_session_id q \<longrightarrow> r = q) \<and>
     (\<forall>r \<in> set ts. r_superseded_at r \<noteq> None \<longrightarrow> r_rotated_at r = None \<and> r_parent_id r \<noteq> None)"

definition lineage :: "db \<Rightarrow> bool" where
  "lineage d \<longleftrightarrow> wf_db d \<and> family (refresh_tokens d)"

lemma familyD:
  assumes "family ts" "r \<in> set ts"
  shows family_parent: "\<lbrakk>q \<in> set ts; r_parent_id r = Some (r_id q)\<rbrakk> \<Longrightarrow>
      r_session_id r = r_session_id q \<and> r_rotated_at q \<noteq> None \<and> r_superseded_at q = None"
    and family_root: "\<lbrakk>q \<in> set ts; r_parent_id r = None; r_parent_id q = None; r_session_id r = r_session_id q\<rbrakk> \<Longrightarrow> r = q"
    and family_superseded: "r_superseded_at r \<noteq> None \<Longrightarrow> r_rotated_at r = None \<and> r_parent_id r \<noteq> None"
  using assms by (auto simp: family_def)

lemma family_subset: "family ts \<Longrightarrow> set ts' \<subseteq> set ts \<Longrightarrow> family ts'"
  unfolding family_def by blast

lemma lineage_frame:
  assumes "step_ok U wf_db P q" "\<And>now new_id d a d'. q now new_id d = Inr (a, d') \<Longrightarrow> refresh_tokens d' = refresh_tokens d"
  shows "step_ok U lineage P q"
  using assms unfolding step_ok_def lineage_def by metis

lemma step_okD: "\<lbrakk>step_ok {} I P q; q now new_id d = Inr (a, d'); I d; P d\<rbrakk> \<Longrightarrow> I d'"
  unfolding step_ok_def by blast

lemma token_ids: "wf_db d \<Longrightarrow> distinct (map r_id (refresh_tokens d))"
  by (simp add: wf_defs)

lemma token_sessions: "wf_db d \<Longrightarrow> r \<in> set (refresh_tokens d) \<Longrightarrow> r_session_id r \<in> s_id ` set (sessions d)"
  by (rule wf_token_session)

lemma token_parents: "wf_db d \<Longrightarrow> r \<in> set (refresh_tokens d) \<Longrightarrow> r_parent_id r = Some q \<Longrightarrow> q \<in> r_id ` set (refresh_tokens d)"
  using parents_first_in [of "{}" "refresh_tokens d" r q] by (simp add: wf_db_def)

section \<open>Every statement keeps it\<close>

lemma family_add:
  assumes "family ts" "\<And>r. r \<in> set ts \<Longrightarrow> r_id r \<noteq> r_id x" "\<And>r q. r \<in> set ts \<Longrightarrow> r_parent_id r = Some q \<Longrightarrow> q \<in> r_id ` set ts"
    and "r_parent_id x = None \<Longrightarrow> \<forall>r \<in> set ts. r_session_id r \<noteq> r_session_id x"
    and "\<And>q. q \<in> set ts \<Longrightarrow> r_parent_id x = Some (r_id q) \<Longrightarrow>
      r_session_id x = r_session_id q \<and> r_rotated_at q \<noteq> None \<and> r_superseded_at q = None"
    and "r_parent_id x \<noteq> Some (r_id x)" "r_superseded_at x = None"
  shows "family (ts @ [x])"
proof -
  have "r_parent_id r \<noteq> Some (r_id x)" if "r \<in> set ts" for r using assms(2,3) that by force
  with assms show ?thesis unfolding family_def by (auto simp: eq_commute)
qed

lemma lineage_create: "step_ok U lineage (token_slot lineage s q) (refresh_tokens_create s h q)"
  unfolding step_ok_def
proof (intro allI impI)
  fix now new_id d a d'
  assume I: "lineage d" and slot: "token_slot lineage s q d" and c: "refresh_tokens_create s h q now new_id d = Inr (a, d')"
  let ?x = "\<lparr>r_id = new_id, r_session_id = s, r_parent_id = q, r_token_hash = h, r_rotated_at = None,
    r_superseded_at = None, r_created_at = now\<rparr>"
  from I have wf: "wf_db d" by (simp add: lineage_def)
  have d': "refresh_tokens d' = refresh_tokens d @ [?x]" and new: "new_id \<notin> r_id ` set (refresh_tokens d)"
    and q: "\<And>i. q = Some i \<Longrightarrow> i \<in> r_id ` set (refresh_tokens d)"
    using c by (auto simp: refresh_tokens_create_def split: if_splits)
  have "family (refresh_tokens d @ [?x])"
  proof (rule family_add)
    show "\<forall>r \<in> set (refresh_tokens d). r_session_id r \<noteq> r_session_id ?x" if "r_parent_id ?x = None"
      using that slot token_sessions unfolding token_slot_def lineage_def by fastforce
    show "r_session_id ?x = r_session_id r \<and> r_rotated_at r \<noteq> None \<and> r_superseded_at r = None"
      if "r \<in> set (refresh_tokens d)" "r_parent_id ?x = Some (r_id r)" for r
      using that slot distinct_key_eq [OF token_ids [OF wf]] by (fastforce simp: token_slot_def token_rotated_def)
  qed (use I new q token_parents [OF wf] in \<open>auto simp: lineage_def\<close>)
  moreover have "wf_db d'" using step_okD [OF wf_tokens_create [where P = "\<lambda>_. True"] c wf] by simp
  ultimately show "lineage d'" by (simp add: lineage_def d')
qed

lemma family_upd:
  assumes "family ts" "\<And>r. r_id (g r) = r_id r" "\<And>r. r_session_id (g r) = r_session_id r" "\<And>r. r_parent_id (g r) = r_parent_id r"
    and "\<And>r q. \<lbrakk>r \<in> set ts; q \<in> set ts; p q; r_parent_id r = Some (r_id q)\<rbrakk> \<Longrightarrow> r_rotated_at (g q) \<noteq> None \<and> r_superseded_at (g q) = None"
    and "\<And>r. \<lbrakk>r \<in> set ts; p r; r_superseded_at (g r) \<noteq> None\<rbrakk> \<Longrightarrow> r_rotated_at (g r) = None \<and> r_parent_id r \<noteq> None"
  shows "family (upd_where p g ts)"
proof -
  note facts = family_parent [OF assms(1)] family_root [OF assms(1)] family_superseded [OF assms(1)]
  show ?thesis
    unfolding family_def
  proof (intro conjI ballI impI)
    fix r' q' assume "r' \<in> set (upd_where p g ts)" "q' \<in> set (upd_where p g ts)"
    then obtain r q where r: "r \<in> set ts" "r' = (if p r then g r else r)" and q: "q \<in> set ts" "q' = (if p q then g q else q)"
      by (auto simp: set_upd_where)
    have eq: "r_id r' = r_id r" "r_id q' = r_id q" "r_session_id r' = r_session_id r" "r_session_id q' = r_session_id q"
      "r_parent_id r' = r_parent_id r" "r_parent_id q' = r_parent_id q"
      using r(2) q(2) assms(2-4) by auto
    show "r_session_id r' = r_session_id q'" if "r_parent_id r' = Some (r_id q')" using that facts(1) r(1) q(1) eq by simp
    show "r_rotated_at q' \<noteq> None" "r_superseded_at q' = None" if "r_parent_id r' = Some (r_id q')"
      using that facts(1) [OF r(1) q(1)] assms(5) [OF r(1) q(1)] q(2) eq by auto
    show "r' = q'" if "r_parent_id r' = None \<and> r_parent_id q' = None \<and> r_session_id r' = r_session_id q'"
      using that facts(2) [OF r(1) q(1)] r(2) q(2) eq by simp
  next
    fix r' assume "r' \<in> set (upd_where p g ts)" and s: "r_superseded_at r' \<noteq> None"
    then obtain r where r: "r \<in> set ts" "r' = (if p r then g r else r)" by (auto simp: set_upd_where)
    show "r_rotated_at r' = None" "r_parent_id r' \<noteq> None"
      using r s assms(4) facts(3) [OF r(1)] assms(6) [OF r(1)] by (auto split: if_splits)
  qed
qed

lemma lineage_mark: "step_ok U lineage (token_open i) (refresh_tokens_mark_rotated i)"
  unfolding step_ok_def
proof (intro allI impI)
  fix now new_id d a d'
  assume I: "lineage d" and "token_open i d" and q: "refresh_tokens_mark_rotated i now new_id d = Inr (a, d')"
  then obtain r where r: "r \<in> set (refresh_tokens d)" "r_id r = i" "r_superseded_at r = None" by (auto simp: token_open_def)
  have one: "x = r" if "x \<in> set (refresh_tokens d)" "r_id x = i" for x
    using that r I by (auto simp: lineage_def intro: distinct_key_eq [OF token_ids])
  have "family (upd_where (\<lambda>r. r_id r = i \<and> r_rotated_at r = None) (\<lambda>r. r\<lparr>r_rotated_at := Some now\<rparr>) (refresh_tokens d))"
    by (rule family_upd) (use I one r(3) in \<open>auto simp: lineage_def\<close>)
  moreover have "wf_db d'"
    using step_okD [OF wf.mark_rotated_ok q] I \<open>token_open i d\<close> by (simp add: lineage_def)
  ultimately show "lineage d'" using q by (auto simp: lineage_def refresh_tokens_mark_rotated_def)
qed

lemma lineage_supersede: "stmt_ok U lineage (refresh_tokens_supersede_unused_successors i)"
  unfolding step_ok_def
proof (intro allI impI)
  fix now new_id d a d'
  assume I: "lineage d" and q: "refresh_tokens_supersede_unused_successors i now new_id d = Inr (a, d')"
  have "family (upd_where (\<lambda>r. r_parent_id r = Some i \<and> r_rotated_at r = None \<and> r_superseded_at r = None)
      (\<lambda>r. r\<lparr>r_superseded_at := Some now\<rparr>) (refresh_tokens d))"
    by (rule family_upd) (use I in \<open>auto simp: lineage_def dest: family_parent\<close>)
  moreover have "wf_db d'" using step_okD [OF wf.supersede_ok q] I by (simp add: lineage_def)
  ultimately show "lineage d'" using q by (auto simp: lineage_def refresh_tokens_supersede_unused_successors_def)
qed

lemma tokens_delete_users: "set (refresh_tokens (delete_users p d)) \<subseteq> set (refresh_tokens d)"
  and tokens_delete_sessions: "set (refresh_tokens (delete_sessions p' d)) \<subseteq> set (refresh_tokens d)"
  by (auto simp: delete_users_def delete_sessions_def delete_authorization_codes_def Let_def dest: set_sweep)

lemma tokens_delete_flows: "refresh_tokens (delete_login_flows p d) = refresh_tokens d"
  by (simp add: delete_login_flows_def delete_authorization_codes_def Let_def)

lemma lineage_deletes:
  "lineage d \<Longrightarrow> lineage (delete_users p d)" "lineage d \<Longrightarrow> lineage (delete_sessions p' d)"
  "lineage d \<Longrightarrow> lineage (delete_login_flows p'' d)"
  using family_subset tokens_delete_users tokens_delete_sessions
  by (auto simp: lineage_def tokens_delete_flows intro: wf_delete_users wf_delete_sessions wf_delete_flows)

lemmas wf_steps = wf.users_create_ok wf.mark_verified_ok wf.users_change_email_ok wf.flows_create_ok wf.flows_complete_ok
  wf.flows_count_ok wf.codes_create_ok wf.codes_consume_ok wf.sessions_create_ok wf.keys_insert_ok wf.keys_retire_ok
  wf.links_create_ok wf.links_consume_ok wf.links_failure_ok wf.links_consume_by_id_ok wf.changes_create_ok
  wf.changes_consume_ok wf.confirmations_create_ok wf.confirmations_failure_ok wf.confirmations_consume_ok

interpretation lineage: db_invariant E U lineage for E U
  by (unfold_locales;
      (rule lineage_create lineage_mark lineage_supersede lineage_deletes, assumption? |
       rule lineage_frame, rule wf_steps, auto simp: sql Let_def upd_returning_def split: if_splits option.splits |
       auto simp: lineage_def revoke_where_def delete_email_changes_def delete_confirmations_def delete_signing_keys_def
         dest: wf_revoke wf_delete_changes wf_delete_confirmations wf_delete_keys))

section \<open>What follows\<close>

text \<open>A cascade stays within the sessions it starts from.\<close>

lemma sweep_eq_del:
  assumes "\<And>r q. \<lbrakk>r \<in> set rs; r_parent_id r = Some q; q \<in> set dead \<or> (\<exists>x \<in> set rs. p x \<and> r_id x = q)\<rbrakk> \<Longrightarrow> p r"
  shows "sweep_tokens p dead rs = del_where p rs"
  using assms
proof (induction p dead rs rule: sweep_tokens.induct)
  case (2 p dead r rs)
  have same: "(p r \<or> (case r_parent_id r of None \<Rightarrow> False | Some q \<Rightarrow> q \<in> set dead)) = p r"
    using "2.prems" [of r] by (auto split: option.splits)
  show ?case
  proof (cases "p r")
    case True
    have "sweep_tokens p (r_id r # dead) rs = del_where p rs"
      by (rule "2.IH"(1)) (use True "2.prems" in auto)
    with True show ?thesis by simp
  next
    case False
    have "sweep_tokens p dead rs = del_where p rs"
      by (rule "2.IH"(2)) (use False same "2.prems" in auto)
    with False same show ?thesis by (simp cong: option.case_cong)
  qed
qed simp

lemma tokens_of_deleted_sessions:
  assumes "family (refresh_tokens d)"
  shows "refresh_tokens (delete_sessions p d) =
    del_where (\<lambda>r. r_session_id r \<in> s_id ` {s \<in> set (sessions d). p s}) (refresh_tokens d)"
proof -
  let ?gone = "set (map s_id (filter p (sessions d)))"
  have "sweep_tokens (\<lambda>r. r_session_id r \<in> ?gone) [] (refresh_tokens d) = del_where (\<lambda>r. r_session_id r \<in> ?gone) (refresh_tokens d)"
  proof (rule sweep_eq_del)
    fix r q assume r: "r \<in> set (refresh_tokens d)" "r_parent_id r = Some q"
      and "q \<in> set [] \<or> (\<exists>x \<in> set (refresh_tokens d). r_session_id x \<in> ?gone \<and> r_id x = q)"
    then obtain x where "x \<in> set (refresh_tokens d)" "r_session_id x \<in> ?gone" "r_id x = q" by auto
    with r assms show "r_session_id r \<in> ?gone" using family_parent by metis
  qed
  then show ?thesis by (simp add: delete_sessions_def Let_def)
qed

lemma ids_of_cleared:
  fixes ss :: "session list"
  shows "s_id ` {s \<in> set (upd_where q (\<lambda>s. s\<lparr>s_authorization_code_id := None\<rparr>) ss). P (s_user_id s)} = s_id ` {s \<in> set ss. P (s_user_id s)}"
proof -
  let ?g = "\<lambda>s :: session. s\<lparr>s_authorization_code_id := None\<rparr>"
  have "map s_id (filter (\<lambda>s. P (s_user_id s)) (upd_where q ?g ss)) = map s_id (filter (\<lambda>s. P (s_user_id s)) ss)"
    by (induction ss) auto
  then have "set (map s_id (filter (\<lambda>s. P (s_user_id s)) (upd_where q ?g ss))) = set (map s_id (filter (\<lambda>s. P (s_user_id s)) ss))"
    by (rule arg_cong)
  then show ?thesis by (simp only: set_map set_filter)
qed

lemmas ids_of_cleared_in = ids_of_cleared [where P = "\<lambda>u. u \<in> S" for S]
  ids_of_cleared [where P = "\<lambda>u. u \<notin> S" for S] ids_of_cleared [where P = "\<lambda>_. True", simplified]

lemma tokens_of_deleted_users:
  assumes "family (refresh_tokens d)"
  shows "refresh_tokens (delete_users p d) =
    del_where (\<lambda>r. r_session_id r \<in> s_id ` {s \<in> set (sessions d). s_user_id s \<in> u_id ` {u \<in> set (users d). p u}}) (refresh_tokens d)"
proof -
  let ?gone = "u_id ` {u \<in> set (users d). p u}"
  let ?e = "delete_authorization_codes (\<lambda>c. c_user_id c \<in> ?gone) (d\<lparr>users := del_where p (users d),
    magic_links := del_where (\<lambda>m. case m_user_id m of None \<Rightarrow> False | Some u \<Rightarrow> u \<in> ?gone) (magic_links d),
    email_changes := del_where (\<lambda>e. e_user_id e \<in> ?gone) (email_changes d),
    confirmations := del_where (\<lambda>n. n_user_id n \<in> ?gone) (confirmations d)\<rparr>)"
  have e: "delete_users p d = delete_sessions (\<lambda>s. s_user_id s \<in> ?gone) ?e"
    by (simp add: delete_users_def Let_def cong: option.case_cong)
  have tokens: "refresh_tokens ?e = refresh_tokens d" by (simp add: delete_authorization_codes_def Let_def)
  have "s_id ` {s \<in> set (sessions ?e). s_user_id s \<in> ?gone} = s_id ` {s \<in> set (sessions d). s_user_id s \<in> ?gone}"
    by (simp add: delete_authorization_codes_def Let_def ids_of_cleared_in)
  with tokens_of_deleted_sessions [of ?e "\<lambda>s. s_user_id s \<in> ?gone"] assms show ?thesis
    unfolding e tokens by simp
qed

text \<open>From each token the parents lead to the token of the login.\<close>

definition parent_of :: "db \<Rightarrow> refresh_token_row \<Rightarrow> refresh_token_row \<Rightarrow> bool" where
  "parent_of d q r \<longleftrightarrow> q \<in> set (refresh_tokens d) \<and> r \<in> set (refresh_tokens d) \<and> r_parent_id r = Some (r_id q)"

lemma root_exists:
  assumes "parents_first {} (xs @ ys)" "r \<in> set xs"
  shows "\<exists>root \<in> set xs. r_parent_id root = None \<and> (\<lambda>q r. q \<in> set xs \<and> r \<in> set xs \<and> r_parent_id r = Some (r_id q))\<^sup>*\<^sup>* root r"
  using assms
proof (induction xs arbitrary: r ys rule: rev_induct)
  case (snoc x xs)
  let ?P = "\<lambda>xs q r. q \<in> set xs \<and> r \<in> set xs \<and> r_parent_id r = Some (r_id q)"
  have up: "(?P xs)\<^sup>*\<^sup>* a b \<Longrightarrow> (?P (xs @ [x]))\<^sup>*\<^sup>* a b" for a b
    by (erule rtranclp_mono [THEN predicate2D, rotated]) auto
  have pf: "parents_first {} (xs @ [x])"
    using snoc.prems(1) by (induction ys rule: rev_induct) (auto simp: parents_first_append simp flip: append_assoc)
  show ?case
  proof (cases "r \<in> set xs")
    case True
    with snoc.IH [of "x # ys" r] snoc.prems(1) up show ?thesis by auto
  next
    case False
    with snoc.prems(2) have r: "r = x" by simp
    show ?thesis
    proof (cases "r_parent_id x")
      case None
      with r show ?thesis by auto
    next
      case (Some i)
      with pf obtain q where q: "q \<in> set xs" "r_id q = i" by (auto simp: parents_first_append)
      from snoc.IH [of "x # ys" q] snoc.prems(1) q(1) obtain root
        where "root \<in> set xs" "r_parent_id root = None" "(?P xs)\<^sup>*\<^sup>* root q" by auto
      moreover have "?P (xs @ [x]) q x" using q Some by simp
      ultimately show ?thesis using up r by (auto intro: rtranclp.rtrancl_into_rtrancl)
    qed
  qed
qed simp

lemma token_root:
  assumes "lineage d" "r \<in> set (refresh_tokens d)"
  shows "\<exists>root. (parent_of d)\<^sup>*\<^sup>* root r \<and> root \<in> set (refresh_tokens d) \<and> r_parent_id root = None \<and> r_session_id root = r_session_id r"
proof -
  have "parents_first {} (refresh_tokens d @ [])" using assms(1) by (simp add: lineage_def wf_db_def)
  from root_exists [OF this assms(2)] obtain root where root: "root \<in> set (refresh_tokens d)" "r_parent_id root = None"
    and path: "(parent_of d)\<^sup>*\<^sup>* root r" by (auto simp: parent_of_def [abs_def])
  have "r_session_id a = r_session_id b" if "(parent_of d)\<^sup>*\<^sup>* a b" for a b
    using that by induction (use assms(1) family_parent in \<open>auto simp: lineage_def parent_of_def\<close>)
  with root path show ?thesis by auto
qed

end
