(* ===== verification/QueryFacts.thy ===== *)
theory QueryFacts
  imports Lineage
begin

text \<open>
  What the statements mean on a well-formed database, in the form symbolic execution uses: each
  lookup as the row it finds, each update as the change of that one row.
\<close>

section \<open>Lookups\<close>

definition user_of :: "db \<Rightarrow> uuid \<Rightarrow> user option" where
  "user_of d i = List.find (\<lambda>u. u_id u = i) (users d)"

definition token_of :: "db \<Rightarrow> bytes \<Rightarrow> refresh_token_row option" where
  "token_of d h = List.find (\<lambda>r. r_token_hash r = h) (refresh_tokens d)"

text \<open>The code a hash can be exchanged with now.\<close>

definition usable_code :: "time \<Rightarrow> bytes \<Rightarrow> db \<Rightarrow> authorization_code option" where
  "usable_code now h d = List.find (\<lambda>c. flow_of d (c_flow_id c) \<noteq> None \<and> c_code_hash c = h \<and>
     c_consumed_at c = None \<and> c_expires_at c > now) (authorization_codes d)"

definition consumed_of :: "db \<Rightarrow> authorization_code \<Rightarrow> consumed_code" where
  "consumed_of d c = (let f = the (flow_of d (c_flow_id c)) in
     \<lparr>cc_id = c_id c, cc_user_id = c_user_id c, cc_client_id = f_client_id f,
       cc_redirect_uri = f_redirect_uri f, cc_code_challenge = f_code_challenge f\<rparr>)"

definition mark_consumed :: "uuid \<Rightarrow> time \<Rightarrow> db \<Rightarrow> db" where
  "mark_consumed i now d = d\<lparr>authorization_codes :=
     upd_where (\<lambda>c. c_id c = i) (\<lambda>c. c\<lparr>c_consumed_at := Some now\<rparr>) (authorization_codes d)\<rparr>"

lemma user_of_Some: "user_of d i = Some u \<Longrightarrow> u \<in> set (users d) \<and> u_id u = i"
  by (auto simp: user_of_def dest: find_Some_set)

lemma user_of_None: "user_of d i = None \<longleftrightarrow> i \<notin> u_id ` set (users d)"
  by (auto simp: user_of_def find_None_set)

lemma token_of_Some: "token_of d h = Some r \<Longrightarrow> r \<in> set (refresh_tokens d) \<and> r_token_hash r = h"
  by (auto simp: token_of_def dest: find_Some_set)

lemma session_of_Some: "session_of d i = Some s \<Longrightarrow> s \<in> set (sessions d) \<and> s_id s = i"
  by (auto simp: session_of_def dest: find_Some_set)

lemma usable_code_Some: "usable_code now h d = Some c \<Longrightarrow> c \<in> set (authorization_codes d) \<and>
    flow_of d (c_flow_id c) \<noteq> None \<and> c_code_hash c = h \<and> c_consumed_at c = None \<and> c_expires_at c > now"
  by (auto simp: usable_code_def dest: find_Some_set)

lemma consumed_of_simps [simp]:
  "cc_id (consumed_of d c) = c_id c" "cc_user_id (consumed_of d c) = c_user_id c"
  by (simp_all add: consumed_of_def Let_def)

lemma mark_consumed_tables [simp]:
  "users (mark_consumed i now d) = users d" "sessions (mark_consumed i now d) = sessions d"
  "refresh_tokens (mark_consumed i now d) = refresh_tokens d"
  "login_flows (mark_consumed i now d) = login_flows d"
  "user_of (mark_consumed i now d) = user_of d"
  by (simp_all add: mark_consumed_def user_of_def fun_eq_iff)

section \<open>Statements\<close>

lemma users_find_by_id_eq: "users_find_by_id i now new_id d = Inr (user_of d i, d)"
  by (simp add: users_find_by_id_def user_of_def)

lemma consume_eq:
  assumes "wf_db d"
  shows "authorization_codes_consume h now new_id d =
    (case usable_code now h d of None \<Rightarrow> Inr (None, d)
     | Some c \<Rightarrow> Inr (Some (consumed_of d c), mark_consumed (c_id c) now d))"
proof -
  have "upd_returning (\<lambda>c. flow_of d (c_flow_id c) \<noteq> None \<and> c_code_hash c = h \<and> c_consumed_at c = None \<and> c_expires_at c > now)
      (\<lambda>c. c\<lparr>c_consumed_at := Some now\<rparr>) (authorization_codes d) =
    (case usable_code now h d of None \<Rightarrow> (None, authorization_codes d)
     | Some c \<Rightarrow> (Some (c\<lparr>c_consumed_at := Some now\<rparr>), authorization_codes (mark_consumed (c_id c) now d)))"
    unfolding usable_code_def mark_consumed_def
    by (subst upd_returning_unique [where k = c_code_hash and i = c_id and x = h])
       (use assms in \<open>simp_all add: wf_defs split: option.split\<close>)
  then show ?thesis
    by (auto simp: authorization_codes_consume_def Let_def consumed_of_def mark_consumed_def
        dest!: usable_code_Some split: option.split)
qed

lemma find_consumed_eq:
  assumes "wf_db d" "c \<in> set (authorization_codes d)" "c_code_hash c = h" "c_consumed_at c \<noteq> None"
  shows "authorization_codes_find_consumed h now new_id d = Inr (Some (c_id c), d)"
proof -
  have "List.find (\<lambda>c. c_code_hash c = h \<and> c_consumed_at c \<noteq> None) (authorization_codes d) = Some c"
    using assms by (intro find_key [of c_code_hash]) (auto simp: wf_defs)
  then show ?thesis by (simp add: authorization_codes_find_consumed_def)
qed

lemma consumed_not_usable:
  assumes "wf_db d" "c \<in> set (authorization_codes d)" "c_code_hash c = h" "c_consumed_at c \<noteq> None"
  shows "usable_code now h d = None"
proof -
  have "x = c" if "x \<in> set (authorization_codes d)" "c_code_hash x = h" for x
    using assms(1-3) that by (auto simp: wf_defs intro: distinct_key_eq [of c_code_hash])
  with assms(4) show ?thesis by (auto simp: usable_code_def find_None_set)
qed

text \<open>The session of a refresh token always exists.\<close>

lemma find_for_update_eq:
  assumes "wf_db d"
  shows "refresh_tokens_find_for_update h now new_id d = Inr (case token_of d h of
      None \<Rightarrow> None
    | Some r \<Rightarrow> Some (with_session r (the (session_of d (r_session_id r)))), d)"
proof -
  have "session_of d (r_session_id r) \<noteq> None" if "token_of d h = Some r" for r
  proof -
    from token_of_Some [OF that] have "r_session_id r \<in> s_id ` set (sessions d)"
      by (intro wf_token_session [OF assms]) blast
    then show ?thesis unfolding session_of_def find_None_set by force
  qed
  then show ?thesis
    by (auto simp: refresh_tokens_find_for_update_def token_of_def [symmetric] split: option.split)
qed

lemma with_session_simps [simp]:
  "rs_id (with_session r s) = r_id r" "rs_rotated_at (with_session r s) = r_rotated_at r"
  "rs_superseded_at (with_session r s) = r_superseded_at r" "rs_session_id (with_session r s) = s_id s"
  "rs_user_id (with_session r s) = s_user_id s" "rs_client_id (with_session r s) = s_client_id s"
  "rs_session_expires_at (with_session r s) = s_expires_at s"
  "rs_session_revoked_at (with_session r s) = s_revoked_at s"
  by (simp_all add: with_session_def)

text \<open>Revoking reaches exactly the sessions meant, and leaves the other tables alone.\<close>

lemma revoke_where_tables [simp]:
  "users (revoke_where p now d) = users d" "refresh_tokens (revoke_where p now d) = refresh_tokens d"
  "authorization_codes (revoke_where p now d) = authorization_codes d"
  "login_flows (revoke_where p now d) = login_flows d" "magic_links (revoke_where p now d) = magic_links d"
  "confirmations (revoke_where p now d) = confirmations d"
  "email_changes (revoke_where p now d) = email_changes d"
  "signing_keys (revoke_where p now d) = signing_keys d"
  by (simp_all add: revoke_where_def)

lemma revoke_where_revoked:
  assumes "s \<in> set (sessions (revoke_where p now d))" "p s" "\<And>q t. p (q\<lparr>s_revoked_at := t\<rparr>) = p q"
  shows "s_revoked_at s \<noteq> None"
proof -
  from assms(1) obtain q where "q \<in> set (sessions d)"
    "s = (if p q \<and> s_revoked_at q = None then q\<lparr>s_revoked_at := Some now\<rparr> else q)"
    by (auto simp: revoke_where_def in_upd_where)
  with assms(2,3) show ?thesis by (auto split: if_splits)
qed

lemma revoke_where_other:
  "\<lbrakk>s \<in> set (sessions d); \<not> p s\<rbrakk> \<Longrightarrow> s \<in> set (sessions (revoke_where p now d))"
  by (auto simp: revoke_where_def set_upd_where)

end
