(* ===== verification/Demo.thy ===== *)
theory Demo
  imports QueryFacts
begin

text \<open>
  A small concrete instance of the model: stand-ins for the crates, one registered client, and a world
  with an account in the middle of a login. The witnesses of the properties run the definitions on it.
\<close>

section \<open>Running a computation\<close>

definition succeeds :: "('e, 'a) req \<Rightarrow> world \<Rightarrow> bool" where
  "succeeds m w = (case m w of None \<Rightarrow> False | Some (r, _) \<Rightarrow> (case r of Inl _ \<Rightarrow> False | Inr _ \<Rightarrow> True))"

definition fails :: "('e, 'a) req \<Rightarrow> world \<Rightarrow> bool" where
  "fails m w = (case m w of None \<Rightarrow> False | Some (r, _) \<Rightarrow> (case r of Inl _ \<Rightarrow> True | Inr _ \<Rightarrow> False))"

definition value_of :: "('e, 'a) req \<Rightarrow> world \<Rightarrow> 'a" where
  "value_of m w = projr (fst (the (m w)))"

definition error_of :: "('e, 'a) req \<Rightarrow> world \<Rightarrow> 'e" where
  "error_of m w = projl (fst (the (m w)))"

definition next_of :: "('e, 'a) req \<Rightarrow> world \<Rightarrow> world" where
  "next_of m w = snd (the (m w))"

lemma succeeds_run: "succeeds m w \<Longrightarrow> m w = Some (Inr (value_of m w), next_of m w)"
  by (auto simp: succeeds_def value_of_def next_of_def split: option.splits sum.splits)

lemma fails_run: "fails m w \<Longrightarrow> m w = Some (Inl (error_of m w), next_of m w)"
  by (auto simp: fails_def error_of_def next_of_def split: option.splits sum.splits)

section \<open>Stand-ins for the crates\<close>

definition demo_claims :: access_token_claims where
  "demo_claims = \<lparr>iss_claim = ''https://id'', sub_claim = 1, aud_claim = ''web'', client_id_claim = ''web'',
     sid_claim = 4, iat_claim = 0, exp_claim = 900, jti_claim = 99\<rparr>"

definition demo_ext :: ext where
  "demo_ext = \<lparr>
     x_sha256 = (\<lambda>m. m),
     x_b64url = (\<lambda>b. b),
     x_b64_decode = (\<lambda>s. Some (replicate 32 (CHR ''k''))),
     x_hmac = (\<lambda>k m. k @ m),
     x_hmac_verify = (\<lambda>k m t. t = k @ m),
     x_aead_encrypt = (\<lambda>k n a m. m),
     x_aead_decrypt = (\<lambda>k n a c. Some c),
     x_uuid_bytes = (\<lambda>u. [char_of (unat u)]),
     x_uuid_string = (\<lambda>u. digits_of (unat u)),
     x_ed25519_public = (\<lambda>s. s),
     x_jwt_encode = (\<lambda>h c k. Some ''jwt''),
     x_jwt_decode_header = (\<lambda>t. Some \<lparr>hdr_alg = EdDSA, hdr_typ = Some ''at+jwt'', hdr_kid = Some ''7''\<rparr>),
     x_jwt_decode = (\<lambda>t k v now. Some demo_claims),
     x_jwk_key = (\<lambda>k. Some (jwk_x k)),
     x_to_lowercase = (\<lambda>s. map to_ascii_lowercase s),
     x_pg_lower = (\<lambda>s. map to_ascii_lowercase s),
     x_gov_check = (\<lambda>q log key now. None),
     x_render = (\<lambda>t ctx. t),
     x_url_parse = (\<lambda>u. Inr \<lparr>url_scheme = ''https'', url_host_str = Some ''app'', url_port = None,
        url_query = None, url_fragment = None, url_as_str = u\<rparr>),
     x_ip_parse = (\<lambda>s. None)\<rparr>"

definition demo_client :: client where
  "demo_client = \<lparr>cl_id = ''web'', cl_name = ''App'', cl_redirect_uris = [''https://app/cb''],
     cl_allow_signup = True, cl_audience = None, cl_magic_link_url = ''https://app/m'',
     cl_email_change_url = Some ''https://app/e'', cl_allowed_origins = []\<rparr>"

definition demo_state :: app_state where
  "demo_state = \<lparr>st_issuer = ''https://id'', st_clients = [''web'' \<mapsto> demo_client],
     st_code_keys = \<lparr>magic_link_key = ''a'', confirmation_key = ''b''\<rparr>, st_trusted_proxies = []\<rparr>"

section \<open>Rows\<close>

definition demo_user :: user where
  "demo_user = \<lparr>u_id = 1, u_email = ''a@b.c'', u_email_verified_at = None, u_disabled_at = None,
     u_created_at = 0, u_updated_at = 0\<rparr>"

definition demo_verifier :: string where
  "demo_verifier = replicate 43 (CHR ''v'')"

definition demo_flow :: login_flow where
  "demo_flow = \<lparr>f_id = 2, f_client_id = ''web'', f_redirect_uri = ''https://app/cb'',
     f_code_challenge = demo_verifier, f_state = None, f_magic_link_requests = 1, f_expires_at = 1000,
     f_completed_at = Some 5, f_created_at = 0\<rparr>"

definition demo_code :: authorization_code where
  "demo_code = \<lparr>c_id = 3, c_code_hash = ''code'', c_flow_id = 2, c_user_id = 1, c_expires_at = 1000,
     c_consumed_at = None, c_created_at = 5\<rparr>"

definition demo_session :: session where
  "demo_session = \<lparr>s_id = 4, s_user_id = 1, s_client_id = ''web'', s_authorization_code_id = Some 3,
     s_expires_at = 1000, s_revoked_at = None, s_created_at = 6\<rparr>"

definition demo_token :: refresh_token_row where
  "demo_token = \<lparr>r_id = 5, r_session_id = 4, r_parent_id = None, r_token_hash = ''refresh'',
     r_rotated_at = None, r_superseded_at = None, r_created_at = 6\<rparr>"

definition demo_pending_flow :: login_flow where
  "demo_pending_flow = demo_flow\<lparr>f_id := 6, f_completed_at := None\<rparr>"

definition demo_link :: magic_link_row where
  "demo_link = \<lparr>m_id = 8, m_flow_id = 6, m_user_id = Some 1, m_email = ''a@b.c'', m_token_hash = ''link'',
     m_code_hash = ''a'' @ [char_of (6 :: nat)] @ ''123456'', m_code_failures = 0, m_expires_at = 1000,
     m_consumed_at = None, m_created_at = 5\<rparr>"

definition demo_change :: email_change_row where
  "demo_change = \<lparr>e_id = 9, e_user_id = 1, e_from_email = ''a@b.c'', e_to_email = ''n@b.c'',
     e_token_hash = ''change'', e_expires_at = 1000, e_consumed_at = None, e_created_at = 5\<rparr>"

definition demo_confirmation :: confirmation_row where
  "demo_confirmation = \<lparr>n_id = 10, n_user_id = 1, n_session_id = 4, n_action = ''delete_account'',
     n_email = ''a@b.c'', n_code_hash = ''b'' @ [char_of (4 :: nat)] @ ''123456'', n_code_failures = 0,
     n_expires_at = 1000, n_consumed_at = None, n_created_at = 5\<rparr>"

definition demo_key :: signing_key_row where
  "demo_key = \<lparr>k_id = 7, k_public_key = replicate 32 (CHR ''k''),
     k_encrypted_private_key = replicate 56 (CHR ''k''), k_active_at = 0, k_retired_at = None, k_created_at = 0\<rparr>"

section \<open>Worlds\<close>

text \<open>Before the exchange: the code is there, no session yet.\<close>

definition login_db :: db where
  "login_db = empty_db\<lparr>users := [demo_user], login_flows := [demo_flow, demo_pending_flow],
     authorization_codes := [demo_code], magic_links := [demo_link]\<rparr>"

text \<open>After it: the code is spent, the session open.\<close>

definition session_db :: db where
  "session_db = login_db\<lparr>authorization_codes := [demo_code\<lparr>c_consumed_at := Some 6\<rparr>],
     sessions := [demo_session], refresh_tokens := [demo_token], email_changes := [demo_change],
     confirmations := [demo_confirmation], signing_keys := [demo_key]\<rparr>"

definition demo_world :: "db \<Rightarrow> world" where
  "demo_world d = \<lparr>w_db = d, w_tx = None, w_email_per_address = [], w_email_per_ip = [], w_token_per_ip = [],
     w_outbox = [],
     w_keys = \<lparr>sk_keys = [\<lparr>lk_kid = 7, lk_encoding_key = ''key'', lk_active_at = 0, lk_retired_at = None\<rparr>],
       sk_jwks = [\<lparr>jwk_kid = Some ''7'', jwk_use = ''sig'', jwk_alg = EdDSA, jwk_kty = ''OKP'',
         jwk_crv = ''Ed25519'', jwk_x = ''key''\<rparr>]\<rparr>,
     w_utc = (\<lambda>_. 10), w_db_clock = (\<lambda>_. 10), w_mono = (\<lambda>_. 10), w_ids = (\<lambda>n. of_nat n + 100),
     w_rng = (\<lambda>_. CHR 0x00), w_faults = (\<lambda>_. False)\<rparr>"

lemmas demo_defs = demo_ext_def demo_client_def demo_state_def demo_user_def demo_verifier_def
  demo_flow_def demo_code_def demo_session_def demo_token_def demo_pending_flow_def demo_link_def
  demo_change_def demo_confirmation_def demo_key_def login_db_def session_db_def demo_world_def empty_db_def

lemma demo_world_simps [simp]:
  "w_db (demo_world d) = d" "w_tx (demo_world d) = None" "w_outbox (demo_world d) = []"
  "w_utc (demo_world d) n = 10" "w_db_clock (demo_world d) n = 10" "w_faults (demo_world d) n = False"
  "w_rng (demo_world d) n = CHR 0x00" "w_mono (demo_world d) n = 10"
  by (simp_all add: demo_world_def)

lemma login_db_wf: "wf_db login_db"
  by (simp add: wf_defs demo_defs)

lemma session_db_wf: "wf_db session_db"
  by (simp add: wf_defs demo_defs)

lemma session_db_family: "family (refresh_tokens session_db)"
  by (simp add: family_def demo_defs)

definition demo_exchange :: token_request where
  "demo_exchange = \<lparr>tr_grant_type = ''authorization_code'', tr_client_id = ''web'', tr_code = Some ''code'',
     tr_redirect_uri = Some ''https://app/cb'', tr_code_verifier = Some demo_verifier, tr_refresh_token = None\<rparr>"

lemma demo_exchange_succeeds:
  "succeeds (authorization_code_grant demo_ext demo_state demo_exchange) (demo_world login_db)"
  by code_simp

end
