(* ===== verification/TokenEndpoint.thy ===== *)
theory TokenEndpoint
  imports Demo
begin

text \<open>
  What \<open>POST /oauth/token\<close> and \<open>POST /oauth/revoke\<close> guarantee: an authorization code is exchanged once,
  by the app that asked for it and holds the PKCE verifier; a replay revokes the session; a refresh
  token rotates, survives a lost response, and a stolen copy kills the session; a failed request
  leaves the database as it was.
\<close>

section \<open>Vocabulary\<close>

text \<open>The exchange the request asks for is allowed, for this client and this code.\<close>

definition may_exchange :: "ext \<Rightarrow> app_state \<Rightarrow> token_request \<Rightarrow> time \<Rightarrow> db \<Rightarrow> client \<Rightarrow> authorization_code \<Rightarrow> bool" where
  "may_exchange E st input now d client c \<longleftrightarrow>
     (\<exists>code redirect verifier u. tr_code input = Some code \<and> tr_redirect_uri input = Some redirect \<and>
        tr_code_verifier input = Some verifier \<and> st_clients st (tr_client_id input) = Some client \<and>
        usable_code now (token_hash E code) d = Some c \<and>
        cc_client_id (consumed_of d c) = cl_id client \<and> cc_redirect_uri (consumed_of d c) = redirect \<and>
        pkce_verify E verifier (cc_code_challenge (consumed_of d c)) \<and>
        user_of d (c_user_id c) = Some u \<and> u_disabled_at u = None)"

text \<open>What it leaves: the code spent, one new session of the account on the client, one new token.\<close>

definition exchange_effect :: "ext \<Rightarrow> time \<Rightarrow> time \<Rightarrow> client \<Rightarrow> authorization_code \<Rightarrow> token_response \<Rightarrow> db \<Rightarrow> db \<Rightarrow> bool" where
  "exchange_effect E now utc client c resp d d' \<longleftrightarrow>
     (\<exists>s t. d' = (mark_consumed (c_id c) now d)
          \<lparr>sessions := sessions d @ [s], refresh_tokens := refresh_tokens d @ [t]\<rparr> \<and>
        s_user_id s = c_user_id c \<and> s_client_id s = cl_id client \<and>
        s_authorization_code_id s = Some (c_id c) \<and> s_revoked_at s = None \<and>
        s_expires_at s = utc + SESSION_TTL \<and>
        r_session_id t = s_id s \<and> r_parent_id t = None \<and> r_rotated_at t = None \<and>
        r_superseded_at t = None \<and> r_token_hash t = token_hash E (tp_refresh_token resp))"

lemmas grant_defs = authorization_code_grant_def required_def sessions_open_def new_refresh_token_def
  issue_def user_unusable_def token_response_of_def Let_def

section \<open>The authorization code grant\<close>

lemma authorization_code_grant_wp:
  assumes "w_tx w = None" "wf_db (w_db w)"
  shows "wp (authorization_code_grant E st input)
    (\<lambda>resp w'. \<exists>client c. may_exchange E st input (stmt_now w) (w_db w) client c \<and>
       exchange_effect E (stmt_now w) (w_utc w 0) client c resp (w_db w) (w_db w') \<and>
       w_tx w' = None \<and> w_outbox w' = w_outbox w) (\<lambda>_ _. True) w"
  using assms unfolding may_exchange_def exchange_effect_def
  by (simp add: grant_defs wp consume_eq users_find_by_id_eq sessions_create_def refresh_tokens_create_def
      split: option.split sum.split prod.split)
     (intro allI impI exI conjI, (rule refl | simp)+)

text \<open>Replaying a spent code revokes the session it opened; every other failure changes nothing.\<close>

definition replay_effect :: "ext \<Rightarrow> token_request \<Rightarrow> db \<Rightarrow> db \<Rightarrow> bool" where
  "replay_effect E input d d' \<longleftrightarrow>
     (\<exists>code c t. tr_code input = Some code \<and> c \<in> set (authorization_codes d) \<and>
        c_code_hash c = token_hash E code \<and> c_consumed_at c \<noteq> None \<and>
        d' = revoke_where (\<lambda>s. s_authorization_code_id s = Some (c_id c)) t d)"

lemma find_consumed_Some:
  "authorization_codes_find_consumed h now new_id d = Inr (r, d') \<Longrightarrow> d' = d \<and>
    (\<forall>i. r = Some i \<longrightarrow> (\<exists>c \<in> set (authorization_codes d). c_id c = i \<and> c_code_hash c = h \<and> c_consumed_at c \<noteq> None))"
  by (auto simp: authorization_codes_find_consumed_def dest: find_Some_set)

lemma reject_wp:
  assumes "w_tx w = None" "tr_code input = Some code"
  shows "wp (reject_unusable_code (token_hash E code))
    (\<lambda>e w'. e = OInvalidGrant ''code is invalid, expired or already used'' \<and> w_tx w' = None \<and>
       w_outbox w' = w_outbox w \<and> (w_db w' = w_db w \<or> replay_effect E input (w_db w) (w_db w')))
    (\<lambda>_ w'. w_tx w' = None \<and> w_outbox w' = w_outbox w \<and> w_db w' = w_db w) w"
  using assms
  by (auto simp: reject_unusable_code_def wp replay_effect_def sessions_revoke_by_authorization_code_def
      Let_def split: sum.split prod.split option.split dest!: find_consumed_Some)

lemma authorization_code_grant_failure_wp:
  assumes "w_tx w = None" "wf_db (w_db w)"
  shows "wp (authorization_code_grant E st input) (\<lambda>_ _. True)
    (\<lambda>_ w'. w_tx w' = None \<and> w_outbox w' = w_outbox w \<and>
       (w_db w' = w_db w \<or> replay_effect E input (w_db w) (w_db w'))) w"
proof -
  have reject: "wp (reject_unusable_code (token_hash E code)) P Q v"
    if "w_tx v = None" "w_db v = w_db w" "w_outbox v = w_outbox w" "tr_code input = Some code"
      "\<And>e w'. \<lbrakk>w_tx w' = None; w_outbox w' = w_outbox w;
         w_db w' = w_db w \<or> replay_effect E input (w_db w) (w_db w')\<rbrakk> \<Longrightarrow> P e w' \<and> Q e w'" for v code P Q
    using reject_wp [OF that(1,4), of E] that by (elim wp_mono) auto
  show ?thesis
    using assms
    by (simp add: grant_defs wp consume_eq users_find_by_id_eq sessions_create_def refresh_tokens_create_def
        w_db_drop_tx split: option.split sum.split prod.split)
       (auto intro!: reject simp: w_db_drop_tx)
qed

lemma returns_token_generate [total]: "returns (token_generate E)"
  unfolding token_generate_def by (intro total)

lemma returns_grants [total]:
  "returns (authorization_code_grant E st input)" "returns (refresh_token_grant E st input)"
  unfolding grant_defs refresh_token_grant_def refresh_finish_def refresh_stolen_def osql_def reject_unusable_code_def
  by (intro total)+

text \<open>C2 (exchange_success): when \<open>/oauth/token\<close> answers tokens for an authorization code, the code existed, was
  unused and unexpired, had been issued to this client for this redirect URI, the PKCE verifier matches
  the flow's challenge and the account is enabled; the code is then spent, and exactly one session of
  that account on that client, with one refresh token (the one returned, stored as its hash), is added.
  Nothing else in the database changes.\<close>

theorem exchange_success:
  assumes "w_tx w = None" "wf_db (w_db w)"
    and "authorization_code_grant E st input w = Some (Inr resp, w')"
  shows "\<exists>client c. may_exchange E st input (stmt_now w) (w_db w) client c \<and>
    exchange_effect E (stmt_now w) (w_utc w 0) client c resp (w_db w) (w_db w') \<and>
    w_tx w' = None \<and> w_outbox w' = w_outbox w"
  using wp_ok_run [OF authorization_code_grant_wp [OF assms(1,2)] assms(3)] .

theorem exchange_success_witness:
  "\<exists>client c. may_exchange demo_ext demo_state demo_exchange 10 login_db client c \<and>
    exchange_effect demo_ext 10 10 client c
      (value_of (authorization_code_grant demo_ext demo_state demo_exchange) (demo_world login_db)) login_db
      (w_db (next_of (authorization_code_grant demo_ext demo_state demo_exchange) (demo_world login_db)))"
  using exchange_success [OF _ _ succeeds_run [OF demo_exchange_succeeds]] login_db_wf
  by auto

text \<open>C3 (exchange_failure_atomic): when the exchange of an authorization code fails, for whatever reason
  (a missing field, an unknown client, a mismatch of client, redirect URI or PKCE verifier, a disabled
  account, no signing key, a lost database connection at any statement), the database is exactly as before,
  except that replaying a code already spent revokes the session it opened.\<close>

theorem exchange_failure_atomic:
  assumes "w_tx w = None" "wf_db (w_db w)"
    and "authorization_code_grant E st input w = Some (Inl e, w')"
  shows "w_tx w' = None \<and> w_outbox w' = w_outbox w \<and>
    (w_db w' = w_db w \<or> replay_effect E input (w_db w) (w_db w'))"
  using wp_err_run [OF authorization_code_grant_failure_wp [OF assms(1,2)] assms(3)] .

definition demo_wrong_verifier :: token_request where
  "demo_wrong_verifier = demo_exchange\<lparr>tr_code_verifier := Some (replicate 43 (CHR ''w''))\<rparr>"

lemma demo_wrong_verifier_fails:
  "fails (authorization_code_grant demo_ext demo_state demo_wrong_verifier) (demo_world login_db)"
  by code_simp

theorem exchange_failure_atomic_witness:
  "w_db (next_of (authorization_code_grant demo_ext demo_state demo_wrong_verifier) (demo_world login_db)) = login_db"
  using exchange_failure_atomic [OF _ _ fails_run [OF demo_wrong_verifier_fails]] login_db_wf
  by (auto simp: replay_effect_def demo_wrong_verifier_def demo_exchange_def demo_defs)

text \<open>An allowed exchange goes through: with the database reachable, fresh ids and
  a fresh refresh token, a signing key, and a code not exchanged yet, the endpoint answers tokens.\<close>

lemma exchange_completes:
  assumes "w_tx w = None" "wf_db (w_db w)" "provenance (w_db w)"
    and "may_exchange E st input (stmt_now w) (w_db w) client c"
    and "\<And>n. \<not> w_faults w n" "w_ids w 3 \<notin> s_id ` set (sessions (w_db w))"
    and "w_ids w 4 \<notin> r_id ` set (refresh_tokens (w_db w))"
    and "token_hash E (tok_plain (token_of_bytes E (map (w_rng w) [0..<32])))
      \<notin> r_token_hash ` set (refresh_tokens (w_db w))"
    and "signing_key (w_keys w) (w_utc w 1) = Some key"
    and "\<And>claims. x_jwt_encode E (access_header E key) claims (lk_encoding_key key) \<noteq> None"
  shows "\<exists>resp w'. authorization_code_grant E st input w = Some (Inr resp, w')"
proof -
  obtain code redirect verifier u where input: "tr_code input = Some code" "tr_redirect_uri input = Some redirect"
      "tr_code_verifier input = Some verifier" "st_clients st (tr_client_id input) = Some client"
    and code: "usable_code (stmt_now w) (token_hash E code) (w_db w) = Some c"
      "cc_client_id (consumed_of (w_db w) c) = cl_id client" "cc_redirect_uri (consumed_of (w_db w) c) = redirect"
      "pkce_verify E verifier (cc_code_challenge (consumed_of (w_db w) c))"
    and u: "user_of (w_db w) (c_user_id c) = Some u" "u_disabled_at u = None"
    using assms(4) by (auto simp: may_exchange_def)
  note c = usable_code_Some [OF code(1)]
  have "Some (c_id c) \<notin> s_authorization_code_id ` set (sessions (w_db w))"
  proof
    assume "Some (c_id c) \<in> s_authorization_code_id ` set (sessions (w_db w))"
    then have "code_consumed (c_id c) (w_db w)" using assms(3) by (force simp: provenance_def)
    then obtain x where "x \<in> set (authorization_codes (w_db w))" "c_id x = c_id c" "c_consumed_at x \<noteq> None"
      by (auto simp: code_consumed_def)
    moreover from this c assms(2) have "x = c" by (auto simp: wf_defs intro: distinct_key_eq [of c_id])
    ultimately show False using c by simp
  qed
  moreover have "c_user_id c \<in> u_id ` set (users (w_db w))" using wf_code_user [OF assms(2)] c by blast
  moreover have "c_id c \<in> c_id ` set (authorization_codes (mark_consumed (c_id c) now (w_db w)))" for now
    using c by (simp add: mark_consumed_def)
  ultimately have "wp (authorization_code_grant E st input) (\<lambda>_ _. True) (\<lambda>_ _. False) w"
    using assms(1,2,5-10) input code u
    by (simp add: grant_defs wp consume_eq users_find_by_id_eq sessions_create_def refresh_tokens_create_def
        numeral_eq_Suc split: option.split)
  then show ?thesis using returns_success [OF returns_grants(1)] by blast
qed

lemma exchange_completes_concrete:
  "\<exists>resp w'. authorization_code_grant demo_ext demo_state demo_exchange (demo_world login_db) = Some (Inr resp, w')"
proof (rule exchange_completes [where client = demo_client and c = demo_code and
      key = "\<lparr>lk_kid = 7, lk_encoding_key = ''key'', lk_active_at = 0, lk_retired_at = None\<rparr>"])
  show "may_exchange demo_ext demo_state demo_exchange (stmt_now (demo_world login_db)) (w_db (demo_world login_db))
      demo_client demo_code"
    by (simp add: may_exchange_def demo_exchange_def usable_code_def flow_of_def consumed_of_def user_of_def
        pkce_verify_def is_valid_verifier_def is_ascii_alphanumeric_def is_ascii_lowercase_def token_hash_def
        list_all_iff demo_defs)
  show "provenance (w_db (demo_world login_db))"
    by (simp add: provenance_def flow_completed_def demo_defs)
qed (simp_all add: login_db_wf, simp_all add: demo_defs signing_key_def can_sign_def)

text \<open>C4 (replay_revokes): presenting an authorization code a second time is refused, and revokes the session the
  code had opened, so the tokens issued for it stop working.\<close>

theorem replay_revokes:
  assumes "w_tx w = None" "wf_db (w_db w)" "\<And>n. \<not> w_faults w n"
    and "tr_code input = Some code" "tr_redirect_uri input = Some redirect"
    and "tr_code_verifier input = Some verifier" "st_clients st (tr_client_id input) = Some client"
    and "c \<in> set (authorization_codes (w_db w))" "c_code_hash c = token_hash E code" "c_consumed_at c \<noteq> None"
  shows "\<exists>w'. authorization_code_grant E st input w =
      Some (Inl (OInvalidGrant ''code is invalid, expired or already used''), w') \<and>
    (\<forall>s \<in> set (sessions (w_db w')). s_authorization_code_id s = Some (c_id c) \<longrightarrow> s_revoked_at s \<noteq> None) \<and>
    (\<forall>s \<in> set (sessions (w_db w)). s_authorization_code_id s \<noteq> Some (c_id c) \<longrightarrow> s \<in> set (sessions (w_db w')))"
proof -
  have unusable: "usable_code now (token_hash E code) (w_db w) = None" for now
    by (rule consumed_not_usable [OF assms(2,8-10)])
  have found: "authorization_codes_find_consumed (token_hash E code) now i (w_db w) = Inr (Some (c_id c), w_db w)" for now i
    by (rule find_consumed_eq [OF assms(2,8-10)])
  let ?p = "\<lambda>s. s_authorization_code_id s = Some (c_id c)"
  have "wp (authorization_code_grant E st input) (\<lambda>_ _. False)
      (\<lambda>e w'. e = OInvalidGrant ''code is invalid, expired or already used'' \<and>
        (\<exists>t. w_db w' = revoke_where ?p t (w_db w))) w"
    using assms(1-7) unusable found
    by (auto simp: grant_defs wp consume_eq reject_unusable_code_def w_db_drop_tx
        sessions_revoke_by_authorization_code_def drop_tx_def after_stmt_def)
  from returns_failure [OF returns_grants(1) this] obtain w' t
    where w': "authorization_code_grant E st input w =
        Some (Inl (OInvalidGrant ''code is invalid, expired or already used''), w')"
      "w_db w' = revoke_where ?p t (w_db w)" by blast
  then show ?thesis
    by (intro exI [of _ w']) (auto dest: revoke_where_revoked [of _ ?p] intro: revoke_where_other)
qed

theorem replay_revokes_witness:
  "\<exists>w'. authorization_code_grant demo_ext demo_state demo_exchange (demo_world session_db) =
      Some (Inl (OInvalidGrant ''code is invalid, expired or already used''), w') \<and>
    (\<forall>s \<in> set (sessions (w_db w')). s_authorization_code_id s = Some 3 \<longrightarrow> s_revoked_at s \<noteq> None)"
  using replay_revokes [where w = "demo_world session_db" and input = demo_exchange and st = demo_state and
      E = demo_ext and c = "demo_code\<lparr>c_consumed_at := Some 6\<rparr>" and code = "''code''" and
      client = demo_client and redirect = "''https://app/cb''" and verifier = demo_verifier]
    session_db_wf
  by (auto simp: demo_exchange_def demo_defs token_hash_def)

section \<open>The refresh token grant\<close>

text \<open>The token is a copy in the wrong hands: it was replaced by a retry of its parent, or it was rotated
  longer ago than the grace period and a token rotated from it has been used.\<close>

definition stolen_copy :: "time \<Rightarrow> refresh_token_row \<Rightarrow> db \<Rightarrow> bool" where
  "stolen_copy utc r d \<longleftrightarrow> r_superseded_at r \<noteq> None \<or>
     (\<exists>t. r_rotated_at r = Some t \<and> utc - t > REFRESH_REUSE_GRACE \<and>
        (\<exists>x \<in> set (refresh_tokens d). r_parent_id x = Some (r_id r) \<and> r_rotated_at x \<noteq> None))"

text \<open>What a refresh does to the tokens already there: the first use marks the token rotated, a retry after
  the grace period retires the unused tokens rotated from it, a retry within it changes nothing.\<close>

definition rotation_effect :: "time \<Rightarrow> time \<Rightarrow> refresh_token_row \<Rightarrow> db \<Rightarrow> db" where
  "rotation_effect utc now r d = (case r_rotated_at r of
      None \<Rightarrow> d\<lparr>refresh_tokens := upd_where (\<lambda>x. r_id x = r_id r \<and> r_rotated_at x = None)
                (\<lambda>x. x\<lparr>r_rotated_at := Some now\<rparr>) (refresh_tokens d)\<rparr>
    | Some t \<Rightarrow> if utc - t \<le> REFRESH_REUSE_GRACE then d
        else d\<lparr>refresh_tokens := upd_where
                (\<lambda>x. r_parent_id x = Some (r_id r) \<and> r_rotated_at x = None \<and> r_superseded_at x = None)
                (\<lambda>x. x\<lparr>r_superseded_at := Some now\<rparr>) (refresh_tokens d)\<rparr>)"

lemma rotation_effect_tables [simp]:
  "users (rotation_effect utc now r d) = users d" "sessions (rotation_effect utc now r d) = sessions d"
  "user_of (rotation_effect utc now r d) = user_of d"
  by (simp_all add: rotation_effect_def user_of_def fun_eq_iff split: option.split)

lemma refresh_stolen_wp:
  assumes "w_tx w = Some (d0, t0)"
  shows "wp (refresh_stolen (with_session r s) utc) P Q w \<longleftrightarrow>
    (if r_superseded_at r \<noteq> None then P True w
     else case r_rotated_at r of
        None \<Rightarrow> if w_faults w 0 then Q (oauth_from_sql Unavailable) (after_stmt w)
          else P False ((after_stmt w)\<lparr>w_db := rotation_effect utc t0 r (w_db w)\<rparr>)
      | Some t \<Rightarrow>
          if utc - t \<le> REFRESH_REUSE_GRACE then P False w
          else if w_faults w 0 then Q (oauth_from_sql Unavailable) (after_stmt w)
          else if stolen_copy utc r (w_db w) then P True ((after_stmt w)\<lparr>w_db := w_db w\<rparr>)
          else if w_faults w 1 then Q (oauth_from_sql Unavailable) (after_stmt ((after_stmt w)\<lparr>w_db := w_db w\<rparr>))
          else P False ((after_stmt ((after_stmt w)\<lparr>w_db := w_db w\<rparr>))\<lparr>w_db := rotation_effect utc t0 r (w_db w)\<rparr>))"
  using assms
  by (simp add: refresh_stolen_def wp sql rotation_effect_def stolen_copy_def list_ex_iff split: option.split)
     (auto simp: not_le)

definition refreshed :: "ext \<Rightarrow> refresh_token_row \<Rightarrow> token_response \<Rightarrow> db \<Rightarrow> db \<Rightarrow> bool" where
  "refreshed E r resp d d' \<longleftrightarrow> (\<exists>t. d' = d\<lparr>refresh_tokens := refresh_tokens d @ [t]\<rparr> \<and>
     r_session_id t = r_session_id r \<and> r_parent_id t = Some (r_id r) \<and> r_rotated_at t = None \<and>
     r_superseded_at t = None \<and> r_token_hash t = token_hash E (tp_refresh_token resp))"

lemma session_of_id: "session_of d i = Some s \<Longrightarrow> s_id s = i"
  by (auto dest: session_of_Some)

lemma token_session:
  assumes "wf_db d" "token_of d h = Some r"
  obtains s where "session_of d (r_session_id r) = Some s"
proof -
  from token_of_Some [OF assms(2)] have "r_session_id r \<in> s_id ` set (sessions d)"
    by (intro wf_token_session [OF assms(1)]) blast
  then have "session_of d (r_session_id r) \<noteq> None" unfolding session_of_def find_None_set by force
  with that show ?thesis by blast
qed

lemmas refresh_defs = refresh_finish_def new_refresh_token_def issue_def user_unusable_def
  token_response_of_def Let_def

lemma refresh_finish_wp:
  assumes "w_tx v = Some (d0, t0)"
  shows "wp (refresh_finish E st client (with_session r s) utc)
    (\<lambda>resp v'. \<exists>u. user_of (w_db v) (s_user_id s) = Some u \<and> u_disabled_at u = None \<and> w_tx v' = None \<and>
       (\<exists>t. w_db v' = (w_db v)\<lparr>refresh_tokens := refresh_tokens (w_db v) @ [t]\<rparr> \<and>
         r_session_id t = s_id s \<and> r_parent_id t = Some (r_id r) \<and> r_rotated_at t = None \<and>
         r_superseded_at t = None \<and> r_token_hash t = token_hash E (tp_refresh_token resp)))
    (\<lambda>_ v'. w_db (drop_tx v') = d0 \<or> w_tx v' = None \<and>
       w_db v' = revoke_where (\<lambda>x. s_id x = s_id s) t0 (w_db v)) v"
  using assms
  by (simp add: refresh_defs wp users_find_by_id_eq refresh_tokens_create_def sessions_revoke_def w_db_drop_tx
      split: option.split)
     (intro allI impI exI conjI, (rule refl | simp)+)

text \<open>What each outcome of a refresh means, for a token that exists.\<close>

definition refresh_ok :: "ext \<Rightarrow> app_state \<Rightarrow> token_request \<Rightarrow> world \<Rightarrow> refresh_token_row \<Rightarrow> session \<Rightarrow>
    token_response \<Rightarrow> db \<Rightarrow> bool" where
  "refresh_ok E st input w r s resp d' \<longleftrightarrow>
     (\<exists>client u. st_clients st (tr_client_id input) = Some client \<and> s_client_id s = cl_id client \<and>
        s_revoked_at s = None \<and> w_utc w 0 < s_expires_at s \<and> \<not> stolen_copy (w_utc w 0) r (w_db w) \<and>
        user_of (w_db w) (s_user_id s) = Some u \<and> u_disabled_at u = None \<and>
        refreshed E r resp (rotation_effect (w_utc w 0) (stmt_now w) r (w_db w)) d')"

definition refresh_refused :: "world \<Rightarrow> refresh_token_row \<Rightarrow> session \<Rightarrow> db \<Rightarrow> bool" where
  "refresh_refused w r s d' \<longleftrightarrow> d' = w_db w \<or>
     d' = revoke_where (\<lambda>x. s_id x = s_id s) (stmt_now w) (w_db w) \<or>
     d' = revoke_where (\<lambda>x. s_id x = s_id s) (stmt_now w) (rotation_effect (w_utc w 0) (stmt_now w) r (w_db w))"

lemma rotation_effect_grace:
  "r_rotated_at r = Some t \<Longrightarrow> utc - t \<le> REFRESH_REUSE_GRACE \<Longrightarrow> rotation_effect utc now r d = d"
  by (simp add: rotation_effect_def)

lemma refresh_finish_mono:
  assumes "w_tx v = Some (d0, t0)"
    and "\<And>resp u t v'. \<lbrakk>user_of (w_db v) (s_user_id s) = Some u; u_disabled_at u = None; w_tx v' = None;
       w_db v' = (w_db v)\<lparr>refresh_tokens := refresh_tokens (w_db v) @ [t]\<rparr>;
       r_session_id t = s_id s; r_parent_id t = Some (r_id r); r_rotated_at t = None;
       r_superseded_at t = None; r_token_hash t = token_hash E (tp_refresh_token resp)\<rbrakk> \<Longrightarrow> P resp v'"
    and "\<And>e v'. w_db (drop_tx v') = d0 \<Longrightarrow> Q e v'"
    and "\<And>e v'. \<lbrakk>w_tx v' = None; w_db v' = revoke_where (\<lambda>x. s_id x = s_id s) t0 (w_db v)\<rbrakk> \<Longrightarrow> Q e v'"
  shows "wp (refresh_finish E st client (with_session r s) utc) P Q v"
  by (rule wp_mono [OF refresh_finish_wp [OF assms(1)]]) (use assms(2-4) in blast)+

lemma refresh_wp:
  assumes "w_tx w = None" "wf_db (w_db w)" "tr_refresh_token input = Some tok"
    "token_of (w_db w) (token_hash E tok) = Some r" "session_of (w_db w) (r_session_id r) = Some s"
  shows "wp (refresh_token_grant E st input)
    (\<lambda>resp w'. w_tx w' = None \<and> refresh_ok E st input w r s resp (w_db w'))
    (\<lambda>e w'. w_tx w' = None \<and> refresh_refused w r s (w_db w')) w"
proof -
  have id: "s_id s = r_session_id r" using assms(5) by (rule session_of_id)
  have not_stolen: "r_superseded_at r = None \<Longrightarrow> r_rotated_at r = None \<Longrightarrow> \<not> stolen_copy utc r d"
    "r_superseded_at r = None \<Longrightarrow> r_rotated_at r = Some t \<Longrightarrow> utc - t \<le> REFRESH_REUSE_GRACE \<Longrightarrow>
      \<not> stolen_copy utc r d" for utc t d
    by (auto simp: stolen_copy_def)
  have fin: "wp (refresh_finish E st client (with_session r s) (w_utc w 0))
      (\<lambda>a w'. refresh_ok E st input w r s a (w_db (drop_tx w')))
      (\<lambda>e w'. refresh_refused w r s (w_db (drop_tx w'))) v"
    if "st_clients st (tr_client_id input) = Some client" "s_client_id s = cl_id client" "s_revoked_at s = None"
      "\<not> s_expires_at s \<le> w_utc w 0" "\<not> stolen_copy (w_utc w 0) r (w_db w)"
      "w_tx v = Some (w_db w, w_db_clock w 0)"
      "w_db v = rotation_effect (w_utc w 0) (w_db_clock w 0) r (w_db w)" for client v
    by (rule refresh_finish_mono [OF that(6)])
       (use that(1-5,7) assms(1) id in \<open>auto simp: refresh_ok_def refreshed_def refresh_refused_def\<close>)
  have refused: "refresh_refused w r s (w_db w)"
    "refresh_refused w r s (revoke_where (\<lambda>x. s_id x = r_session_id r) (w_db_clock w 0) (w_db w))"
    using id assms(1) by (simp_all add: refresh_refused_def)
  show ?thesis
    using assms id
    by (simp add: refresh_token_grant_def required_def Let_def wp find_for_update_eq refresh_stolen_wp
        sessions_revoke_def split: option.split)
       (auto intro!: fin simp: not_stolen rotation_effect_grace refused)
qed

lemma refresh_unknown_wp:
  assumes "w_tx w = None" "wf_db (w_db w)"
    and "\<And>tok. tr_refresh_token input = Some tok \<Longrightarrow> token_of (w_db w) (token_hash E tok) = None"
  shows "wp (refresh_token_grant E st input) (\<lambda>_ _. False) (\<lambda>e w'. w_tx w' = None \<and> w_db w' = w_db w) w"
  using assms
  by (auto simp: refresh_token_grant_def required_def Let_def wp find_for_update_eq split: option.split)

text \<open>C7 (refresh_success): when a refresh answers new tokens, the token presented exists, its session belongs to
  the client that asks, is neither revoked nor expired, the account is enabled and the token is not a
  stolen copy; the new token belongs to the same session and names the old one as its parent, the old one
  is rotated (or its unused successors are retired, for a late retry), and nothing else changes.\<close>

theorem refresh_success:
  assumes "w_tx w = None" "wf_db (w_db w)" "refresh_token_grant E st input w = Some (Inr resp, w')"
  shows "\<exists>tok r s. tr_refresh_token input = Some tok \<and> token_of (w_db w) (token_hash E tok) = Some r \<and>
    session_of (w_db w) (r_session_id r) = Some s \<and> w_tx w' = None \<and>
    refresh_ok E st input w r s resp (w_db w')"
proof (cases "\<exists>tok r. tr_refresh_token input = Some tok \<and> token_of (w_db w) (token_hash E tok) = Some r")
  case True
  then obtain tok r where t: "tr_refresh_token input = Some tok" "token_of (w_db w) (token_hash E tok) = Some r"
    by blast
  obtain s where s: "session_of (w_db w) (r_session_id r) = Some s" by (rule token_session [OF assms(2) t(2)])
  from wp_ok_run [OF refresh_wp [OF assms(1,2) t s] assms(3)] t s show ?thesis by blast
next
  case False
  then have "token_of (w_db w) (token_hash E tok) = None" if "tr_refresh_token input = Some tok" for tok
    using that by (cases "token_of (w_db w) (token_hash E tok)") auto
  from wp_ok_run [OF refresh_unknown_wp [OF assms(1,2) this] assms(3)] show ?thesis by blast
qed

definition demo_refresh :: token_request where
  "demo_refresh = \<lparr>tr_grant_type = ''refresh_token'', tr_client_id = ''web'', tr_code = None,
     tr_redirect_uri = None, tr_code_verifier = None, tr_refresh_token = Some ''refresh''\<rparr>"

lemma demo_refresh_succeeds:
  "succeeds (refresh_token_grant demo_ext demo_state demo_refresh) (demo_world session_db)"
  by code_simp

theorem refresh_success_witness:
  "\<exists>tok r s. tr_refresh_token demo_refresh = Some tok \<and> token_of session_db (token_hash demo_ext tok) = Some r \<and>
    session_of session_db (r_session_id r) = Some s \<and>
    refresh_ok demo_ext demo_state demo_refresh (demo_world session_db) r s
      (value_of (refresh_token_grant demo_ext demo_state demo_refresh) (demo_world session_db))
      (w_db (next_of (refresh_token_grant demo_ext demo_state demo_refresh) (demo_world session_db)))"
  using refresh_success [OF _ _ succeeds_run [OF demo_refresh_succeeds]] session_db_wf by auto


definition demo_bad_refresh :: token_request where
  "demo_bad_refresh = demo_refresh\<lparr>tr_refresh_token := Some ''guess''\<rparr>"

lemma demo_bad_refresh_fails:
  "fails (refresh_token_grant demo_ext demo_state demo_bad_refresh) (demo_world session_db)"
  by code_simp


text \<open>C9 (theft_kills_session): a stolen copy of a refresh token (one retired by a retry of its parent, or one used
  again after a token rotated from it was used) is refused and revokes its session, while the sessions of
  everyone else are left alone.\<close>

theorem theft_kills_session:
  assumes "w_tx w = None" "wf_db (w_db w)" "\<And>n. \<not> w_faults w n"
    and "tr_refresh_token input = Some tok" "st_clients st (tr_client_id input) = Some client"
    and "token_of (w_db w) (token_hash E tok) = Some r" "session_of (w_db w) (r_session_id r) = Some s"
    and "s_client_id s = cl_id client" "s_revoked_at s = None" "w_utc w 0 < s_expires_at s"
    and "stolen_copy (w_utc w 0) r (w_db w)"
  shows "\<exists>w'. refresh_token_grant E st input w =
      Some (Inl (OInvalidGrant ''refresh token was already used''), w') \<and> session_dead (s_id s) (w_db w') \<and>
    (\<forall>x \<in> set (sessions (w_db w)). s_id x \<noteq> s_id s \<longrightarrow> x \<in> set (sessions (w_db w')))"
proof -
  let ?p = "\<lambda>x. s_id x = s_id s"
  have "wp (refresh_token_grant E st input) (\<lambda>_ _. False)
      (\<lambda>e w'. e = OInvalidGrant ''refresh token was already used'' \<and>
        w_db w' = revoke_where ?p (stmt_now w) (w_db w)) w"
  proof -
    consider "r_superseded_at r \<noteq> None"
      | t where "r_superseded_at r = None" "r_rotated_at r = Some t" "\<not> w_utc w 0 - t \<le> REFRESH_REUSE_GRACE"
      using assms(11) by (cases "r_superseded_at r") (auto simp: stolen_copy_def)
    then show ?thesis
      by cases (use assms in \<open>simp_all add: refresh_token_grant_def required_def Let_def wp
          find_for_update_eq refresh_stolen_wp sessions_revoke_def\<close>)
  qed
  from returns_failure [OF returns_grants(2) this] obtain w' where
    w': "refresh_token_grant E st input w = Some (Inl (OInvalidGrant ''refresh token was already used''), w')"
      "w_db w' = revoke_where ?p (stmt_now w) (w_db w)" by blast
  then show ?thesis
    by (intro exI [of _ w']) (auto simp: session_dead_def dest: revoke_where_revoked [of _ ?p] intro: revoke_where_other)
qed

definition stolen_db :: db where
  "stolen_db = session_db\<lparr>refresh_tokens := [demo_token\<lparr>r_superseded_at := Some 7\<rparr>]\<rparr>"

lemma stolen_db_wf: "wf_db stolen_db"
  by (simp add: wf_defs stolen_db_def demo_defs)

theorem theft_kills_session_witness:
  "\<exists>w'. refresh_token_grant demo_ext demo_state demo_refresh (demo_world stolen_db) =
      Some (Inl (OInvalidGrant ''refresh token was already used''), w') \<and>
    session_dead (s_id demo_session) (w_db w') \<and>
    (\<forall>x \<in> set (sessions (w_db (demo_world stolen_db))). s_id x \<noteq> s_id demo_session \<longrightarrow> x \<in> set (sessions (w_db w')))"
  by (rule theft_kills_session [where tok = "''refresh''" and client = demo_client and
        r = "demo_token\<lparr>r_superseded_at := Some 7\<rparr>"])
     (simp_all add: stolen_db_wf, simp_all add: stolen_copy_def demo_refresh_def token_of_def session_of_def
        token_hash_def stolen_db_def demo_defs)

end
