(* ===== verification/Revocation.thy ===== *)
theory Revocation
  imports TokenEndpoint
begin

text \<open>
  The end of a session: who may still act for it (\<open>current_user.rs\<close>, \<open>routes/oauth.rs\<close>), what revoking
  does, and that a revoked session stays unusable whatever the server does next.
\<close>

section \<open>The access token check\<close>

text \<open>Who a request with this \<open>Authorization\<close> header acts for: the token verifies under a published key,
  and its session is live and belongs to an enabled account, the subject of the token.\<close>

definition acts_for :: "ext \<Rightarrow> app_state \<Rightarrow> string option \<Rightarrow> signing_keys_set \<Rightarrow> time \<Rightarrow> time \<Rightarrow> db \<Rightarrow> current_user \<Rightarrow> bool" where
  "acts_for E st auth keys utc now d u \<longleftrightarrow>
     (\<exists>tok h kid key claims s a. auth = Some (''Bearer '' @ tok) \<and>
        x_jwt_decode_header E tok = Some h \<and> hdr_alg h = EdDSA \<and> hdr_typ h = Some ''at+jwt'' \<and>
        hdr_kid h = Some kid \<and> decoding_key E keys kid = Some key \<and>
        x_jwt_decode E tok key (own_validation (st_issuer st)) utc = Some claims \<and>
        s \<in> set (sessions d) \<and> s_id s = sid_claim claims \<and> s_revoked_at s = None \<and> now < s_expires_at s \<and>
        a \<in> set (users d) \<and> u_id a = s_user_id s \<and> u_id a = sub_claim claims \<and> u_disabled_at a = None \<and>
        u = \<lparr>cu_id = u_id a, cu_email = u_email a, cu_session_id = s_id s, cu_client_id = client_id_claim claims\<rparr>)"

lemma strip_prefix_Some: "strip_prefix p s = Some t \<longleftrightarrow> s = p @ t"
  by (auto simp: strip_prefix_def) (metis append_take_drop_id)

text \<open>The session and account the extractor finds.\<close>

definition live_session :: "time \<Rightarrow> uuid \<Rightarrow> db \<Rightarrow> (session \<times> user) option" where
  "live_session now i d =
     (case List.find (\<lambda>s. s_id s = i \<and> s_revoked_at s = None \<and> s_expires_at s > now) (sessions d) of
        None \<Rightarrow> None
      | Some s \<Rightarrow> map_option (Pair s) (List.find (\<lambda>u. u_id u = s_user_id s \<and> u_disabled_at u = None) (users d)))"

lemma live_session_Some: "live_session now i d = Some (s, u) \<Longrightarrow> s \<in> set (sessions d) \<and> s_id s = i \<and>
    s_revoked_at s = None \<and> now < s_expires_at s \<and> u \<in> set (users d) \<and> u_id u = s_user_id s \<and> u_disabled_at u = None"
  by (auto simp: live_session_def dest!: find_Some_set split: option.splits)

lemma find_authenticated_eq: "sessions_find_authenticated i now new_id d =
    Inr (map_option (\<lambda>(s, u). \<lparr>as_user_id = s_user_id s, as_email = u_email u\<rparr>) (live_session now i d), d)"
  by (simp add: sessions_find_authenticated_def live_session_def option.map_comp o_def split: option.split)

lemma current_user_wp:
  "wp (current_user_from_request E st auth)
    (\<lambda>u w'. acts_for E st auth (w_keys w) (w_utc w 0) (stmt_now w) (w_db w) u \<and> w_db w' = w_db w)
    (\<lambda>e w'. w_db w' = w_db w \<and> (e = Unauthorized \<or> e = api_from_sql Unavailable)) w"
  by (simp add: current_user_from_request_def wp find_authenticated_eq strip_prefix_Some acts_for_def
      split: option.split)
     (auto dest!: live_session_Some, metis)

text \<open>C11 (current_user_sound): a request is only let through as a user if its access token verifies under a
  published key with bauth's own checks, the session named in the token exists, is neither revoked nor
  expired, and belongs to an enabled account which is the subject of the token. Checking writes nothing.\<close>

theorem current_user_sound:
  assumes "current_user_from_request E st auth w = Some (Inr u, w')"
  shows "acts_for E st auth (w_keys w) (w_utc w 0) (stmt_now w) (w_db w) u \<and> w_db w' = w_db w"
  using wp_ok_run [OF current_user_wp assms] .

lemma demo_current_user_succeeds:
  "succeeds (current_user_from_request demo_ext demo_state (Some ''Bearer jwt'')) (demo_world session_db)"
  by code_simp

theorem current_user_sound_witness:
  "acts_for demo_ext demo_state (Some ''Bearer jwt'') (w_keys (demo_world session_db)) 10 10 session_db
    (value_of (current_user_from_request demo_ext demo_state (Some ''Bearer jwt'')) (demo_world session_db))"
  using current_user_sound [OF succeeds_run [OF demo_current_user_succeeds]] by simp

section \<open>Refreshing goes through\<close>

lemma rotation_effect_keys [simp]:
  "r_id ` set (refresh_tokens (rotation_effect utc now r d)) = r_id ` set (refresh_tokens d)"
  "r_token_hash ` set (refresh_tokens (rotation_effect utc now r d)) = r_token_hash ` set (refresh_tokens d)"
  by (simp_all add: rotation_effect_def split: option.split)

lemma refresh_finish_completes:
  assumes "w_tx v = Some (d0, t0)" "\<And>n. \<not> w_faults v n" "s_id s \<in> s_id ` set (sessions (w_db v))"
    "r_id r \<in> r_id ` set (refresh_tokens (w_db v))" "\<And>n. w_ids v n \<notin> r_id ` set (refresh_tokens (w_db v))"
    "user_of (w_db v) (s_user_id s) = Some u" "u_disabled_at u = None"
    "token_hash E (tok_plain (token_of_bytes E (map (w_rng v) [0..<32])))
      \<notin> r_token_hash ` set (refresh_tokens (w_db v))"
    "signing_key (w_keys v) utc = Some key"
    "\<And>claims. x_jwt_encode E (access_header E key) claims (lk_encoding_key key) \<noteq> None"
  shows "wp (refresh_finish E st client (with_session r s) utc) (\<lambda>_ _. True) (\<lambda>_ _. False) v"
  using assms by (simp add: refresh_defs wp users_find_by_id_eq refresh_tokens_create_def split: option.split)

text \<open>A token that is not a stolen copy always refreshes: the first use, a second
  use within the grace period (two tabs), and a later retry of a refresh whose answer was lost. With the
  session live, the account enabled, the database reachable and a signing key, the endpoint answers tokens.\<close>

lemma refresh_completes:
  assumes "w_tx w = None" "wf_db (w_db w)" "\<And>n. \<not> w_faults w n"
    and "tr_refresh_token input = Some tok" "st_clients st (tr_client_id input) = Some client"
    and "token_of (w_db w) (token_hash E tok) = Some r" "session_of (w_db w) (r_session_id r) = Some s"
    and "s_client_id s = cl_id client" "s_revoked_at s = None" "w_utc w 0 < s_expires_at s"
    and "\<not> stolen_copy (w_utc w 0) r (w_db w)"
    and "user_of (w_db w) (s_user_id s) = Some u" "u_disabled_at u = None"
    and "\<And>n. w_ids w n \<notin> r_id ` set (refresh_tokens (w_db w))"
    and "token_hash E (tok_plain (token_of_bytes E (map (w_rng w) [0..<32])))
      \<notin> r_token_hash ` set (refresh_tokens (w_db w))"
    and "signing_key (w_keys w) (w_utc w 0) = Some key"
    and "\<And>claims. x_jwt_encode E (access_header E key) claims (lk_encoding_key key) \<noteq> None"
  shows "\<exists>resp w'. refresh_token_grant E st input w = Some (Inr resp, w')"
proof -
  have r: "r_id r \<in> r_id ` set (refresh_tokens (w_db w))" using token_of_Some [OF assms(6)] by blast
  have s: "s_id s \<in> s_id ` set (sessions (w_db w))" using session_of_Some [OF assms(7)] by blast
  have fin: "wp (refresh_finish E st client (with_session r s) (w_utc w 0)) (\<lambda>_ _. True) (\<lambda>_ _. False) v"
    if "w_tx v = Some (w_db w, w_db_clock w 0)" "w_db v = rotation_effect (w_utc w 0) (w_db_clock w 0) r (w_db w)"
      "\<And>n. \<not> w_faults v n" "\<And>n. w_ids v n \<notin> r_id ` set (refresh_tokens (w_db w))"
      "w_rng v = w_rng w" "w_keys v = w_keys w" for v
    by (rule refresh_finish_completes [OF that(1,3)]) (use that r s assms(12-17) in simp_all)
  have "r_superseded_at r = None" using assms(11) by (simp add: stolen_copy_def)
  with assms fin have "wp (refresh_token_grant E st input) (\<lambda>_ _. True) (\<lambda>_ _. False) w"
    by (simp add: refresh_token_grant_def required_def Let_def wp find_for_update_eq refresh_stolen_wp
        rotation_effect_grace split: option.split)
  then show ?thesis using returns_success [OF returns_grants(2)] by blast
qed

text \<open>A refresh retried ten minutes after its answer was lost.\<close>

definition lost_db :: db where
  "lost_db = session_db\<lparr>refresh_tokens := [demo_token\<lparr>r_rotated_at := Some (- minutes 10)\<rparr>,
     demo_token\<lparr>r_id := 11, r_parent_id := Some 5, r_token_hash := ''lost''\<rparr>]\<rparr>"

lemma lost_db_wf: "wf_db lost_db"
  by (simp add: wf_defs lost_db_def demo_defs)

lemma refresh_completes_concrete:
  "\<exists>resp w'. refresh_token_grant demo_ext demo_state demo_refresh
      ((demo_world lost_db)\<lparr>w_ids := (\<lambda>_. 100)\<rparr>) = Some (Inr resp, w')"
  by (rule refresh_completes [where tok = "''refresh''" and client = demo_client and u = demo_user and
        r = "demo_token\<lparr>r_rotated_at := Some (- minutes 10)\<rparr>" and s = demo_session and
        key = "\<lparr>lk_kid = 7, lk_encoding_key = ''key'', lk_active_at = 0, lk_retired_at = None\<rparr>"])
     (simp_all add: lost_db_wf, simp_all add: stolen_copy_def demo_refresh_def token_of_def session_of_def
        user_of_def token_hash_def token_of_bytes_def Let_def lost_db_def signing_key_def can_sign_def demo_defs,
      auto dest!: arg_cong [of _ _ length])

section \<open>Logging out\<close>

lemma revoke_where_none: "(\<And>s. s \<in> set (sessions d) \<Longrightarrow> \<not> p s) \<Longrightarrow> revoke_where p now d = d"
  by (simp add: revoke_where_def upd_where_none)

lemma returns_oauth_revoke [total]: "returns (oauth_revoke E st input)"
  unfolding oauth_revoke_def osql_def by (intro total)

text \<open>Revoking by a refresh token, as one step on the session the token belongs to.\<close>

lemma revoke_by_token_eq:
  fixes h c
  defines "p d \<equiv> \<lambda>s. list_ex (\<lambda>r. r_session_id r = s_id s \<and> r_token_hash r = h) (refresh_tokens d) \<and> s_client_id s = c"
  assumes "wf_db d"
  shows "token_of d h = None \<Longrightarrow> revoke_where (p d) t d = d"
    and "\<lbrakk>token_of d h = Some r; session_of d (r_session_id r) = Some s\<rbrakk> \<Longrightarrow>
      revoke_where (p d) t d = (if s_client_id s = c then revoke_where (\<lambda>x. s_id x = s_id s) t d else d)"
proof -
  show "token_of d h = None \<Longrightarrow> revoke_where (p d) t d = d"
    unfolding p_def by (intro revoke_where_none) (auto simp: token_of_def find_None_set list_ex_iff)
  assume r: "token_of d h = Some r" and s: "session_of d (r_session_id r) = Some s"
  have "x = r" if "x \<in> set (refresh_tokens d)" "r_token_hash x = h" for x
    using that token_of_Some [OF r] assms(2) by (auto simp: wf_defs intro: distinct_key_eq [of r_token_hash])
  then have p: "p d x \<longleftrightarrow> s_id x = s_id s \<and> s_client_id x = c" for x
    using token_of_Some [OF r] session_of_Some [OF s] unfolding p_def list_ex_iff by metis
  have "x = s" if "x \<in> set (sessions d)" "s_id x = s_id s" for x
    using session_of_Some [OF s] that assms(2) by (auto simp: wf_defs intro: distinct_key_eq [of s_id])
  with p have q: "p d x \<longleftrightarrow> s_id x = s_id s \<and> s_client_id s = c" if "x \<in> set (sessions d)" for x
    using that by metis
  show "revoke_where (p d) t d = (if s_client_id s = c then revoke_where (\<lambda>x. s_id x = s_id s) t d else d)"
    using q unfolding revoke_where_def by (auto simp: upd_where_none cong: upd_where_cong)
qed


definition demo_revoke :: revoke_request where
  "demo_revoke = \<lparr>rv_token = ''refresh'', rv_client_id = ''web''\<rparr>"


section \<open>A dead session stays dead\<close>

text \<open>C13 (revoked_session_stays_dead): once a session is revoked (logout, theft, code replay, disabled account),
  no sequence of requests and jobs revives it: none of its refresh tokens refreshes, and no access token
  naming it is accepted, however long that token was meant to last. Ids are assumed not to repeat.\<close>

theorem revoked_session_stays_dead:
  assumes "reachable E st mk w w'" "w_tx w = None" "wf_db (w_db w)"
    and "session_dead i (w_db w)" "\<And>n. w_ids w n \<noteq> i"
  shows "(\<forall>input tok r resp v. tr_refresh_token input = Some tok \<longrightarrow> token_of (w_db w') (token_hash E tok) = Some r \<longrightarrow>
      r_session_id r = i \<longrightarrow> refresh_token_grant E st input w' \<noteq> Some (Inr resp, v)) \<and>
    (\<forall>auth u v. current_user_from_request E st auth w' = Some (Inr u, v) \<longrightarrow> cu_session_id u \<noteq> i)"
proof -
  have dead: "session_dead i (w_db w')"
    using session_dead.reachable_keeps [OF assms(1)] assms(2-5) by (simp add: holds_def)
  have wf: "wf_db (w_db w')" using wf_reachable [OF assms(1)] assms(2-3) by (simp add: holds_def)
  have tx: "w_tx w' = None" by (rule reachable_no_tx [OF assms(1,2)])
  have "False" if t: "tr_refresh_token input = Some tok" "token_of (w_db w') (token_hash E tok) = Some r"
    "r_session_id r = i" and run: "refresh_token_grant E st input w' = Some (Inr resp, v)" for input tok r resp v
  proof -
    obtain s where s: "session_of (w_db w') (r_session_id r) = Some s" by (rule token_session [OF wf t(2)])
    from wp_ok_run [OF refresh_wp [OF tx wf t(1,2) s] run] have "s_revoked_at s = None"
      by (auto simp: refresh_ok_def)
    with dead session_of_Some [OF s] t(3) show False by (auto simp: session_dead_def)
  qed
  moreover have "cu_session_id u \<noteq> i" if "current_user_from_request E st auth w' = Some (Inr u, v)" for auth u v
    using wp_ok_run [OF current_user_wp that] dead by (auto simp: acts_for_def session_dead_def)
  ultimately show ?thesis by blast
qed

text \<open>The session is revoked; then the purge job runs.\<close>

definition dead_world :: world where
  "dead_world = (demo_world (session_db\<lparr>sessions := [demo_session\<lparr>s_revoked_at := Some 8\<rparr>]\<rparr>))\<lparr>w_ids := (\<lambda>_. 100)\<rparr>"

definition no_master_key :: master_key where
  "no_master_key = \<lparr>mk_cipher = [], mk_derivation = []\<rparr>"

definition purged_world :: world where
  "purged_world = next_of (run_job demo_ext no_master_key (PurgeJob True)) dead_world"

lemma purged_world_run: "succeeds (run_job demo_ext no_master_key (PurgeJob True)) dead_world"
  by code_simp

lemma purged_world_reachable: "reachable demo_ext demo_state no_master_key dead_world purged_world"
  unfolding purged_world_def
  by (rule reachable.step [OF reachable.start job_step [OF succeeds_run [OF purged_world_run]]])

lemma purged_world_token: "token_of (w_db purged_world) ''refresh'' = Some demo_token"
  by code_simp

theorem revoked_session_stays_dead_witness:
  "\<forall>resp v. refresh_token_grant demo_ext demo_state demo_refresh purged_world \<noteq> Some (Inr resp, v)"
proof -
  have dead: "w_tx dead_world = None" "wf_db (w_db dead_world)" "session_dead 4 (w_db dead_world)"
    "\<And>n. w_ids dead_world n \<noteq> 4"
    by (simp_all add: dead_world_def wf_defs session_dead_def demo_defs)
  have "tr_refresh_token demo_refresh = Some ''refresh''" "r_session_id demo_token = 4"
    "token_of (w_db purged_world) (token_hash demo_ext ''refresh'') = Some demo_token"
    using purged_world_token by (simp_all add: demo_refresh_def token_hash_def demo_token_def demo_ext_def)
  with revoked_session_stays_dead [OF purged_world_reachable dead] show ?thesis by blast
qed

end
