(* ===== verification/LoginFlow.thy ===== *)
theory LoginFlow
  imports Revocation
begin

text \<open>
  What the login routes guarantee (\<open>routes/login.rs\<close>, \<open>routes/magic_link.rs\<close>): a flow only starts for a
  registered redirect URI and an S256 challenge; asking for an email never tells whether an account
  exists, counts against the flow and sends at most one message; the link or the newest code logs in
  once, and a failed attempt changes nothing but the count of wrong codes.
\<close>

section \<open>Starting a flow\<close>

definition valid_flow_request :: "app_state \<Rightarrow> create_flow_request \<Rightarrow> client \<Rightarrow> bool" where
  "valid_flow_request st input client \<longleftrightarrow> st_clients st (cf_client_id input) = Some client \<and>
     cf_redirect_uri input \<in> set (cl_redirect_uris client) \<and> cf_code_challenge_method input = ''S256'' \<and>
     is_valid_challenge (cf_code_challenge input) \<and> (\<forall>s. cf_state input = Some s \<longrightarrow> length s \<le> MAX_STATE_LEN)"

text \<open>The row a flow starts as.\<close>

definition new_flow :: "create_flow_request \<Rightarrow> client \<Rightarrow> uuid \<Rightarrow> time \<Rightarrow> time \<Rightarrow> login_flow" where
  "new_flow input client i utc now =
     \<lparr>f_id = i, f_client_id = cl_id client, f_redirect_uri = cf_redirect_uri input,
      f_code_challenge = cf_code_challenge input, f_state = cf_state input, f_magic_link_requests = 0,
      f_expires_at = utc + FLOW_TTL, f_completed_at = None, f_created_at = now\<rparr>"

definition internal_error :: "api_error \<Rightarrow> bool" where
  "internal_error e \<longleftrightarrow> (\<exists>s. e = api_from_sql s)"

lemma internal_error_sql [simp]: "internal_error (api_from_sql s)"
  by (auto simp: internal_error_def)

lemma create_flow_wp: "wp (create_flow st input)
    (\<lambda>a w'. \<exists>client i. valid_flow_request st input client \<and>
       a = (201, \<lparr>fr_flow_id = i, fr_methods = [MagicLink], fr_expires_at = w_utc w 0 + FLOW_TTL\<rparr>) \<and>
       i \<notin> f_id ` set (login_flows (w_db w)) \<and>
       w_db w' = (w_db w)\<lparr>login_flows := login_flows (w_db w) @ [new_flow input client i (w_utc w 0) (stmt_now w)]\<rparr>)
    (\<lambda>e w'. w_db w' = w_db w \<and> (\<forall>client. valid_flow_request st input client \<longrightarrow> internal_error e)) w"
  by (simp add: create_flow_def wp login_flows_create_def valid_flow_request_def new_flow_def Let_def
      allows_redirect_uri_iff not_less split: option.split) auto

text \<open>A login flow is created exactly for a registered client, one of its redirect URIs
  written exactly, an S256 challenge of the right shape and a state of at most 512 bytes; the new row
  records them, has sent no email, and expires fifteen minutes later. Any other request is refused and
  changes nothing; a valid one can only fail on the database.\<close>

lemma flow_created:
  assumes "create_flow st input w = Some (r, w')"
  shows "case r of
      Inr a \<Rightarrow> \<exists>client i. valid_flow_request st input client \<and>
        a = (201, \<lparr>fr_flow_id = i, fr_methods = [MagicLink], fr_expires_at = w_utc w 0 + FLOW_TTL\<rparr>) \<and>
        i \<notin> f_id ` set (login_flows (w_db w)) \<and>
        w_db w' = (w_db w)\<lparr>login_flows := login_flows (w_db w) @ [new_flow input client i (w_utc w 0) (stmt_now w)]\<rparr>
    | Inl e \<Rightarrow> w_db w' = w_db w \<and> (\<forall>client. valid_flow_request st input client \<longrightarrow> internal_error e)"
  using create_flow_wp [of st input w] assms by (cases r) (auto simp: wp_def)

definition demo_flow_request :: create_flow_request where
  "demo_flow_request = \<lparr>cf_client_id = ''web'', cf_redirect_uri = ''https://app/cb'', cf_code_challenge = demo_verifier,
     cf_code_challenge_method = ''S256'', cf_state = None\<rparr>"

section \<open>Asking for the email\<close>

definition pending_flow :: "time \<Rightarrow> uuid \<Rightarrow> db \<Rightarrow> login_flow option" where
  "pending_flow now i d = List.find (\<lambda>f. f_id f = i \<and> flow_pending now f) (login_flows d)"

text \<open>One more email on the flow, which lives at least as long as that email.\<close>

definition count_request :: "uuid \<Rightarrow> time \<Rightarrow> db \<Rightarrow> db" where
  "count_request i t d = d\<lparr>login_flows := upd_where (\<lambda>f. f_id f = i)
     (\<lambda>f. f\<lparr>f_magic_link_requests := f_magic_link_requests f + 1, f_expires_at := max (f_expires_at f) t\<rparr>)
     (login_flows d)\<rparr>"

lemma pending_flow_Some: "pending_flow now i d = Some f \<Longrightarrow> f \<in> set (login_flows d) \<and> f_id f = i \<and>
    f_completed_at f = None \<and> now < f_expires_at f"
  by (auto simp: pending_flow_def flow_pending_def dest: find_Some_set)

lemma find_pending_eq: "login_flows_find_pending_magic_link_flow i now new_id d =
    Inr (map_option (\<lambda>f. \<lparr>pf_client_id = f_client_id f, pf_requests = f_magic_link_requests f,
      pf_expires_at = f_expires_at f\<rparr>) (pending_flow now i d), d)"
  by (simp add: login_flows_find_pending_magic_link_flow_def pending_flow_def)

lemma count_eq:
  assumes "wf_db d" "f \<in> set (login_flows d)" "f_id f = i"
  shows "login_flows_count_magic_link_request i mx t now new_id d =
    (if flow_pending now f \<and> f_magic_link_requests f < mx
     then Inr (Some (max (f_expires_at f) t), count_request i t d) else Inr (None, d))"
proof -
  let ?p = "\<lambda>f. f_id f = i \<and> flow_pending now f \<and> f_magic_link_requests f < mx"
  have one: "g = f" if "g \<in> set (login_flows d)" "f_id g = i" for g
    using that assms by (auto simp: wf_defs intro: distinct_key_eq [of f_id])
  show ?thesis
  proof (cases "flow_pending now f \<and> f_magic_link_requests f < mx")
    case True
    have "List.find ?p (login_flows d) = Some f"
      using assms True by (intro find_key [of f_id]) (auto simp: wf_defs)
    moreover have "?p g = (f_id g = i)" if "g \<in> set (login_flows d)" for g using one [OF that] True by auto
    then have "upd_where ?p h (login_flows d) = upd_where (\<lambda>g. f_id g = i) h (login_flows d)" for h
      by (rule upd_where_cong)
    ultimately show ?thesis
      using True by (simp add: login_flows_count_magic_link_request_def upd_returning_def count_request_def)
  next
    case False
    then have none: "\<not> ?p g" if "g \<in> set (login_flows d)" for g using one [OF that] by auto
    then have "List.find ?p (login_flows d) = None" by (simp add: find_None_set)
    moreover have "upd_where ?p h (login_flows d) = login_flows d" for h by (rule upd_where_none) (rule none)
    ultimately show ?thesis
      using False by (simp add: login_flows_count_magic_link_request_def upd_returning_def)
  qed
qed

lemma count_request_tables [simp]:
  "users (count_request i t d) = users d" "magic_links (count_request i t d) = magic_links d"
  "f_id ` set (login_flows (count_request i t d)) = f_id ` set (login_flows d)"
  by (simp_all add: count_request_def)

definition account_at :: "ext \<Rightarrow> string \<Rightarrow> db \<Rightarrow> user option" where
  "account_at E email d = List.find (\<lambda>u. u_email u = sql_normalize E email) (users d)"

lemma users_find_by_email_eq: "users_find_by_email E email now new_id d = Inr (account_at E email d, d)"
  by (simp add: users_find_by_email_def account_at_def)

lemma account_at_Some: "account_at E email d = Some u \<Longrightarrow> u \<in> set (users d) \<and> u_email u = sql_normalize E email"
  by (auto simp: account_at_def dest: find_Some_set)

definition recipient_user :: "recipient \<Rightarrow> uuid option" where
  "recipient_user r = (case r of Account u \<Rightarrow> Some u | SignUp \<Rightarrow> None)"

text \<open>The message for a recipient, with the link and the code.\<close>

definition login_message :: "ext \<Rightarrow> client \<Rightarrow> recipient \<Rightarrow> string \<Rightarrow> string \<Rightarrow> string \<Rightarrow> email" where
  "login_message E client r email tok code = (let link = cl_magic_link_url client @ ''#token='' @ tok in
     case r of Account _ \<Rightarrow> magic_link_email E email (cl_name client) link code
     | SignUp \<Rightarrow> magic_signup_email E email (cl_name client) link code)"

text \<open>What is added for a recipient: one link row holding only hashes, and one message, to the address of
  the row, with the secrets.\<close>

definition link_sent :: "ext \<Rightarrow> app_state \<Rightarrow> client \<Rightarrow> uuid \<Rightarrow> string \<Rightarrow> time \<Rightarrow> recipient \<Rightarrow> db \<Rightarrow> db \<Rightarrow> email list \<Rightarrow> email list \<Rightarrow> bool" where
  "link_sent E st client flow_id email expires_at r d d' out out' \<longleftrightarrow>
     (\<exists>m tok v. d' = d\<lparr>magic_links := magic_links d @ [m]\<rparr> \<and>
        m_flow_id m = flow_id \<and> m_user_id m = recipient_user r \<and> m_email m = sql_normalize E email \<and>
        m_token_hash m = token_hash E tok \<and> m_code_failures m = 0 \<and> m_consumed_at m = None \<and>
        m_expires_at m = expires_at \<and> v < CODE_RANGE \<and>
        m_code_hash m = x_hmac E (magic_link_key (st_code_keys st)) (code_message E flow_id (pad6 (unat v))) \<and>
        out' = out @ [login_message E client r (sql_normalize E email) tok (pad6 (unat v))])"

lemma link_sentI:
  assumes "d' = d\<lparr>magic_links := magic_links d @ [m]\<rparr>" "m_flow_id m = flow_id" "m_user_id m = recipient_user r"
    "m_email m = sql_normalize E email" "m_token_hash m = token_hash E tok" "m_code_failures m = 0"
    "m_consumed_at m = None" "m_expires_at m = expires_at" "v < CODE_RANGE"
    "m_code_hash m = x_hmac E (magic_link_key (st_code_keys st)) (code_message E flow_id (pad6 (unat v)))"
    "out' = out @ [login_message E client r (sql_normalize E email) tok (pad6 (unat v))]"
  shows "link_sent E st client flow_id email expires_at r d d' out out'"
  unfolding link_sent_def using assms by blast

lemma send_magic_link_wp:
  "wp (send_magic_link E st client flow_id email expires_at r)
    (\<lambda>_ w'. link_sent E st client flow_id email expires_at r (w_db w) (w_db w') (w_outbox w) (w_outbox w'))
    (\<lambda>e w'. internal_error e \<and> w_db w' = w_db w \<and> w_outbox w' = w_outbox w) w"
proof -
  have "v < CODE_RANGE" if "random_below CODE_RANGE rng = Some (v, rng')" for v rng rng'
    using random_below_less [OF that] by (simp add: CODE_RANGE_def)
  then show ?thesis
    by (cases r; simp add: send_magic_link_def wp magic_links_create_def code_of_def Let_def
          split: option.split prod.split)
       (auto intro!: link_sentI simp: recipient_user_def login_message_def Let_def)
qed

lemma send_magic_link_mono:
  assumes "\<And>v'. link_sent E st client flow_id email expires_at r (w_db v) (w_db v') (w_outbox v) (w_outbox v') \<Longrightarrow> P () v'"
    and "\<And>e v'. \<lbrakk>internal_error e; w_db v' = w_db v; w_outbox v' = w_outbox v\<rbrakk> \<Longrightarrow> Q e v'"
  shows "wp (send_magic_link E st client flow_id email expires_at r) P Q v"
  by (rule wp_mono [OF send_magic_link_wp]) (use assms in auto)

text \<open>What an accepted request does: it counts, and sends to the account or the newcomer if there is one.\<close>

definition request_effect :: "ext \<Rightarrow> app_state \<Rightarrow> client \<Rightarrow> uuid \<Rightarrow> string \<Rightarrow> time \<Rightarrow> db \<Rightarrow> db \<Rightarrow> email list \<Rightarrow> email list \<Rightarrow> bool" where
  "request_effect E st client flow_id email expires_at d d' out out' \<longleftrightarrow>
     (case recipient_of client (account_at E email d) of
        None \<Rightarrow> d' = count_request flow_id expires_at d \<and> out' = out
      | Some r \<Rightarrow> link_sent E st client flow_id email expires_at r (count_request flow_id expires_at d) d' out out')"

lemma account_at_count [simp]: "account_at E email (count_request i t d) = account_at E email d"
  by (simp add: account_at_def)

lemma magic_link_request_wp:
  assumes "w_tx w = None" "wf_db (w_db w)"
  shows "wp (magic_link_request E st ip flow_id email)
    (\<lambda>a w'. \<exists>f client. is_valid_email email \<and> pending_flow (stmt_now w) flow_id (w_db w) = Some f \<and>
       f_magic_link_requests f < MAX_EMAILS_PER_FLOW \<and> st_clients st (f_client_id f) = Some client \<and>
       a = (202, \<lparr>mr_status = MagicLinkSent, mr_expires_at = max (f_expires_at f) (w_utc w 0 + CODE_TTL)\<rparr>) \<and>
       request_effect E st client flow_id email (w_utc w 0 + CODE_TTL) (w_db w) (w_db w') (w_outbox w) (w_outbox w'))
    (\<lambda>e w'. w_outbox w' = w_outbox w \<and> (w_db w' = w_db w \<or>
       internal_error e \<and> w_db w' = count_request flow_id (w_utc w 0 + CODE_TTL) (w_db w))) w"
proof (cases "pending_flow (stmt_now w) flow_id (w_db w)")
  case None
  with assms show ?thesis
    by (simp add: magic_link_request_def wp Let_def find_pending_eq split: option.split)
next
  case (Some f)
  note f = pending_flow_Some [OF Some]
  show ?thesis
    using assms Some f
    by (simp add: magic_link_request_def wp Let_def find_pending_eq count_eq [where f = f]
        flow_exhausted_def users_find_by_email_eq split: option.split)
       (auto simp: request_effect_def intro!: send_magic_link_mono)
qed

text \<open>C18 (magic_link_sent): an accepted request for a login email was for a plausible address and a pending
  flow with emails left; it counts one email on the flow and extends the flow to outlive it. If an
  enabled account has the address, or the address is free and the client allows sign-up, exactly one
  link is stored (as hashes, with a zero failure count) and exactly one message goes to that address with
  the secrets. Otherwise nothing is stored or sent. No account is created. A refused request sends nothing,
  and changes nothing unless the database failed half way.\<close>

theorem magic_link_sent:
  assumes "w_tx w = None" "wf_db (w_db w)" "magic_link_request E st ip flow_id email w = Some (r, w')"
  shows "case r of
      Inr a \<Rightarrow> \<exists>f client. is_valid_email email \<and> pending_flow (stmt_now w) flow_id (w_db w) = Some f \<and>
        f_magic_link_requests f < MAX_EMAILS_PER_FLOW \<and> st_clients st (f_client_id f) = Some client \<and>
        a = (202, \<lparr>mr_status = MagicLinkSent, mr_expires_at = max (f_expires_at f) (w_utc w 0 + CODE_TTL)\<rparr>) \<and>
        request_effect E st client flow_id email (w_utc w 0 + CODE_TTL) (w_db w) (w_db w') (w_outbox w) (w_outbox w')
    | Inl e \<Rightarrow> w_outbox w' = w_outbox w \<and> (w_db w' = w_db w \<or>
        internal_error e \<and> w_db w' = count_request flow_id (w_utc w 0 + CODE_TTL) (w_db w))"
  using magic_link_request_wp [OF assms(1,2), of E st ip flow_id email] assms(3)
  by (cases r) (simp_all add: wp_def)

definition demo_ip :: ip_addr where
  "demo_ip = V4 127 0 0 1"

lemma demo_magic_link_succeeds:
  "succeeds (magic_link_request demo_ext demo_state demo_ip 6 ''a@b.c'') (demo_world login_db)"
  by code_simp

theorem magic_link_sent_witness:
  "\<exists>client. request_effect demo_ext demo_state client 6 ''a@b.c'' (10 + CODE_TTL) login_db
    (w_db (next_of (magic_link_request demo_ext demo_state demo_ip 6 ''a@b.c'') (demo_world login_db))) []
    (w_outbox (next_of (magic_link_request demo_ext demo_state demo_ip 6 ''a@b.c'') (demo_world login_db)))"
  using magic_link_sent [OF _ _ succeeds_run [OF demo_magic_link_succeeds]] login_db_wf by auto

section \<open>The answer does not tell whether an account exists\<close>

text \<open>The answer as a function of everything but the accounts.\<close>

definition request_answer :: "ext \<Rightarrow> app_state \<Rightarrow> ip_addr \<Rightarrow> uuid \<Rightarrow> string \<Rightarrow> world \<Rightarrow> api_error + (nat \<times> magic_link_response)" where
  "request_answer E st ip flow_id email w =
     (case x_gov_check E (limiter_quota EmailPerIp) (w_email_per_ip w) (client_ip_key ip) (w_mono w 0) of
        Some wait \<Rightarrow> Inl (RateLimited wait)
      | None \<Rightarrow>
        (if \<not> is_valid_email email then Inl InvalidEmail
         else (case pending_flow (stmt_now w) flow_id (w_db w) of
           None \<Rightarrow> Inl FlowExpired
         | Some f \<Rightarrow>
            (if f_magic_link_requests f \<ge> MAX_EMAILS_PER_FLOW
             then Inl (RateLimited (to_std_or_default (f_expires_at f - w_utc w 0)))
             else (case st_clients st (f_client_id f) of
               None \<Rightarrow> Inl InvalidClient
             | Some client \<Rightarrow>
                (case x_gov_check E (limiter_quota EmailPerAddress) (w_email_per_address w) (email_key E email) (w_mono w 1) of
                  Some wait \<Rightarrow> Inl (RateLimited wait)
                | None \<Rightarrow>
                  (if \<not> flow_pending (w_db_clock w 1) f
                   then Inl (RateLimited (to_std_or_default (f_expires_at f - w_utc w 1)))
                   else Inr (202, \<lparr>mr_status = MagicLinkSent,
                     mr_expires_at = max (f_expires_at f) (w_utc w 0 + CODE_TTL)\<rparr>))))))))"

text \<open>Nothing outside the program gets in the way: the database answers, ids and secrets are fresh, and the
  generator yields a usable draw.\<close>

definition undisturbed :: "ext \<Rightarrow> world \<Rightarrow> bool" where
  "undisturbed E w \<longleftrightarrow> (\<forall>n. \<not> w_faults w n) \<and> (\<forall>n. w_ids w n \<notin> m_id ` set (magic_links (w_db w))) \<and>
     token_hash E (tok_plain (token_of_bytes E (map (w_rng w) [0..<32]))) \<notin> m_token_hash ` set (magic_links (w_db w)) \<and>
     random_below CODE_RANGE (shift 32 (w_rng w)) \<noteq> None"

lemma send_magic_link_defined:
  "defined (send_magic_link E st client flow_id email expires_at r) v \<longleftrightarrow>
    random_below CODE_RANGE (shift 32 (w_rng v)) \<noteq> None"
  by (auto simp: send_magic_link_def wp Let_def split: option.split prod.split sum.split)

lemma send_magic_link_completes:
  assumes "\<not> w_faults v 0" "w_ids v 0 \<notin> m_id ` set (magic_links (w_db v))"
    "token_hash E (tok_plain (token_of_bytes E (map (w_rng v) [0..<32]))) \<notin> m_token_hash ` set (magic_links (w_db v))"
    "flow_id \<in> f_id ` set (login_flows (w_db v))" "recipient_user r \<in> insert None (Some ` u_id ` set (users (w_db v)))"
    "\<And>v'. P () v'"
  shows "wp (send_magic_link E st client flow_id email expires_at r) P Q v"
  using assms
  by (cases r) (auto simp: send_magic_link_def wp magic_links_create_def recipient_user_def Let_def
      split: option.split prod.split)

lemma request_answer_run:
  assumes "w_tx w = None" "wf_db (w_db w)" "undisturbed E w"
  shows "\<exists>v. magic_link_request E st ip flow_id email w = Some (request_answer E st ip flow_id email w, v)"
proof -
  let ?m = "magic_link_request E st ip flow_id email" and ?A = "request_answer E st ip flow_id email w"
  have rec: "recipient_user r \<in> insert None (Some ` u_id ` set (users (w_db w)))"
    if "recipient_of client (account_at E email (w_db w)) = Some r" for client r
    using that account_at_Some
    by (fastforce simp: recipient_of_def recipient_user_def split: option.splits if_splits)
  have "wp ?m (\<lambda>a _. Inr a = ?A) (\<lambda>e _. Inl e = ?A) w \<and> defined ?m w"
  proof (cases "pending_flow (stmt_now w) flow_id (w_db w)")
    case None
    with assms show ?thesis
      by (simp add: magic_link_request_def request_answer_def undisturbed_def wp Let_def find_pending_eq
          split: option.split)
  next
    case (Some f)
    note f = pending_flow_Some [OF Some]
    have mem: "flow_id \<in> f_id ` set (login_flows (w_db w))" using f by blast
    show ?thesis
      using assms Some f
      by (simp add: magic_link_request_def request_answer_def undisturbed_def wp Let_def find_pending_eq
          count_eq [where f = f] flow_exhausted_def users_find_by_email_eq send_magic_link_defined
          split: option.split)
         (intro allI impI conjI send_magic_link_completes; simp add: mem rec [simplified])
  qed
  then obtain r v where "?m w = Some (r, v)" "case r of Inl e \<Rightarrow> Inl e = ?A | Inr a \<Rightarrow> Inr a = ?A"
    using defined_run [of ?m w] by blast
  then show ?thesis by (cases r) auto
qed

text \<open>C17 (answer_hides_account): the answer to a request for a login email is the same whatever accounts exist:
  two servers in the same state except for their accounts answer alike, error or success, so the route
  cannot be used to find out who has an account.\<close>

theorem answer_hides_account:
  assumes "w_tx w = None" "undisturbed E w" "wf_db (w_db w)" "wf_db ((w_db w)\<lparr>users := us\<rparr>)"
  shows "\<exists>r v v'. magic_link_request E st ip flow_id email w = Some (r, v) \<and>
    magic_link_request E st ip flow_id email (w\<lparr>w_db := (w_db w)\<lparr>users := us\<rparr>\<rparr>) = Some (r, v')"
proof -
  let ?w = "w\<lparr>w_db := (w_db w)\<lparr>users := us\<rparr>\<rparr>"
  have "request_answer E st ip flow_id email ?w = request_answer E st ip flow_id email w"
    by (simp add: request_answer_def pending_flow_def split: option.split)
  moreover have "undisturbed E ?w" using assms(2) by (simp add: undisturbed_def)
  ultimately show ?thesis
    using request_answer_run [OF assms(1,3,2), of st ip flow_id email] request_answer_run [of ?w E st ip flow_id email] assms
    by auto
qed

definition pending_db :: db where
  "pending_db = empty_db\<lparr>users := [demo_user], login_flows := [demo_pending_flow]\<rparr>"

lemma demo_draw: "random_below CODE_RANGE (\<lambda>_. CHR 0x00) \<noteq> None"
  by code_simp

theorem answer_hides_account_witness:
  "\<exists>r v v'. magic_link_request demo_ext demo_state demo_ip 6 ''a@b.c'' (demo_world pending_db) = Some (r, v) \<and>
    magic_link_request demo_ext demo_state demo_ip 6 ''a@b.c''
      ((demo_world pending_db)\<lparr>w_db := (w_db (demo_world pending_db))\<lparr>users := []\<rparr>\<rparr>) = Some (r, v')"
  by (rule answer_hides_account)
     (use demo_draw in \<open>simp_all add: undisturbed_def pending_db_def shift_def wf_defs demo_defs\<close>)

section \<open>Logging in\<close>

text \<open>The account a login ends with: the one the link was sent to, still at the address of the link, or, for a
  sign-up, the account at that address, created if there is none yet.\<close>

definition login_account :: "ext \<Rightarrow> uuid option \<Rightarrow> string \<Rightarrow> uuid \<Rightarrow> time \<Rightarrow> db \<Rightarrow> user \<Rightarrow> db \<Rightarrow> bool" where
  "login_account E user_id email new_id now d u d' \<longleftrightarrow> u_disabled_at u = None \<and> u_email u = email \<and>
     (case user_id of
        Some i \<Rightarrow> user_of d i = Some u \<and> d' = d
      | None \<Rightarrow> if account_at E email d = None
          then u = \<lparr>u_id = new_id, u_email = sql_normalize E email, u_email_verified_at = None, u_disabled_at = None,
                    u_created_at = now, u_updated_at = now\<rparr> \<and> new_id \<notin> u_id ` set (users d) \<and>
               d' = d\<lparr>users := users d @ [u]\<rparr>
          else account_at E email d = Some u \<and> d' = d)"

text \<open>What it leaves: the address verified, the flow completed, one authorization code for them, valid for a
  minute and stored as a hash.\<close>

definition login_effect :: "ext \<Rightarrow> uuid \<Rightarrow> user \<Rightarrow> time \<Rightarrow> time \<Rightarrow> login_response \<Rightarrow> db \<Rightarrow> db \<Rightarrow> bool" where
  "login_effect E flow_id u now utc resp d d' \<longleftrightarrow>
     (\<exists>code c. resp = Completed code \<and>
        d' = d\<lparr>users := upd_where (\<lambda>x. u_id x = u_id u \<and> u_email x = u_email u)
                 (\<lambda>x. x\<lparr>u_email_verified_at := (case u_email_verified_at x of None \<Rightarrow> Some now | Some t \<Rightarrow> Some t),
                       u_updated_at := now\<rparr>) (users d),
               login_flows := upd_where (\<lambda>f. f_id f = flow_id \<and> flow_pending now f)
                 (\<lambda>f. f\<lparr>f_completed_at := Some now\<rparr>) (login_flows d),
               authorization_codes := authorization_codes d @ [c]\<rparr> \<and>
        count_where (\<lambda>f. f_id f = flow_id \<and> flow_pending now f) (login_flows d) = 1 \<and>
        c_flow_id c = flow_id \<and> c_user_id c = u_id u \<and> c_code_hash c = token_hash E code \<and>
        c_consumed_at c = None \<and> c_expires_at c = utc + FLOW_CODE_TTL)"

lemma users_create_eq: "users_create E email now new_id d =
    (case account_at E email d of
       Some _ \<Rightarrow> Inr (None, d)
     | None \<Rightarrow> if new_id \<in> u_id ` set (users d) then Inl UniqueViolation
         else let u = \<lparr>u_id = new_id, u_email = sql_normalize E email, u_email_verified_at = None,
                u_disabled_at = None, u_created_at = now, u_updated_at = now\<rparr>
              in Inr (Some u, d\<lparr>users := users d @ [u]\<rparr>))"
proof (cases "account_at E email d")
  case None
  then have "sql_normalize E email \<notin> u_email ` set (users d)"
    by (auto simp: account_at_def find_None_set)
  with None show ?thesis by (simp add: users_create_def Let_def)
next
  case (Some u)
  from account_at_Some [OF this] have "sql_normalize E email \<in> u_email ` set (users d)" by force
  with Some show ?thesis by (simp add: users_create_def Let_def)
qed

lemma flow_complete_wp:
  assumes "w_tx v = Some (d0, t0)"
  shows "wp (flow_complete E flow_id uid)
    (\<lambda>r v'. w_tx v' = Some (d0, t0) \<and> (\<forall>resp. r = Some resp \<longrightarrow>
       (\<exists>code c. resp = Completed code \<and> count_where (\<lambda>f. f_id f = flow_id \<and> flow_pending t0 f) (login_flows (w_db v)) = 1 \<and>
          w_db v' = (w_db v)\<lparr>login_flows := upd_where (\<lambda>f. f_id f = flow_id \<and> flow_pending t0 f)
              (\<lambda>f. f\<lparr>f_completed_at := Some t0\<rparr>) (login_flows (w_db v)),
            authorization_codes := authorization_codes (w_db v) @ [c]\<rparr> \<and>
          c_flow_id c = flow_id \<and> c_user_id c = uid \<and> c_code_hash c = token_hash E code \<and>
          c_consumed_at c = None \<and> c_expires_at c = w_utc v 0 + FLOW_CODE_TTL)))
    (\<lambda>_ v'. w_tx v' = Some (d0, t0)) v"
  using assms
  by (simp add: flow_complete_def wp login_flows_complete_def authorization_codes_create_def Let_def)
     (intro impI exI conjI, (rule refl | simp)+)

lemma flow_complete_mono:
  assumes "w_tx v = Some (d0, t0)"
    and "\<And>v'. w_tx v' = Some (d0, t0) \<Longrightarrow> P None v'"
    and "\<And>code c v'. \<lbrakk>w_tx v' = Some (d0, t0);
       count_where (\<lambda>f. f_id f = flow_id \<and> flow_pending t0 f) (login_flows (w_db v)) = 1;
       w_db v' = (w_db v)\<lparr>login_flows := upd_where (\<lambda>f. f_id f = flow_id \<and> flow_pending t0 f)
              (\<lambda>f. f\<lparr>f_completed_at := Some t0\<rparr>) (login_flows (w_db v)),
            authorization_codes := authorization_codes (w_db v) @ [c]\<rparr>;
       c_flow_id c = flow_id; c_user_id c = uid; c_code_hash c = token_hash E code;
       c_consumed_at c = None; c_expires_at c = w_utc v 0 + FLOW_CODE_TTL\<rbrakk> \<Longrightarrow> P (Some (Completed code)) v'"
    and "\<And>e v'. w_tx v' = Some (d0, t0) \<Longrightarrow> Q e v'"
  shows "wp (flow_complete E flow_id uid) P Q v"
proof (rule wp_mono [OF flow_complete_wp [OF assms(1)]], goal_cases)
  case (1 a w')
  then show ?case by (cases a) (use assms(2,3) in auto)
qed (rule assms(4))

lemma login_effectI:
  assumes "w_db v' = (w_db v)\<lparr>users := upd_where (\<lambda>x. u_id x = u_id u \<and> u_email x = u_email u)
        (\<lambda>x. x\<lparr>u_email_verified_at := (case u_email_verified_at x of None \<Rightarrow> Some now | Some t \<Rightarrow> Some t),
              u_updated_at := now\<rparr>) (users (w_db v)),
      login_flows := upd_where (\<lambda>f. f_id f = flow_id \<and> flow_pending now f)
        (\<lambda>f. f\<lparr>f_completed_at := Some now\<rparr>) (login_flows (w_db v)),
      authorization_codes := authorization_codes (w_db v) @ [c]\<rparr>"
    "count_where (\<lambda>f. f_id f = flow_id \<and> flow_pending now f) (login_flows (w_db v)) = 1"
    "c_flow_id c = flow_id" "c_user_id c = u_id u" "c_code_hash c = token_hash E code"
    "c_consumed_at c = None" "c_expires_at c = utc + FLOW_CODE_TTL"
  shows "login_effect E flow_id u now utc (Completed code) (w_db v) (w_db v')"
  unfolding login_effect_def using assms by blast

lemma log_in_end_wp:
  assumes v: "w_tx v = Some (d0, t0)"
    and P: "\<And>resp v'. \<lbrakk>w_tx v' = Some (d0, t0); login_effect E flow_id u t0 (w_utc v 0) resp (w_db v) (w_db v')\<rbrakk>
      \<Longrightarrow> P (resp, u_id u) v'"
    and Q: "\<And>e v'. w_tx v' = Some (d0, t0) \<Longrightarrow> Q e v'"
  shows "wp (log_in_end E flow_id u) P Q v"
proof -
  have "wp (flow_complete E flow_id (u_id u)) (\<lambda>r. wp (and_then (ok_or r FlowExpired) (\<lambda>r. ok (r, u_id u))) P Q)
      (\<lambda>e. Q (api_from_sql e)) x"
    if x: "w_tx x = Some (d0, t0)" "w_utc x = w_utc v" "w_db x = (w_db v)\<lparr>users :=
        upd_where (\<lambda>x. u_id x = u_id u \<and> u_email x = u_email u)
        (\<lambda>x. x\<lparr>u_email_verified_at := (case u_email_verified_at x of None \<Rightarrow> Some t0 | Some t \<Rightarrow> Some t),
              u_updated_at := t0\<rparr>) (users (w_db v))\<rparr>" for x
    by (rule flow_complete_mono [OF x(1)])
       (use x in \<open>auto simp: wp intro!: P Q login_effectI\<close>)
  with v Q show ?thesis
    by (simp add: log_in_end_def wp users_mark_email_verified_def)
qed

lemma login_user_wp:
  assumes v: "w_tx v = Some (d0, t0)"
    and P: "\<And>r v'. \<lbrakk>w_tx v' = Some (d0, t0); w_utc v' = w_utc v;
       \<And>u. \<lbrakk>r = Some u; u_disabled_at u = None; u_email u = email\<rbrakk>
         \<Longrightarrow> login_account E user_id email (w_ids v 0) t0 (w_db v) u (w_db v')\<rbrakk> \<Longrightarrow> P r v'"
    and Q: "\<And>e v'. w_tx v' = Some (d0, t0) \<Longrightarrow> Q e v'"
  shows "wp (login_user E user_id email) P Q v"
  using v Q
  by (simp add: login_user_def wp users_find_by_id_eq users_create_eq users_find_by_email_eq Let_def
      split: option.split)
     (auto intro!: P simp: login_account_def)

lemma log_in_wp:
  assumes v: "w_tx v = Some (d0, t0)"
    and P: "\<And>resp u d1 v'. \<lbrakk>w_tx v' = Some (d0, t0); login_account E user_id email (w_ids v 0) t0 (w_db v) u d1;
       login_effect E flow_id u t0 (w_utc v 0) resp d1 (w_db v')\<rbrakk> \<Longrightarrow> P (resp, u_id u) v'"
    and Q: "\<And>e v'. w_tx v' = Some (d0, t0) \<Longrightarrow> Q e v'"
  shows "wp (log_in E flow_id user_id email stale) P Q v"
  unfolding log_in_def wp_and_then
proof (rule login_user_wp [OF v])
  fix r and x :: world
  assume x: "w_tx x = Some (d0, t0)" "w_utc x = w_utc v"
    and acc: "\<And>u. \<lbrakk>r = Some u; u_disabled_at u = None; u_email u = email\<rbrakk>
      \<Longrightarrow> login_account E user_id email (w_ids v 0) t0 (w_db v) u (w_db x)"
  show "wp (ok_or r stale) (\<lambda>a. wp (if u_disabled_at a \<noteq> None then err AccountDisabled
      else if u_email a \<noteq> email then err stale else log_in_end E flow_id a) P Q) Q x"
    using Q x acc by (auto simp: wp intro!: log_in_end_wp [OF x(1)] P split: option.split)
qed (rule Q)

section \<open>The link\<close>

definition usable_link :: "time \<Rightarrow> bytes \<Rightarrow> db \<Rightarrow> magic_link_row option" where
  "usable_link now h d = List.find (\<lambda>m. m_token_hash m = h \<and> m_consumed_at m = None \<and> m_expires_at m > now) (magic_links d)"

definition spend_link :: "uuid \<Rightarrow> time \<Rightarrow> db \<Rightarrow> db" where
  "spend_link i now d = d\<lparr>magic_links := upd_where (\<lambda>m. m_id m = i) (\<lambda>m. m\<lparr>m_consumed_at := Some now\<rparr>) (magic_links d)\<rparr>"

lemma usable_link_Some: "usable_link now h d = Some m \<Longrightarrow> m \<in> set (magic_links d) \<and> m_token_hash m = h \<and>
    m_consumed_at m = None \<and> now < m_expires_at m"
  by (auto simp: usable_link_def dest: find_Some_set)

lemma link_consume_eq:
  assumes "wf_db d"
  shows "magic_links_consume h now new_id d =
    (case usable_link now h d of None \<Rightarrow> Inr (None, d)
     | Some m \<Rightarrow> Inr (Some \<lparr>cm_flow_id = m_flow_id m, cm_user_id = m_user_id m, cm_email = m_email m\<rparr>,
         spend_link (m_id m) now d))"
  unfolding magic_links_consume_def usable_link_def spend_link_def
  by (subst upd_returning_unique [where k = m_token_hash and i = m_id and x = h])
     (use assms in \<open>simp_all add: wf_defs split: option.split\<close>)

text \<open>A login with this link: what it starts from and what it leaves.\<close>

definition logged_in :: "ext \<Rightarrow> magic_link_row \<Rightarrow> uuid \<Rightarrow> time \<Rightarrow> time \<Rightarrow> login_response \<Rightarrow> db \<Rightarrow> db \<Rightarrow> bool" where
  "logged_in E m i now utc resp d d' \<longleftrightarrow>
     (\<exists>u d1. login_account E (m_user_id m) (m_email m) i now (spend_link (m_id m) now d) u d1 \<and>
        login_effect E (m_flow_id m) u now utc resp d1 d')"

lemma magic_link_confirm_wp:
  assumes "w_tx w = None" "wf_db (w_db w)"
  shows "wp (magic_link_confirm E st ip tok)
    (\<lambda>resp w'. \<exists>m i. usable_link (stmt_now w) (token_hash E tok) (w_db w) = Some m \<and>
       logged_in E m i (stmt_now w) (w_utc w 0) resp (w_db w) (w_db w'))
    (\<lambda>e w'. w_db w' = w_db w) w"
  using assms
  by (simp add: magic_link_confirm_def wp Let_def link_consume_eq split: option.split)
     (auto intro!: log_in_wp simp: wp logged_in_def, blast)

text \<open>C14 (link_login): the link of a login email logs in only while it is unused and unexpired, on the flow it
  was asked from, as the enabled account it was sent to and which still has that address (or, for a
  sign-up, the account at that address, created if it is not there). The link is then spent, the address
  verified, the pending flow completed, and exactly one authorization code is issued, valid for sixty
  seconds and stored as a hash. A failed attempt changes nothing: not even the link is spent.\<close>

theorem link_login:
  assumes "w_tx w = None" "wf_db (w_db w)" "magic_link_confirm E st ip tok w = Some (r, w')"
  shows "case r of
      Inr resp \<Rightarrow> \<exists>m i. usable_link (stmt_now w) (token_hash E tok) (w_db w) = Some m \<and>
        logged_in E m i (stmt_now w) (w_utc w 0) resp (w_db w) (w_db w')
    | Inl e \<Rightarrow> w_db w' = w_db w"
  using magic_link_confirm_wp [OF assms(1,2), of E st ip tok] assms(3) by (cases r) (simp_all add: wp_def)

lemma demo_link_login_succeeds:
  "succeeds (magic_link_confirm demo_ext demo_state demo_ip ''link'') (demo_world login_db)"
  by code_simp

theorem link_login_witness:
  "\<exists>m i. usable_link 10 ''link'' login_db = Some m \<and> logged_in demo_ext m i 10 10
    (value_of (magic_link_confirm demo_ext demo_state demo_ip ''link'') (demo_world login_db)) login_db
    (w_db (next_of (magic_link_confirm demo_ext demo_state demo_ip ''link'') (demo_world login_db)))"
  using link_login [OF _ _ succeeds_run [OF demo_link_login_succeeds]] login_db_wf
  by (auto simp: token_hash_def demo_ext_def)

section \<open>The code\<close>

text \<open>The link whose code may be typed now: the newest of the flow, unused, unexpired, with guesses left for
  itself and for its address.\<close>

definition code_candidate :: "time \<Rightarrow> uuid \<Rightarrow> db \<Rightarrow> magic_link_row option" where
  "code_candidate now flow_id d = (case newest_link d flow_id of
      None \<Rightarrow> None
    | Some m \<Rightarrow> if m_consumed_at m = None \<and> m_expires_at m > now \<and> m_code_failures m < MAX_FAILURES_PER_CODE \<and>
          address_failures (m_email m) now d < MAX_FAILURES_PER_DAY then Some m else None)"

definition candidate_of :: "magic_link_row \<Rightarrow> link_candidate" where
  "candidate_of m = \<lparr>lc_id = m_id m, lc_user_id = m_user_id m, lc_email = m_email m, lc_code_hash = m_code_hash m\<rparr>"

lemma candidate_eq:
  "newest_link d flow_id = Some a \<Longrightarrow>
    magic_links_candidate flow_id (m_email a) MAX_FAILURES_PER_CODE MAX_FAILURES_PER_DAY now new_id d =
    Inr (map_option candidate_of (code_candidate now flow_id d), d)"
  by (simp add: magic_links_candidate_def code_candidate_def candidate_of_def)

lemma find_code_candidate_wp:
  assumes "w_tx v = Some (d0, t0)"
    and "\<And>v'. \<lbrakk>w_tx v' = Some (d0, t0); w_db v' = w_db v; w_utc v' = w_utc v\<rbrakk> \<Longrightarrow>
      P (map_option candidate_of (code_candidate t0 flow_id (w_db v))) v'"
    and "\<And>e v'. \<lbrakk>w_tx v' = Some (d0, t0); w_db v' = w_db v\<rbrakk> \<Longrightarrow> Q e v'"
  shows "wp (magic_links_find_code_candidate flow_id MAX_FAILURES_PER_CODE MAX_FAILURES_PER_DAY) P Q v"
proof (cases "newest_link (w_db v) flow_id")
  case None
  then have "code_candidate t0 flow_id (w_db v) = None" by (simp add: code_candidate_def)
  with None assms show ?thesis
    by (simp add: magic_links_find_code_candidate_def wp magic_links_newest_email_def)
next
  case (Some a)
  with assms show ?thesis
    by (simp add: magic_links_find_code_candidate_def wp magic_links_newest_email_def lock_stmt_def candidate_eq)
qed

text \<open>One more wrong code on a link; the fifth spends it.\<close>

definition count_failure :: "uuid \<Rightarrow> time \<Rightarrow> db \<Rightarrow> db" where
  "count_failure i now d = d\<lparr>magic_links := upd_where (\<lambda>m. m_id m = i)
     (\<lambda>m. m\<lparr>m_code_failures := m_code_failures m + 1,
           m_consumed_at := (if m_code_failures m + 1 \<ge> MAX_FAILURES_PER_CODE then Some now else None)\<rparr>) (magic_links d)\<rparr>"

lemma code_candidate_Some: "code_candidate now flow_id d = Some m \<Longrightarrow> newest_link d flow_id = Some m \<and>
    m \<in> set (magic_links d) \<and> m_flow_id m = flow_id \<and> m_consumed_at m = None \<and> now < m_expires_at m \<and>
    m_code_failures m < MAX_FAILURES_PER_CODE \<and> address_failures (m_email m) now d < MAX_FAILURES_PER_DAY"
  by (auto simp: code_candidate_def dest: newest_link_set split: option.splits if_splits)

lemma record_failure_eq:
  assumes "m \<in> set (magic_links d)" "m_id m = i"
  shows "\<exists>n. magic_links_record_code_failure i MAX_FAILURES_PER_CODE now new_id d = Inr (n, count_failure i now d)"
proof -
  have "List.find (\<lambda>m. m_id m = i) (magic_links d) \<noteq> None" using assms by (auto simp: find_None_set)
  then show ?thesis
    by (auto simp: magic_links_record_code_failure_def upd_returning_def count_failure_def)
qed

text \<open>\<open>confirm_code\<close> once the candidate is known.\<close>

definition code_outcome :: "ext \<Rightarrow> app_state \<Rightarrow> uuid \<Rightarrow> string \<Rightarrow> world \<Rightarrow> (api_error + login_response) \<Rightarrow> db \<Rightarrow> bool" where
  "code_outcome E st flow_id code w r d' \<longleftrightarrow>
     (let matches = (\<lambda>m. code_verify E (magic_link_key (st_code_keys st)) flow_id code (m_code_hash m));
          candidate = code_candidate (stmt_now w) flow_id (w_db w) in
      case r of
        Inr resp \<Rightarrow> \<exists>m i. is_well_formed code \<and> candidate = Some m \<and> matches m \<and>
          logged_in E m i (stmt_now w) (w_utc w 0) resp (w_db w) d'
      | Inl e \<Rightarrow> d' = w_db w \<or>
          e = InvalidCode \<and> (\<exists>m. candidate = Some m \<and> \<not> matches m \<and> d' = count_failure (m_id m) (stmt_now w) (w_db w)))"

lemma code_outcome_unchanged [simp]: "code_outcome E st flow_id code w (Inl e) (w_db w)"
  by (simp add: code_outcome_def)

lemma confirm_code_wp:
  assumes w: "w_tx w = None" "wf_db (w_db w)"
  shows "wp (confirm_code E st ip flow_id code)
    (\<lambda>resp w'. code_outcome E st flow_id code w (Inr resp) (w_db w'))
    (\<lambda>e w'. code_outcome E st flow_id code w (Inl e) (w_db w')) w"
proof -
  let ?t = "w_db_clock w 0" and ?key = "magic_link_key (st_code_keys st)"
  have login: "wp (log_in E flow_id (m_user_id m) (m_email m) InvalidCode) P Q v"
    if "code_candidate ?t flow_id (w_db w) = Some m" "w_tx v = Some (w_db w, ?t)"
      "w_db v = spend_link (m_id m) ?t (w_db w)" "w_utc v = w_utc w"
      "\<And>resp uid v' i. \<lbrakk>w_tx v' = Some (w_db w, ?t); logged_in E m i ?t (w_utc w 0) resp (w_db w) (w_db v')\<rbrakk> \<Longrightarrow> P (resp, uid) v'"
      "\<And>e v'. w_tx v' = Some (w_db w, ?t) \<Longrightarrow> Q e v'" for m v P Q
  proof (rule log_in_wp [OF that(2)])
    fix resp u d1 and v' :: world
    assume "w_tx v' = Some (w_db w, ?t)"
      "login_account E (m_user_id m) (m_email m) (w_ids v 0) ?t (w_db v) u d1"
      "login_effect E flow_id u ?t (w_utc v 0) resp d1 (w_db v')"
    then show "P (resp, u_id u) v'"
      using that(3,4) code_candidate_Some [OF that(1)]
      by (intro that(5) [where i = "w_ids v 0"]) (auto simp: logged_in_def)
  qed (rule that(6))
  have use: "wp (use_code E st flow_id code (candidate_of m))
      (\<lambda>resp w'. code_outcome E st flow_id code w (Inr resp) (w_db (drop_tx w')))
      (\<lambda>e w'. code_outcome E st flow_id code w (Inl e) (w_db (drop_tx w'))) v"
    if v: "w_tx v = Some (w_db w, ?t)" "w_db v = w_db w" "w_utc v = w_utc w" "is_well_formed code"
      and m: "code_candidate ?t flow_id (w_db w) = Some m" for v m
  proof -
    obtain n where n: "\<And>now i. magic_links_record_code_failure (m_id m) MAX_FAILURES_PER_CODE now i (w_db w) =
        Inr (n now i, count_failure (m_id m) now (w_db w))"
      using record_failure_eq [of m "w_db w" "m_id m"] code_candidate_Some [OF m] by metis
    show ?thesis
      using m v w n
      by (simp add: use_code_def wp candidate_of_def magic_links_consume_by_id_def spend_link_def [symmetric])
         (auto intro!: login [OF m] simp: code_outcome_def wp)
  qed
  show ?thesis
    using w
    by (simp add: confirm_code_def wp check_format_def Let_def split: option.split)
       (auto intro!: find_code_candidate_wp use simp: wp split: option.split)
qed

text \<open>C15 (code_login): a 6-digit code logs in only if it is six digits, belongs to the newest email of the flow,
  that email is unused and unexpired, fewer than five wrong codes were typed for it and fewer than ten for
  its address in the last day, and the keyed hash of the code and the flow matches; the effect is that of
  the link. Any failure leaves the database as it was, except that a wrong code is counted.\<close>

theorem code_login:
  assumes "w_tx w = None" "wf_db (w_db w)" "confirm_code E st ip flow_id code w = Some (r, w')"
  shows "code_outcome E st flow_id code w r (w_db w')"
  using confirm_code_wp [OF assms(1,2), of E st ip flow_id code] assms(3) by (cases r) (simp_all add: wp_def)

lemma demo_code_login_succeeds:
  "succeeds (confirm_code demo_ext demo_state demo_ip 6 ''123456'') (demo_world login_db)"
  by code_simp

theorem code_login_witness:
  "code_outcome demo_ext demo_state 6 ''123456'' (demo_world login_db)
    (Inr (value_of (confirm_code demo_ext demo_state demo_ip 6 ''123456'') (demo_world login_db)))
    (w_db (next_of (confirm_code demo_ext demo_state demo_ip 6 ''123456'') (demo_world login_db)))"
  using code_login [OF _ _ succeeds_run [OF demo_code_login_succeeds]] login_db_wf by simp

lemma returns_code_attempt [total]: "returns (confirm_code E st ip flow_id code)"
proof -
  have [total]: "returns (limiter_check E l key)" for l key
    by (simp add: returns_def limiter_check_def Let_def split: option.split)
  show ?thesis
    unfolding confirm_code_def use_code_def magic_links_find_code_candidate_def log_in_def login_user_def log_in_end_def
      flow_complete_def token_generate_def sql_def
    by (intro total)
qed

text \<open>A wrong code for a usable email is refused and counted on it, and the fifth one
  spends the email, so that even the right code no longer works; other emails are not touched.\<close>

theorem wrong_code_counted:
  assumes "w_tx w = None" "wf_db (w_db w)" "\<And>n. \<not> w_faults w n"
    and "x_gov_check E (limiter_quota TokenPerIp) (w_token_per_ip w) (client_ip_key ip) (w_mono w 0) = None"
    and "is_well_formed code" "code_candidate (stmt_now w) flow_id (w_db w) = Some m"
    and "\<not> code_verify E (magic_link_key (st_code_keys st)) flow_id code (m_code_hash m)"
  shows "\<exists>w' m'. confirm_code E st ip flow_id code w = Some (Inl InvalidCode, w') \<and>
    m' \<in> set (magic_links (w_db w')) \<and> m_id m' = m_id m \<and> m_code_failures m' = m_code_failures m + 1 \<and>
    (m_consumed_at m' \<noteq> None \<longleftrightarrow> m_code_failures m + 1 \<ge> MAX_FAILURES_PER_CODE) \<and>
    (\<forall>x \<in> set (magic_links (w_db w)). m_id x \<noteq> m_id m \<longrightarrow> x \<in> set (magic_links (w_db w')))"
proof -
  let ?d = "count_failure (m_id m) (stmt_now w) (w_db w)"
  note m = code_candidate_Some [OF assms(6)]
  obtain n where n: "\<And>now i. magic_links_record_code_failure (m_id m) MAX_FAILURES_PER_CODE now i (w_db w) =
      Inr (n now i, count_failure (m_id m) now (w_db w))"
    using record_failure_eq [of m "w_db w" "m_id m"] m by metis
  have "wp (confirm_code E st ip flow_id code) (\<lambda>_ _. False) (\<lambda>e w'. e = InvalidCode \<and> w_db w' = ?d) w"
    using assms m n
    by (simp add: confirm_code_def use_code_def wp check_format_def Let_def magic_links_find_code_candidate_def
        magic_links_newest_email_def lock_stmt_def candidate_eq candidate_of_def)
  from returns_failure [OF returns_code_attempt this] obtain w' where
    w': "confirm_code E st ip flow_id code w = Some (Inl InvalidCode, w')" "w_db w' = ?d" by blast
  let ?f = "\<lambda>m. m\<lparr>m_code_failures := m_code_failures m + 1,
    m_consumed_at := (if m_code_failures m + 1 \<ge> MAX_FAILURES_PER_CODE then Some (stmt_now w) else None)\<rparr>"
  have "?f m \<in> set (magic_links ?d)" using m by (auto simp: count_failure_def in_upd_where)
  moreover have "x \<in> set (magic_links ?d)" if "x \<in> set (magic_links (w_db w))" "m_id x \<noteq> m_id m" for x
    using that by (auto simp: count_failure_def in_upd_where)
  ultimately show ?thesis using w' by (intro exI [of _ w'] exI [of _ "?f m"]) auto
qed

theorem wrong_code_counted_witness:
  "\<exists>w' m'. confirm_code demo_ext demo_state demo_ip 6 ''654321'' (demo_world login_db) = Some (Inl InvalidCode, w') \<and>
    m' \<in> set (magic_links (w_db w')) \<and> m_id m' = m_id demo_link \<and> m_code_failures m' = m_code_failures demo_link + 1 \<and>
    (m_consumed_at m' \<noteq> None \<longleftrightarrow> m_code_failures demo_link + 1 \<ge> MAX_FAILURES_PER_CODE) \<and>
    (\<forall>x \<in> set (magic_links (w_db (demo_world login_db))). m_id x \<noteq> m_id demo_link \<longrightarrow> x \<in> set (magic_links (w_db w')))"
proof (rule wrong_code_counted)
  show "code_candidate (stmt_now (demo_world login_db)) 6 (w_db (demo_world login_db)) = Some demo_link"
    by code_simp
qed (simp_all add: login_db_wf, simp_all add: demo_defs is_well_formed_def is_ascii_digit_def code_verify_def code_message_def)

end
