(* ===== verification/Account.thy ===== *)
theory Account
  imports LoginFlow
begin

text \<open>
  What the account routes guarantee (\<open>routes/me.rs\<close>, \<open>routes/email_change.rs\<close>): a confirmation code only
  works for the session and the action it was asked for, deleting an account takes every row of it and
  nothing else, an account only moves to a new address with the token sent there, and a user sees and
  revokes only their own sessions.
\<close>

section \<open>Confirmation codes\<close>

text \<open>The confirmation whose code may be typed now, and what using or missing it leaves.\<close>

definition usable_confirmation :: "time \<Rightarrow> current_user \<Rightarrow> confirmation_action \<Rightarrow> db \<Rightarrow> confirmation_row option" where
  "usable_confirmation now user action d = (case newest_confirmation d (cu_session_id user) (action_as_str action) of
      None \<Rightarrow> None
    | Some n \<Rightarrow> if n_consumed_at n = None \<and> n_expires_at n > now \<and> n_code_failures n < MAX_FAILURES_PER_CODE \<and>
          user_failures (cu_id user) now d < MAX_FAILURES_PER_DAY then Some n else None)"

definition spend_confirmation :: "uuid \<Rightarrow> time \<Rightarrow> db \<Rightarrow> db" where
  "spend_confirmation i now d = d\<lparr>confirmations := upd_where (\<lambda>n. n_id n = i)
     (\<lambda>n. n\<lparr>n_consumed_at := Some now\<rparr>) (confirmations d)\<rparr>"

definition count_confirmation_failure :: "uuid \<Rightarrow> time \<Rightarrow> db \<Rightarrow> db" where
  "count_confirmation_failure i now d = d\<lparr>confirmations := upd_where (\<lambda>n. n_id n = i)
     (\<lambda>n. n\<lparr>n_code_failures := n_code_failures n + 1,
           n_consumed_at := (if n_code_failures n + 1 \<ge> MAX_FAILURES_PER_CODE then Some now else None)\<rparr>)
     (confirmations d)\<rparr>"

lemma usable_confirmation_Some: "usable_confirmation now user action d = Some n \<Longrightarrow>
    n \<in> set (confirmations d) \<and> n_session_id n = cu_session_id user \<and> n_action n = action_as_str action \<and>
    n_consumed_at n = None \<and> now < n_expires_at n \<and> n_code_failures n < MAX_FAILURES_PER_CODE \<and>
    user_failures (cu_id user) now d < MAX_FAILURES_PER_DAY"
  by (auto simp: usable_confirmation_def dest: newest_confirmation_set split: option.splits if_splits)

lemma confirmation_candidate_eq:
  "confirmations_candidate (cu_id user) (cu_session_id user) (action_as_str action)
      MAX_FAILURES_PER_CODE MAX_FAILURES_PER_DAY now new_id d =
    Inr (map_option (\<lambda>n. \<lparr>nc_id = n_id n, nc_email = n_email n, nc_code_hash = n_code_hash n\<rparr>)
      (usable_confirmation now user action d), d)"
  by (simp add: confirmations_candidate_def usable_confirmation_def split: option.split)

lemma confirmation_failure_eq:
  assumes "n \<in> set (confirmations d)"
  shows "\<exists>k. confirmations_record_code_failure (n_id n) MAX_FAILURES_PER_CODE now new_id d =
    Inr (k, count_confirmation_failure (n_id n) now d)"
proof -
  have "List.find (\<lambda>m. n_id m = n_id n) (confirmations d) \<noteq> None" using assms by (auto simp: find_None_set)
  then show ?thesis
    by (auto simp: confirmations_record_code_failure_def upd_returning_def count_confirmation_failure_def)
qed

text \<open>Whether a code confirms an action of this user now.\<close>

definition confirms :: "ext \<Rightarrow> app_state \<Rightarrow> current_user \<Rightarrow> string \<Rightarrow> confirmation_row \<Rightarrow> bool" where
  "confirms E st user code n \<longleftrightarrow> is_well_formed code \<and> n_email n = cu_email user \<and>
     code_verify E (confirmation_key (st_code_keys st)) (cu_session_id user) code (n_code_hash n)"

definition check_outcome :: "ext \<Rightarrow> app_state \<Rightarrow> current_user \<Rightarrow> confirmation_action \<Rightarrow> string \<Rightarrow> time \<Rightarrow> db \<Rightarrow>
    (api_error + unit) \<Rightarrow> db \<Rightarrow> bool" where
  "check_outcome E st user action code now d r d' \<longleftrightarrow> (case r of
      Inr _ \<Rightarrow> \<exists>n. usable_confirmation now user action d = Some n \<and> confirms E st user code n \<and>
        d' = spend_confirmation (n_id n) now d
    | Inl e \<Rightarrow> d' = d \<or> e = InvalidCode \<and> (\<exists>n. usable_confirmation now user action d = Some n \<and>
        is_well_formed code \<and> n_email n = cu_email user \<and> \<not> confirms E st user code n \<and>
        d' = count_confirmation_failure (n_id n) now d))"

lemma check_outcome_unchanged [simp]: "check_outcome E st user action code now d (Inl e) d"
  by (simp add: check_outcome_def)

lemma check_code_wp:
  assumes "w_tx w = None"
  shows "wp (check_code E st ip user action code)
    (\<lambda>_ w'. check_outcome E st user action code (stmt_now w) (w_db w) (Inr ()) (w_db w') \<and>
       w_tx w' = None \<and> w_outbox w' = w_outbox w \<and> w_utc w' = w_utc w)
    (\<lambda>e w'. check_outcome E st user action code (stmt_now w) (w_db w) (Inl e) (w_db w') \<and>
       w_tx w' = None \<and> w_outbox w' = w_outbox w) w"
proof (cases "usable_confirmation (stmt_now w) user action (w_db w)")
  case None
  with assms show ?thesis
    by (simp add: check_code_def wp check_format_def Let_def confirmations_find_code_candidate_def lock_stmt_def
        confirmation_candidate_eq split: option.split)
next
  case (Some n)
  note n = usable_confirmation_Some [OF Some]
  obtain k where k: "\<And>now i. confirmations_record_code_failure (n_id n) MAX_FAILURES_PER_CODE now i (w_db w) =
      Inr (k now i, count_confirmation_failure (n_id n) now (w_db w))"
    using confirmation_failure_eq [of n "w_db w"] n by metis
  show ?thesis
    using assms Some k
    by (simp add: check_code_def wp check_format_def Let_def confirmations_find_code_candidate_def lock_stmt_def
        confirmation_candidate_eq confirmations_consume_by_id_def spend_confirmation_def [symmetric]
        check_outcome_def confirms_def split: option.split)
qed

text \<open>C19 (confirmation_checked): a confirmation code is accepted only if it is six digits, belongs to the newest
  confirmation asked in this session for this very action, which is unused and unexpired, with fewer than
  five wrong codes on it and fewer than ten for the account in the last day, was sent to the address the
  account has now, and its keyed hash matches; it is then spent. A refused code changes nothing, except
  that a wrong one is counted, and the fifth spends the confirmation. No email is sent.\<close>

theorem confirmation_checked:
  assumes "w_tx w = None" "check_code E st ip user action code w = Some (r, w')"
  shows "check_outcome E st user action code (stmt_now w) (w_db w) r (w_db w') \<and> w_outbox w' = w_outbox w"
  using check_code_wp [OF assms(1), of E st ip user action code] assms(2) by (cases r) (simp_all add: wp_def)

definition demo_current :: current_user where
  "demo_current = \<lparr>cu_id = 1, cu_email = ''a@b.c'', cu_session_id = 4, cu_client_id = ''web''\<rparr>"

lemma demo_check_succeeds:
  "succeeds (check_code demo_ext demo_state demo_ip demo_current DeleteAccount ''123456'') (demo_world session_db)"
  by code_simp

theorem confirmation_checked_witness:
  "check_outcome demo_ext demo_state demo_current DeleteAccount ''123456'' 10 session_db (Inr ())
    (w_db (next_of (check_code demo_ext demo_state demo_ip demo_current DeleteAccount ''123456'') (demo_world session_db)))"
  using confirmation_checked [OF _ succeeds_run [OF demo_check_succeeds]] by simp

section \<open>Deleting the account\<close>

text \<open>No row of any table points to the account any more.\<close>

definition no_trace :: "uuid \<Rightarrow> db \<Rightarrow> bool" where
  "no_trace i d \<longleftrightarrow> i \<notin> u_id ` set (users d) \<and> i \<notin> c_user_id ` set (authorization_codes d) \<and>
     i \<notin> s_user_id ` set (sessions d) \<and> Some i \<notin> m_user_id ` set (magic_links d) \<and>
     i \<notin> e_user_id ` set (email_changes d) \<and> i \<notin> n_user_id ` set (confirmations d)"

text \<open>The rows of the other accounts are still there; a session of theirs may only lose the reference to the
  code it was opened with.\<close>

definition others_kept :: "uuid \<Rightarrow> db \<Rightarrow> db \<Rightarrow> bool" where
  "others_kept i d d' \<longleftrightarrow>
     filter (\<lambda>u. u_id u \<noteq> i) (users d) = users d' \<and> login_flows d' = login_flows d \<and> signing_keys d' = signing_keys d \<and>
     filter (\<lambda>c. c_user_id c \<noteq> i) (authorization_codes d) = authorization_codes d' \<and>
     map (\<lambda>s. s\<lparr>s_authorization_code_id := None\<rparr>) (filter (\<lambda>s. s_user_id s \<noteq> i) (sessions d)) =
       map (\<lambda>s. s\<lparr>s_authorization_code_id := None\<rparr>) (sessions d') \<and>
     filter (\<lambda>m. m_user_id m \<noteq> Some i) (magic_links d) = magic_links d' \<and>
     filter (\<lambda>e. e_user_id e \<noteq> i) (email_changes d) = email_changes d'"

lemma map_upd_where_same: "(\<And>r. g (f r) = g r) \<Longrightarrow> map g (filter q (upd_where p f rows)) = map g (filter q rows)"
  if "\<And>r. q (f r) = q r" for q
  using that by (induction rows) auto

lemma delete_one_user:
  assumes u: "i \<in> u_id ` set (users d)"
  shows "no_trace i (delete_users (\<lambda>u. u_id u = i) d) \<and> others_kept i d (delete_users (\<lambda>u. u_id u = i) d)"
proof -
  have gone: "set (map u_id (filter (\<lambda>u. u_id u = i) (users d))) = {i}" using u by auto
  have eq: "delete_users (\<lambda>u. u_id u = i) d = delete_sessions (\<lambda>s. s_user_id s = i)
     (delete_authorization_codes (\<lambda>c. c_user_id c = i)
       (d\<lparr>users := del_where (\<lambda>u. u_id u = i) (users d),
          magic_links := del_where (\<lambda>m. m_user_id m = Some i) (magic_links d),
          email_changes := del_where (\<lambda>e. e_user_id e = i) (email_changes d),
          confirmations := del_where (\<lambda>n. n_user_id n = i) (confirmations d)\<rparr>))"
  proof -
    have links: "(\<lambda>m. case m_user_id m of None \<Rightarrow> False | Some u \<Rightarrow> u \<in> {i}) = (\<lambda>m. m_user_id m = Some i)"
      by (auto simp: fun_eq_iff split: option.split)
    show ?thesis unfolding delete_users_def Let_def gone links by simp
  qed
  show ?thesis
    unfolding eq
    by (auto simp: no_trace_def others_kept_def delete_sessions_def delete_authorization_codes_def Let_def
        del_where_def map_upd_where_same set_upd_where)
qed

text \<open>Refresh tokens follow their sessions.\<close>

definition tokens_of_others_kept :: "uuid \<Rightarrow> db \<Rightarrow> db \<Rightarrow> bool" where
  "tokens_of_others_kept i d d' \<longleftrightarrow> filter (\<lambda>r. r_session_id r \<notin> s_id ` {s \<in> set (sessions d). s_user_id s = i}) (refresh_tokens d) = refresh_tokens d'"

lemma delete_one_user_tokens:
  assumes "i \<in> u_id ` set (users d)" "family (refresh_tokens d)"
  shows "tokens_of_others_kept i d (delete_users (\<lambda>u. u_id u = i) d)"
proof -
  have "u_id ` {u \<in> set (users d). u_id u = i} = {i}" using assms(1) by auto
  with tokens_of_deleted_users [OF assms(2), of "\<lambda>u. u_id u = i"] show ?thesis
    by (simp add: tokens_of_others_kept_def del_where_def)
qed

lemma spend_confirmation_tables [simp]:
  "users (spend_confirmation i now d) = users d" "sessions (spend_confirmation i now d) = sessions d"
  "login_flows (spend_confirmation i now d) = login_flows d" "signing_keys (spend_confirmation i now d) = signing_keys d"
  "authorization_codes (spend_confirmation i now d) = authorization_codes d"
  "magic_links (spend_confirmation i now d) = magic_links d" "email_changes (spend_confirmation i now d) = email_changes d"
  "others_kept k (spend_confirmation i now d) = others_kept k d" "refresh_tokens (spend_confirmation i now d) = refresh_tokens d"
  "tokens_of_others_kept k (spend_confirmation i now d) = tokens_of_others_kept k d"
  by (simp_all add: spend_confirmation_def others_kept_def tokens_of_others_kept_def fun_eq_iff)

lemma delete_account_wp:
  assumes w: "w_tx w = None" "cu_id user \<in> u_id ` set (users (w_db w))"
  shows "wp (delete_account E st ip user code)
    (\<lambda>s w'. s = 204 \<and> (\<exists>n. usable_confirmation (stmt_now w) user DeleteAccount (w_db w) = Some n \<and> confirms E st user code n) \<and>
       no_trace (cu_id user) (w_db w') \<and> others_kept (cu_id user) (w_db w) (w_db w') \<and>
       (family (refresh_tokens (w_db w)) \<longrightarrow> tokens_of_others_kept (cu_id user) (w_db w) (w_db w')) \<and>
       w_outbox w' = w_outbox w @ [account_deleted_email E (cu_email user)])
    (\<lambda>e w'. w_outbox w' = w_outbox w \<and> (check_outcome E st user DeleteAccount code (stmt_now w) (w_db w) (Inl e) (w_db w') \<or>
       internal_error e \<and> check_outcome E st user DeleteAccount code (stmt_now w) (w_db w) (Inr ()) (w_db w'))) w"
  unfolding delete_account_def wp_and_then
  by (rule wp_mono [OF check_code_wp [OF w(1)]])
     (use w in \<open>auto simp: wp users_delete_def check_outcome_def
        delete_one_user [where d = "spend_confirmation i now d" for i now d, simplified]
        delete_one_user_tokens [where d = "spend_confirmation i now d" for i now d, simplified]\<close>)


lemma demo_delete_succeeds:
  "succeeds (delete_account demo_ext demo_state demo_ip demo_current ''123456'') (demo_world session_db)"
  by code_simp


section \<open>Moving to another address\<close>

text \<open>What a request leaves when the address is free: one pending change, holding the hash of the token that
  only the message to the new address contains.\<close>

definition change_asked :: "ext \<Rightarrow> current_user \<Rightarrow> string \<Rightarrow> string \<Rightarrow> time \<Rightarrow> db \<Rightarrow> db \<Rightarrow> email list \<Rightarrow> email list \<Rightarrow> bool" where
  "change_asked E user new_email page expires_at d d' out out' \<longleftrightarrow>
     (\<exists>e tok. d' = d\<lparr>email_changes := email_changes d @ [e]\<rparr> \<and> e_user_id e = cu_id user \<and>
        e_from_email e = cu_email user \<and> e_to_email e = sql_normalize E new_email \<and>
        e_token_hash e = token_hash E tok \<and> e_consumed_at e = None \<and> e_expires_at e = expires_at \<and>
        out' = out @ [confirm_email_change_email E (email_key E new_email) (page @ ''#token='' @ tok)])"

lemma change_askedI:
  assumes "d' = d\<lparr>email_changes := email_changes d @ [e]\<rparr>" "e_user_id e = cu_id user"
    "e_from_email e = cu_email user" "e_to_email e = sql_normalize E new_email"
    "e_token_hash e = token_hash E tok" "e_consumed_at e = None" "e_expires_at e = expires_at"
    "out' = out @ [confirm_email_change_email E (email_key E new_email) (page @ ''#token='' @ tok)]"
  shows "change_asked E user new_email page expires_at d d' out out'"
  unfolding change_asked_def using assms by blast

definition change_request_effect :: "ext \<Rightarrow> app_state \<Rightarrow> current_user \<Rightarrow> string \<Rightarrow> string \<Rightarrow> time \<Rightarrow> time \<Rightarrow> db \<Rightarrow> db \<Rightarrow> email list \<Rightarrow> email list \<Rightarrow> bool" where
  "change_request_effect E st user code new_email now utc d d' out out' \<longleftrightarrow>
     (\<exists>client page n. is_valid_email new_email \<and> email_key E new_email \<noteq> cu_email user \<and>
        st_clients st (cu_client_id user) = Some client \<and> cl_email_change_url client = Some page \<and>
        usable_confirmation now user ChangeEmail d = Some n \<and> confirms E st user code n \<and>
        (if account_at E new_email d = None
         then change_asked E user new_email page (utc + EMAIL_CHANGE_TTL) (spend_confirmation (n_id n) now d) d' out out'
         else d' = spend_confirmation (n_id n) now d \<and> out' = out))"

lemma account_at_spend [simp]: "account_at E email (spend_confirmation i now d) = account_at E email d"
  by (simp add: account_at_def)

lemma change_email_wp:
  assumes w: "w_tx w = None"
  shows "wp (change_email E st ip user code new_email)
    (\<lambda>a w'. a = (202, ConfirmationSent) \<and>
       change_request_effect E st user code new_email (stmt_now w) (w_utc w 0) (w_db w) (w_db w') (w_outbox w) (w_outbox w'))
    (\<lambda>e w'. w_outbox w' = w_outbox w \<and> (check_outcome E st user ChangeEmail code (stmt_now w) (w_db w) (Inl e) (w_db w') \<or>
       internal_error e \<and> check_outcome E st user ChangeEmail code (stmt_now w) (w_db w) (Inr ()) (w_db w'))) w"
proof -
  have check: "wp (check_code E st ip user ChangeEmail code) P Q v"
    if "w_tx v = None" "w_db v = w_db w" "w_outbox v = w_outbox w" "stmt_now v = stmt_now w" "w_utc v = w_utc w"
      "\<And>n v'. \<lbrakk>usable_confirmation (stmt_now w) user ChangeEmail (w_db w) = Some n; confirms E st user code n;
         w_db v' = spend_confirmation (n_id n) (stmt_now w) (w_db w); w_tx v' = None; w_outbox v' = w_outbox w;
         w_utc v' = w_utc w\<rbrakk> \<Longrightarrow> P () v'"
      "\<And>e v'. \<lbrakk>check_outcome E st user ChangeEmail code (stmt_now w) (w_db w) (Inl e) (w_db v'); w_tx v' = None;
         w_outbox v' = w_outbox w\<rbrakk> \<Longrightarrow> Q e v'" for v P Q
  proof (rule wp_mono [OF check_code_wp [OF that(1)]], goal_cases)
    case (1 a v')
    then show ?case using that(2-6) by (auto simp: check_outcome_def)
  next
    case (2 e v')
    then show ?case using that(2-4,7) by auto
  qed
  show ?thesis
    using w
    by (simp add: change_email_def wp Let_def email_change_page_def split: option.split)
       (auto intro!: check change_askedI simp: wp users_find_by_email_eq email_changes_create_def
          change_request_effect_def check_outcome_def)
qed

text \<open>Asking to move to a new address takes a plausible address other than the current
  one, a client with an email-change page and a confirmation code for this action in this session. If the
  address is free, one pending change is stored with the hash of a token, and one message with that token
  goes to the new address; if an account already has it, nothing is stored or sent, with the same answer.
  The account itself does not change. A refused request stores and sends nothing but a counted code.\<close>

theorem email_change_asked:
  assumes "w_tx w = None" "change_email E st ip user code new_email w = Some (r, w')"
  shows "case r of
      Inr a \<Rightarrow> a = (202, ConfirmationSent) \<and>
        change_request_effect E st user code new_email (stmt_now w) (w_utc w 0) (w_db w) (w_db w') (w_outbox w) (w_outbox w')
    | Inl e \<Rightarrow> w_outbox w' = w_outbox w \<and> (check_outcome E st user ChangeEmail code (stmt_now w) (w_db w) (Inl e) (w_db w') \<or>
        internal_error e \<and> check_outcome E st user ChangeEmail code (stmt_now w) (w_db w) (Inr ()) (w_db w'))"
  using change_email_wp [OF assms(1), of E st ip user code new_email] assms(2) by (cases r) (simp_all add: wp_def)

definition change_db :: db where
  "change_db = session_db\<lparr>confirmations := [demo_confirmation\<lparr>n_action := ''change_email''\<rparr>]\<rparr>"

lemma demo_change_succeeds:
  "succeeds (change_email demo_ext demo_state demo_ip demo_current ''123456'' ''z@b.c'') (demo_world change_db)"
  by code_simp

theorem email_change_asked_witness:
  "change_request_effect demo_ext demo_state demo_current ''123456'' ''z@b.c'' 10 10 change_db
    (w_db (next_of (change_email demo_ext demo_state demo_ip demo_current ''123456'' ''z@b.c'') (demo_world change_db))) []
    (w_outbox (next_of (change_email demo_ext demo_state demo_ip demo_current ''123456'' ''z@b.c'') (demo_world change_db)))"
  using email_change_asked [OF _ succeeds_run [OF demo_change_succeeds]] by simp

text \<open>The pending change a token confirms, and the move itself.\<close>

definition usable_change :: "time \<Rightarrow> bytes \<Rightarrow> db \<Rightarrow> email_change_row option" where
  "usable_change now h d = List.find (\<lambda>e. e_token_hash e = h \<and> e_consumed_at e = None \<and> e_expires_at e > now) (email_changes d)"

definition move_account :: "email_change_row \<Rightarrow> time \<Rightarrow> db \<Rightarrow> db" where
  "move_account e now d =
     d\<lparr>users := upd_where (\<lambda>u. u_id u = e_user_id e)
         (\<lambda>u. u\<lparr>u_email := e_to_email e, u_email_verified_at := Some now, u_updated_at := now\<rparr>) (users d),
       email_changes := upd_where (\<lambda>x. e_id x = e_id e) (\<lambda>x. x\<lparr>e_consumed_at := Some now\<rparr>) (email_changes d)\<rparr>"

definition address_taken :: "email_change_row \<Rightarrow> db \<Rightarrow> bool" where
  "address_taken e d \<longleftrightarrow> (\<exists>u \<in> set (users d). u_id u \<noteq> e_user_id e \<and> u_email u = e_to_email e)"

lemma usable_change_Some: "usable_change now h d = Some e \<Longrightarrow> e \<in> set (email_changes d) \<and> e_token_hash e = h \<and>
    e_consumed_at e = None \<and> now < e_expires_at e"
  by (auto simp: usable_change_def dest: find_Some_set)

lemma change_consume_eq:
  assumes "wf_db d"
  shows "email_changes_consume h now new_id d =
    (case usable_change now h d of None \<Rightarrow> Inr (None, d)
     | Some e \<Rightarrow> Inr (Some \<lparr>ce_user_id = e_user_id e, ce_from_email = e_from_email e, ce_to_email = e_to_email e\<rparr>,
         d\<lparr>email_changes := upd_where (\<lambda>x. e_id x = e_id e) (\<lambda>x. x\<lparr>e_consumed_at := Some now\<rparr>) (email_changes d)\<rparr>))"
  unfolding email_changes_consume_def usable_change_def
  by (subst upd_returning_unique [where k = e_token_hash and i = e_id and x = h])
     (use assms in \<open>simp_all add: wf_defs split: option.split\<close>)

lemma users_change_email_eq:
  assumes "wf_db d" "user_of d i = Some u"
  shows "users_change_email i a b now new_id d =
    (if u_email u \<noteq> a then Inr (False, d)
     else if \<exists>x \<in> set (users d). u_id x \<noteq> i \<and> u_email x = b then Inl UniqueViolation
     else Inr (True, d\<lparr>users := upd_where (\<lambda>u. u_id u = i)
        (\<lambda>u. u\<lparr>u_email := b, u_email_verified_at := Some now, u_updated_at := now\<rparr>) (users d)\<rparr>))"
proof -
  note u = user_of_Some [OF assms(2)]
  have ids: "distinct (map u_id (users d))" using assms(1) by (simp add: wf_defs)
  have one: "x = u" if "x \<in> set (users d)" "u_id x = i" for x
    by (rule distinct_key_eq [OF ids]) (use that u in auto)
  let ?p = "\<lambda>x. u_id x = i \<and> u_email x = a"
  show ?thesis
  proof (cases "u_email u = a")
    case False
    then have none: "\<not> ?p x" if "x \<in> set (users d)" for x using one [OF that] by auto
    then have "\<not> list_ex ?p (users d)" "filter ?p (users d) = []" by (auto simp: list_ex_iff filter_empty_conv)
    moreover have "upd_where ?p f (users d) = users d" for f by (rule upd_where_none) (rule none)
    ultimately show ?thesis using False by (simp add: users_change_email_def Let_def count_where_def)
  next
    case True
    have p: "?p x \<longleftrightarrow> u_id x = i" if "x \<in> set (users d)" for x using one [OF that] True by auto
    have "filter ?p (users d) = filter (\<lambda>x. u_id x = i) (users d)" using p by (rule filter_cong [OF refl])
    then have "count_where ?p (users d) = 1"
      using count_unique [OF ids, of u] u by (simp add: count_where_def)
    moreover have "upd_where ?p f (users d) = upd_where (\<lambda>x. u_id x = i) f (users d)" for f
      using p by (rule upd_where_cong)
    moreover have "list_ex ?p (users d)" using u True by (auto simp: list_ex_iff)
    moreover have "list_ex (\<lambda>x. \<not> ?p x \<and> u_email x = b) (users d) \<longleftrightarrow> (\<exists>x \<in> set (users d). u_id x \<noteq> i \<and> u_email x = b)"
      using p by (auto simp: list_ex_iff)
    ultimately show ?thesis using True by (simp add: users_change_email_def Let_def)
  qed
qed

lemma user_of_upd_changes [simp]: "user_of (d\<lparr>email_changes := es\<rparr>) = user_of d"
  by (simp add: user_of_def fun_eq_iff)

lemma wf_consume_change: "wf_db d \<Longrightarrow> wf_db (d\<lparr>email_changes := upd_where p (\<lambda>x. x\<lparr>e_consumed_at := t\<rparr>) (email_changes d)\<rparr>)"
  by (simp add: wf_defs ball_upd_where)

lemma email_change_confirm_wp:
  assumes w: "w_tx w = None" "wf_db (w_db w)"
  shows "wp (email_change_confirm E st ip tok)
    (\<lambda>s w'. s = 204 \<and> (\<exists>e u. usable_change (stmt_now w) (token_hash E tok) (w_db w) = Some e \<and>
       user_of (w_db w) (e_user_id e) = Some u \<and> u_disabled_at u = None \<and> u_email u = e_from_email e \<and>
       \<not> address_taken e (w_db w) \<and> w_db w' = move_account e (stmt_now w) (w_db w) \<and>
       w_outbox w' = w_outbox w @ [email_changed_email E (e_from_email e) (e_to_email e)]))
    (\<lambda>x w'. w_db w' = w_db w \<and> w_outbox w' = w_outbox w \<and> (x = EmailTaken \<longrightarrow>
       (\<exists>e. usable_change (stmt_now w) (token_hash E tok) (w_db w) = Some e \<and> address_taken e (w_db w)))) w"
proof (cases "usable_change (stmt_now w) (token_hash E tok) (w_db w)")
  case None
  with w show ?thesis
    by (simp add: email_change_confirm_def wp Let_def change_consume_eq api_from_sql_def split: option.split)
next
  case (Some e)
  have "e_user_id e \<in> u_id ` set (users (w_db w))"
    using usable_change_Some [OF Some] wf_change_user [OF w(2)] by blast
  then obtain u where u: "user_of (w_db w) (e_user_id e) = Some u"
    using user_of_None by (cases "user_of (w_db w) (e_user_id e)") auto
  from user_of_Some [OF this] have "u_id u = e_user_id e" by blast
  with w Some u show ?thesis
    by (simp add: email_change_confirm_def wp Let_def change_consume_eq users_find_by_id_eq api_from_sql_def
        users_change_email_eq [where u = u] wf_consume_change address_taken_def [symmetric] move_account_def
        split: option.split)
qed

text \<open>C21 (email_moved): the token sent to a new address moves the account only while it is unused and unexpired,
  the account is enabled and still has the address the change started from, and no other account has the new
  one; the account then has the new address, verified, the token is spent, nothing else changes, and the old
  address is told. Otherwise nothing changes at all; \<open>email_taken\<close> is only answered when another account
  has the address.\<close>

theorem email_moved:
  assumes "w_tx w = None" "wf_db (w_db w)" "email_change_confirm E st ip tok w = Some (r, w')"
  shows "case r of
      Inr s \<Rightarrow> s = 204 \<and> (\<exists>e u. usable_change (stmt_now w) (token_hash E tok) (w_db w) = Some e \<and>
        user_of (w_db w) (e_user_id e) = Some u \<and> u_disabled_at u = None \<and> u_email u = e_from_email e \<and>
        \<not> address_taken e (w_db w) \<and> w_db w' = move_account e (stmt_now w) (w_db w) \<and>
        w_outbox w' = w_outbox w @ [email_changed_email E (e_from_email e) (e_to_email e)])
    | Inl x \<Rightarrow> w_db w' = w_db w \<and> w_outbox w' = w_outbox w \<and> (x = EmailTaken \<longrightarrow>
        (\<exists>e. usable_change (stmt_now w) (token_hash E tok) (w_db w) = Some e \<and> address_taken e (w_db w)))"
  using email_change_confirm_wp [OF assms(1,2), of E st ip tok] assms(3) by (cases r) (simp_all add: wp_def)

lemma demo_move_succeeds:
  "succeeds (email_change_confirm demo_ext demo_state demo_ip ''change'') (demo_world session_db)"
  by code_simp

theorem email_moved_witness:
  "\<exists>e. usable_change 10 ''change'' session_db = Some e \<and>
    w_db (next_of (email_change_confirm demo_ext demo_state demo_ip ''change'') (demo_world session_db)) =
      move_account e 10 session_db"
  using email_moved [OF _ _ succeeds_run [OF demo_move_succeeds]] session_db_wf
  by (auto simp: token_hash_def demo_ext_def)

section \<open>The user's sessions\<close>

definition live_sessions :: "uuid \<Rightarrow> time \<Rightarrow> db \<Rightarrow> session list" where
  "live_sessions i now d = filter (\<lambda>s. s_user_id s = i \<and> s_revoked_at s = None \<and> s_expires_at s > now) (sessions d)"

lemma last_used_upper: "r \<in> set (refresh_tokens d) \<Longrightarrow> r_session_id r = s_id s \<Longrightarrow> r_created_at r \<le> last_used_at d s"
proof -
  have fold: "x \<le> foldl max a xs \<and> (x \<in> set xs \<or> x \<le> a)" if "x \<in> set xs \<or> x \<le> a" for x a :: time and xs
    using that by (induction xs arbitrary: a) fastforce+
  assume "r \<in> set (refresh_tokens d)" "r_session_id r = s_id s"
  then have "r_created_at r \<in> set (map r_created_at (filter (\<lambda>r. r_session_id r = s_id s) (refresh_tokens d)))"
    by auto
  then show ?thesis
    unfolding last_used_at_def using fold
    by (cases "map r_created_at (filter (\<lambda>r. r_session_id r = s_id s) (refresh_tokens d))") auto
qed

text \<open>Listing sessions returns exactly the live sessions of the user, each once, the most
  recently used first, marking the one the request came with; every use of a session shows, since its
  time of last use is no earlier than any of its refresh tokens. Nothing is written.\<close>

theorem sessions_listed:
  assumes "wf_db (w_db w)" "list_sessions st user w = Some (Inr l, w')"
  shows "set (map sr_id l) = s_id ` set (live_sessions (cu_id user) (stmt_now w) (w_db w)) \<and> distinct (map sr_id l) \<and>
    sorted_wrt (\<lambda>a b. sr_last_used_at a \<ge> sr_last_used_at b) l \<and>
    list_all (\<lambda>x. sr_current x = (sr_id x = cu_session_id user)) l \<and>
    list_all (\<lambda>x. list_all (\<lambda>r. r_session_id r = sr_id x \<longrightarrow> r_created_at r \<le> sr_last_used_at x) (refresh_tokens (w_db w))) l \<and>
    w_db w' = w_db w"
proof -
  let ?d = "w_db w"
  let ?av = "\<lambda>s. \<lparr>av_id = s_id s, av_client_id = s_client_id s, av_created_at = s_created_at s,
    av_last_used_at = last_used_at ?d s, av_expires_at = s_expires_at s\<rparr>"
  let ?live = "live_sessions (cu_id user) (stmt_now w) ?d"
  let ?as = "rev (sort_key av_last_used_at (map ?av ?live))"
  have l: "l = map (session_response_of st user) ?as" and db: "w_db w' = ?d"
    using assms(2)
    by (auto simp: list_sessions_def sql_def and_then_def map_err_def exec_def ok_def sessions_list_active_for_user_def
        live_sessions_def split: if_splits)
  have "distinct (map s_id ?live)"
    using assms(1) unfolding live_sessions_def wf_defs by (blast intro: distinct_map_filter)
  then have "distinct (map av_id (map ?av ?live))" by (simp add: comp_def)
  then have "distinct (map av_id (sort_key av_last_used_at (map ?av ?live)))"
    by (simp only: distinct_map [of av_id] set_sort distinct_sort)
  then have "distinct (map sr_id l)" by (simp add: l session_response_of_def comp_def rev_map [symmetric])
  moreover have "sorted_wrt (\<lambda>a b. sr_last_used_at a \<ge> sr_last_used_at b) l"
    using sorted_sort_key [of av_last_used_at "map ?av ?live"]
    by (simp add: l session_response_of_def sorted_wrt_map sorted_wrt_rev)
  moreover have "set (map sr_id l) = s_id ` set ?live"
    by (force simp: l session_response_of_def)
  ultimately show ?thesis
    using db by (auto simp: l list_all_iff session_response_of_def intro: last_used_upper)
qed

lemma demo_list_succeeds: "succeeds (list_sessions demo_state demo_current) (demo_world session_db)"
  by code_simp

theorem sessions_listed_witness:
  "set (map sr_id (value_of (list_sessions demo_state demo_current) (demo_world session_db))) =
    s_id ` set (live_sessions 1 10 session_db)"
  using sessions_listed [OF _ succeeds_run [OF demo_list_succeeds]] session_db_wf by (simp add: demo_current_def)

lemma revoke_for_user_eq:
  assumes "wf_db d"
  shows "sessions_revoke_for_user i u now new_id d =
    (if \<exists>x. session_of d i = Some x \<and> s_user_id x = u \<and> s_revoked_at x = None
     then Inr (True, revoke_where (\<lambda>x. s_id x = i) now d) else Inr (False, d))"
proof -
  let ?p = "\<lambda>x. (s_id x = i \<and> s_user_id x = u) \<and> s_revoked_at x = None"
  have ids: "distinct (map s_id (sessions d))" using assms by (simp add: wf_defs)
  have found: "session_of d i = Some x" if "x \<in> set (sessions d)" "s_id x = i" for x
    unfolding session_of_def by (rule find_key [OF ids]) (use that in auto)
  show ?thesis
  proof (cases "\<exists>x. session_of d i = Some x \<and> s_user_id x = u \<and> s_revoked_at x = None")
    case True
    then obtain x where x: "session_of d i = Some x" "s_user_id x = u" "s_revoked_at x = None" by blast
    note x' = session_of_Some [OF x(1)]
    have p: "?p y \<longleftrightarrow> s_id y = s_id x" "?p y \<longleftrightarrow> s_id y = i \<and> s_revoked_at y = None" if "y \<in> set (sessions d)" for y
      using found [OF that] x x' by auto
    have "count_where ?p (sessions d) = count_where (\<lambda>y. s_id y = s_id x) (sessions d)"
      unfolding count_where_def using p(1) by (intro arg_cong [of _ _ length] filter_cong) auto
    then have "count_where ?p (sessions d) = 1" using count_unique [OF ids, of x] x' by simp
    moreover have "upd_where ?p f (sessions d) = upd_where (\<lambda>y. s_id y = i \<and> s_revoked_at y = None) f (sessions d)" for f
      using p(2) by (rule upd_where_cong)
    ultimately show ?thesis
      unfolding sessions_revoke_for_user_def Let_def revoke_where_def using True by simp
  next
    case False
    then have no: "\<not> ?p x" if "x \<in> set (sessions d)" for x using found [OF that] by auto
    then have "filter ?p (sessions d) = []" by (simp add: filter_empty_conv)
    moreover have "upd_where ?p f (sessions d) = sessions d" for f using no by (rule upd_where_none)
    ultimately show ?thesis
      unfolding sessions_revoke_for_user_def Let_def revoke_where_def count_where_def using False by simp
  qed
qed

lemma revoke_session_wp:
  assumes "wf_db (w_db w)"
  shows "wp (revoke_session user i)
    (\<lambda>s w'. s = 204 \<and> (\<exists>x. session_of (w_db w) i = Some x \<and> s_user_id x = cu_id user \<and> s_revoked_at x = None) \<and>
       w_db w' = revoke_where (\<lambda>x. s_id x = i) (stmt_now w) (w_db w))
    (\<lambda>e w'. w_db w' = w_db w \<and> (e = NotFound \<longleftrightarrow> \<not> w_faults w 0) \<and> (e = NotFound \<longrightarrow>
       (\<forall>x. session_of (w_db w) i = Some x \<longrightarrow> s_user_id x \<noteq> cu_id user \<or> s_revoked_at x \<noteq> None))) w"
  using assms by (simp add: revoke_session_def wp revoke_for_user_eq api_from_sql_def)

text \<open>A user can end a session exactly when it is theirs and not revoked yet; that
  session is then dead and no other one changes. For any other id the answer is 404 and nothing changes, so
  the sessions of other accounts can be neither ended nor probed.\<close>

theorem session_revoked_by_owner:
  assumes "wf_db (w_db w)" "revoke_session user i w = Some (r, w')"
  shows "case r of
      Inr s \<Rightarrow> s = 204 \<and> (\<exists>x. session_of (w_db w) i = Some x \<and> s_user_id x = cu_id user \<and> s_revoked_at x = None) \<and>
        session_dead i (w_db w') \<and> w_db w' = revoke_where (\<lambda>x. s_id x = i) (stmt_now w) (w_db w)
    | Inl e \<Rightarrow> w_db w' = w_db w \<and> (e = NotFound \<longleftrightarrow> \<not> w_faults w 0) \<and> (e = NotFound \<longrightarrow>
        (\<forall>x. session_of (w_db w) i = Some x \<longrightarrow> s_user_id x \<noteq> cu_id user \<or> s_revoked_at x \<noteq> None))"
proof -
  have "session_dead i (revoke_where (\<lambda>x. s_id x = i) now d)" for now d
    unfolding session_dead_def using revoke_where_revoked [of _ "\<lambda>x. s_id x = i" now d] by auto
  with revoke_session_wp [OF assms(1), of user i] assms(2) show ?thesis by (cases r) (simp_all add: wp_def)
qed

lemma demo_revoke_session_succeeds: "succeeds (revoke_session demo_current 4) (demo_world session_db)"
  by code_simp

theorem session_revoked_by_owner_witness:
  "w_db (next_of (revoke_session demo_current 4) (demo_world session_db)) = revoke_where (\<lambda>x. s_id x = 4) 10 session_db"
  using session_revoked_by_owner [OF _ succeeds_run [OF demo_revoke_session_succeeds]] session_db_wf by simp

end
