(* ===== verification/Spent.thy ===== *)
theory Spent
  imports Account
begin

text \<open>
  What is over stays over, whatever the server does next: a spent link or a completed flow never logs in
  again, a spent authorization code is never exchanged again, a deleted account never acts again. Each
  property rests on an interpretation of \<open>db_invariant\<close> (theory \<open>Lifecycle\<close>) and on the soundness of the
  route that would use the row. Generated ids are assumed not to repeat.
\<close>

section \<open>Logging in\<close>

lemma usable_link_open:
  assumes "usable_link now h d = Some m"
  shows "\<not> link_spent (m_id m) d"
  using usable_link_Some [OF assms] by (auto simp: link_spent_def)

lemma code_candidate_open:
  assumes "code_candidate now flow_id d = Some m"
  shows "\<not> link_spent (m_id m) d"
  using code_candidate_Some [OF assms] by (auto simp: link_spent_def)

lemma login_effect_pending:
  assumes "login_effect E flow_id u now utc resp d d'" "flow_closed flow_id d"
  shows False
proof -
  from assms(1) have "filter (\<lambda>f. f_id f = flow_id \<and> flow_pending now f) (login_flows d) \<noteq> []"
    by (auto simp: login_effect_def count_where_def)
  with assms(2) show False by (auto simp: filter_empty_conv flow_closed_def flow_pending_def)
qed

lemma login_account_flows: "login_account E user_id email i now d u d' \<Longrightarrow> login_flows d' = login_flows d"
  by (auto simp: login_account_def split: option.splits if_splits)

lemma logged_in_pending:
  assumes "logged_in E m i now utc resp d d'" "flow_closed (m_flow_id m) d"
  shows False
proof -
  from assms(1) obtain u d1 where d1: "login_account E (m_user_id m) (m_email m) i now (spend_link (m_id m) now d) u d1"
    "login_effect E (m_flow_id m) u now utc resp d1 d'" by (auto simp: logged_in_def)
  have "flow_closed (m_flow_id m) d1"
    using login_account_flows [OF d1(1)] assms(2) by (simp add: flow_closed_def spend_link_def)
  with login_effect_pending [OF d1(2)] show False by blast
qed

text \<open>C22 (completed_flow_stays_closed): once a login flow is completed, nothing that happens afterwards lets it
  log in again, neither by one of its links nor by a code: a flow yields at most one login.\<close>

theorem completed_flow_stays_closed:
  assumes "reachable E st mk w w'" "w_tx w = None" "wf_db (w_db w)"
    and "flow_closed f (w_db w)" "\<And>n. w_ids w n \<noteq> f"
  shows "(\<forall>ip code resp v. confirm_code E st ip f code w' \<noteq> Some (Inr resp, v)) \<and>
    (\<forall>ip tok m resp v. usable_link (stmt_now w') (token_hash E tok) (w_db w') = Some m \<longrightarrow> m_flow_id m = f \<longrightarrow>
       magic_link_confirm E st ip tok w' \<noteq> Some (Inr resp, v))"
proof -
  have closed: "flow_closed f (w_db w')"
    using flow_closed.reachable_keeps [OF assms(1)] assms(2-5) by (simp add: holds_def)
  have wf: "wf_db (w_db w')" using wf_reachable [OF assms(1)] assms(2-3) by (simp add: holds_def)
  have tx: "w_tx w' = None" by (rule reachable_no_tx [OF assms(1,2)])
  have "False" if "confirm_code E st ip f code w' = Some (Inr resp, v)" for ip code resp v
    using wp_ok_run [OF confirm_code_wp [OF tx wf] that] closed
    by (auto simp: code_outcome_def Let_def dest: code_candidate_Some logged_in_pending)
  moreover have "False" if "usable_link (stmt_now w') (token_hash E tok) (w_db w') = Some m" "m_flow_id m = f"
    "magic_link_confirm E st ip tok w' = Some (Inr resp, v)" for ip tok m resp v
    using wp_ok_run [OF magic_link_confirm_wp [OF tx wf] that(3)] that(1,2) closed by (auto dest: logged_in_pending)
  ultimately show ?thesis by blast
qed

text \<open>A completed flow, and the state after the purge job ran.\<close>

definition closed_world :: world where
  "closed_world = (demo_world (login_db\<lparr>login_flows := [demo_flow, demo_pending_flow\<lparr>f_completed_at := Some 7\<rparr>]\<rparr>))
     \<lparr>w_ids := (\<lambda>_. 100)\<rparr>"

lemma closed_world_purge: "succeeds (run_job demo_ext no_master_key (PurgeJob True)) closed_world"
  by code_simp

lemma after_purge_reachable:
  "succeeds (run_job demo_ext no_master_key (PurgeJob True)) w \<Longrightarrow>
    reachable demo_ext demo_state no_master_key w (next_of (run_job demo_ext no_master_key (PurgeJob True)) w)"
  by (rule reachable.step [OF reachable.start job_step [OF succeeds_run]])

theorem completed_flow_stays_closed_witness:
  "\<forall>ip code resp v. confirm_code demo_ext demo_state ip 6 code
    (next_of (run_job demo_ext no_master_key (PurgeJob True)) closed_world) \<noteq> Some (Inr resp, v)"
  using completed_flow_stays_closed [OF after_purge_reachable [OF closed_world_purge], of 6]
  by (simp add: closed_world_def wf_defs flow_closed_def demo_defs)

section \<open>Authorization codes\<close>

lemma exchange_spends:
  assumes "exchange_effect E now utc client c resp d d'"
  shows "code_spent (c_id c) d'"
  using assms by (auto simp: exchange_effect_def mark_consumed_def code_spent_def in_upd_where)

text \<open>C23 (code_exchanged_once): an authorization code is exchanged at most once: after an exchange, whatever the
  server does next, presenting the same code again never yields tokens, with any client, verifier or
  redirect URI. New ids, and the hashes of codes issued later, are assumed not to collide with those of the
  codes that were there.\<close>

theorem code_exchanged_once:
  assumes "w_tx w = None" "wf_db (w_db w)" "tr_code input = Some code"
    and "authorization_code_grant E st input w = Some (Inr resp, w1)"
    and "reachable E st mk w1 w2" "\<And>n. w_ids w1 n \<notin> c_id ` set (authorization_codes (w_db w))"
    and "\<And>c. c \<in> set (authorization_codes (w_db w2)) \<Longrightarrow> c_code_hash c = token_hash E code \<Longrightarrow>
      \<exists>c' \<in> set (authorization_codes (w_db w)). c_code_hash c' = token_hash E code \<and> c_id c' = c_id c"
    and "tr_code input' = Some code"
  shows "authorization_code_grant E st input' w2 \<noteq> Some (Inr resp', v)"
proof
  assume again: "authorization_code_grant E st input' w2 = Some (Inr resp', v)"
  from wp_ok_run [OF authorization_code_grant_wp [OF assms(1,2)] assms(4)]
  obtain client c where c: "may_exchange E st input (stmt_now w) (w_db w) client c"
    "exchange_effect E (stmt_now w) (w_utc w 0) client c resp (w_db w) (w_db w1)" and tx1: "w_tx w1 = None" by blast
  have u: "usable_code (stmt_now w) (token_hash E code) (w_db w) = Some c"
    using c(1) assms(3) by (auto simp: may_exchange_def)
  note c' = usable_code_Some [OF u]
  have wf1: "wf_db (w_db w1)"
    using preserves_run [OF wf.authorization_code_grant_keeps [of "{}"] _ assms(4)] assms(1,2) by (simp add: holds_def)
  have "code_spent (c_id c) (w_db w2)"
    using code_spent.reachable_keeps [OF assms(5), of "c_id c"] exchange_spends [OF c(2)] tx1 c' assms(6)
    by (auto simp: holds_def image_iff)
  moreover have wf2: "wf_db (w_db w2)" using wf_reachable [OF assms(5)] wf1 tx1 by (simp add: holds_def)
  have tx2: "w_tx w2 = None" by (rule reachable_no_tx [OF assms(5) tx1])
  from wp_ok_run [OF authorization_code_grant_wp [OF tx2 wf2] again] obtain k
    where k: "usable_code (stmt_now w2) (token_hash E code) (w_db w2) = Some k"
    using assms(8) by (auto simp: may_exchange_def)
  note k' = usable_code_Some [OF k]
  from assms(7) [of k] k' obtain c2 where "c2 \<in> set (authorization_codes (w_db w))"
    "c_code_hash c2 = token_hash E code" "c_id c2 = c_id k" by blast
  moreover with c' assms(2) have "c2 = c" by (auto simp: wf_defs intro: distinct_key_eq [of c_code_hash])
  ultimately show False using k' by (auto simp: code_spent_def)
qed

definition exchanged_world :: world where
  "exchanged_world = next_of (authorization_code_grant demo_ext demo_state demo_exchange) ((demo_world login_db)\<lparr>w_ids := (\<lambda>_. 100)\<rparr>)"

lemma exchanged_world_run:
  "succeeds (authorization_code_grant demo_ext demo_state demo_exchange) ((demo_world login_db)\<lparr>w_ids := (\<lambda>_. 100)\<rparr>)"
  "succeeds (run_job demo_ext no_master_key (PurgeJob True)) exchanged_world"
  by code_simp+

lemma exchanged_world_codes:
  "map c_code_hash (authorization_codes (w_db (next_of (run_job demo_ext no_master_key (PurgeJob True)) exchanged_world))) = [''code'']"
  "map c_id (authorization_codes (w_db (next_of (run_job demo_ext no_master_key (PurgeJob True)) exchanged_world))) = [3]"
  by code_simp+

lemma exchanged_world_ids: "w_ids exchanged_world n \<noteq> 3"
  using preserves_run [OF wf.authorization_code_grant_keeps [of "{3}"] _ succeeds_run [OF exchanged_world_run(1)]] login_db_wf
  by (auto simp: holds_def exchanged_world_def)

theorem code_exchanged_once_witness:
  "\<forall>resp v. authorization_code_grant demo_ext demo_state demo_exchange
    (next_of (run_job demo_ext no_master_key (PurgeJob True)) exchanged_world) \<noteq> Some (Inr resp, v)"
proof (intro allI)
  fix resp v
  let ?w = "(demo_world login_db)\<lparr>w_ids := (\<lambda>_. 100)\<rparr>"
  let ?w2 = "next_of (run_job demo_ext no_master_key (PurgeJob True)) exchanged_world"
  show "authorization_code_grant demo_ext demo_state demo_exchange ?w2 \<noteq> Some (Inr resp, v)"
  proof (rule code_exchanged_once [where w = ?w and input = demo_exchange and code = "''code''" and ?w1.0 = exchanged_world])
    show "authorization_code_grant demo_ext demo_state demo_exchange ?w =
        Some (Inr (value_of (authorization_code_grant demo_ext demo_state demo_exchange) ?w), exchanged_world)"
      using succeeds_run [OF exchanged_world_run(1)] by (simp add: exchanged_world_def)
    show "reachable demo_ext demo_state no_master_key exchanged_world ?w2"
      by (rule after_purge_reachable [OF exchanged_world_run(2)])
    fix c assume "c \<in> set (authorization_codes (w_db ?w2))"
    then have "c_id c \<in> set (map c_id (authorization_codes (w_db ?w2)))" by simp
    then have "c_id c = 3" unfolding exchanged_world_codes by simp
    then show "\<exists>c' \<in> set (authorization_codes (w_db ?w)). c_code_hash c' = token_hash demo_ext ''code'' \<and> c_id c' = c_id c"
      by (simp add: login_db_def demo_code_def token_hash_def demo_ext_def empty_db_def)
  qed (use exchanged_world_ids login_db_wf in \<open>simp_all add: demo_exchange_def login_db_def demo_code_def empty_db_def\<close>)
qed

section \<open>Deleted accounts\<close>

text \<open>C24 (deleted_account_stays_gone): after an account is deleted, no later request is ever let in as it, however
  long its access tokens were meant to last, and no code issued to it can be exchanged.\<close>

theorem deleted_account_stays_gone:
  assumes "w_tx w = None" "wf_db (w_db w)" "cu_id user \<in> u_id ` set (users (w_db w))"
    and "delete_account E st ip user code w = Some (Inr s, w1)"
    and "reachable E st mk w1 w2" "\<And>n. w_ids w1 n \<noteq> cu_id user"
  shows "(\<forall>auth u v. current_user_from_request E st auth w2 = Some (Inr u, v) \<longrightarrow> cu_id u \<noteq> cu_id user) \<and>
    (\<forall>c \<in> set (authorization_codes (w_db w2)). c_user_id c \<noteq> cu_id user) \<and>
    (\<forall>x \<in> set (sessions (w_db w2)). s_user_id x \<noteq> cu_id user)"
proof -
  have "no_trace (cu_id user) (w_db w1)"
    using wp_ok_run [OF delete_account_wp [OF assms(1,3)] assms(4)] by simp
  then have gone: "account_gone (cu_id user) (w_db w1)" by (simp add: no_trace_def account_gone_def)
  have tx1: "w_tx w1 = None" by (rule leaves_no_tx_run [OF routes_leave_no_tx(8) assms(1,4)])
  have wf1: "wf_db (w_db w1)"
    using preserves_run [OF wf.delete_account_keeps [of "{}"] _ assms(4)] assms(1,2) by (simp add: holds_def)
  have wf2: "wf_db (w_db w2)" using wf_reachable [OF assms(5)] wf1 tx1 by (simp add: holds_def)
  have gone2: "account_gone (cu_id user) (w_db w2)"
    using account_gone.reachable_keeps [OF assms(5), of "cu_id user"] gone tx1 assms(6) by (simp add: holds_def)
  have "cu_id u \<noteq> cu_id user" if "current_user_from_request E st auth w2 = Some (Inr u, v)" for auth u v
  proof -
    have "cu_id u \<in> u_id ` set (users (w_db w2))"
      using wp_ok_run [OF current_user_wp that] unfolding acts_for_def by (force simp: image_iff)
    with gone2 show ?thesis by (auto simp: account_gone_def)
  qed
  moreover have "\<forall>c \<in> set (authorization_codes (w_db w2)). c_user_id c \<noteq> cu_id user"
    using wf_code_user [OF wf2] gone2 unfolding account_gone_def by metis
  moreover have "\<forall>x \<in> set (sessions (w_db w2)). s_user_id x \<noteq> cu_id user"
    using wf_session_user [OF wf2] gone2 unfolding account_gone_def by metis
  ultimately show ?thesis by blast
qed

definition deleted_world :: world where
  "deleted_world = next_of (delete_account demo_ext demo_state demo_ip demo_current ''123456'')
     ((demo_world session_db)\<lparr>w_ids := (\<lambda>_. 100)\<rparr>)"

lemma deleted_world_run:
  "succeeds (delete_account demo_ext demo_state demo_ip demo_current ''123456'') ((demo_world session_db)\<lparr>w_ids := (\<lambda>_. 100)\<rparr>)"
  "succeeds (run_job demo_ext no_master_key (PurgeJob True)) deleted_world"
  by code_simp+

lemma deleted_world_ids: "w_ids deleted_world n \<noteq> 1"
  using preserves_run [OF wf.delete_account_keeps [of "{1}"] _ succeeds_run [OF deleted_world_run(1)]] session_db_wf
  by (auto simp: holds_def deleted_world_def)

theorem deleted_account_stays_gone_witness:
  "1 \<notin> s_user_id ` set (sessions (w_db (next_of (run_job demo_ext no_master_key (PurgeJob True)) deleted_world)))"
proof -
  let ?w = "(demo_world session_db)\<lparr>w_ids := (\<lambda>_. 100)\<rparr>"
  have run: "delete_account demo_ext demo_state demo_ip demo_current ''123456'' ?w =
      Some (Inr (value_of (delete_account demo_ext demo_state demo_ip demo_current ''123456'') ?w), deleted_world)"
    using succeeds_run [OF deleted_world_run(1)] by (simp add: deleted_world_def)
  show ?thesis
    using deleted_account_stays_gone [OF _ _ _ run after_purge_reachable [OF deleted_world_run(2)]] session_db_wf deleted_world_ids
    by (auto simp: demo_current_def session_db_def login_db_def demo_user_def)
qed

end
