(* ===== verification/Machine.thy ===== *)
theory Machine
  imports Spent
begin

text \<open>
  Rows as state machines. A row of a table is seen through an abstract state, and what a statement may do to it is a
  relation between such states; a row that is gone is in the state \<open>absent\<close>. The locale collects what updates, inserts
  and deletes owe to a machine, whatever the table; theory \<open>FlowMachine\<close> interprets it on login flows, theory
  \<open>Rotation\<close> on sessions and refresh tokens.
\<close>

definition row_state :: "('r \<Rightarrow> uuid) \<Rightarrow> ('r \<Rightarrow> 's) \<Rightarrow> 's \<Rightarrow> uuid \<Rightarrow> 'r list \<Rightarrow> 's" where
  "row_state key state absent i rows = (case List.find (\<lambda>r. key r = i) rows of None \<Rightarrow> absent | Some r \<Rightarrow> state r)"

locale row_machine =
  fixes key :: "'r \<Rightarrow> uuid" and state :: "'r \<Rightarrow> 's" and absent :: 's and move :: "'s \<Rightarrow> 's \<Rightarrow> bool"
  assumes purge_moves: "move s absent"
begin

abbreviation moves :: "'s \<Rightarrow> 's \<Rightarrow> bool" where
  "moves \<equiv> move\<^sup>*\<^sup>*"

abbreviation at :: "uuid \<Rightarrow> 'r list \<Rightarrow> 's" where
  "at \<equiv> row_state key state absent"

text \<open>The rows \<open>rows\<close> have been reached from state \<open>s\<close> of row \<open>i\<close>; keys are unique.\<close>

definition follows :: "uuid \<Rightarrow> 's \<Rightarrow> 'r list \<Rightarrow> bool" where
  "follows i s rows \<longleftrightarrow> distinct (map key rows) \<and> moves s (at i rows)"

lemma at_upd:
  assumes "\<And>r. key (g r) = key r" "\<And>r. r \<in> set rows \<Longrightarrow> key r = i \<Longrightarrow> p r \<Longrightarrow> moves (state r) (state (g r))"
  shows "moves (at i rows) (at i (upd_where p g rows))"
proof -
  have "List.find (\<lambda>r. key r = i) (upd_where p g rows) =
      map_option (\<lambda>r. if p r then g r else r) (List.find (\<lambda>r. key r = i) rows)"
    by (rule find_upd_where_key) (rule assms(1))
  with assms(2) show ?thesis by (auto simp: row_state_def dest!: find_Some_set split: option.split)
qed

lemma at_subset:
  assumes "distinct (map key rows)" "set rows' \<subseteq> set rows"
  shows "moves (at i rows) (at i rows')"
proof (cases "List.find (\<lambda>r. key r = i) rows'")
  case None
  then show ?thesis by (simp add: row_state_def r_into_rtranclp [where r = move, OF purge_moves])
next
  case (Some r)
  then have r: "r \<in> set rows" "key r = i" using assms(2) by (auto dest: find_Some_set)
  then have "List.find (\<lambda>r. key r = i) rows \<noteq> None" by (auto simp: find_None_set)
  then obtain r' where "List.find (\<lambda>r. key r = i) rows = Some r'" by auto
  moreover from this have "r' = r" using r distinct_key_eq [OF assms(1)] by (auto dest: find_Some_set)
  ultimately show ?thesis using Some by (simp add: row_state_def)
qed

lemma follows_move: "\<lbrakk>follows i s rows; distinct (map key rows'); moves (at i rows) (at i rows')\<rbrakk> \<Longrightarrow> follows i s rows'"
  by (auto simp: follows_def)

lemma follows_upd:
  assumes "follows i s rows" "\<And>r. key (g r) = key r"
    and "\<And>r. r \<in> set rows \<Longrightarrow> key r = i \<Longrightarrow> p r \<Longrightarrow> moves (state r) (state (g r))"
  shows "follows i s (upd_where p g rows)"
proof (rule follows_move [OF assms(1)])
  show "moves (at i rows) (at i (upd_where p g rows))" by (rule at_upd) (use assms(2,3) in auto)
  show "distinct (map key (upd_where p g rows))" using assms(1,2) by (simp add: follows_def)
qed

lemma follows_subset: "follows i s rows \<Longrightarrow> distinct (map key rows') \<Longrightarrow> set rows' \<subseteq> set rows \<Longrightarrow> follows i s rows'"
  by (rule follows_move) (auto simp: follows_def intro: at_subset)

lemma follows_del: "follows i s rows \<Longrightarrow> follows i s (del_where p rows)"
  using follows_subset [of i s rows "del_where p rows"] by (simp add: follows_def del_where_def distinct_map_filter)

lemma follows_add: "follows i s rows \<Longrightarrow> key r \<noteq> i \<Longrightarrow> key r \<notin> key ` set rows \<Longrightarrow> follows i s (rows @ [r])"
  by (auto simp: follows_def row_state_def find_append split: option.splits)

lemma follows_start: "distinct (map key rows) \<Longrightarrow> follows i (at i rows) rows"
  by (simp add: follows_def)

end

end
