(* ===== verification/FlowMachine.thy ===== *)
theory FlowMachine
  imports Machine
begin

text \<open>
  The life of a login flow as an abstract state machine, and the proof that the server refines it: a flow
  counts the emails asked for, at most three, until it is completed, once; it never reopens, and it may be
  purged at any time. The abstraction \<open>flow_state\<close> reads the machine's state off the database.
\<close>

section \<open>The abstract machine\<close>

datatype flow_state = Absent | Open int | Closed

inductive flow_move :: "flow_state \<Rightarrow> flow_state \<Rightarrow> bool" where
  ask_email: "n < MAX_EMAILS_PER_FLOW \<Longrightarrow> flow_move (Open n) (Open (n + 1))"
| complete: "flow_move (Open n) Closed"
| purge: "flow_move s Absent"

inductive_cases flow_move_ClosedE: "flow_move Closed s"
inductive_cases flow_move_AbsentE: "flow_move Absent s"

section \<open>The abstraction\<close>

definition state_of_flow :: "login_flow \<Rightarrow> flow_state" where
  "state_of_flow f = (if f_completed_at f = None then Open (f_magic_link_requests f) else Closed)"

interpretation flow_rows: row_machine f_id state_of_flow Absent flow_move
  by unfold_locales (rule flow_move.purge)

abbreviation flow_moves :: "flow_state \<Rightarrow> flow_state \<Rightarrow> bool" where
  "flow_moves \<equiv> flow_move\<^sup>*\<^sup>*"

definition flow_state_of :: "uuid \<Rightarrow> db \<Rightarrow> flow_state" where
  "flow_state_of i d = row_state f_id state_of_flow Absent i (login_flows d)"

text \<open>Reachable from \<open>s\<close>, with unique flow ids.\<close>

definition follows :: "uuid \<Rightarrow> flow_state \<Rightarrow> db \<Rightarrow> bool" where
  "follows i s d \<longleftrightarrow> flow_rows.follows i s (login_flows d)"

section \<open>Every statement is a move\<close>

lemma follows_complete: "stmt_ok U (follows i s) (login_flows_complete k)"
  by (auto simp: step_ok_def follows_def login_flows_complete_def Let_def state_of_flow_def flow_pending_def
      intro!: flow_rows.follows_upd flow_move.complete)

lemma follows_count: "stmt_ok U (follows i s) (login_flows_count_magic_link_request k MAX_EMAILS_PER_FLOW t)"
  by (auto simp: step_ok_def follows_def login_flows_count_magic_link_request_def upd_returning_def state_of_flow_def
      flow_pending_def intro!: flow_rows.follows_upd flow_move.ask_email)

lemma follows_create: "stmt_ok {i} (follows i s) (login_flows_create c r ch st t)"
  by (auto simp: step_ok_def login_flows_create_def follows_def split: if_splits intro!: flow_rows.follows_add)

lemma follows_delete: "follows i s d \<Longrightarrow> follows i s (delete_login_flows p d)"
  by (auto simp: follows_def delete_login_flows_def delete_authorization_codes_def Let_def intro: flow_rows.follows_del)

interpretation flow_machine: db_invariant E "{i}" "follows i s" for E i s
  by (unfold_locales;
      (rule follows_complete follows_count follows_create follows_delete, assumption? |
       auto simp: step_ok_def table_defs follows_def split: if_splits option.splits))

section \<open>The refinement\<close>

lemma Closed_stays: "flow_moves Closed s \<Longrightarrow> s = Closed \<or> s = Absent"
proof (induction rule: rtranclp_induct)
  case (step y z)
  then show ?case by (auto elim: flow_move_ClosedE flow_move_AbsentE)
qed simp

lemma Open_bound: "flow_moves (Open n) s \<Longrightarrow> n \<le> MAX_EMAILS_PER_FLOW \<Longrightarrow> s = Open m \<Longrightarrow> n \<le> m \<and> m \<le> MAX_EMAILS_PER_FLOW"
proof (induction arbitrary: m rule: rtranclp_induct)
  case (step y z)
  from step.hyps(2) step.prems show ?case
    by (cases rule: flow_move.cases) (use step.IH in \<open>fastforce simp: MAX_EMAILS_PER_FLOW_def\<close>)+
qed simp

text \<open>C25 (flow_refines_machine): however the server runs, each login flow only makes the moves of the abstract
  machine: from one state of the database to any later one there is a path of counted emails (at most
  three), one completion, or a purge. In particular an open flow has sent no more than three emails, never
  fewer than before, and a completed flow is never open again.\<close>

theorem flow_refines_machine:
  assumes "reachable E st mk w w'" "w_tx w = None" "wf_db (w_db w)" "\<And>n. w_ids w n \<noteq> i"
  shows "flow_moves (flow_state_of i (w_db w)) (flow_state_of i (w_db w')) \<and>
    (flow_state_of i (w_db w) = Closed \<longrightarrow> flow_state_of i (w_db w') \<in> {Closed, Absent}) \<and>
    (\<forall>n m. flow_state_of i (w_db w) = Open n \<longrightarrow> n \<le> MAX_EMAILS_PER_FLOW \<longrightarrow> flow_state_of i (w_db w') = Open m \<longrightarrow>
       n \<le> m \<and> m \<le> MAX_EMAILS_PER_FLOW)"
proof -
  have "follows i (flow_state_of i (w_db w)) (w_db w)"
    using assms(3) by (auto simp: follows_def flow_state_of_def wf_defs intro: flow_rows.follows_start)
  then have "follows i (flow_state_of i (w_db w)) (w_db w')"
    using flow_machine.reachable_keeps [OF assms(1), of i] assms(2,4) by (simp add: holds_def)
  then have moves: "flow_moves (flow_state_of i (w_db w)) (flow_state_of i (w_db w'))"
    by (simp add: follows_def flow_rows.follows_def flow_state_of_def)
  then show ?thesis
    using Closed_stays [of "flow_state_of i (w_db w')"] Open_bound [of _ "flow_state_of i (w_db w')"] by auto
qed

text \<open>A login by link moves the flow from one email sent to completed.\<close>

definition link_request :: request where
  "link_request = PostMagicLinkConfirm \<lparr>ca_peer = demo_ip, ca_forwarded = []\<rparr> ''link''"

abbreviation link_world :: world where
  "link_world \<equiv> (demo_world login_db)\<lparr>w_ids := (\<lambda>_. 100)\<rparr>"

lemma link_request_succeeds: "succeeds (serve demo_ext demo_state link_request) link_world"
  by code_simp

theorem flow_refines_machine_witness:
  "flow_moves (flow_state_of 6 login_db) (flow_state_of 6 (w_db (next_of (serve demo_ext demo_state link_request) link_world)))"
proof -
  have "reachable demo_ext demo_state no_master_key link_world (next_of (serve demo_ext demo_state link_request) link_world)"
    by (rule reachable.step [OF reachable.start serve_step [OF succeeds_run [OF link_request_succeeds]]])
  from flow_refines_machine [OF this, of 6] login_db_wf show ?thesis by simp
qed

section \<open>What holds in every state\<close>

text \<open>C26 (database_sound): from any well-formed state (such as the empty database), every state the server
  reaches satisfies the constraints of the schema (unique keys, foreign keys, no dangling reference after a
  cascade), holds authorization codes only for completed flows and sessions only for codes that were spent,
  and leaves no transaction open, whichever statements fail on the way. The refresh tokens of each session are a
  tree that grows from the one token issued at login: only tokens that were used have successors, superseded ones
  have none, and the parents lead from every token to that first one.\<close>

theorem database_sound:
  assumes "reachable E st mk w w'" "w_tx w = None" "wf_db (w_db w)" "provenance (w_db w)" "family (refresh_tokens (w_db w))"
  shows "wf_db (w_db w') \<and> provenance (w_db w') \<and> w_tx w' = None \<and> family (refresh_tokens (w_db w')) \<and>
    (\<forall>r \<in> set (refresh_tokens (w_db w')). \<exists>first. (parent_of (w_db w'))\<^sup>*\<^sup>* first r \<and> first \<in> set (refresh_tokens (w_db w')) \<and>
       r_parent_id first = None \<and> r_session_id first = r_session_id r)"
proof -
  have "lineage (w_db w')"
    using lineage.reachable_keeps [OF assms(1), of "{}"] assms(2,3,5) by (simp add: holds_def lineage_def)
  moreover have "provenance (w_db w')"
    using provenance.reachable_keeps [OF assms(1), of "{}"] assms(2,4) by (simp add: holds_def)
  ultimately show ?thesis
    using reachable_no_tx [OF assms(1,2)] token_root by (auto simp: lineage_def)
qed

lemma empty_db_sound: "wf_db empty_db" "provenance empty_db" "counters_ok empty_db"
  by (simp_all add: empty_db_def wf_defs provenance_def counters_ok_def)

theorem database_sound_witness:
  "wf_db (w_db (next_of (run_job demo_ext no_master_key (PurgeJob True)) (demo_world empty_db)))"
proof -
  have "succeeds (run_job demo_ext no_master_key (PurgeJob True)) (demo_world empty_db)" by code_simp
  from database_sound [OF after_purge_reachable [OF this]] empty_db_sound show ?thesis by (simp add: family_def empty_db_def)
qed

text \<open>C27 (attempts_bounded): in every state the server reaches, no flow has asked for more than three emails, and
  no login email or confirmation has counted more than five wrong codes; one that counted five is spent.\<close>

theorem attempts_bounded:
  assumes "reachable E st mk w w'" "w_tx w = None" "counters_ok (w_db w)"
  shows "list_all (\<lambda>f. 0 \<le> f_magic_link_requests f \<and> f_magic_link_requests f \<le> 3) (login_flows (w_db w')) \<and>
    list_all (\<lambda>m. 0 \<le> m_code_failures m \<and> m_code_failures m \<le> 5 \<and> (m_code_failures m = 5 \<longrightarrow> m_consumed_at m \<noteq> None))
      (magic_links (w_db w')) \<and>
    list_all (\<lambda>n. 0 \<le> n_code_failures n \<and> n_code_failures n \<le> 5 \<and> (n_code_failures n = 5 \<longrightarrow> n_consumed_at n \<noteq> None))
      (confirmations (w_db w'))"
proof -
  have "counters_ok (w_db w')"
    using counters.reachable_keeps [OF assms(1), of "{}"] assms(2,3) by (simp add: holds_def)
  then show ?thesis
    by (simp add: counters_ok_def list_all_iff flow_counter_ok_def link_counter_ok_def confirmation_counter_ok_def
        MAX_EMAILS_PER_FLOW_def MAX_FAILURES_PER_CODE_def)
qed

theorem attempts_bounded_witness:
  "list_all (\<lambda>f. 0 \<le> f_magic_link_requests f \<and> f_magic_link_requests f \<le> 3)
    (login_flows (w_db (next_of (serve demo_ext demo_state link_request) link_world)))"
proof -
  have "reachable demo_ext demo_state no_master_key link_world (next_of (serve demo_ext demo_state link_request) link_world)"
    by (rule reachable.step [OF reachable.start serve_step [OF succeeds_run [OF link_request_succeeds]]])
  from attempts_bounded [OF this] show ?thesis
    by (simp add: counters_ok_def demo_defs flow_counter_ok_def link_counter_ok_def MAX_EMAILS_PER_FLOW_def MAX_FAILURES_PER_CODE_def)
qed

end
