(* ===== verification/Verifier.thy ===== *)
theory Verifier
  imports AccessToken
begin

text \<open>
  \<open>bauth_client\<close>: verifying access tokens in another API (\<open>verifier.rs\<close>) with a cache of the issuer's
  keys, and the axum extractors (\<open>extract.rs\<close>). The monotonic clock readings, the wall clock and the
  answer of the issuer to a fetch are arguments.
\<close>

section \<open>\<open>verifier.rs\<close>\<close>

definition JWKS_MAX_AGE :: time where "JWKS_MAX_AGE = seconds (60 * 60)"
definition MIN_REFETCH_INTERVAL :: time where "MIN_REFETCH_INTERVAL = seconds 30"
definition CLIENT_LEEWAY_SECONDS :: int where "CLIENT_LEEWAY_SECONDS = 30"

datatype verify_error = Malformed | UnknownKey | Invalid | Jwks string

record auth_user =
  au_id :: uuid
  au_client_id :: string
  au_claims :: access_token_claims
  au_token :: string

definition access_token :: "auth_user \<Rightarrow> string" where
  "access_token u = au_token u"

datatype wrong_client = WrongClient string

definition require_client :: "auth_user \<Rightarrow> string list \<Rightarrow> wrong_client + unit" where
  "require_client u client_ids =
     (if au_client_id u \<in> set client_ids then Inr () else Inl (WrongClient (au_client_id u)))"

text \<open>\<open>Inner\<close> without the HTTP client: what \<open>Verifier::new\<close> fixes.\<close>

record verifier =
  v_issuer :: string
  v_jwks_uri :: string
  v_validation :: validation

text \<open>The \<open>HashMap\<close> as the list of its entries; a later entry with the same \<open>kid\<close> wins.\<close>

record key_cache =
  kc_keys :: "(string \<times> bytes) list"
  kc_fetched_at :: "time option"

definition empty_cache :: key_cache where
  "empty_cache = \<lparr>kc_keys = [], kc_fetched_at = None\<rparr>"

definition cache_get :: "key_cache \<Rightarrow> string \<Rightarrow> bytes option" where
  "cache_get c kid = map_of (rev (kc_keys c)) kid"

definition is_stale :: "time \<Rightarrow> key_cache \<Rightarrow> bool" where
  "is_stale now c = (case kc_fetched_at c of None \<Rightarrow> True | Some at \<Rightarrow> now - at \<ge> JWKS_MAX_AGE)"

definition can_refetch :: "time \<Rightarrow> key_cache \<Rightarrow> bool" where
  "can_refetch now c = (case kc_fetched_at c of None \<Rightarrow> True | Some at \<Rightarrow> now - at \<ge> MIN_REFETCH_INTERVAL)"

definition cache_replace :: "ext \<Rightarrow> jwk_set \<Rightarrow> time \<Rightarrow> key_cache" where
  "cache_replace E jwks now =
     \<lparr>kc_keys = List.map_filter
        (\<lambda>k. case jwk_kid k of None \<Rightarrow> None | Some kid \<Rightarrow> map_option (Pair kid) (x_jwk_key E k)) jwks,
      kc_fetched_at = Some now\<rparr>"

definition verifier_new :: "string \<Rightarrow> string \<Rightarrow> verifier" where
  "verifier_new issuer aud = \<lparr>v_issuer = issuer, v_jwks_uri = issuer @ ''/.well-known/jwks.json'',
     v_validation = \<lparr>val_alg = EdDSA, val_iss = issuer, val_aud = Some aud,
       val_required = [''exp'', ''iss'', ''aud'', ''sub''], val_leeway = CLIENT_LEEWAY_SECONDS\<rparr>\<rparr>"

text \<open>The clock readings of one lookup, in order: under the read lock, under the write lock for
  \<open>is_stale\<close> and for \<open>can_refetch\<close>, and when the fetched keys are stored.\<close>

record lookup_clock =
  lc_read :: time
  lc_write :: time
  lc_refetch :: time
  lc_stored :: time

text \<open>\<open>decoding_key\<close>: its result, the next cache, and whether the issuer was asked. \<open>answer\<close> is what
  \<open>fetch_jwks\<close> returns if it is called. First the part under the write lock.\<close>

definition refresh_and_get ::
    "ext \<Rightarrow> lookup_clock \<Rightarrow> string + jwk_set \<Rightarrow> string \<Rightarrow> key_cache \<Rightarrow>
     (verify_error + bytes) \<times> key_cache \<times> bool" where
  "refresh_and_get E t answer kid cache =
     (let needs_refresh = is_stale (lc_write t) cache \<or> cache_get cache kid = None;
          get = (\<lambda>c. case cache_get c kid of None \<Rightarrow> Inl UnknownKey | Some key \<Rightarrow> Inr key)
      in if needs_refresh \<and> can_refetch (lc_refetch t) cache then
           (case answer of
              Inr jwks \<Rightarrow> let c = cache_replace E jwks (lc_stored t) in (get c, c, True)
            | Inl e \<Rightarrow>
                if kc_keys cache \<noteq> [] then (get cache, cache, True)
                else (Inl (Jwks e), cache, True))
         else (get cache, cache, False))"

definition client_decoding_key ::
    "ext \<Rightarrow> lookup_clock \<Rightarrow> string + jwk_set \<Rightarrow> string \<Rightarrow> key_cache \<Rightarrow>
     (verify_error + bytes) \<times> key_cache \<times> bool" where
  "client_decoding_key E t answer kid cache =
     (case cache_get cache kid of
        Some key \<Rightarrow> if \<not> is_stale (lc_read t) cache then (Inr key, cache, False)
                    else refresh_and_get E t answer kid cache
      | None \<Rightarrow> refresh_and_get E t answer kid cache)"

definition client_verify ::
    "ext \<Rightarrow> verifier \<Rightarrow> lookup_clock \<Rightarrow> string + jwk_set \<Rightarrow> time \<Rightarrow> string \<Rightarrow> key_cache \<Rightarrow>
     (verify_error + auth_user) \<times> key_cache \<times> bool" where
  "client_verify E v t answer now tok cache =
     (case x_jwt_decode_header E tok of
        None \<Rightarrow> (Inl Malformed, cache, False)
      | Some h \<Rightarrow>
          if hdr_alg h \<noteq> EdDSA \<or> hdr_typ h \<noteq> Some ''at+jwt'' then (Inl Malformed, cache, False)
          else (case hdr_kid h of
             None \<Rightarrow> (Inl Malformed, cache, False)
           | Some kid \<Rightarrow> (case client_decoding_key E t answer kid cache of
               (Inl e, c, asked) \<Rightarrow> (Inl e, c, asked)
             | (Inr key, c, asked) \<Rightarrow>
                 ((case x_jwt_decode E tok key (v_validation v) now of
                    None \<Rightarrow> Inl Invalid
                  | Some claims \<Rightarrow> Inr \<lparr>au_id = sub_claim claims, au_client_id = client_id_claim claims,
                      au_claims = claims, au_token = tok\<rparr>), c, asked))))"

text \<open>\<open>Verifier::me\<close>: \<open>answer\<close> is the outcome of the HTTP request, a status with its decoded body.\<close>

record me_account =
  ma_id :: uuid
  ma_email :: string
  ma_email_verified :: bool

datatype me_error = MeUnauthorized | MeUnavailable string | MeUnexpectedStatus nat

definition client_me :: "string + nat \<times> (string + me_account) \<Rightarrow> me_error + me_account" where
  "client_me answer = (case answer of
      Inl e \<Rightarrow> Inl (MeUnavailable e)
    | Inr (status, body) \<Rightarrow>
        if status = 200 then (case body of Inl e \<Rightarrow> Inl (MeUnavailable e) | Inr m \<Rightarrow> Inr m)
        else if status = 401 then Inl MeUnauthorized
        else Inl (MeUnexpectedStatus status))"

section \<open>\<open>extract.rs\<close>\<close>

datatype auth_rejection = MissingToken | RejectedToken verify_error | MissingVerifier

fun auth_rejection_status :: "auth_rejection \<Rightarrow> nat \<times> string" where
  "auth_rejection_status MissingToken = (401, ''unauthorized'')"
| "auth_rejection_status (RejectedToken Malformed) = (401, ''unauthorized'')"
| "auth_rejection_status (RejectedToken UnknownKey) = (401, ''unauthorized'')"
| "auth_rejection_status (RejectedToken Invalid) = (401, ''unauthorized'')"
| "auth_rejection_status (RejectedToken (Jwks _)) = (503, ''auth_unavailable'')"
| "auth_rejection_status MissingVerifier = (500, ''internal_error'')"

fun me_error_status :: "me_error \<Rightarrow> nat \<times> string" where
  "me_error_status MeUnauthorized = (401, ''unauthorized'')"
| "me_error_status (MeUnavailable _) = (503, ''auth_unavailable'')"
| "me_error_status (MeUnexpectedStatus _) = (503, ''auth_unavailable'')"

definition wrong_client_status :: "wrong_client \<Rightarrow> nat \<times> string" where
  "wrong_client_status _ = (403, ''forbidden'')"

definition client_error_headers :: "nat \<times> string \<Rightarrow> (string \<times> string) list" where
  "client_error_headers sc = (if fst sc = 401
     then [(''www-authenticate'', ''Bearer error=\"invalid_token\"'')] else [])"

text \<open>\<open>auth\<close> is the \<open>Authorization\<close> header, if present and visible ASCII.\<close>

definition bearer_token :: "string option \<Rightarrow> string option" where
  "bearer_token auth = (case auth of None \<Rightarrow> None
    | Some v \<Rightarrow> (case split_once space v of None \<Rightarrow> None
      | Some (scheme, tok) \<Rightarrow>
          if map to_ascii_lowercase scheme = ''bearer'' then Some (str_trim tok) else None))"

definition extract_verify ::
    "ext \<Rightarrow> verifier option \<Rightarrow> lookup_clock \<Rightarrow> string + jwk_set \<Rightarrow> time \<Rightarrow> string \<Rightarrow> key_cache \<Rightarrow>
     (auth_rejection + auth_user) \<times> key_cache \<times> bool" where
  "extract_verify E v t answer now tok cache = (case v of
      None \<Rightarrow> (Inl MissingVerifier, cache, False)
    | Some vf \<Rightarrow> (case client_verify E vf t answer now tok cache of
        (r, c, asked) \<Rightarrow> (map_sum RejectedToken id r, c, asked)))"

definition extract_user ::
    "ext \<Rightarrow> verifier option \<Rightarrow> lookup_clock \<Rightarrow> string + jwk_set \<Rightarrow> time \<Rightarrow> string option \<Rightarrow> key_cache \<Rightarrow>
     (auth_rejection + auth_user) \<times> key_cache \<times> bool" where
  "extract_user E v t answer now auth cache = (case bearer_token auth of
      None \<Rightarrow> (Inl MissingToken, cache, False)
    | Some tok \<Rightarrow> extract_verify E v t answer now tok cache)"

definition extract_optional_user ::
    "ext \<Rightarrow> verifier option \<Rightarrow> lookup_clock \<Rightarrow> string + jwk_set \<Rightarrow> time \<Rightarrow> string option \<Rightarrow> key_cache \<Rightarrow>
     (auth_rejection + auth_user option) \<times> key_cache \<times> bool" where
  "extract_optional_user E v t answer now auth cache = (case bearer_token auth of
      None \<Rightarrow> (Inr None, cache, False)
    | Some tok \<Rightarrow> (case extract_verify E v t answer now tok cache of
        (r, c, asked) \<Rightarrow> (map_sum id Some r, c, asked)))"

end
