(* ===== verification/Keys.thy ===== *)
theory Keys
  imports FlowMachine Verifier
begin

text \<open>
  What the signing keys guarantee (\<open>signing_keys.rs\<close>, \<open>access_token.rs\<close>, and \<open>verifier.rs\<close> on the other
  side): rotation hands over without a gap and keeps every key published longer than the tokens it signed,
  the server starts with a key that signs, and a token it issues verifies at an API that fetched its keys.
\<close>

section \<open>Rotation\<close>

text \<open>A key signs, and is published, at a given time.\<close>

definition row_signs :: "time \<Rightarrow> signing_key_row \<Rightarrow> bool" where
  "row_signs t k \<longleftrightarrow> k_active_at k \<le> t \<and> not_retired t k"

definition row_published :: "time \<Rightarrow> signing_key_row \<Rightarrow> bool" where
  "row_published t k \<longleftrightarrow> (case k_retired_at k of None \<Rightarrow> True | Some r \<Rightarrow> r > t - RETIRED_KEY_GRACE)"

definition published :: "time \<Rightarrow> db \<Rightarrow> signing_key_row list" where
  "published t d = rev (sort_key k_active_at (filter (row_published t) (signing_keys d)))"

lemma list_published_eq: "signing_keys_list_published t RETIRED_KEY_GRACE now new_id d = Inr (published t d, d)"
  by (simp add: signing_keys_list_published_def published_def row_published_def [abs_def] Let_def)

lemma set_published [simp]: "set (published t d) = {k \<in> set (signing_keys d). row_published t k}"
  by (auto simp: published_def)

text \<open>A key that signs now is still published when the tokens it signs expire, leeway included.\<close>

lemma signing_key_outlives_tokens:
  assumes "row_signs t k" "t' \<le> t + ACCESS_TOKEN_TTL + seconds LEEWAY_SECONDS"
  shows "row_published t' k"
  using assms
  by (auto simp: row_signs_def row_published_def not_retired_def RETIRED_KEY_GRACE_def ACCESS_TOKEN_TTL_def
      LEEWAY_SECONDS_def time_defs split: option.splits)

text \<open>The keys after a rotation that starts at \<open>now\<close>: one more, which takes over a day later, when every other
  one retires at the latest.\<close>

definition retire_at :: "time \<Rightarrow> signing_key_row \<Rightarrow> signing_key_row" where
  "retire_at t k = (if (case k_retired_at k of None \<Rightarrow> True | Some r \<Rightarrow> r > t) then k\<lparr>k_retired_at := Some t\<rparr> else k)"

definition handover :: "uuid \<Rightarrow> time \<Rightarrow> db \<Rightarrow> db \<Rightarrow> bool" where
  "handover kid now d d' \<longleftrightarrow> kid \<notin> k_id ` set (signing_keys d) \<and>
     (\<exists>new. k_id new = kid \<and> k_active_at new = now + PREPUBLICATION \<and> k_retired_at new = None \<and>
        d' = d\<lparr>signing_keys := map (retire_at (now + PREPUBLICATION)) (signing_keys d) @ [new]\<rparr>)"

lemma handoverI:
  assumes "d' = d\<lparr>signing_keys := map (retire_at (now + PREPUBLICATION)) (signing_keys d) @ [new]\<rparr>"
    "kid \<notin> k_id ` set (signing_keys d)" "k_id new = kid" "k_active_at new = now + PREPUBLICATION" "k_retired_at new = None"
  shows "handover kid now d d'"
  unfolding handover_def using assms by blast

lemma rotate_wp:
  assumes "w_tx w = None"
  shows "wp (rotate_if_due E mk locked)
    (\<lambda>r w'. case r of None \<Rightarrow> w_db w' = w_db w
       | Some kid \<Rightarrow> rotation_due (w_utc w 0) (published (w_utc w 0) (w_db w)) \<and> handover kid (w_utc w 0) (w_db w) (w_db w'))
    (\<lambda>_ w'. w_db w' = w_db w) w"
proof -
  have retire: "upd_where (\<lambda>k. k_id k \<noteq> kid \<and> (case k_retired_at k of None \<Rightarrow> True | Some r \<Rightarrow> r > t))
      (\<lambda>k. k\<lparr>k_retired_at := Some t\<rparr>) ks = map (retire_at t) ks"
    if "kid \<notin> k_id ` set ks" for kid t and ks :: "signing_key_row list"
    using that by (induction ks) (auto simp: retire_at_def split: option.splits)
  show ?thesis
    using assms
    by (simp add: rotate_if_due_def wp lock_stmt_def list_published_eq key_generate_def Let_def
        signing_keys_insert_def signing_keys_retire_all_except_def retire)
       (auto intro!: handoverI)
qed

text \<open>C29 (rotation_handover): rotation only happens when no key is waiting to take over and the current key, if any,
  is at least thirty days old. It adds one key, published at once and signing from a day later on. Until then
  exactly the keys that signed before still sign; from then on the new key signs and no other does, so there
  is no gap and no overlap. Every key that signs at some time stays published until the tokens signed with it
  have expired, leeway included. If nothing was due, or anything failed, nothing changes.\<close>

theorem rotation_handover:
  assumes "w_tx w = None" "rotate_if_due E mk locked w = Some (r, w')"
  shows "case r of
      Inr (Some kid) \<Rightarrow> (let now = w_utc w 0; d = w_db w; d' = w_db w' in
        list_all (\<lambda>k. k_active_at k \<le> now) (published now d) \<and>
        list_all (\<lambda>k. row_signs now k \<longrightarrow> list_ex (\<lambda>q. row_signs now q \<and> now - k_active_at q \<ge> ROTATION_INTERVAL) (published now d))
          (published now d) \<and>
        handover kid now d d' \<and>
        (\<forall>t < now + PREPUBLICATION. k_id ` {k \<in> set (signing_keys d'). row_signs t k} = k_id ` {k \<in> set (signing_keys d). row_signs t k}) \<and>
        (\<forall>t \<ge> now + PREPUBLICATION. k_id ` {k \<in> set (signing_keys d'). row_signs t k} = {kid}) \<and>
        (\<forall>t. kid \<in> k_id ` set (published t d')) \<and>
        (\<forall>t t' k. k \<in> set (signing_keys d') \<longrightarrow> row_signs t k \<longrightarrow> t' \<le> t + ACCESS_TOKEN_TTL + seconds LEEWAY_SECONDS \<longrightarrow>
           k \<in> set (published t' d')))
    | _ \<Rightarrow> w_db w' = w_db w"
proof (cases "\<exists>kid. r = Inr (Some kid)")
  case False
  then show ?thesis
    using rotate_wp [OF assms(1), of E mk locked] assms(2) by (auto simp: wp_def split: sum.splits option.splits)
next
  case True
  then obtain kid where r: "r = Inr (Some kid)" by blast
  let ?now = "w_utc w 0" and ?d = "w_db w" and ?d' = "w_db w'" and ?T = "w_utc w 0 + PREPUBLICATION"
  have due: "rotation_due ?now (published ?now ?d)" and h: "handover kid ?now ?d ?d'"
    using rotate_wp [OF assms(1), of E mk locked] assms(2) by (simp_all add: r wp_def)
  from h obtain new where new: "k_id new = kid" "k_active_at new = ?T" "k_retired_at new = None"
    and d': "signing_keys ?d' = map (retire_at ?T) (signing_keys ?d) @ [new]" by (auto simp: handover_def)
  have before: "row_signs t (retire_at ?T k) = row_signs t k" "k_id (retire_at ?T k) = k_id k" if "t < ?T" for t k
    using that by (auto simp: row_signs_def retire_at_def not_retired_def split: option.splits)
  have after: "\<not> row_signs t (retire_at ?T k)" if "?T \<le> t" for t k
    using that by (auto simp: row_signs_def retire_at_def not_retired_def split: option.splits if_splits)
  have "k_id ` {k \<in> set (signing_keys ?d'). row_signs t k} = k_id ` {k \<in> set (signing_keys ?d). row_signs t k}" if "t < ?T" for t
  proof -
    have "\<not> row_signs t new" using that new(2) by (simp add: row_signs_def)
    then have "{k \<in> set (signing_keys ?d'). row_signs t k} = retire_at ?T ` {k \<in> set (signing_keys ?d). row_signs t k}"
      using before(1) [OF that] by (auto simp: d')
    then show ?thesis using before(2) [OF that] by (simp add: image_image)
  qed
  moreover have "k_id ` {k \<in> set (signing_keys ?d'). row_signs t k} = {kid}" if "?T \<le> t" for t
  proof -
    have "row_signs t new" using that new(2,3) by (simp add: row_signs_def not_retired_def)
    then have "{k \<in> set (signing_keys ?d'). row_signs t k} = {new}" using after [OF that] by (auto simp: d')
    then show ?thesis using new(1) by simp
  qed
  moreover have "kid \<in> k_id ` set (published t ?d')" for t
    using new(1,3) by (force simp: d' row_published_def)
  moreover have "\<not> list_ex (\<lambda>k. k_active_at k > ?now) (published ?now ?d)"
    using due by (simp add: rotation_due_def Let_def)
  moreover have "list_all (\<lambda>k. row_signs ?now k \<longrightarrow> list_ex (\<lambda>q. row_signs ?now q \<and> ?now - k_active_at q \<ge> ROTATION_INTERVAL) (published ?now ?d))
      (published ?now ?d)"
    using due by (auto simp: rotation_due_def Let_def row_signs_def [symmetric] list_all_iff list_ex_iff find_None_set
        dest!: find_Some_set split: option.splits)
  ultimately show ?thesis
    using h signing_key_outlives_tokens by (auto simp: r Let_def list_all_iff list_ex_iff not_less)
qed

text \<open>The only key is forty days old.\<close>

definition stale_db :: db where
  "stale_db = empty_db\<lparr>signing_keys := [demo_key\<lparr>k_active_at := - days 40\<rparr>]\<rparr>"

lemma demo_rotation:
  "succeeds (rotate_if_due demo_ext no_master_key True) (demo_world stale_db)"
  "value_of (rotate_if_due demo_ext no_master_key True) (demo_world stale_db) = Some 103"
  by code_simp+

theorem rotation_handover_witness:
  "handover 103 10 stale_db (w_db (next_of (rotate_if_due demo_ext no_master_key True) (demo_world stale_db)))"
  using rotation_handover [OF _ succeeds_run [OF demo_rotation(1)]] by (simp add: demo_rotation(2) Let_def)

section \<open>Loading\<close>

text \<open>A stored key opens under the master key to the 32-byte seed of its public key.\<close>

definition sealed_row :: "ext \<Rightarrow> master_key \<Rightarrow> signing_key_row \<Rightarrow> bool" where
  "sealed_row E mk row \<longleftrightarrow> (\<exists>seed. length seed = SEED_LEN \<and> k_public_key row = x_ed25519_public E seed \<and>
     master_key_decrypt E mk (k_encrypted_private_key row) (key_context E (k_id row)) = Inr seed)"

definition seed_of :: "ext \<Rightarrow> master_key \<Rightarrow> signing_key_row \<Rightarrow> bytes" where
  "seed_of E mk row = projr (master_key_decrypt E mk (k_encrypted_private_key row) (key_context E (k_id row)))"

definition loaded_of :: "ext \<Rightarrow> master_key \<Rightarrow> signing_key_row \<Rightarrow> loaded_key" where
  "loaded_of E mk row = \<lparr>lk_kid = k_id row, lk_encoding_key = encoding_key (seed_of E mk row),
     lk_active_at = k_active_at row, lk_retired_at = k_retired_at row\<rparr>"

lemma load_rows_sealed:
  "(\<And>row. row \<in> set rows \<Longrightarrow> sealed_row E mk row) \<Longrightarrow> load_rows E mk rows = Inr (map (loaded_of E mk) rows)"
proof (induction rows)
  case (Cons row rows)
  then have "sealed_row E mk row" "load_rows E mk rows = Inr (map (loaded_of E mk) rows)" by simp_all
  then show ?case by (auto simp: sealed_row_def loaded_of_def seed_of_def)
qed simp

lemma key_set_sealed:
  assumes "\<And>row. row \<in> set rows \<Longrightarrow> sealed_row E mk row"
  shows "key_set_of_rows E mk now rows = Inr \<lparr>sk_keys = map (loaded_of E mk) (filter (not_retired now) rows),
    sk_jwks = map (\<lambda>row. jwk_of E (k_id row) (k_public_key row)) rows\<rparr>"
  using load_rows_sealed [of "filter (not_retired now) rows" E mk] assms by (simp add: key_set_of_rows_def)

lemma can_sign_loaded: "can_sign (loaded_of E mk row) t = row_signs t row"
  by (simp add: can_sign_def loaded_of_def row_signs_def not_retired_def)

lemma generated_sealed:
  assumes "aead_opens E" "length nonce = 24" "length seed = SEED_LEN"
    and "k_public_key row = x_ed25519_public E seed" "k_encrypted_private_key row = seal_with E mk nonce seed (key_context E (k_id row))"
  shows "sealed_row E mk row"
  using assms decrypt_seal by (auto simp: sealed_row_def)

text \<open>The key set a load at \<open>t\<close> gives.\<close>

definition loaded_set :: "ext \<Rightarrow> master_key \<Rightarrow> time \<Rightarrow> db \<Rightarrow> signing_keys_set" where
  "loaded_set E mk t d = \<lparr>sk_keys = map (loaded_of E mk) (filter (not_retired t) (published t d)),
     sk_jwks = map (\<lambda>row. jwk_of E (k_id row) (k_public_key row)) (published t d)\<rparr>"

lemma load_wp:
  assumes w: "w_tx w = None" "\<not> w_faults w 0" and sealed: "\<And>row. row \<in> set (signing_keys (w_db w)) \<Longrightarrow> sealed_row E mk row"
    and P: "\<And>v'. \<lbrakk>w_db v' = w_db w; w_tx v' = None; w_utc v' = shift 1 (w_utc w); w_faults v' = shift 1 (w_faults w);
      w_ids v' = shift 1 (w_ids w)\<rbrakk> \<Longrightarrow> P (loaded_set E mk (w_utc w 0) (w_db w)) v'"
  shows "wp (signing_keys_load E mk) P Q w"
proof -
  have "key_set_of_rows E mk (w_utc w 0) (published (w_utc w 0) (w_db w)) = Inr (loaded_set E mk (w_utc w 0) (w_db w))"
    unfolding loaded_set_def by (rule key_set_sealed) (use sealed in simp)
  with w show ?thesis
    by (simp add: signing_keys_load_def wp list_published_eq) (intro P; simp)
qed

lemma signing_key_exists:
  assumes "row \<in> set (signing_keys d)" "row_signs t row" "row_published t row"
  shows "signing_key (loaded_set E mk t d) t \<noteq> None"
  using assms by (auto simp: signing_key_def loaded_set_def find_None_set can_sign_loaded row_signs_def)

lemma returns_load [total]: "returns (signing_keys_load E mk)"
  and returns_key_generate [total]: "returns (key_generate E mk :: ('e, generated_key) req)"
  unfolding signing_keys_load_def key_generate_def master_key_encrypt_def by (intro total)+

lemma load_after_insert:
  assumes "w_tx x = None" "\<not> w_faults x 0" "\<And>r. r \<in> set (signing_keys d) \<Longrightarrow> sealed_row E mk r" "sealed_row E mk row"
    and x: "w_db x = d\<lparr>signing_keys := signing_keys d @ [row]\<rparr>" and "row_signs (w_utc x 0) row" "row_published (w_utc x 0) row"
  shows "wp (signing_keys_load E mk) (\<lambda>ks _. signing_key ks (w_utc x 0) \<noteq> None) (\<lambda>_ _. False) x"
proof (rule load_wp [OF assms(1,2)])
  show "sealed_row E mk r" if "r \<in> set (signing_keys (w_db x))" for r
    using that assms(3,4) by (auto simp: x)
  show "signing_key (loaded_set E mk (w_utc x 0) (w_db x)) (w_utc x 0) \<noteq> None"
    by (rule signing_key_exists [of row]) (use assms(6,7) in \<open>simp_all add: x\<close>)
qed

text \<open>C31 (startup_signs): loading the keys at startup, or in the reload job, ends with a key that signs: one of those
  stored, or one generated, encrypted, stored and loaded back on the spot. It needs the database, readable
  stored keys, a fresh key id and a clock that does not run backwards.\<close>

theorem startup_signs:
  assumes "w_tx w = None" "\<And>n. \<not> w_faults w n" "\<And>row. row \<in> set (signing_keys (w_db w)) \<Longrightarrow> sealed_row E mk row"
    and "aead_opens E" "\<And>seed. length seed = SEED_LEN \<Longrightarrow> length (x_ed25519_public E seed) = 32"
    and "\<And>n. w_ids w n \<notin> k_id ` set (signing_keys (w_db w))" "w_utc w 2 \<le> w_utc w 3"
  shows "\<exists>ks w' n. ensure_and_load E mk w = Some (Inr ks, w') \<and> n < 4 \<and> signing_key ks (w_utc w n) \<noteq> None"
proof -
  have ret: "returns (ensure_and_load E mk)" unfolding ensure_and_load_def by (intro total)
  have "wp (ensure_and_load E mk) (\<lambda>ks _. \<exists>n < 4. signing_key ks (w_utc w n) \<noteq> None) (\<lambda>_ _. False) w"
    unfolding ensure_and_load_def wp_and_then
  proof (rule load_wp [OF assms(1,2,3)])
    fix v :: world
    assume v: "w_db v = w_db w" "w_tx v = None" "w_utc v = shift 1 (w_utc w)" "w_faults v = shift 1 (w_faults w)"
      "w_ids v = shift 1 (w_ids w)"
    let ?ks = "loaded_set E mk (w_utc w 0) (w_db w)"
    show "wp utc_now (\<lambda>now. wp (if signing_key ?ks now \<noteq> None then ok ?ks else
         and_then (key_generate E mk) (\<lambda>key. and_then utc_now (\<lambda>active_at.
         and_then (map_err KeyDatabase (exec (signing_keys_insert (gk_kid key) (gk_public_key key)
           (gk_encrypted_private_key key) active_at))) (\<lambda>_. signing_keys_load E mk))))
        (\<lambda>ks _. \<exists>n < 4. signing_key ks (w_utc w n) \<noteq> None) (\<lambda>_ _. False)) (\<lambda>_ _. False) v"
    proof (cases "signing_key ?ks (w_utc w 1) = None")
      case False
      then show ?thesis by (auto simp: wp v intro: exI [of _ 1])
    next
      case True
      let ?seed = "map (w_rng v) [0..<SEED_LEN]" and ?kid = "w_ids w 1"
      let ?row = "\<lparr>k_id = ?kid, k_public_key = x_ed25519_public E ?seed,
        k_encrypted_private_key = seal_with E mk (map (shift SEED_LEN (w_rng v)) [0..<24]) ?seed (key_context E ?kid),
        k_active_at = w_utc w 2, k_retired_at = None, k_created_at = w_db_clock v 0\<rparr>"
      have sealed: "sealed_row E mk ?row" by (rule generated_sealed [OF assms(4)]) auto
      have signs: "row_signs (w_utc w 3) ?row" "row_published (w_utc w 3) ?row"
        using assms(7) by (simp_all add: row_signs_def not_retired_def row_published_def)
      have "wp (signing_keys_load E mk) (\<lambda>ks _. \<exists>n < 4. signing_key ks (w_utc w n) \<noteq> None) (\<lambda>_ _. False) x"
        if x: "w_tx x = None" "\<not> w_faults x 0" "w_utc x 0 = w_utc w 3"
          "w_db x = (w_db w)\<lparr>signing_keys := signing_keys (w_db w) @ [?row]\<rparr>" for x
        by (rule wp_mono [OF load_after_insert [OF x(1,2) assms(3) sealed x(4) signs [folded x(3)]]]) (auto simp: x(3) intro: exI [of _ 3])
      with True show ?thesis
        using assms(2,6) assms(5) [of ?seed]
        by (simp add: wp v key_generate_def signing_keys_insert_def numeral_2_eq_2 numeral_3_eq_3)
    qed
  qed
  from returns_success [OF ret this] show ?thesis by blast
qed

text \<open>First start: no key is stored yet.\<close>

lemma demo_ext_aead: "aead_opens demo_ext"
  by (simp add: aead_opens_def demo_ext_def)

theorem startup_signs_witness:
  "\<exists>ks w' n. ensure_and_load demo_ext no_master_key (demo_world empty_db) = Some (Inr ks, w') \<and> n < 4 \<and>
    signing_key ks (w_utc (demo_world empty_db) n) \<noteq> None"
  by (rule startup_signs) (simp_all add: demo_ext_aead, simp_all add: empty_db_def demo_ext_def SEED_LEN_def)

section \<open>A token from the issuer to an API\<close>

text \<open>What \<open>jsonwebtoken\<close> documents. A token is accepted under a validation if its algorithm, issuer and audience
  are the expected ones and it has not expired, give or take the leeway; the claims the program requires
  are fields every token of bauth has.\<close>

definition acceptable :: "validation \<Rightarrow> access_token_claims \<Rightarrow> time \<Rightarrow> bool" where
  "acceptable v c now \<longleftrightarrow> val_alg v = EdDSA \<and> iss_claim c = val_iss v \<and>
     (case val_aud v of None \<Rightarrow> True | Some a \<Rightarrow> aud_claim c = a) \<and>
     set (val_required v) \<subseteq> {''exp'', ''iss'', ''aud'', ''sub''} \<and> timestamp now \<le> exp_claim c + val_leeway v"

definition jwt_verifies :: "ext \<Rightarrow> bool" where
  "jwt_verifies E \<longleftrightarrow> (\<forall>h c seed tok. hdr_alg h = EdDSA \<longrightarrow> x_jwt_encode E h c (encoding_key seed) = Some tok \<longrightarrow>
     x_jwt_decode_header E tok = Some h \<and>
     (\<forall>kid pub v now. x_jwk_key E (jwk_of E kid (x_ed25519_public E seed)) = Some pub \<longrightarrow> acceptable v c now \<longrightarrow>
        x_jwt_decode E tok pub v now = Some c))"

text \<open>The cache after a fetch finds the key of every published row.\<close>

lemma cache_lookup:
  assumes "distinct (map k_id rows)" "inj (x_uuid_string E)" "row \<in> set rows"
    and "x_jwk_key E (jwk_of E (k_id row) (k_public_key row)) = Some pub"
  shows "cache_get (cache_replace E (map (\<lambda>row. jwk_of E (k_id row) (k_public_key row)) rows) t) (x_uuid_string E (k_id row)) = Some pub"
proof -
  let ?f = "\<lambda>k. case jwk_kid k of None \<Rightarrow> None | Some kid \<Rightarrow> map_option (Pair kid) (x_jwk_key E k)"
  let ?keys = "List.map_filter ?f (map (\<lambda>row. jwk_of E (k_id row) (k_public_key row)) rows)"
  have fst_in: "(kid, p) \<in> set ?keys \<longleftrightarrow> (\<exists>r \<in> set rows. kid = x_uuid_string E (k_id r) \<and>
      x_jwk_key E (jwk_of E (k_id r) (k_public_key r)) = Some p)" for kid p
    by (auto simp: set_map_filter jwk_of_def)
  have "distinct (map fst ?keys)"
    using assms(1)
  proof (induction rows)
    case (Cons r rows)
    let ?ks = "List.map_filter ?f (map (\<lambda>row. jwk_of E (k_id row) (k_public_key row)) rows)"
    have "x_uuid_string E (k_id r) \<notin> fst ` set ?ks"
      using Cons.prems by (auto simp: set_map_filter jwk_of_def image_iff inj_eq [OF assms(2)]) metis
    with Cons show ?case by (auto simp: jwk_of_def split: option.split)
  qed simp
  moreover have "(x_uuid_string E (k_id row), pub) \<in> set ?keys" using assms(3,4) fst_in by blast
  ultimately have "map_of (rev ?keys) (x_uuid_string E (k_id row)) = Some pub"
    by (intro map_of_is_SomeI) (simp_all add: rev_map [symmetric])
  then show ?thesis by (simp add: cache_get_def cache_replace_def)
qed

text \<open>C30 (issued_token_verifies): an access token bauth issues verifies at any API that fetches bauth's published
  keys, for the client's audience, until it expires (fifteen minutes later, with thirty seconds of leeway),
  and tells the API the user, the client and exactly the claims that were signed. It needs what the JWT
  library documents, distinct textual key ids, and published keys stored as they were generated.\<close>

theorem issued_token_verifies:
  assumes "jwt_verifies E" "inj (x_uuid_string E)" "distinct (map k_id rows)"
    and "\<And>row. row \<in> set rows \<Longrightarrow> sealed_row E mk row"
    and "\<And>row. row \<in> set rows \<Longrightarrow> x_jwk_key E (jwk_of E (k_id row) (k_public_key row)) \<noteq> None"
    and "key_set_of_rows E mk t0 rows = Inr ks"
    and "issue E ks issuer user_id session_id client now w = Some (Inr tok, w')"
    and "timestamp t \<le> timestamp (now + ACCESS_TOKEN_TTL) + CLIENT_LEEWAY_SECONDS"
  shows "\<exists>cache claims. client_verify E (verifier_new issuer (audience client)) clk (Inr (sk_jwks ks)) t (ia_token tok) empty_cache =
      (Inr \<lparr>au_id = user_id, au_client_id = cl_id client, au_claims = claims, au_token = ia_token tok\<rparr>, cache, True) \<and>
    claims = access_claims issuer user_id session_id client now (w_ids w 0)"
proof -
  let ?c = "access_claims issuer user_id session_id client now (w_ids w 0)"
  have ks: "ks = \<lparr>sk_keys = map (loaded_of E mk) (filter (not_retired t0) rows),
      sk_jwks = map (\<lambda>row. jwk_of E (k_id row) (k_public_key row)) rows\<rparr>"
    using key_set_sealed [of rows E mk t0] assms(4,6) by simp
  have "wp (issue E ks issuer user_id session_id client now) (\<lambda>a _. \<exists>key. signing_key ks now = Some key \<and>
      x_jwt_encode E (access_header E key) ?c (lk_encoding_key key) = Some (ia_token a)) (\<lambda>_ _. True) w"
    by (simp add: issue_def wp split: option.split)
  from wp_ok_run [OF this assms(7)] obtain key where key: "signing_key ks now = Some key"
    "x_jwt_encode E (access_header E key) ?c (lk_encoding_key key) = Some (ia_token tok)" by blast
  from key(1) obtain row where row: "row \<in> set rows" "key = loaded_of E mk row"
    by (auto simp: signing_key_def ks dest!: find_Some_set)
  obtain seed where seed: "k_public_key row = x_ed25519_public E seed" "seed_of E mk row = seed"
    using assms(4) [OF row(1)] by (auto simp: sealed_row_def seed_of_def)
  obtain pub where pub: "x_jwk_key E (jwk_of E (k_id row) (k_public_key row)) = Some pub"
    using assms(5) [OF row(1)] by blast
  have enc: "x_jwt_encode E (access_header E key) ?c (encoding_key seed) = Some (ia_token tok)"
    using key(2) by (simp add: row(2) loaded_of_def seed(2))
  have alg: "hdr_alg (access_header E key) = EdDSA" by (simp add: access_header_def)
  have header: "x_jwt_decode_header E (ia_token tok) = Some (access_header E key)"
    and decode: "acceptable v ?c t' \<Longrightarrow> x_jwt_decode E (ia_token tok) pub v t' = Some ?c" for v t'
    using assms(1) enc alg pub unfolding jwt_verifies_def seed(1) by blast+
  have "acceptable (v_validation (verifier_new issuer (audience client))) ?c t"
    using assms(8) by (auto simp: acceptable_def verifier_new_def access_claims_def)
  note claims = decode [OF this]
  have "cache_get (cache_replace E (sk_jwks ks) (lc_stored clk)) (x_uuid_string E (k_id row)) = Some pub"
    using cache_lookup [OF assms(3,2) row(1) pub] by (simp add: ks)
  moreover have "cache_get empty_cache kid = None" for kid by (simp add: cache_get_def empty_cache_def)
  moreover have "can_refetch x empty_cache" for x by (simp add: can_refetch_def empty_cache_def)
  ultimately show ?thesis
    using header claims
    by (simp add: client_verify_def access_header_def row(2) loaded_of_def client_decoding_key_def refresh_and_get_def
        Let_def access_claims_def)
qed

text \<open>A library that signs one token.\<close>

definition issued_claims :: access_token_claims where
  "issued_claims = access_claims ''https://id'' 1 4 demo_client 10 100"

definition issued_header :: jwt_header where
  "issued_header = \<lparr>hdr_alg = EdDSA, hdr_typ = Some ''at+jwt'', hdr_kid = Some (replicate 7 (CHR ''x''))\<rparr>"

definition signing_ext :: ext where
  "signing_ext = demo_ext\<lparr>x_uuid_string := (\<lambda>u. replicate (unat u) (CHR ''x'')),
     x_jwt_encode := (\<lambda>h c k. if h = issued_header \<and> c = issued_claims then Some ''jwt'' else None),
     x_jwt_decode_header := (\<lambda>_. Some issued_header),
     x_jwt_decode := (\<lambda>_ _ v now. if acceptable v issued_claims now then Some issued_claims else None)\<rparr>"

lemma signing_ext_verifies: "jwt_verifies signing_ext" "inj (x_uuid_string signing_ext)" "sealed_row signing_ext no_master_key demo_key"
proof -
  show "jwt_verifies signing_ext" by (simp add: jwt_verifies_def signing_ext_def)
  have "a = b" if "replicate (unat a) (CHR ''x'') = replicate (unat b) (CHR ''x'')" for a b :: uuid
    using that by (metis length_replicate word_unat_eq_iff)
  then show "inj (x_uuid_string signing_ext)" by (simp add: signing_ext_def inj_def)
  show "sealed_row signing_ext no_master_key demo_key"
    by (simp add: sealed_row_def master_key_decrypt_def signing_ext_def demo_ext_def demo_key_def SEED_LEN_def)
qed

lemma signing_ext_issues:
  "succeeds (issue signing_ext (loaded_set signing_ext no_master_key 10 session_db) ''https://id'' 1 4 demo_client 10) (demo_world empty_db)"
  by (simp add: succeeds_def issue_def and_then_def ok_or_def uuid_now_v7_def ok_def loaded_set_def published_def
      row_published_def signing_key_def loaded_of_def can_sign_def session_db_def login_db_def not_retired_def
      signing_ext_def access_header_def issued_header_def issued_claims_def demo_key_def demo_world_def)

definition zero_clock :: lookup_clock where
  "zero_clock = \<lparr>lc_read = 0, lc_write = 0, lc_refetch = 0, lc_stored = 0\<rparr>"

theorem issued_token_verifies_witness:
  "\<exists>tok cache claims. client_verify signing_ext (verifier_new ''https://id'' (audience demo_client)) zero_clock
      (Inr (sk_jwks (loaded_set signing_ext no_master_key 10 session_db))) 10 tok empty_cache =
    (Inr \<lparr>au_id = 1, au_client_id = ''web'', au_claims = claims, au_token = tok\<rparr>, cache, True)"
proof -
  have "key_set_of_rows signing_ext no_master_key 10 [demo_key] = Inr (loaded_set signing_ext no_master_key 10 session_db)"
    using key_set_sealed [of "[demo_key]" signing_ext no_master_key 10] signing_ext_verifies(3)
    by (simp add: loaded_set_def published_def row_published_def session_db_def login_db_def demo_key_def)
  from issued_token_verifies [OF signing_ext_verifies(1,2) _ _ _ this succeeds_run [OF signing_ext_issues], of 10 zero_clock]
  show ?thesis
    using signing_ext_verifies(3)
    by (auto simp: demo_client_def signing_ext_def demo_ext_def timestamp_def ACCESS_TOKEN_TTL_def CLIENT_LEEWAY_SECONDS_def time_defs)
qed

end
