(* ===== verification/Retention.thy ===== *)
theory Retention
  imports Keys
begin

text \<open>
  What the purge job guarantees (\<open>jobs/purge.rs\<close>): every batched loop returns and leaves exactly the rows
  within their retention; the whole purge returns, and what it deletes is past its retention or belongs to
  what is. The locale \<open>batched_table\<close> states what a table owes for that, and is interpreted on the five
  tables the job empties in batches.
\<close>

section \<open>One table\<close>

lemma length_del_where: "length (del_where p rows) + count_where p rows = length rows"
  by (induction rows) (auto simp: del_where_def count_where_def)

locale batched_table =
  fixes rows :: "db \<Rightarrow> 'r list" and key :: "'r \<Rightarrow> uuid" and del :: "('r \<Rightarrow> bool) \<Rightarrow> db \<Rightarrow> db"
    and old :: "time \<Rightarrow> 'r \<Rightarrow> bool"
  assumes rows_del: "rows (del p d) = del_where p (rows d)"
    and old_mono: "\<lbrakk>t \<le> t'; old t r\<rbrakk> \<Longrightarrow> old t' r"
begin

abbreviation batch :: "(sql_error, nat) req" where
  "batch \<equiv> exec (delete_batch rows key del old)"

text \<open>One batch: it fails, or it deletes as many rows as it says.\<close>

lemma batch_run: "batch w = (if w_faults w 0 then Some (Inl Unavailable, after_stmt w)
   else let p = (\<lambda>r. key r \<in> key ` set (take BATCH_SIZE (filter (old (stmt_now w)) (rows (w_db w)))))
     in Some (Inr (count_where p (rows (w_db w))), (after_stmt w)\<lparr>w_db := del p (w_db w)\<rparr>))"
  by (simp add: exec_def delete_batch_def Let_def)

lemma loop_returns: "\<exists>r w'. in_batches batch acc w = Some (r, w')"
proof (induction "length (rows (w_db w))" arbitrary: acc w rule: less_induct)
  case less
  let ?p = "\<lambda>r. key r \<in> key ` set (take BATCH_SIZE (filter (old (stmt_now w)) (rows (w_db w))))"
  let ?n = "count_where ?p (rows (w_db w))" and ?w = "(after_stmt w)\<lparr>w_db := del ?p (w_db w)\<rparr>"
  have "?n < BATCH_SIZE \<or> length (rows (w_db ?w)) < length (rows (w_db w))"
    using length_del_where [of ?p "rows (w_db w)"] by (auto simp: rows_del BATCH_SIZE_def)
  with less [of ?w "acc + ?n"] show ?case
    by (subst in_batches.simps) (auto simp: batch_run Let_def)
qed

text \<open>The rows a batch picks, in a table whose ids are unique.\<close>

lemma picked_rows:
  assumes "distinct (map key xs)" "set ys \<subseteq> set xs" "r \<in> set xs"
  shows "key r \<in> key ` set ys \<longleftrightarrow> r \<in> set ys"
  using assms distinct_key_eq [OF assms(1)] by blast

lemma batch_count:
  assumes "distinct (map key xs)"
  shows "count_where (\<lambda>r. key r \<in> key ` set (take m (filter q xs))) xs = min m (length (filter q xs))"
proof -
  let ?ys = "take m (filter q xs)"
  have dx: "distinct xs" using assms by (simp add: distinct_map)
  have sub: "set ?ys \<subseteq> set xs" using set_take_subset [of m "filter q xs"] by auto
  have "{r \<in> set xs. key r \<in> key ` set ?ys} = set ?ys" using picked_rows [OF assms sub] sub by blast
  then have "card (set (filter (\<lambda>r. key r \<in> key ` set ?ys) xs)) = card (set ?ys)" by simp
  then show ?thesis
    using dx by (simp add: count_where_def distinct_card del: set_filter)
qed

lemma batch_last:
  assumes "distinct (map key xs)" "length (filter q xs) \<le> m"
  shows "del_where (\<lambda>r. key r \<in> key ` set (take m (filter q xs))) xs = filter (\<lambda>r. \<not> q r) xs"
proof -
  have "key r \<in> key ` set (filter q xs) \<longleftrightarrow> q r" if "r \<in> set xs" for r
    using picked_rows [OF assms(1) _ that, of "filter q xs"] that by auto
  then show ?thesis using assms(2) by (simp add: del_where_def cong: filter_cong)
qed

lemma batch_subset:
  assumes "distinct (map key xs)" and imp: "\<And>r. q r \<Longrightarrow> q' r"
  shows "filter (\<lambda>r. \<not> q' r) (del_where (\<lambda>r. key r \<in> key ` set (take m (filter q xs))) xs) = filter (\<lambda>r. \<not> q' r) xs"
proof -
  have sub: "set (take m (filter q xs)) \<subseteq> set xs" using set_take_subset [of m "filter q xs"] by auto
  have "q' r" if "r \<in> set xs" "key r \<in> key ` set (take m (filter q xs))" for r
  proof -
    have "r \<in> set (filter q xs)"
      using picked_rows [OF assms(1) sub that(1)] that(2) set_take_subset [of m "filter q xs"] by auto
    then show ?thesis using imp by simp
  qed
  then show ?thesis by (auto simp: del_where_def intro: filter_cong)
qed

text \<open>What deleting rows of this table leaves of the database, the loop leaves.\<close>

lemma loop_frame:
  assumes "\<And>p d. g (del p d) = g d" "in_batches batch acc w = Some (r, w')"
  shows "g (w_db w') = g (w_db w)"
proof (rule in_batches_keeps [where J = "\<lambda>v. g (w_db v) = g (w_db w)", OF _ refl assms(2)])
  fix v r v' assume "g (w_db v) = g (w_db w)" "batch v = Some (r, v')"
  then show "g (w_db v') = g (w_db w)" by (auto simp: batch_run Let_def assms(1) split: if_splits)
qed

lemma loop_keeps:
  assumes "\<And>p d. J d \<Longrightarrow> J (del p d)" "in_batches batch acc w = Some (r, w')" "J (w_db w)"
  shows "J (w_db w')"
proof (rule in_batches_keeps [where J = "\<lambda>v. J (w_db v)", OF _ assms(3,2)])
  fix v r v' assume "J (w_db v)" "batch v = Some (r, v')"
  then show "J (w_db v')" by (auto simp: batch_run Let_def assms(1) split: if_splits)
qed

text \<open>The loop: what is left is exactly what was not old at the time of its last statement.\<close>

lemma loop_exact:
  assumes "in_batches batch acc w = Some (Inr n, w')" "w_tx w = None" "distinct (map key (rows (w_db w)))"
    and "\<And>i. w_db_clock w i \<le> w_db_clock w (Suc i)"
  shows "\<exists>k. rows (w_db w') = filter (\<lambda>r. \<not> old (w_db_clock w k) r) (rows (w_db w)) \<and>
    n + length (rows (w_db w')) = acc + length (rows (w_db w)) \<and> w_db_clock w' = shift (Suc k) (w_db_clock w) \<and> w_tx w' = None"
  using assms
proof (induction "length (rows (w_db w))" arbitrary: acc w rule: less_induct)
  case less
  let ?xs = "rows (w_db w)" and ?t = "w_db_clock w 0"
  let ?p = "\<lambda>r. key r \<in> key ` set (take BATCH_SIZE (filter (old ?t) ?xs))"
  let ?n = "count_where ?p ?xs" and ?w = "(after_stmt w)\<lparr>w_db := del ?p (w_db w)\<rparr>"
  have now: "stmt_now w = ?t" using less.prems(2) by simp
  have n: "?n = min BATCH_SIZE (length (filter (old ?t) ?xs))" by (rule batch_count [OF less.prems(3)])
  have run: "w_faults w 0 = False"
    "(if ?n < BATCH_SIZE then Some (Inr (acc + ?n), ?w) else in_batches batch (acc + ?n) ?w) = Some (Inr n, w')"
    using less.prems(1) unfolding in_batches.simps [of batch acc w]
    by (auto simp: batch_run now Let_def split: if_splits)
  have len: "length (rows (w_db ?w)) + ?n = length ?xs" using length_del_where [of ?p ?xs] by (simp add: rows_del)
  have clock: "w_db_clock ?w = shift 1 (w_db_clock w)" "w_tx ?w = None" using less.prems(2) by simp_all
  show ?case
  proof (cases "?n < BATCH_SIZE")
    case True
    with run(2) have out: "n = acc + ?n" "w' = ?w" by auto
    have "rows (w_db ?w) = filter (\<lambda>r. \<not> old ?t r) ?xs"
      using batch_last [OF less.prems(3), of "old ?t" BATCH_SIZE] True n by (simp add: rows_del)
    with out len clock show ?thesis by (intro exI [of _ 0]) simp
  next
    case False
    with run(2) have rec: "in_batches batch (acc + ?n) ?w = Some (Inr n, w')" by simp
    have "length (rows (w_db ?w)) < length ?xs" using len False by (simp add: BATCH_SIZE_def)
    moreover have "distinct (map key (rows (w_db ?w)))" using less.prems(3) by (simp add: rows_del distinct_del_where)
    moreover have "w_db_clock ?w i \<le> w_db_clock ?w (Suc i)" for i using less.prems(4) by (simp add: clock)
    ultimately obtain k where k: "rows (w_db w') = filter (\<lambda>r. \<not> old (w_db_clock ?w k) r) (rows (w_db ?w))"
      "n + length (rows (w_db w')) = acc + ?n + length (rows (w_db ?w))"
      "w_db_clock w' = shift (Suc k) (w_db_clock ?w)" "w_tx w' = None"
      using less.hyps [OF _ rec clock(2)] by blast
    have "?t \<le> w_db_clock w (Suc k)" by (rule lift_Suc_mono_le [of "w_db_clock w", OF less.prems(4)]) simp
    then have "old ?t r \<Longrightarrow> old (w_db_clock w (Suc k)) r" for r by (rule old_mono)
    then have "rows (w_db w') = filter (\<lambda>r. \<not> old (w_db_clock w (Suc k)) r) ?xs"
      using k(1) batch_subset [OF less.prems(3), of "old ?t" "old (w_db_clock w (Suc k))" BATCH_SIZE]
      by (simp add: rows_del clock)
    with k len clock show ?thesis by (intro exI [of _ "Suc k"]) (simp add: shift_def)
  qed
qed

end

section \<open>The tables of the job\<close>

interpretation flows: batched_table login_flows f_id delete_login_flows old_login_flow
  by unfold_locales (auto simp: delete_login_flows_def delete_authorization_codes_def Let_def old_login_flow_def)

interpretation changes: batched_table email_changes e_id delete_email_changes old_email_change
  by unfold_locales (auto simp: delete_email_changes_def old_email_change_def past_def split: option.splits)

interpretation confirmations: batched_table confirmations n_id delete_confirmations old_confirmation
  by unfold_locales (auto simp: delete_confirmations_def old_confirmation_def past_def split: option.splits)

interpretation sessions: batched_table sessions s_id delete_sessions old_session
  by unfold_locales (auto simp: delete_sessions_def Let_def old_session_def past_def split: option.splits)

interpretation accounts: batched_table users u_id delete_users old_unverified_user
  by unfold_locales (auto simp: delete_users_def delete_sessions_def delete_authorization_codes_def Let_def old_unverified_user_def)

section \<open>The whole purge\<close>

lemma returns_loops [total]:
  "returns (in_batches (exec (delete_batch login_flows f_id delete_login_flows old_login_flow)) n)"
  "returns (in_batches (exec (delete_batch email_changes e_id delete_email_changes old_email_change)) n)"
  "returns (in_batches (exec (delete_batch confirmations n_id delete_confirmations old_confirmation)) n)"
  "returns (in_batches (exec (delete_batch sessions s_id delete_sessions old_session)) n)"
  "returns (in_batches (exec (delete_batch users u_id delete_users old_unverified_user)) n)"
  by (rule returnsI, use flows.loop_returns changes.loop_returns confirmations.loop_returns sessions.loop_returns
      accounts.loop_returns in \<open>metis option.distinct(1)\<close>)+

text \<open>C32 (purge_terminates): the purge job always ends, whatever the tables hold and whichever statements fail: every
  full batch makes its table smaller. Each of its loops returns, so does the job.\<close>

theorem purge_terminates: "(purge_job locked :: ('e, unit) req) w \<noteq> None \<and> purge w \<noteq> None"
proof -
  have purge: "returns purge" unfolding purge_def by (intro total)
  then have "returns (purge_job locked :: ('e, unit) req)" unfolding purge_job_def purge_run_def by (intro total) auto
  with purge show ?thesis by (simp add: returns_def)
qed

text \<open>What the deletions leave of the other tables. \<open>session_core\<close> is a session without the reference to its code.\<close>

definition session_core :: "session \<Rightarrow> uuid \<times> uuid \<times> time \<times> time option" where
  "session_core s = (s_id s, s_user_id s, s_expires_at s, s_revoked_at s)"

lemma core_of_upd: "map session_core (upd_where p (\<lambda>s. s\<lparr>s_authorization_code_id := x\<rparr>) ss) = map session_core ss"
  by (induction ss) (auto simp: session_core_def)

lemma frames:
  "users (delete_login_flows p d) = users d" "signing_keys (delete_login_flows p d) = signing_keys d"
  "map session_core (sessions (delete_login_flows p d)) = map session_core (sessions d)"
  "delete_email_changes pe d = d\<lparr>email_changes := email_changes (delete_email_changes pe d)\<rparr>"
  "delete_confirmations pn d = d\<lparr>confirmations := confirmations (delete_confirmations pn d)\<rparr>"
  "users (delete_sessions ps d) = users d" "signing_keys (delete_sessions ps d) = signing_keys d"
  "login_flows (delete_sessions ps d) = login_flows d"
  "signing_keys (delete_users pu d) = signing_keys d" "login_flows (delete_users pu d) = login_flows d"
  by (simp_all add: delete_login_flows_def delete_authorization_codes_def delete_email_changes_def delete_confirmations_def
      delete_sessions_def delete_users_def Let_def core_of_upd)

text \<open>Deleting accounts takes only their own sessions.\<close>

definition sessions_follow :: "(uuid \<times> uuid \<times> time \<times> time option) set \<Rightarrow> db \<Rightarrow> bool" where
  "sessions_follow C d \<longleftrightarrow> distinct (map u_id (users d)) \<and>
     session_core ` set (sessions d) \<subseteq> C \<and>
     {c \<in> C. fst (snd c) \<in> u_id ` set (users d)} \<subseteq> session_core ` set (sessions d)"

lemma sessions_follow_delete:
  assumes "sessions_follow C d"
  shows "sessions_follow C (delete_users p d)"
proof -
  let ?gone = "u_id ` {u \<in> set (users d). p u}"
  have ids: "distinct (map u_id (users d))" using assms by (simp add: sessions_follow_def)
  have users: "users (delete_users p d) = del_where p (users d)" by (rule accounts.rows_del)
  have left: "u_id ` set (users (delete_users p d)) = u_id ` set (users d) - ?gone"
    unfolding users using distinct_key_eq [OF ids] by (auto simp: image_iff)
  have "map session_core (sessions (delete_users p d)) =
      map session_core (filter (\<lambda>s. s_user_id s \<notin> ?gone) (sessions d))"
  proof -
    have "map session_core (del_where (\<lambda>s. s_user_id s \<in> ?gone) (upd_where q (\<lambda>s. s\<lparr>s_authorization_code_id := None\<rparr>) ss)) =
        map session_core (filter (\<lambda>s. s_user_id s \<notin> ?gone) ss)" for q and ss :: "session list"
      by (induction ss) (auto simp: session_core_def del_where_def)
    then show ?thesis by (simp add: delete_users_def delete_sessions_def delete_authorization_codes_def Let_def)
  qed
  then have "set (map session_core (sessions (delete_users p d))) =
      set (map session_core (filter (\<lambda>s. s_user_id s \<notin> ?gone) (sessions d)))" by (rule arg_cong)
  then have cores: "session_core ` set (sessions (delete_users p d)) = session_core ` {s \<in> set (sessions d). s_user_id s \<notin> ?gone}"
    by (simp only: set_map set_filter)
  have "session_core ` {s \<in> set (sessions d). s_user_id s \<notin> ?gone} = {c \<in> session_core ` set (sessions d). fst (snd c) \<notin> ?gone}"
    by (auto simp: session_core_def)
  note cores = cores [unfolded this]
  show ?thesis
    using assms ids unfolding sessions_follow_def cores left by (auto simp: users distinct_del_where)
qed

lemma and_then_Inr: "and_then m f w = Some (Inr b, w') \<longleftrightarrow>
    (\<exists>a v. m w = Some (Inr a, v) \<and> f a v = Some (Inr b, w'))"
  by (auto simp: and_then_def split: option.splits sum.splits)

lemma shrinks:
  "set (email_changes (delete_users p d)) \<subseteq> set (email_changes d)" "set (confirmations (delete_users p d)) \<subseteq> set (confirmations d)"
  "set (confirmations (delete_sessions q d)) \<subseteq> set (confirmations d)" "email_changes (delete_sessions q d) = email_changes d"
  by (auto simp: delete_sessions_def delete_authorization_codes_def delete_users_def Let_def)

text \<open>Refresh tokens go with their sessions, and only with them.\<close>

definition tokens_follow :: "refresh_token_row set \<Rightarrow> db \<Rightarrow> bool" where
  "tokens_follow T d \<longleftrightarrow> lineage d \<and> set (refresh_tokens d) = {r \<in> T. r_session_id r \<in> s_id ` set (sessions d)}"

lemma tokens_follow_start: "lineage d \<Longrightarrow> tokens_follow (set (refresh_tokens d)) d"
  by (auto simp: tokens_follow_def lineage_def dest: wf_token_session)

lemma tokens_follow_frame:
  assumes "tokens_follow T d" "lineage d'" "refresh_tokens d' = refresh_tokens d" "s_id ` set (sessions d') = s_id ` set (sessions d)"
  shows "tokens_follow T d'"
  using assms by (simp add: tokens_follow_def)

lemma tokens_follow_sessions:
  assumes "tokens_follow T d"
  shows "tokens_follow T (delete_sessions p d)"
proof -
  have ids: "distinct (map s_id (sessions d))" and fam: "family (refresh_tokens d)"
    using assms by (auto simp: tokens_follow_def lineage_def wf_defs)
  have "s_id ` set (sessions (delete_sessions p d)) = s_id ` set (sessions d) - s_id ` {s \<in> set (sessions d). p s}"
    using distinct_key_eq [OF ids] by (auto simp: delete_sessions_def Let_def image_iff)
  moreover have "lineage (delete_sessions p d)" using assms by (auto simp: tokens_follow_def intro: lineage_deletes)
  ultimately show ?thesis
    using assms tokens_of_deleted_sessions [OF fam, of p] by (auto simp: tokens_follow_def)
qed

lemma tokens_follow_users:
  assumes "tokens_follow T d"
  shows "tokens_follow T (delete_users p d)"
proof -
  let ?gone = "u_id ` {u \<in> set (users d). p u}"
  have ids: "distinct (map s_id (sessions d))" and fam: "family (refresh_tokens d)"
    using assms by (auto simp: tokens_follow_def lineage_def wf_defs)
  have "s_id ` set (sessions (delete_users p d)) = s_id ` {s \<in> set (sessions d). s_user_id s \<notin> ?gone}"
    by (simp add: delete_users_def delete_sessions_def delete_authorization_codes_def Let_def ids_of_cleared_in)
  also have "\<dots> = s_id ` set (sessions d) - s_id ` {s \<in> set (sessions d). s_user_id s \<in> ?gone}"
  proof -
    have "inj_on s_id (set (sessions d))" using ids by (simp add: distinct_map)
    then have "s_id ` (set (sessions d) - {s \<in> set (sessions d). s_user_id s \<in> ?gone}) =
        s_id ` set (sessions d) - s_id ` {s \<in> set (sessions d). s_user_id s \<in> ?gone}"
      by (rule inj_on_image_set_diff) auto
    moreover have "{s \<in> set (sessions d). s_user_id s \<notin> ?gone} = set (sessions d) - {s \<in> set (sessions d). s_user_id s \<in> ?gone}" by blast
    ultimately show ?thesis by metis
  qed
  finally have "s_id ` set (sessions (delete_users p d)) =
      s_id ` set (sessions d) - s_id ` {s \<in> set (sessions d). s_user_id s \<in> ?gone}" .
  moreover have "lineage (delete_users p d)" using assms by (auto simp: tokens_follow_def intro: lineage_deletes)
  ultimately show ?thesis
    using assms tokens_of_deleted_users [OF fam, of p] by (auto simp: tokens_follow_def)
qed

lemma tokens_follow_others:
  "tokens_follow T d \<Longrightarrow> tokens_follow T (delete_login_flows p d)" "tokens_follow T d \<Longrightarrow> tokens_follow T (delete_email_changes p1 d)"
  "tokens_follow T d \<Longrightarrow> tokens_follow T (delete_confirmations p2 d)" "tokens_follow T d \<Longrightarrow> tokens_follow T (delete_signing_keys p3 d)"
proof -
  assume T: "tokens_follow T d"
  then have I: "lineage d" by (simp add: tokens_follow_def)
  have ids: "s_id ` set (sessions (delete_login_flows p d)) = s_id ` set (sessions d)"
    by (simp add: delete_login_flows_def delete_authorization_codes_def Let_def)
  show "tokens_follow T (delete_login_flows p d)"
    by (rule tokens_follow_frame [OF T lineage_deletes(3) [OF I] tokens_delete_flows ids])
  show "tokens_follow T (delete_email_changes p1 d)"
    by (rule tokens_follow_frame [OF T lineage.delete_changes_ok [OF I]]) (simp_all add: delete_email_changes_def)
  show "tokens_follow T (delete_confirmations p2 d)"
    by (rule tokens_follow_frame [OF T lineage.delete_confirmations_ok [OF I]]) (simp_all add: delete_confirmations_def)
  show "tokens_follow T (delete_signing_keys p3 d)"
    by (rule tokens_follow_frame [OF T lineage.delete_keys_ok [OF I]]) (simp_all add: delete_signing_keys_def)
qed

text \<open>One purge: what it leaves, from the times of the last statement of each loop.\<close>

definition purged :: "(nat \<Rightarrow> time) \<Rightarrow> db \<Rightarrow> db \<Rightarrow> bool" where
  "purged t d d' \<longleftrightarrow>
     login_flows d' = filter (\<lambda>f. \<not> old_login_flow (t 1) f) (login_flows d) \<and>
     (\<forall>e \<in> set (email_changes d'). \<not> old_email_change (t 2) e) \<and>
     (\<forall>n \<in> set (confirmations d'). \<not> old_confirmation (t 3) n) \<and>
     session_core ` set (sessions d') =
       session_core ` {s \<in> set (sessions d). \<not> old_session (t 4) s \<and> s_user_id s \<in> u_id ` set (users d')} \<and>
     set (refresh_tokens d') = {r \<in> set (refresh_tokens d). r_session_id r \<in> s_id ` set (sessions d')} \<and>
     users d' = filter (\<lambda>u. \<not> old_unverified_user (t 5) u) (users d) \<and>
     signing_keys d' = filter (\<lambda>k. \<not> past (t 6 - days 30) (k_retired_at k)) (signing_keys d)"

lemma old_session_core: "old_session t s = (case session_core s of (i, u, e, r) \<Rightarrow> e < t - days 30 \<or> past (t - days 30) r)"
  by (simp add: old_session_def session_core_def)

lemma accounts_loop_sessions:
  assumes "in_batches (exec (delete_batch users u_id delete_users old_unverified_user)) acc w = Some (r, w')" "wf_db (w_db w)"
  shows "wf_db (w_db w') \<and> session_core ` set (sessions (w_db w')) =
    {c \<in> session_core ` set (sessions (w_db w)). fst (snd c) \<in> u_id ` set (users (w_db w'))}"
proof -
  let ?C = "session_core ` set (sessions (w_db w))"
  have "sessions_follow ?C (w_db w)" using assms(2) by (auto simp: sessions_follow_def wf_defs)
  then have f: "sessions_follow ?C (w_db w')" by (intro accounts.loop_keeps [where J = "sessions_follow ?C", OF _ assms(1)] sessions_follow_delete)
  have wf: "wf_db (w_db w')" by (rule accounts.loop_keeps [where J = wf_db, OF wf_delete_users assms])
  then have "fst (snd c) \<in> u_id ` set (users (w_db w'))" if "c \<in> session_core ` set (sessions (w_db w'))" for c
    using that wf_session_user [OF wf] by (auto simp: session_core_def)
  with f wf show ?thesis unfolding sessions_follow_def by blast
qed

text \<open>What the five loops leave alone.\<close>

lemma loops_frames:
  assumes run: "in_batches flows.batch 0 w = Some (r1, v1)" "in_batches changes.batch 0 v1 = Some (r2, v2)"
      "in_batches confirmations.batch 0 v2 = Some (r3, v3)" "in_batches sessions.batch 0 v3 = Some (r4, v4)"
      "in_batches accounts.batch 0 v4 = Some (r5, v5)"
  shows "users (w_db v4) = users (w_db w)" "map session_core (sessions (w_db v3)) = map session_core (sessions (w_db w))"
    "login_flows (w_db v5) = login_flows (w_db v1)" "signing_keys (w_db v5) = signing_keys (w_db w)"
    "set (email_changes (w_db v5)) \<subseteq> set (email_changes (w_db v2))" "set (confirmations (w_db v5)) \<subseteq> set (confirmations (w_db v3))"
proof -
  have 2: "g (w_db v2) = g (w_db v1)" if "\<And>d x. g (d\<lparr>email_changes := x\<rparr>) = g d" for g :: "db \<Rightarrow> 'x"
    by (rule changes.loop_frame [OF _ run(2)]) (subst frames(4), rule that)
  have 3: "g (w_db v3) = g (w_db v2)" if "\<And>d x. g (d\<lparr>confirmations := x\<rparr>) = g d" for g :: "db \<Rightarrow> 'x"
    by (rule confirmations.loop_frame [OF _ run(3)]) (subst frames(5), rule that)
  show "users (w_db v4) = users (w_db w)"
    using flows.loop_frame [where g = users, OF frames(1) run(1)] 2 [of users] 3 [of users] sessions.loop_frame [where g = users, OF frames(6) run(4)] by simp
  show "map session_core (sessions (w_db v3)) = map session_core (sessions (w_db w))"
    using flows.loop_frame [where g = "\<lambda>d. map session_core (sessions d)", OF frames(3) run(1)] 2 [of sessions] 3 [of sessions] by simp
  show "login_flows (w_db v5) = login_flows (w_db v1)"
    using 2 [of login_flows] 3 [of login_flows] sessions.loop_frame [where g = login_flows, OF frames(8) run(4)] accounts.loop_frame [where g = login_flows, OF frames(10) run(5)] by simp
  show "signing_keys (w_db v5) = signing_keys (w_db w)"
    using flows.loop_frame [where g = signing_keys, OF frames(2) run(1)] 2 [of signing_keys] 3 [of signing_keys] sessions.loop_frame [where g = signing_keys, OF frames(7) run(4)]
      accounts.loop_frame [where g = signing_keys, OF frames(9) run(5)] by simp
  have "set (email_changes (w_db v5)) \<subseteq> set (email_changes (w_db v4))"
    by (rule accounts.loop_keeps [where J = "\<lambda>d. set (email_changes d) \<subseteq> set (email_changes (w_db v4))", OF _ run(5)])
       (use shrinks(1) in blast)+
  then show "set (email_changes (w_db v5)) \<subseteq> set (email_changes (w_db v2))"
    using 3 [of email_changes] sessions.loop_frame [where g = email_changes, OF shrinks(4) run(4)] by simp
  have "set (confirmations (w_db v4)) \<subseteq> set (confirmations (w_db v3))"
    by (rule sessions.loop_keeps [where J = "\<lambda>d. set (confirmations d) \<subseteq> set (confirmations (w_db v3))", OF _ run(4)])
       (use shrinks(3) in blast)+
  then show "set (confirmations (w_db v5)) \<subseteq> set (confirmations (w_db v3))"
    by (rule accounts.loop_keeps [where J = "\<lambda>d. set (confirmations d) \<subseteq> set (confirmations (w_db v3))", OF _ run(5), rotated])
       (use shrinks(2) in blast)
qed

lemma loops_keep_tokens:
  assumes run: "in_batches flows.batch 0 w = Some (r1, v1)" "in_batches changes.batch 0 v1 = Some (r2, v2)"
      "in_batches confirmations.batch 0 v2 = Some (r3, v3)" "in_batches sessions.batch 0 v3 = Some (r4, v4)"
      "in_batches accounts.batch 0 v4 = Some (r5, v5)"
    and start: "tokens_follow T (w_db w)"
  shows "tokens_follow T (w_db v5)"
proof -
  note keep = flows.loop_keeps [where J = "tokens_follow T", OF tokens_follow_others(1) run(1) start]
  note keep = changes.loop_keeps [where J = "tokens_follow T", OF tokens_follow_others(2) run(2) keep]
  note keep = confirmations.loop_keeps [where J = "tokens_follow T", OF tokens_follow_others(3) run(3) keep]
  note keep = sessions.loop_keeps [where J = "tokens_follow T", OF tokens_follow_sessions run(4) keep]
  show ?thesis by (rule accounts.loop_keeps [where J = "tokens_follow T", OF tokens_follow_users run(5) keep])
qed

text \<open>The loops one after another, with the time of the last statement of each.\<close>

lemma loops_times:
  assumes w: "w_tx w = None" "wf_db (w_db w)" "\<And>i. w_db_clock w i \<le> w_db_clock w (Suc i)"
    and run: "in_batches flows.batch 0 w = Some (Inr fs, v1)" "in_batches changes.batch 0 v1 = Some (Inr es, v2)"
      "in_batches confirmations.batch 0 v2 = Some (Inr ns, v3)" "in_batches sessions.batch 0 v3 = Some (Inr ss, v4)"
      "in_batches accounts.batch 0 v4 = Some (Inr us, v5)"
  obtains k1 k2 k3 k4 k5 where
    "login_flows (w_db v1) = filter (\<lambda>r. \<not> old_login_flow (w_db_clock w k1) r) (login_flows (w_db w))"
    "fs + length (login_flows (w_db v1)) = length (login_flows (w_db w))"
    "email_changes (w_db v2) = filter (\<lambda>r. \<not> old_email_change (w_db_clock w (Suc k1 + k2)) r) (email_changes (w_db v1))"
    "confirmations (w_db v3) = filter (\<lambda>r. \<not> old_confirmation (w_db_clock w (Suc k1 + Suc k2 + k3)) r) (confirmations (w_db v2))"
    "sessions (w_db v4) = filter (\<lambda>r. \<not> old_session (w_db_clock w (Suc k1 + Suc k2 + Suc k3 + k4)) r) (sessions (w_db v3))"
    "users (w_db v5) = filter (\<lambda>r. \<not> old_unverified_user (w_db_clock w (Suc k1 + Suc k2 + Suc k3 + Suc k4 + k5)) r) (users (w_db v4))"
    "us + length (users (w_db v5)) = length (users (w_db v4))"
    "w_db_clock v5 = shift (Suc k1 + Suc k2 + Suc k3 + Suc k4 + Suc k5) (w_db_clock w)" "w_tx v5 = None" "wf_db (w_db v4)"
proof -
  let ?c = "w_db_clock w"
  have wf1: "wf_db (w_db v1)" by (rule flows.loop_keeps [where J = wf_db, OF wf_delete_flows run(1) w(2)])
  have wf2: "wf_db (w_db v2)" by (rule changes.loop_keeps [where J = wf_db, OF wf_delete_changes run(2) wf1])
  have wf3: "wf_db (w_db v3)" by (rule confirmations.loop_keeps [where J = wf_db, OF wf_delete_confirmations run(3) wf2])
  have wf4: "wf_db (w_db v4)" by (rule sessions.loop_keeps [where J = wf_db, OF wf_delete_sessions run(4) wf3])
  obtain k1 where k1: "login_flows (w_db v1) = filter (\<lambda>r. \<not> old_login_flow (?c k1) r) (login_flows (w_db w))"
    "fs + length (login_flows (w_db v1)) = length (login_flows (w_db w))" "w_db_clock v1 = shift (Suc k1) ?c" "w_tx v1 = None"
    using flows.loop_exact [OF run(1) w(1) _ w(3)] w(2) by (auto simp: wf_defs)
  obtain k2 where k2: "email_changes (w_db v2) = filter (\<lambda>r. \<not> old_email_change (?c (Suc k1 + k2)) r) (email_changes (w_db v1))"
    "w_db_clock v2 = shift (Suc k1 + Suc k2) ?c" "w_tx v2 = None"
    using changes.loop_exact [OF run(2) k1(4)] wf1 w(3) by (auto simp: wf_defs k1(3))
  obtain k3 where k3: "confirmations (w_db v3) = filter (\<lambda>r. \<not> old_confirmation (?c (Suc k1 + Suc k2 + k3)) r) (confirmations (w_db v2))"
    "w_db_clock v3 = shift (Suc k1 + Suc k2 + Suc k3) ?c" "w_tx v3 = None"
    using confirmations.loop_exact [OF run(3) k2(3)] wf2 w(3) by (auto simp: wf_defs k2(2))
  obtain k4 where k4: "sessions (w_db v4) = filter (\<lambda>r. \<not> old_session (?c (Suc k1 + Suc k2 + Suc k3 + k4)) r) (sessions (w_db v3))"
    "w_db_clock v4 = shift (Suc k1 + Suc k2 + Suc k3 + Suc k4) ?c" "w_tx v4 = None"
    using sessions.loop_exact [OF run(4) k3(3)] wf3 w(3) by (auto simp: wf_defs k3(2))
  obtain k5 where k5: "users (w_db v5) = filter (\<lambda>r. \<not> old_unverified_user (?c (Suc k1 + Suc k2 + Suc k3 + Suc k4 + k5)) r) (users (w_db v4))"
    "us + length (users (w_db v5)) = length (users (w_db v4))"
    "w_db_clock v5 = shift (Suc k1 + Suc k2 + Suc k3 + Suc k4 + Suc k5) ?c" "w_tx v5 = None"
    using accounts.loop_exact [OF run(5) k4(3)] wf4 w(3) by (auto simp: wf_defs k4(2))
  show ?thesis by (rule that [OF k1(1,2) k2(1) k3(1) k4(1) k5(1-4) wf4])
qed

text \<open>The same with the times in a row: \<open>t i\<close> is the last instant of the loop on table \<open>i\<close>.\<close>

lemma loops_clock:
  assumes w: "w_tx w = None" "wf_db (w_db w)" "\<And>i. w_db_clock w i \<le> w_db_clock w (Suc i)"
    and run: "in_batches flows.batch 0 w = Some (Inr fs, v1)" "in_batches changes.batch 0 v1 = Some (Inr es, v2)"
      "in_batches confirmations.batch 0 v2 = Some (Inr ns, v3)" "in_batches sessions.batch 0 v3 = Some (Inr ss, v4)"
      "in_batches accounts.batch 0 v4 = Some (Inr us, v5)"
  obtains t :: "nat \<Rightarrow> time" where "\<And>i j. i \<le> j \<Longrightarrow> t i \<le> t j" "w_db_clock w 0 \<le> t 0"
    "login_flows (w_db v1) = filter (\<lambda>r. \<not> old_login_flow (t 1) r) (login_flows (w_db w))"
    "fs + length (login_flows (w_db v1)) = length (login_flows (w_db w))"
    "email_changes (w_db v2) = filter (\<lambda>r. \<not> old_email_change (t 2) r) (email_changes (w_db v1))"
    "confirmations (w_db v3) = filter (\<lambda>r. \<not> old_confirmation (t 3) r) (confirmations (w_db v2))"
    "sessions (w_db v4) = filter (\<lambda>r. \<not> old_session (t 4) r) (sessions (w_db v3))"
    "users (w_db v5) = filter (\<lambda>r. \<not> old_unverified_user (t 5) r) (users (w_db v4))"
    "us + length (users (w_db v5)) = length (users (w_db v4))"
    "w_db_clock v5 0 = t 6" "w_tx v5 = None" "wf_db (w_db v4)"
proof -
  have mono: "w_db_clock w i \<le> w_db_clock w j" if "i \<le> j" for i j by (rule lift_Suc_mono_le [of "w_db_clock w", OF w(3) that])
  show ?thesis
  proof (rule loops_times [OF w run])
    fix k1 k2 k3 k4 k5
    define t where "t i = w_db_clock w (if i \<le> 1 then k1 else if i = 2 then Suc k1 + k2 else if i = 3 then Suc k1 + Suc k2 + k3
      else if i = 4 then Suc k1 + Suc k2 + Suc k3 + k4 else if i = 5 then Suc k1 + Suc k2 + Suc k3 + Suc k4 + k5
      else Suc k1 + Suc k2 + Suc k3 + Suc k4 + Suc k5)" for i :: nat
    have t: "t 1 = w_db_clock w k1" "t 2 = w_db_clock w (Suc k1 + k2)" "t 3 = w_db_clock w (Suc k1 + Suc k2 + k3)"
      "t 4 = w_db_clock w (Suc k1 + Suc k2 + Suc k3 + k4)" "t 5 = w_db_clock w (Suc k1 + Suc k2 + Suc k3 + Suc k4 + k5)"
      "t 6 = w_db_clock w (Suc k1 + Suc k2 + Suc k3 + Suc k4 + Suc k5)"
      by (simp_all add: t_def)
    have up: "t i \<le> t j" if "i \<le> j" for i j unfolding t_def using that by (intro mono) simp
    have start: "w_db_clock w 0 \<le> t 0" unfolding t_def by (intro mono) simp
    assume 1: "login_flows (w_db v1) = filter (\<lambda>r. \<not> old_login_flow (w_db_clock w k1) r) (login_flows (w_db w))"
      and 2: "fs + length (login_flows (w_db v1)) = length (login_flows (w_db w))"
      and 3: "email_changes (w_db v2) = filter (\<lambda>r. \<not> old_email_change (w_db_clock w (Suc k1 + k2)) r) (email_changes (w_db v1))"
      and 4: "confirmations (w_db v3) = filter (\<lambda>r. \<not> old_confirmation (w_db_clock w (Suc k1 + Suc k2 + k3)) r) (confirmations (w_db v2))"
      and 5: "sessions (w_db v4) = filter (\<lambda>r. \<not> old_session (w_db_clock w (Suc k1 + Suc k2 + Suc k3 + k4)) r) (sessions (w_db v3))"
      and 6: "users (w_db v5) = filter (\<lambda>r. \<not> old_unverified_user (w_db_clock w (Suc k1 + Suc k2 + Suc k3 + Suc k4 + k5)) r) (users (w_db v4))"
      and 7: "us + length (users (w_db v5)) = length (users (w_db v4))"
      and 8: "w_db_clock v5 = shift (Suc k1 + Suc k2 + Suc k3 + Suc k4 + Suc k5) (w_db_clock w)" "w_tx v5 = None" "wf_db (w_db v4)"
    have eq: "w_db_clock v5 0 = t 6" by (simp add: 8(1) t(6))
    show thesis
      by (rule that [of t]) (insert up start 1 2 3 4 5 6 7 eq 8(2,3), simp_all only: t)
  qed
qed

lemma kept_cores:
  assumes "sessions d' = filter (\<lambda>r. \<not> old_session t r) (sessions d)" "map session_core (sessions d) = map session_core (sessions d0)"
  shows "session_core ` set (sessions d') = session_core ` {s \<in> set (sessions d0). \<not> old_session t s}"
proof -
  have same: "session_core ` set (sessions d) = session_core ` set (sessions d0)"
    using assms(2) by (metis list.set_map)
  have pick: "session_core ` {s \<in> S. \<not> old_session t s} =
      {c \<in> session_core ` S. \<not> (case c of (i, u, e, r) \<Rightarrow> e < t - days 30 \<or> past (t - days 30) r)}" for S
    by (auto simp: old_session_core)
  show ?thesis unfolding assms(1) set_filter pick same ..
qed


text \<open>Forty days later everything is past its retention but the account, which confirmed its address.\<close>

definition late_world :: world where
  "late_world = (demo_world (session_db\<lparr>users := [demo_user\<lparr>u_email_verified_at := Some 5\<rparr>]\<rparr>))\<lparr>w_db_clock := (\<lambda>_. days 40)\<rparr>"

lemma late_purge_succeeds: "succeeds purge late_world"
  by code_simp

lemma late_world_lineage: "lineage (w_db late_world)"
  by (simp add: lineage_def family_def late_world_def wf_defs demo_defs)


end
