(* ===== verification/Rotation.thy ===== *)
theory Rotation
  imports FlowMachine
begin

text \<open>
  The lives of sessions and of refresh tokens as abstract machines, and the proof that the server refines them. A
  session belongs to one account and one app, expires at the time set at login, whatever happens, and ends at most
  once; a refresh token belongs to one session and one parent, and is either used, once, or superseded, never both. Both
  may be purged at any time, a token with its session.
\<close>

section \<open>The abstract machines\<close>

text \<open>Account, app and expiry; then the time of its end.\<close>

datatype session_state = NoSession | Live uuid string time | Ended uuid string time time

inductive session_move :: "session_state \<Rightarrow> session_state \<Rightarrow> bool" where
  end_session: "session_move (Live u c e) (Ended u c e t)"
| forget: "session_move s NoSession"

text \<open>Session, parent and hash.\<close>

datatype token_state = NoToken | Unused uuid "uuid option" bytes | Used uuid "uuid option" bytes time
  | Replaced uuid uuid bytes time

inductive token_move :: "token_state \<Rightarrow> token_state \<Rightarrow> bool" where
  use: "token_move (Unused s q h) (Used s q h t)"
| replace: "token_move (Unused s (Some q) h) (Replaced s q h t)"
| forget: "token_move x NoToken"


section \<open>The abstractions\<close>

definition state_of_session :: "session \<Rightarrow> session_state" where
  "state_of_session s = (case s_revoked_at s of
      None \<Rightarrow> Live (s_user_id s) (s_client_id s) (s_expires_at s)
    | Some t \<Rightarrow> Ended (s_user_id s) (s_client_id s) (s_expires_at s) t)"

definition state_of_token :: "refresh_token_row \<Rightarrow> token_state" where
  "state_of_token r = (case (r_rotated_at r, r_superseded_at r, r_parent_id r) of
      (Some t, _, _) \<Rightarrow> Used (r_session_id r) (r_parent_id r) (r_token_hash r) t
    | (None, Some t, Some q) \<Rightarrow> Replaced (r_session_id r) q (r_token_hash r) t
    | (None, _, _) \<Rightarrow> Unused (r_session_id r) (r_parent_id r) (r_token_hash r))"

interpretation session_rows: row_machine s_id state_of_session NoSession session_move
  by unfold_locales (rule session_move.forget)

interpretation token_rows: row_machine r_id state_of_token NoToken token_move
  by unfold_locales (rule token_move.forget)

definition session_state_of :: "uuid \<Rightarrow> db \<Rightarrow> session_state" where
  "session_state_of i d = row_state s_id state_of_session NoSession i (sessions d)"

definition token_state_of :: "uuid \<Rightarrow> db \<Rightarrow> token_state" where
  "token_state_of i d = row_state r_id state_of_token NoToken i (refresh_tokens d)"

definition session_follows :: "uuid \<Rightarrow> session_state \<Rightarrow> db \<Rightarrow> bool" where
  "session_follows i s d \<longleftrightarrow> session_rows.follows i s (sessions d)"

definition token_follows :: "uuid \<Rightarrow> token_state \<Rightarrow> db \<Rightarrow> bool" where
  "token_follows i s d \<longleftrightarrow> token_rows.follows i s (refresh_tokens d)"

section \<open>Every statement is a move\<close>

lemma session_revoke: "session_follows i s d \<Longrightarrow> session_follows i s (revoke_where p now d)"
  by (auto simp: session_follows_def revoke_where_def state_of_session_def intro!: session_rows.follows_upd session_move.end_session)

lemma session_create: "step_ok {i} (session_follows i s) P (sessions_create u c k t)"
  by (auto simp: step_ok_def sessions_create_def session_follows_def split: if_splits intro!: session_rows.follows_add)

lemma session_clear: "session_rows.follows i s ss \<Longrightarrow> session_rows.follows i s (upd_where p (\<lambda>s. s\<lparr>s_authorization_code_id := x\<rparr>) ss)"
  by (erule session_rows.follows_upd) (simp_all add: state_of_session_def split: option.split)

lemma session_deletes:
  "session_follows i s d \<Longrightarrow> session_follows i s (delete_sessions p d)"
  "session_follows i s d \<Longrightarrow> session_follows i s (delete_users p2 d)"
  "session_follows i s d \<Longrightarrow> session_follows i s (delete_login_flows p3 d)"
  unfolding session_follows_def delete_sessions_def delete_users_def delete_login_flows_def delete_authorization_codes_def
  by (simp_all add: Let_def session_rows.follows_del session_clear)

interpretation session_machine: db_invariant E "{i}" "session_follows i s" for E i s
  by (unfold_locales;
      (rule session_revoke session_create session_deletes, assumption? |
       auto simp: step_ok_def sql Let_def upd_returning_def delete_email_changes_def delete_confirmations_def
         delete_signing_keys_def session_follows_def split: if_splits option.splits))

lemma token_mark: "step_ok U (token_follows i s) (token_open k) (refresh_tokens_mark_rotated k)"
  unfolding step_ok_def
proof (intro allI impI)
  fix now new_id d a d'
  assume I: "token_follows i s d" and "token_open k d" and q: "refresh_tokens_mark_rotated k now new_id d = Inr (a, d')"
  then obtain x where x: "x \<in> set (refresh_tokens d)" "r_id x = k" "r_superseded_at x = None" by (auto simp: token_open_def)
  have "r_superseded_at r = None" if "r \<in> set (refresh_tokens d)" "r_id r = k" for r
  proof -
    have "r = x" using that x I by (auto simp: token_follows_def token_rows.follows_def intro: distinct_key_eq)
    with x(3) show ?thesis by simp
  qed
  then have "token_rows.follows i s (upd_where (\<lambda>r. r_id r = k \<and> r_rotated_at r = None) (\<lambda>r. r\<lparr>r_rotated_at := Some now\<rparr>) (refresh_tokens d))"
    using I by (intro token_rows.follows_upd) (auto simp: token_follows_def state_of_token_def intro!: token_move.use)
  with q show "token_follows i s d'" by (auto simp: token_follows_def refresh_tokens_mark_rotated_def)
qed

lemma token_supersede: "stmt_ok U (token_follows i s) (refresh_tokens_supersede_unused_successors k)"
  by (auto simp: step_ok_def token_follows_def refresh_tokens_supersede_unused_successors_def state_of_token_def
      intro!: token_rows.follows_upd token_move.replace)

lemma token_create: "step_ok {i} (token_follows i s) P (refresh_tokens_create x h q)"
  by (auto simp: step_ok_def refresh_tokens_create_def token_follows_def split: if_splits option.splits intro!: token_rows.follows_add)

lemma token_sweep: "token_rows.follows i s ts \<Longrightarrow> token_rows.follows i s (sweep_tokens p dead ts)"
  using token_rows.follows_subset [of i s ts "sweep_tokens p dead ts"] distinct_sweep [of r_id ts] set_sweep
  by (fastforce simp: token_rows.follows_def)

lemma token_deletes:
  "token_follows i s d \<Longrightarrow> token_follows i s (delete_sessions p d)"
  "token_follows i s d \<Longrightarrow> token_follows i s (delete_users p2 d)"
  unfolding token_follows_def delete_sessions_def delete_users_def delete_authorization_codes_def
  by (simp_all add: Let_def token_sweep)

interpretation token_machine: db_invariant E "{i}" "token_follows i s" for E i s
  by (unfold_locales;
      (rule token_mark token_supersede token_create token_deletes, assumption? |
       auto simp: step_ok_def sql Let_def upd_returning_def revoke_where_def delete_login_flows_def delete_authorization_codes_def
         delete_email_changes_def delete_confirmations_def delete_signing_keys_def token_follows_def split: if_splits option.splits))

section \<open>The refinement\<close>

definition session_later :: "session_state \<Rightarrow> session_state \<Rightarrow> bool" where
  "session_later s s' \<longleftrightarrow> s' = s \<or> s' = NoSession \<or> (\<exists>u c e t. s = Live u c e \<and> s' = Ended u c e t)"

definition token_later :: "token_state \<Rightarrow> token_state \<Rightarrow> bool" where
  "token_later x x' \<longleftrightarrow> x' = x \<or> x' = NoToken \<or> (\<exists>s q h t. x = Unused s q h \<and> x' = Used s q h t) \<or>
     (\<exists>s q h t. x = Unused s (Some q) h \<and> x' = Replaced s q h t)"

lemma session_moves_later: "session_move\<^sup>*\<^sup>* s s' \<Longrightarrow> session_later s s'"
proof (induction rule: rtranclp_induct)
  case (step y z)
  from step.hyps(2) step.IH show ?case by cases (auto simp: session_later_def)
qed (simp add: session_later_def)

lemma token_moves_later: "token_move\<^sup>*\<^sup>* x x' \<Longrightarrow> token_later x x'"
proof (induction rule: rtranclp_induct)
  case (step y z)
  from step.hyps(2) step.IH show ?case by cases (auto simp: token_later_def)
qed (simp add: token_later_def)

lemma token_of_session:
  assumes "wf_db d" "token_state_of j d \<in> {Unused i q h, Used i q h t, Replaced i q' h t}"
  shows "session_state_of i d \<noteq> NoSession"
proof -
  from assms(2) obtain r where "r \<in> set (refresh_tokens d)" "r_session_id r = i"
    by (auto simp: token_state_of_def row_state_def state_of_token_def dest!: find_Some_set split: option.splits)
  with token_sessions [OF assms(1)] have "\<exists>s \<in> set (sessions d). s_id s = i" by fastforce
  then have "List.find (\<lambda>s. s_id s = i) (sessions d) \<noteq> None" by (auto simp: find_None_set)
  then show ?thesis by (auto simp: session_state_of_def row_state_def state_of_session_def split: option.split)
qed


text \<open>A refresh marks the token used.\<close>

abbreviation refresh_world :: world where
  "refresh_world \<equiv> (demo_world session_db)\<lparr>w_ids := (\<lambda>_. 100)\<rparr>"

lemma served_refresh_succeeds: "succeeds (serve demo_ext demo_state (PostToken demo_refresh)) refresh_world"
  by code_simp


end
