(* ===== verification/Startup.thy ===== *)
theory Startup
  imports Keys
begin

text \<open>
  Starting the server: \<open>config.rs\<close>, \<open>mailer.rs\<close>, \<open>cors.rs\<close> and \<open>main\<close> in \<open>main.rs\<close>. Reading the environment, the
  file system, TOML, SMTP and the \<open>lettre\<close> crate are arguments; the connection to the database and the
  migrations are statements that may fail; the scheduler is asked to accept each schedule. Logging and the TCP
  listener are left out, and so is the transport of \<open>mailer.rs\<close> that only the tests compile.
\<close>

section \<open>\<open>mailer.rs\<close>\<close>

datatype mail_error = MailAddress | MailMessage | MailSmtp

text \<open>\<open>lettre::message::Mailbox\<close>, as far as it is used, and the message \<open>lettre\<close> is asked to build.\<close>

record mailbox =
  mb_shown :: string
  mb_domain :: string

record mailer =
  ml_transport :: string
  ml_from :: mailbox

record message =
  mg_message_id :: string
  mg_headers :: "(string \<times> string) list"
  mg_from :: mailbox
  mg_to :: mailbox
  mg_subject :: string
  mg_text :: string
  mg_html :: string

text \<open>What \<open>lettre\<close> decides: addresses, SMTP URLs, whether a message is complete, whether it was sent.\<close>

record lettre =
  lt_parse :: "string \<Rightarrow> mailbox option"
  lt_smtp_url :: "string \<Rightarrow> bool"
  lt_builds :: "message \<Rightarrow> bool"
  lt_sends :: "string \<Rightarrow> message \<Rightarrow> bool"

definition mailer_new :: "lettre \<Rightarrow> string \<Rightarrow> string \<Rightarrow> mail_error + mailer" where
  "mailer_new L smtp_url from_addr = (case lt_parse L from_addr of
      None \<Rightarrow> Inl MailAddress
    | Some from \<Rightarrow> if lt_smtp_url L smtp_url then Inr \<lparr>ml_transport = smtp_url, ml_from = from\<rparr> else Inl MailSmtp)"

text \<open>\<open>id\<close> is the text of the \<open>Uuid::new_v4\<close>.\<close>

definition mailer_message :: "lettre \<Rightarrow> mailer \<Rightarrow> string \<Rightarrow> email \<Rightarrow> mail_error + message" where
  "mailer_message L m i e = (case lt_parse L (em_to e) of
      None \<Rightarrow> Inl MailAddress
    | Some to \<Rightarrow>
        let msg = \<lparr>mg_message_id = ''<'' @ i @ ''@'' @ mb_domain (ml_from m) @ ''>'',
              mg_headers = [(''Auto-Submitted'', ''auto-generated'')], mg_from = ml_from m, mg_to = to,
              mg_subject = em_subject e, mg_text = em_text e, mg_html = em_html e\<rparr>
        in if lt_builds L msg then Inr msg else Inl MailMessage)"

definition mailer_send :: "lettre \<Rightarrow> mailer \<Rightarrow> string \<Rightarrow> email \<Rightarrow> mail_error + message" where
  "mailer_send L m i e = (case mailer_message L m i e of
      Inl x \<Rightarrow> Inl x
    | Inr msg \<Rightarrow> if lt_sends L (ml_transport m) msg then Inr msg else Inl MailSmtp)"

section \<open>\<open>config.rs\<close>, \<open>clients.rs\<close> and \<open>cors.rs\<close>\<close>

record server_config =
  sc_bind_addr :: string
  sc_database_url :: string
  sc_smtp_url :: string
  sc_mail_from :: string
  sc_config_path :: string
  sc_master_key :: string
  sc_issuer :: string
  sc_trusted_proxies :: string

datatype load_error = ClientsRead string string | ClientsParse string | ClientsInvalid clients_error

text \<open>\<open>Clients::load\<close> and \<open>Clients::from_toml\<close>: \<open>fs_read\<close> is \<open>read_to_string\<close> and \<open>fs_toml\<close> is \<open>toml::from_str\<close>
  into the list of clients of the file.\<close>

record files =
  fs_read :: "string \<Rightarrow> string + string"
  fs_toml :: "string \<Rightarrow> string + client list"

definition clients_from_toml :: "ext \<Rightarrow> files \<Rightarrow> string \<Rightarrow> load_error + clients" where
  "clients_from_toml E F content = (case fs_toml F content of
      Inl e \<Rightarrow> Inl (ClientsParse e)
    | Inr cs \<Rightarrow> map_sum ClientsInvalid id (clients_from_file E cs))"

definition clients_load :: "ext \<Rightarrow> files \<Rightarrow> string \<Rightarrow> load_error + clients" where
  "clients_load E F path = (case fs_read F path of
      Inl source \<Rightarrow> Inl (ClientsRead path source)
    | Inr content \<Rightarrow> clients_from_toml E F content)"

text \<open>\<open>Clients::origins\<close>.\<close>

definition clients_origins :: "ext \<Rightarrow> clients \<Rightarrow> string set" where
  "clients_origins E m = (\<Union>c \<in> ran m. set (client_origins E c))"

text \<open>\<open>cors::layer\<close>; \<open>header_ok\<close> is whether \<open>HeaderValue::from_str\<close> accepts a value.\<close>

record cors_layer =
  co_allow_origin :: "string set"
  co_allow_methods :: "string list"
  co_allow_headers :: "string list"
  co_expose_headers :: "string list"
  co_max_age :: time

definition cors_layer_of :: "(string \<Rightarrow> bool) \<Rightarrow> string set \<Rightarrow> cors_layer" where
  "cors_layer_of header_ok origins =
     \<lparr>co_allow_origin = Set.filter header_ok origins, co_allow_methods = [''GET'', ''POST'', ''DELETE''],
      co_allow_headers = [''authorization'', ''content-type''],
      co_expose_headers = [''retry-after'', ''www-authenticate''], co_max_age = seconds (60 * 60)\<rparr>"

text \<open>The layer \<open>app\<close> puts around the routes.\<close>

definition app_cors :: "ext \<Rightarrow> (string \<Rightarrow> bool) \<Rightarrow> app_state \<Rightarrow> cors_layer" where
  "app_cors E header_ok st = cors_layer_of header_ok (clients_origins E (st_clients st))"

section \<open>\<open>jobs::start\<close>\<close>

definition PURGE_SCHEDULE :: string where "PURGE_SCHEDULE = ''0 17 * * * *''"
definition RELOAD_KEYS_SCHEDULE :: string where "RELOAD_KEYS_SCHEDULE = ''0 7 * * * *''"
definition ROTATE_KEYS_SCHEDULE :: string where "ROTATE_KEYS_SCHEDULE = ''0 23 3 * * *''"

text \<open>The jobs added, in order; a job that takes an advisory lock may find it held by another instance. \<open>cron\<close> is whether
  the scheduler accepts a schedule, \<open>Inl\<close> its error.\<close>

definition scheduled_jobs :: "(string \<times> (bool \<Rightarrow> job)) list" where
  "scheduled_jobs = [(PURGE_SCHEDULE, PurgeJob), (RELOAD_KEYS_SCHEDULE, \<lambda>_. ReloadKeysJob), (ROTATE_KEYS_SCHEDULE, RotateKeysJob)]"

fun add_jobs :: "(string \<Rightarrow> string + unit) \<Rightarrow> (string \<times> (bool \<Rightarrow> job)) list \<Rightarrow> string + (string \<times> (bool \<Rightarrow> job)) list" where
  "add_jobs cron [] = Inr []"
| "add_jobs cron (j # js) = (case cron (fst j) of
      Inl e \<Rightarrow> Inl e
    | Inr _ \<Rightarrow> map_sum id (Cons j) (add_jobs cron js))"

definition jobs_start :: "(string \<Rightarrow> string + unit) \<Rightarrow> string + (string \<times> (bool \<Rightarrow> job)) list" where
  "jobs_start cron = add_jobs cron scheduled_jobs"

section \<open>\<open>main\<close>\<close>

text \<open>Each \<open>expect\<close> of \<open>main\<close> is a way to stop.\<close>

datatype startup_error = BadIssuer string | BadClients load_error | BadMasterKey master_key_error | BadProxies string
  | DatabaseDown sql_error | BadMail mail_error | BadSigningKeys signing_key_error | BadJobs string

definition startup ::
    "ext \<Rightarrow> lettre \<Rightarrow> files \<Rightarrow> (string \<Rightarrow> string + unit) \<Rightarrow> server_config \<Rightarrow>
     (startup_error, app_state \<times> master_key \<times> mailer) req" where
  "startup E L F cron cfg =
     and_then (result (map_sum BadIssuer id (validate_issuer E (sc_issuer cfg)))) (\<lambda>_.
     and_then (result (map_sum BadClients id (clients_load E F (sc_config_path cfg)))) (\<lambda>clients.
     and_then (result (map_sum BadMasterKey id (master_key_from_base64 E (sc_master_key cfg)))) (\<lambda>mk.
     and_then (result (map_sum BadProxies id (parse_trusted_proxies E (sc_trusted_proxies cfg)))) (\<lambda>trusted.
     and_then (map_err DatabaseDown (exec lock_stmt)) (\<lambda>_.
     and_then (map_err DatabaseDown (exec lock_stmt)) (\<lambda>_.
     and_then (result (map_sum BadMail id (mailer_new L (sc_smtp_url cfg) (sc_mail_from cfg)))) (\<lambda>mailer.
     and_then (map_err BadSigningKeys (ensure_and_load E mk)) (\<lambda>keys.
     and_then (store_keys keys) (\<lambda>_.
     and_then (result (map_sum BadJobs id (jobs_start cron))) (\<lambda>_.
     ok (\<lparr>st_issuer = sc_issuer cfg, st_clients = clients, st_code_keys = code_keys_new E mk,
          st_trusted_proxies = trusted\<rparr>, mk, mailer)))))))))))"

section \<open>What a started server relies on\<close>

text \<open>An issuer other services can compare byte for byte.\<close>

definition issuer_ok :: "ext \<Rightarrow> string \<Rightarrow> bool" where
  "issuer_ok E issuer \<longleftrightarrow> (\<exists>u. x_url_parse E issuer = Inr u \<and>
     (url_scheme u = ''https'' \<or> url_scheme u = ''http'' \<and> is_loopback u) \<and> url_query u = None \<and> url_fragment u = None \<and>
     (issuer \<noteq> [] \<longrightarrow> last issuer \<noteq> CHR ''/''))"

lemma validate_issuer_Inr: "validate_issuer E issuer = Inr () \<longleftrightarrow> issuer_ok E issuer"
  by (auto simp: validate_issuer_def issuer_ok_def split: sum.splits)

lemma parse_proxies_Inr: "parse_proxies E ips = Inr xs \<longleftrightarrow> map (x_ip_parse E) ips = map Some xs"
proof (induction ips arbitrary: xs)
  case (Cons ip ips)
  show ?case
  proof (cases "parse_proxies E ips")
    case (Inl e)
    then have "map (x_ip_parse E) ips \<noteq> map Some ys" for ys using Cons.IH [of ys] by simp
    with Inl show ?thesis by (cases xs) (auto split: option.splits)
  next
    case (Inr ys)
    then have "map (x_ip_parse E) ips = map Some ys" using Cons.IH [of ys] by simp
    with Inr show ?thesis by (cases xs) (auto split: option.splits)
  qed
qed auto

definition registered :: "ext \<Rightarrow> client list \<Rightarrow> clients \<Rightarrow> bool" where
  "registered E cs m \<longleftrightarrow> distinct (map cl_id cs) \<and> list_all (client_ok E) cs \<and> m = map_of (map (\<lambda>c. (cl_id c, c)) cs)"

lemma insert_clients_iff: "insert_clients E cs m = Inr m' \<longleftrightarrow>
    list_all (client_ok E) cs \<and> distinct (map cl_id cs) \<and> cl_id ` set cs \<inter> dom m = {} \<and>
    m' = m ++ map_of (map (\<lambda>c. (cl_id c, c)) cs)"
proof (induction cs arbitrary: m)
  case (Cons c cs)
  have valid: "(\<exists>e. client_validate E c = Inl e) \<longleftrightarrow> \<not> client_ok E c"
    using client_validate_Inr [of E c] sum_unit_cases [of "client_validate E c"] by auto
  let ?M = "map_of (map (\<lambda>c. (cl_id c, c)) cs)"
  show ?case
  proof (cases "client_ok E c \<and> m (cl_id c) = None")
    case True
    then have "client_validate E c = Inr ()" by (simp add: client_validate_Inr)
    then have "insert_clients E (c # cs) m = insert_clients E cs (m(cl_id c \<mapsto> c))" using True by simp
    moreover have "dom (m(cl_id c \<mapsto> c)) = insert (cl_id c) (dom m)" by simp
    ultimately have ind: "insert_clients E (c # cs) m = Inr m' \<longleftrightarrow>
        list_all (client_ok E) cs \<and> distinct (map cl_id cs) \<and> cl_id ` set cs \<inter> insert (cl_id c) (dom m) = {} \<and>
        m' = m(cl_id c \<mapsto> c) ++ ?M" using Cons.IH by (simp only:)
    show ?thesis
    proof (cases "cl_id c \<in> cl_id ` set cs")
      case False
      then have "?M (cl_id c) = None" by (simp add: map_of_eq_None_iff image_image)
      then have upd: "m(cl_id c \<mapsto> c) ++ ?M = (m ++ ?M)(cl_id c \<mapsto> c)" by (simp add: map_add_upd_left domIff)
      have all: "m ++ map_of (map (\<lambda>c. (cl_id c, c)) (c # cs)) = (m ++ ?M)(cl_id c \<mapsto> c)" by simp
      from False True show ?thesis unfolding ind upd all by (auto simp: domIff)
    next
      case dup: True
      then show ?thesis unfolding ind by auto
    qed
  next
    case False
    then show ?thesis using valid by (auto simp: domIff split: sum.splits)
  qed
qed auto

text \<open>The client file is accepted exactly when every client in it is valid (an id of
  \<open>[a-z0-9_-]+\<close>, at least one redirect URI, each written in its normal form, https, loopback http or an app
  scheme, no fragment, valid pages and origins) and no id appears twice; the registry then maps each id to
  its client and nothing else.\<close>

lemma clients_registered: "clients_from_file E cs = Inr m \<longleftrightarrow> registered E cs m"
  by (auto simp: clients_from_file_def insert_clients_iff registered_def)

definition started :: "ext \<Rightarrow> lettre \<Rightarrow> files \<Rightarrow> (string \<Rightarrow> string + unit) \<Rightarrow> server_config \<Rightarrow> app_state \<Rightarrow> master_key \<Rightarrow> mailer \<Rightarrow> bool" where
  "started E L F cron cfg st mk m \<longleftrightarrow> issuer_ok E (st_issuer st) \<and> st_issuer st = sc_issuer cfg \<and>
     (\<exists>content cs. fs_read F (sc_config_path cfg) = Inr content \<and> fs_toml F content = Inr cs \<and> registered E cs (st_clients st)) \<and>
     (\<exists>bs. x_b64_decode E (str_trim (sc_master_key cfg)) = Some bs \<and> length bs = 32 \<and> mk = \<lparr>mk_cipher = bs, mk_derivation = bs\<rparr> \<and>
        st_code_keys st = \<lparr>magic_link_key = x_hmac E bs ''bauth/magic_code'', confirmation_key = x_hmac E bs ''bauth/confirmation_code''\<rparr>) \<and>
     map Some (st_trusted_proxies st) =
       map (x_ip_parse E) (filter (\<lambda>ip. ip \<noteq> []) (map str_trim (split_on (CHR '','') (sc_trusted_proxies cfg)))) \<and>
     lt_parse L (sc_mail_from cfg) = Some (ml_from m) \<and> lt_smtp_url L (sc_smtp_url cfg) \<and>
     jobs_start cron = Inr scheduled_jobs"

lemma map_sum_Inr [simp]: "map_sum f id r = Inr x \<longleftrightarrow> r = Inr x"
  by (cases r) auto

lemma map_sum_Inr_iff: "map_sum id f r = Inr x \<longleftrightarrow> (\<exists>y. r = Inr y \<and> x = f y)"
  by (cases r) auto

lemma jobs_started: "jobs_start cron = Inr js \<Longrightarrow> js = scheduled_jobs"
proof -
  have "add_jobs cron xs = Inr ys \<Longrightarrow> ys = xs" for xs ys
    by (induction xs arbitrary: ys) (auto split: sum.splits simp: map_sum_Inr_iff)
  then show "jobs_start cron = Inr js \<Longrightarrow> js = scheduled_jobs" by (simp add: jobs_start_def)
qed

lemma startedI:
  assumes "validate_issuer E (sc_issuer cfg) = Inr ()" "clients_load E F (sc_config_path cfg) = Inr clients"
    "master_key_from_base64 E (sc_master_key cfg) = Inr mk" "parse_trusted_proxies E (sc_trusted_proxies cfg) = Inr trusted"
    "mailer_new L (sc_smtp_url cfg) (sc_mail_from cfg) = Inr m" "jobs_start cron = Inr js"
  shows "started E L F cron cfg \<lparr>st_issuer = sc_issuer cfg, st_clients = clients, st_code_keys = code_keys_new E mk,
    st_trusted_proxies = trusted\<rparr> mk m"
proof -
  from assms(2) obtain content cs where
    "fs_read F (sc_config_path cfg) = Inr content" "fs_toml F content = Inr cs" "clients_from_file E cs = Inr clients"
    by (auto simp: clients_load_def clients_from_toml_def split: sum.splits)
  then have "\<exists>content cs. fs_read F (sc_config_path cfg) = Inr content \<and> fs_toml F content = Inr cs \<and> registered E cs clients"
    by (auto simp: clients_registered)
  moreover have "\<exists>bs. x_b64_decode E (str_trim (sc_master_key cfg)) = Some bs \<and> length bs = 32 \<and> mk = \<lparr>mk_cipher = bs, mk_derivation = bs\<rparr>"
    using assms(3) by (auto simp: master_key_from_base64_def split: option.splits if_splits)
  moreover have "lt_parse L (sc_mail_from cfg) = Some (ml_from m) \<and> lt_smtp_url L (sc_smtp_url cfg)"
    using assms(5) by (auto simp: mailer_new_def split: option.splits if_splits)
  moreover have "map Some trusted = map (x_ip_parse E) (filter (\<lambda>ip. ip \<noteq> []) (map str_trim (split_on (CHR '','') (sc_trusted_proxies cfg))))"
    using assms(4) by (simp add: parse_trusted_proxies_def parse_proxies_Inr)
  ultimately show ?thesis
    using assms(1,6) jobs_started [OF assms(6)] by (auto simp: started_def validate_issuer_Inr code_keys_new_def code_key_new_def master_key_derive_def)
qed

lemma startup_wp: "wp (startup E L F cron cfg)
    (\<lambda>(st, mk, m) w'. started E L F cron cfg st mk m \<and> (\<exists>v v' ks. ensure_and_load E mk v = Some (Inr ks, v') \<and> w_keys w' = ks)) (\<lambda>_ _. True) w"
proof -
  have *: "wp (ensure_and_load E mk) P Q v"
    if "\<And>ks v'. ensure_and_load E mk v = Some (Inr ks, v') \<Longrightarrow> P ks v'" "\<And>e v'. Q e v'" for mk P Q v
    using that by (auto simp: wp_def split: option.split sum.split)
  show ?thesis
    unfolding startup_def wp
    by (auto simp: wp intro!: * startedI split: sum.split)
qed

text \<open>C36 (startup_sound): a server only starts on a configuration it checked: the issuer is https, or http on
  loopback, without query, fragment or trailing slash; the registry is that of an accepted client file; the
  master key has 32 bytes, and the keys of login and confirmation codes are derived from it for two different
  purposes; every trusted proxy parsed as an address, none is left out; the sender and the SMTP URL parse;
  the three jobs are scheduled; and the signing keys in use are those loaded.\<close>

theorem startup_sound:
  assumes "startup E L F cron cfg w = Some (Inr (st, mk, m), w')"
  shows "started E L F cron cfg st mk m \<and> (\<exists>v v'. ensure_and_load E mk v = Some (Inr (w_keys w'), v'))"
  using wp_ok_run [OF startup_wp assms] by auto

definition demo_lettre :: lettre where
  "demo_lettre = \<lparr>lt_parse = (\<lambda>s. Some \<lparr>mb_shown = s, mb_domain = ''example.com''\<rparr>), lt_smtp_url = (\<lambda>_. True),
     lt_builds = (\<lambda>_. True), lt_sends = (\<lambda>_ _. True)\<rparr>"

definition demo_files :: files where
  "demo_files = \<lparr>fs_read = (\<lambda>_. Inr ''toml''), fs_toml = (\<lambda>_. Inr [demo_client])\<rparr>"

definition accept_all :: "string \<Rightarrow> string + unit" where
  "accept_all _ = Inr ()"

definition demo_config :: server_config where
  "demo_config = \<lparr>sc_bind_addr = ''0.0.0.0:8401'', sc_database_url = ''postgres'', sc_smtp_url = ''smtp://localhost:1025'',
     sc_mail_from = ''bauth'', sc_config_path = ''bauth.toml'', sc_master_key = ''k'', sc_issuer = ''https://id'', sc_trusted_proxies = []\<rparr>"

lemma demo_startup:
  "succeeds (startup demo_ext demo_lettre demo_files accept_all demo_config) (demo_world session_db)"
  by code_simp

theorem startup_sound_witness:
  "\<exists>st mk m. started demo_ext demo_lettre demo_files accept_all demo_config st mk m"
proof -
  let ?m = "startup demo_ext demo_lettre demo_files accept_all demo_config"
  obtain st mk m where "value_of ?m (demo_world session_db) = (st, mk, m)" by (cases "value_of ?m (demo_world session_db)") auto
  with succeeds_run [OF demo_startup] startup_sound [of demo_ext demo_lettre demo_files accept_all demo_config "demo_world session_db" st mk m]
  show ?thesis by auto
qed

section \<open>Cross-origin requests\<close>

definition client_urls :: "client \<Rightarrow> string list" where
  "client_urls c = cl_redirect_uris c @ [cl_magic_link_url c] @ (case cl_email_change_url c of None \<Rightarrow> [] | Some u \<Rightarrow> [u])"

lemma client_origins_iff: "o' \<in> set (client_origins E c) \<longleftrightarrow> o' \<in> set (cl_allowed_origins c) \<or>
    (\<exists>url \<in> set (client_urls c). \<exists>u. x_url_parse E url = Inr u \<and> url_scheme u \<in> {''http'', ''https''} \<and> origin_of u = Some o')"
proof -
  have ok: "url_ok r = Some u \<longleftrightarrow> r = Inr u" for r u by (auto simp: url_ok_def split: sum.splits)
  have mf: "x \<in> set (List.map_filter f xs) \<longleftrightarrow> (\<exists>y \<in> set xs. f y = Some x)" for f :: "'x \<Rightarrow> 'y option" and xs x
    by (force simp: map_filter_def)
  show ?thesis
    unfolding client_origins_def Let_def client_urls_def [symmetric] set_append Un_iff mf set_filter
    by (auto simp: mf ok)
qed

lemma client_url_allowed: "client_ok E c \<Longrightarrow> url \<in> set (client_urls c) \<Longrightarrow> \<exists>u. x_url_parse E url = Inr u \<and> allowed_url u"
  by (auto simp: client_ok_def client_urls_def split: option.splits)

text \<open>C37 (cors_registered): browsers may call a started server from exactly the origins of its registered clients: those
  a client lists, and those of its https pages and of its http pages on loopback. No other http origin gets in
  through a page, and native app schemes give none.\<close>

theorem cors_registered:
  assumes "startup E L F cron cfg w = Some (Inr (st, mk, m), w')" "header_ok o'"
  shows "o' \<in> co_allow_origin (app_cors E header_ok st) \<longleftrightarrow>
    (\<exists>i c. st_clients st i = Some c \<and> cl_id c = i \<and> (o' \<in> set (cl_allowed_origins c) \<or>
      (\<exists>url \<in> set (client_urls c). \<exists>u. x_url_parse E url = Inr u \<and> origin_of u = Some o' \<and>
        (url_scheme u = ''https'' \<or> url_scheme u = ''http'' \<and> is_loopback u))))"
proof -
  from wp_ok_run [OF startup_wp assms(1)] have "started E L F cron cfg st mk m" by auto
  then obtain cs where reg: "registered E cs (st_clients st)" by (auto simp: started_def)
  have ok: "cl_id c = i \<and> client_ok E c" if "st_clients st i = Some c" for i c
    using that reg by (auto simp: registered_def list_all_iff dest!: map_of_SomeD)
  have http: "url_scheme u \<in> {''http'', ''https''} \<longleftrightarrow> url_scheme u = ''https'' \<or> url_scheme u = ''http'' \<and> is_loopback u"
    if "st_clients st i = Some c" "url \<in> set (client_urls c)" "x_url_parse E url = Inr u" for i c url u
    using client_url_allowed [of E c url] ok that by (auto simp: allowed_url_def)
  have "o' \<in> co_allow_origin (app_cors E header_ok st) \<longleftrightarrow>
      (\<exists>i c. st_clients st i = Some c \<and> o' \<in> set (client_origins E c))"
    using assms(2) by (auto simp: app_cors_def cors_layer_of_def clients_origins_def ran_def)
  moreover have "st_clients st i = Some c \<and> o' \<in> set (client_origins E c) \<longleftrightarrow>
      st_clients st i = Some c \<and> cl_id c = i \<and> (o' \<in> set (cl_allowed_origins c) \<or>
      (\<exists>url \<in> set (client_urls c). \<exists>u. x_url_parse E url = Inr u \<and> origin_of u = Some o' \<and>
        (url_scheme u = ''https'' \<or> url_scheme u = ''http'' \<and> is_loopback u)))" for i c
    unfolding client_origins_iff using ok [of i c] http [of i c] by blast
  ultimately show ?thesis by simp
qed

theorem cors_registered_witness:
  "\<exists>st. ''https://app'' \<in> co_allow_origin (app_cors demo_ext (\<lambda>_. True) st) \<and> st_clients st = [''web'' \<mapsto> demo_client]"
proof -
  let ?m = "startup demo_ext demo_lettre demo_files accept_all demo_config"
  obtain st mk m where st: "value_of ?m (demo_world session_db) = (st, mk, m)" by (cases "value_of ?m (demo_world session_db)") auto
  have "started demo_ext demo_lettre demo_files accept_all demo_config st mk m"
    using wp_ok_run [OF startup_wp succeeds_run [OF demo_startup]] st by auto
  then have clients: "st_clients st = [''web'' \<mapsto> demo_client]"
    by (auto simp: started_def registered_def demo_files_def demo_client_def)
  note clients
  moreover have "\<exists>u. x_url_parse demo_ext (cl_magic_link_url demo_client) = Inr u \<and> origin_of u = Some ''https://app'' \<and> url_scheme u = ''https''"
    by (simp add: demo_ext_def origin_of_def)
  moreover have "cl_magic_link_url demo_client \<in> set (client_urls demo_client)" "cl_id demo_client = ''web''"
    by (simp_all add: client_urls_def demo_client_def)
  ultimately have "''https://app'' \<in> co_allow_origin (app_cors demo_ext (\<lambda>_. True) st)"
    using cors_registered [OF succeeds_run [OF demo_startup, unfolded st], of "\<lambda>_. True" "''https://app''"]
    by (metis fun_upd_same)
  with clients show ?thesis by blast
qed

end
