(* ===== verification/TestIssuer.thy ===== *)
theory TestIssuer
  imports Startup
begin

text \<open>
  \<open>bauth_client/src/testing.rs\<close>: \<open>FakeBauth\<close>, the issuer the tests of an API run against. Its random seed, its
  generated ids, the address it is bound to and the clock are arguments; so are base64 and JSON, which \<open>GET /me\<close>
  decodes a token with. The thread, the runtime and the locks are left out: its routes and methods are steps on
  one state. What it is for is proved: a token it signs passes the verifier of the API under test, and \<open>/me\<close>
  answers the account that was set.
\<close>

section \<open>\<open>testing.rs\<close>\<close>

definition FAKE_ED25519_PKCS8_PREFIX :: bytes where
  "FAKE_ED25519_PKCS8_PREFIX = map char_of [0x30, 0x2e, 0x02, 0x01, 0x00, 0x30, 0x05, 0x06,
     0x03, 0x2b, 0x65, 0x70, 0x04, 0x22, 0x04, 0x20 :: nat]"

text \<open>The counter is an \<open>AtomicUsize\<close>, which wraps.\<close>

record fake_bauth =
  fb_issuer :: string
  fb_kid :: string
  fb_encoding_key :: bytes
  fb_jwks :: jwk_set
  fb_accounts :: "uuid \<Rightarrow> (string \<times> bool) option"
  fb_jwks_fetches :: "64 word"

text \<open>\<open>start\<close>, with the seed, the \<open>Uuid::now_v7\<close> of the key and the bound address.\<close>

definition fake_start :: "ext \<Rightarrow> bytes \<Rightarrow> uuid \<Rightarrow> string \<Rightarrow> fake_bauth" where
  "fake_start E seed key_id addr =
     (let kid = x_uuid_string E key_id in
      \<lparr>fb_issuer = ''http://'' @ addr, fb_kid = kid, fb_encoding_key = FAKE_ED25519_PKCS8_PREFIX @ seed,
       fb_jwks = [\<lparr>jwk_kid = Some kid, jwk_use = ''sig'', jwk_alg = EdDSA, jwk_kty = ''OKP'', jwk_crv = ''Ed25519'',
         jwk_x = x_b64url E (x_ed25519_public E seed)\<rparr>],
       fb_accounts = Map.empty, fb_jwks_fetches = 0\<rparr>)"

definition fake_issuer :: "fake_bauth \<Rightarrow> string" where
  "fake_issuer fb = fb_issuer fb"

definition fake_verifier :: "fake_bauth \<Rightarrow> string \<Rightarrow> verifier" where
  "fake_verifier fb aud = verifier_new (fb_issuer fb) aud"

text \<open>\<open>now\<close> is the system clock, \<open>sid\<close> and \<open>jti\<close> the two generated ids.\<close>

definition fake_claims :: "fake_bauth \<Rightarrow> time \<Rightarrow> uuid \<Rightarrow> uuid \<Rightarrow> uuid \<Rightarrow> string \<Rightarrow> access_token_claims" where
  "fake_claims fb now sid jti user_id aud = (let n = timestamp now in
     \<lparr>iss_claim = fb_issuer fb, sub_claim = user_id, aud_claim = aud, client_id_claim = ''test-client'',
      sid_claim = sid, iat_claim = n, exp_claim = n + 3600, jti_claim = jti\<rparr>)"

text \<open>\<open>None\<close> is the panic of \<open>expect\<close>.\<close>

definition fake_sign_with_type :: "ext \<Rightarrow> fake_bauth \<Rightarrow> access_token_claims \<Rightarrow> string \<Rightarrow> string option" where
  "fake_sign_with_type E fb claims typ =
     x_jwt_encode E \<lparr>hdr_alg = EdDSA, hdr_typ = Some typ, hdr_kid = Some (fb_kid fb)\<rparr> claims (fb_encoding_key fb)"

definition fake_sign :: "ext \<Rightarrow> fake_bauth \<Rightarrow> access_token_claims \<Rightarrow> string option" where
  "fake_sign E fb claims = fake_sign_with_type E fb claims ''at+jwt''"

definition fake_access_token :: "ext \<Rightarrow> fake_bauth \<Rightarrow> time \<Rightarrow> uuid \<Rightarrow> uuid \<Rightarrow> uuid \<Rightarrow> string \<Rightarrow> string option" where
  "fake_access_token E fb now sid jti user_id aud = fake_sign E fb (fake_claims fb now sid jti user_id aud)"

definition fake_set_account :: "uuid \<Rightarrow> string \<Rightarrow> bool \<Rightarrow> fake_bauth \<Rightarrow> fake_bauth" where
  "fake_set_account user_id email verified fb = fb\<lparr>fb_accounts := (fb_accounts fb)(user_id \<mapsto> (email, verified))\<rparr>"

text \<open>\<open>GET /.well-known/jwks.json\<close>: the keys, and one more fetch counted.\<close>

definition fake_jwks :: "fake_bauth \<Rightarrow> jwk_set \<times> fake_bauth" where
  "fake_jwks fb = (fb_jwks fb, fb\<lparr>fb_jwks_fetches := fb_jwks_fetches fb + 1\<rparr>)"

definition fake_jwks_fetches :: "fake_bauth \<Rightarrow> 64 word" where
  "fake_jwks_fetches fb = fb_jwks_fetches fb"

record fake_me_body =
  fm_id :: uuid
  fm_email :: string
  fm_email_verified :: bool
  fm_created_at :: string

text \<open>\<open>GET /me\<close>: the payload of the bearer token is decoded, not verified; \<open>b64\<close> and \<open>json\<close> decode base64url and
  the claims. \<open>Inl\<close> is a bare status.\<close>

definition payload_of :: "string \<Rightarrow> string option" where
  "payload_of tok = (case split_on (CHR ''.'') tok of _ # p # _ \<Rightarrow> Some p | _ \<Rightarrow> None)"

definition fake_me ::
    "(string \<Rightarrow> bytes option) \<Rightarrow> (bytes \<Rightarrow> access_token_claims option) \<Rightarrow> fake_bauth \<Rightarrow> string option \<Rightarrow> nat + fake_me_body" where
  "fake_me b64 json fb auth =
     (let user_id = Option.bind (bearer_token auth) (\<lambda>tok. Option.bind (payload_of tok) (\<lambda>p.
            Option.bind (b64 p) (\<lambda>payload. map_option sub_claim (json payload))));
          account = Option.bind user_id (\<lambda>i. map_option (Pair i) (fb_accounts fb i))
      in case account of
          Some (i, email, verified) \<Rightarrow> Inr \<lparr>fm_id = i, fm_email = email, fm_email_verified = verified,
            fm_created_at = ''2026-01-01T00:00:00Z''\<rparr>
        | None \<Rightarrow> Inl 401)"

section \<open>What it is for\<close>

lemma fake_prefix: "FAKE_ED25519_PKCS8_PREFIX @ seed = encoding_key seed"
  by (simp add: FAKE_ED25519_PKCS8_PREFIX_def encoding_key_def ED25519_PKCS8_PREFIX_def)

lemma fake_jwk: "fb_jwks (fake_start E seed i addr) = [jwk_of E i (x_ed25519_public E seed)]"
  by (simp add: fake_start_def jwk_of_def Let_def)

text \<open>A token signed with the key, for any claims the verifier accepts.\<close>

lemma fake_token_accepted:
  assumes "jwt_verifies E" "x_jwk_key E (jwk_of E i (x_ed25519_public E seed)) = Some pub"
    and "fake_sign E (fake_start E seed i addr) c = Some tok" "acceptable (v_validation v) c t"
  shows "\<exists>cache. client_verify E v clk (Inr (fb_jwks (fake_start E seed i addr))) t tok empty_cache =
    (Inr \<lparr>au_id = sub_claim c, au_client_id = client_id_claim c, au_claims = c, au_token = tok\<rparr>, cache, True)"
proof -
  let ?fb = "fake_start E seed i addr" and ?h = "\<lparr>hdr_alg = EdDSA, hdr_typ = Some ''at+jwt'', hdr_kid = Some (x_uuid_string E i)\<rparr>"
  have enc: "x_jwt_encode E ?h c (encoding_key seed) = Some tok"
    using assms(3) by (simp add: fake_sign_def fake_sign_with_type_def fake_start_def Let_def fake_prefix)
  have "hdr_alg ?h = EdDSA" by simp
  then have header: "x_jwt_decode_header E tok = Some ?h"
    and decode: "x_jwt_decode E tok pub (v_validation v) t = Some c"
    using assms(1) enc assms(2,4) unfolding jwt_verifies_def by blast+
  have "cache_get (cache_replace E (fb_jwks ?fb) (lc_stored clk)) (x_uuid_string E i) = Some pub"
    using assms(2) unfolding fake_jwk by (simp add: cache_get_def cache_replace_def jwk_of_def)
  moreover have "cache_get empty_cache kid = None" for kid by (simp add: cache_get_def empty_cache_def)
  moreover have "can_refetch x empty_cache" for x by (simp add: can_refetch_def empty_cache_def)
  ultimately show ?thesis
    using header decode by (simp add: client_verify_def client_decoding_key_def refresh_and_get_def Let_def)
qed

text \<open>A token of the test issuer passes the verifier an API gets from it, for the audience
  it was made for, for an hour, and carries the user it was made for; \<open>GET /me\<close> then answers the account set for
  that user, and 401 for a user without one.\<close>

lemma fake_issuer_verifies:
  assumes "jwt_verifies E" "x_jwk_key E (jwk_of E i (x_ed25519_public E seed)) \<noteq> None"
    and "fb = fake_set_account user_id email verified (fake_start E seed i addr)"
    and "fake_access_token E fb now sid jti user_id aud = Some tok" "timestamp t \<le> timestamp now + 3600"
    and "bearer_token auth = Some tok" "payload_of tok = Some p" "b64 p = Some bs"
    and "json bs = Some (fake_claims fb now sid jti user_id aud)"
  shows "(\<exists>cache. client_verify E (fake_verifier fb aud) clk (Inr (fst (fake_jwks fb))) t tok empty_cache =
      (Inr \<lparr>au_id = user_id, au_client_id = ''test-client'', au_claims = fake_claims fb now sid jti user_id aud, au_token = tok\<rparr>,
       cache, True)) \<and>
    fake_me b64 json fb auth = Inr \<lparr>fm_id = user_id, fm_email = email, fm_email_verified = verified, fm_created_at = ''2026-01-01T00:00:00Z''\<rparr> \<and>
    fake_me b64 json (fb\<lparr>fb_accounts := Map.empty\<rparr>) auth = Inl 401"
proof -
  let ?f0 = "fake_start E seed i addr"
  have same: "fb_jwks fb = fb_jwks ?f0" "fb_issuer fb = fb_issuer ?f0" "fb_kid fb = fb_kid ?f0" "fb_encoding_key fb = fb_encoding_key ?f0"
    by (simp_all add: assms(3) fake_set_account_def)
  let ?c = "fake_claims fb now sid jti user_id aud"
  from assms(2) obtain pub where pub: "x_jwk_key E (jwk_of E i (x_ed25519_public E seed)) = Some pub" by blast
  have sign: "fake_sign E ?f0 ?c = Some tok"
    using assms(4) by (simp add: fake_access_token_def fake_sign_def fake_sign_with_type_def same)
  have "acceptable (v_validation (fake_verifier fb aud)) ?c t"
    using assms(5) by (simp add: acceptable_def fake_verifier_def verifier_new_def fake_claims_def Let_def CLIENT_LEEWAY_SECONDS_def)
  from fake_token_accepted [OF assms(1) pub sign this, of clk]
  have "\<exists>cache. client_verify E (fake_verifier fb aud) clk (Inr (fst (fake_jwks fb))) t tok empty_cache =
      (Inr \<lparr>au_id = user_id, au_client_id = ''test-client'', au_claims = ?c, au_token = tok\<rparr>, cache, True)"
    by (simp add: fake_jwks_def same fake_claims_def Let_def)
  moreover have "fb_accounts fb user_id = Some (email, verified)" by (simp add: assms(3) fake_set_account_def)
  moreover have "sub_claim ?c = user_id" by (simp add: fake_claims_def Let_def)
  ultimately show ?thesis
    using assms(6-9) by (simp add: fake_me_def)
qed

section \<open>A concrete issuer\<close>

definition test_header :: jwt_header where
  "test_header = \<lparr>hdr_alg = EdDSA, hdr_typ = Some ''at+jwt'', hdr_kid = Some (replicate 7 (CHR ''x''))\<rparr>"

definition test_claims :: access_token_claims where
  "test_claims = \<lparr>iss_claim = ''http://127.0.0.1:4000'', sub_claim = 1, aud_claim = ''my-api'', client_id_claim = ''test-client'',
     sid_claim = 2, iat_claim = 0, exp_claim = 3600, jti_claim = 3\<rparr>"

definition test_ext :: ext where
  "test_ext = demo_ext\<lparr>x_uuid_string := (\<lambda>u. replicate (unat u) (CHR ''x'')),
     x_jwt_encode := (\<lambda>h c k. if h = test_header \<and> c = test_claims then Some ''a.b.c'' else None),
     x_jwt_decode_header := (\<lambda>_. Some test_header),
     x_jwt_decode := (\<lambda>_ _ v now. if acceptable v test_claims now then Some test_claims else None)\<rparr>"

definition test_issuer :: fake_bauth where
  "test_issuer = fake_set_account 1 ''a@b.c'' True (fake_start test_ext (replicate 32 (CHR ''s'')) 7 ''127.0.0.1:4000'')"

lemma fake_issuer_verifies_concrete:
  "fake_me Some (\<lambda>_. Some test_claims) test_issuer (Some ''Bearer a.b.c'') =
     Inr \<lparr>fm_id = 1, fm_email = ''a@b.c'', fm_email_verified = True, fm_created_at = ''2026-01-01T00:00:00Z''\<rparr>"
proof -
  have ext: "jwt_verifies test_ext" by (simp add: jwt_verifies_def test_ext_def)
  have claims: "fake_claims test_issuer 0 2 3 1 ''my-api'' = test_claims"
    by (simp add: fake_claims_def test_issuer_def fake_set_account_def fake_start_def test_claims_def timestamp_def Let_def)
  have signed: "fake_access_token test_ext test_issuer 0 2 3 1 ''my-api'' = Some ''a.b.c''"
    unfolding fake_access_token_def claims
    by (simp add: fake_sign_def fake_sign_with_type_def test_issuer_def fake_set_account_def
        fake_start_def test_ext_def test_header_def Let_def)
  have "bearer_token (Some ''Bearer a.b.c'') = Some ''a.b.c''" "payload_of ''a.b.c'' = Some ''b''"
    by (simp_all add: payload_of_def, code_simp)
  with fake_issuer_verifies [OF ext _ test_issuer_def signed, of 0 "Some ''Bearer a.b.c''" "''b''" Some "''b''" "\<lambda>_. Some test_claims"]
  show ?thesis by (simp add: claims timestamp_def test_ext_def demo_ext_def)
qed

end
