(* ===== verification/VerifierCache.thy ===== *)
theory VerifierCache
  imports Keys
begin

text \<open>
  The key cache of \<open>bauth_client::Verifier\<close> over a whole run: a sequence of verifications, each with the clock
  readings of its lookup and what the issuer would answer if asked. The write lock serialises the part that
  replaces the cache, so the run is a list. Shown: which key a token is accepted under, how far apart the
  successful fetches are, that an outage of the issuer does not stop known keys, and that a withdrawn key stops
  being accepted within the maximal age of the cache.
\<close>

section \<open>Runs\<close>

record lookup =
  lk_clock :: lookup_clock
  lk_answer :: "string + jwk_set"
  lk_now :: time
  lk_token :: string

definition verify_lookup :: "ext \<Rightarrow> verifier \<Rightarrow> lookup \<Rightarrow> key_cache \<Rightarrow> (verify_error + auth_user) \<times> key_cache \<times> bool" where
  "verify_lookup E v l c = client_verify E v (lk_clock l) (lk_answer l) (lk_now l) (lk_token l) c"

primrec cache_after :: "ext \<Rightarrow> verifier \<Rightarrow> lookup list \<Rightarrow> nat \<Rightarrow> key_cache" where
  "cache_after E v ls 0 = empty_cache"
| "cache_after E v ls (Suc i) = fst (snd (verify_lookup E v (ls ! i) (cache_after E v ls i)))"

definition outcome :: "ext \<Rightarrow> verifier \<Rightarrow> lookup list \<Rightarrow> nat \<Rightarrow> verify_error + auth_user" where
  "outcome E v ls i = fst (verify_lookup E v (ls ! i) (cache_after E v ls i))"

definition asked_at :: "ext \<Rightarrow> verifier \<Rightarrow> lookup list \<Rightarrow> nat \<Rightarrow> bool" where
  "asked_at E v ls i = snd (snd (verify_lookup E v (ls ! i) (cache_after E v ls i)))"

text \<open>A fetch that brought keys.\<close>

definition fetched_at :: "ext \<Rightarrow> verifier \<Rightarrow> lookup list \<Rightarrow> nat \<Rightarrow> bool" where
  "fetched_at E v ls i \<longleftrightarrow> asked_at E v ls i \<and> \<not> isl (lk_answer (ls ! i))"

section \<open>One verification\<close>

text \<open>The key a lookup yields and the cache it leaves.\<close>

lemma refresh_and_get_cache:
  assumes "refresh_and_get E t answer kid c = (r, c', asked)"
  shows "c' = (case answer of Inr jwks \<Rightarrow> if asked then cache_replace E jwks (lc_stored t) else c | Inl _ \<Rightarrow> c)"
    and "r = Inr key \<Longrightarrow> cache_get c' kid = Some key" and "asked \<Longrightarrow> can_refetch (lc_refetch t) c"
  using assms by (auto simp: refresh_and_get_def Let_def split: if_splits sum.splits option.splits)

lemma decoding_key_cache:
  assumes "client_decoding_key E t answer kid c = (r, c', asked)"
  shows "c' = (case answer of Inr jwks \<Rightarrow> if asked then cache_replace E jwks (lc_stored t) else c | Inl _ \<Rightarrow> c)"
    and "r = Inr key \<Longrightarrow> cache_get c' kid = Some key" and "asked \<Longrightarrow> can_refetch (lc_refetch t) c"
proof -
  have "(\<exists>key'. cache_get c kid = Some key' \<and> r = Inr key' \<and> c' = c \<and> \<not> asked) \<or> refresh_and_get E t answer kid c = (r, c', asked)"
    using assms unfolding client_decoding_key_def by (simp split: option.splits if_splits)
  note cases = this
  show "c' = (case answer of Inr jwks \<Rightarrow> if asked then cache_replace E jwks (lc_stored t) else c | Inl _ \<Rightarrow> c)"
    using cases refresh_and_get_cache(1) [of E t answer kid c r c' asked] by (cases answer) auto
  show "r = Inr key \<Longrightarrow> cache_get c' kid = Some key"
    using cases refresh_and_get_cache(2) [of E t answer kid c r c' asked key] by auto
  show "asked \<Longrightarrow> can_refetch (lc_refetch t) c"
    using cases refresh_and_get_cache(3) [of E t answer kid c r c' asked] by auto
qed

text \<open>What accepting a token means, over the keys in a cache.\<close>

definition accepted_under :: "ext \<Rightarrow> verifier \<Rightarrow> key_cache \<Rightarrow> lookup \<Rightarrow> auth_user \<Rightarrow> bool" where
  "accepted_under E v c l u \<longleftrightarrow> (\<exists>h kid key claims. x_jwt_decode_header E (lk_token l) = Some h \<and> hdr_alg h = EdDSA \<and>
     hdr_typ h = Some ''at+jwt'' \<and> hdr_kid h = Some kid \<and> cache_get c kid = Some key \<and>
     x_jwt_decode E (lk_token l) key (v_validation v) (lk_now l) = Some claims \<and>
     u = \<lparr>au_id = sub_claim claims, au_client_id = client_id_claim claims, au_claims = claims, au_token = lk_token l\<rparr>)"

lemma verify_lookup_cache:
  assumes "verify_lookup E v l c = (r, c', asked)"
  shows "c' = (case lk_answer l of Inr jwks \<Rightarrow> if asked then cache_replace E jwks (lc_stored (lk_clock l)) else c | Inl _ \<Rightarrow> c)"
    and "r = Inr u \<Longrightarrow> accepted_under E v c' l u" and "asked \<Longrightarrow> can_refetch (lc_refetch (lk_clock l)) c"
proof -
  consider (no) e where "(r, c', asked) = (Inl e, c, False)"
    | (key) h kid k where "x_jwt_decode_header E (lk_token l) = Some h" "hdr_alg h = EdDSA" "hdr_typ h = Some ''at+jwt''"
        "hdr_kid h = Some kid" "client_decoding_key E (lk_clock l) (lk_answer l) kid c = (k, c', asked)"
        "r = (case k of Inl e \<Rightarrow> Inl e | Inr key \<Rightarrow> (case x_jwt_decode E (lk_token l) key (v_validation v) (lk_now l) of None \<Rightarrow> Inl Invalid
           | Some claims \<Rightarrow> Inr \<lparr>au_id = sub_claim claims, au_client_id = client_id_claim claims, au_claims = claims, au_token = lk_token l\<rparr>))"
    using assms by (auto simp: verify_lookup_def client_verify_def split: option.splits if_splits prod.splits sum.splits)
  note cases = this
  show "c' = (case lk_answer l of Inr jwks \<Rightarrow> if asked then cache_replace E jwks (lc_stored (lk_clock l)) else c | Inl _ \<Rightarrow> c)"
    using cases by cases (use decoding_key_cache(1) in \<open>auto split: sum.split\<close>)
  show "asked \<Longrightarrow> can_refetch (lc_refetch (lk_clock l)) c"
    using cases by cases (use decoding_key_cache(3) in auto)
  show "r = Inr u \<Longrightarrow> accepted_under E v c' l u"
    using cases
  proof cases
    case key
    assume "r = Inr u"
    with key(6) obtain pub claims where "k = Inr pub" "x_jwt_decode E (lk_token l) pub (v_validation v) (lk_now l) = Some claims"
      "u = \<lparr>au_id = sub_claim claims, au_client_id = client_id_claim claims, au_claims = claims, au_token = lk_token l\<rparr>"
      by (auto split: sum.splits option.splits)
    with key decoding_key_cache(2) [OF key(5)] show ?thesis unfolding accepted_under_def by blast
  qed simp
qed

section \<open>The cache over a run\<close>

lemma verify_run: "verify_lookup E v (ls ! i) (cache_after E v ls i) = (outcome E v ls i, cache_after E v ls (Suc i), asked_at E v ls i)"
  by (simp add: outcome_def asked_at_def prod_eq_iff)

lemmas run_step = verify_lookup_cache [OF verify_run]

lemma cache_step: "cache_after E v ls (Suc i) = (case lk_answer (ls ! i) of
    Inr jwks \<Rightarrow> if asked_at E v ls i then cache_replace E jwks (lc_stored (lk_clock (ls ! i))) else cache_after E v ls i
  | Inl _ \<Rightarrow> cache_after E v ls i)"
  by (rule run_step(1))

text \<open>The cache is empty, or holds the keys of the last successful fetch.\<close>

lemma cache_source:
  "cache_after E v ls i = empty_cache \<and> (\<forall>k < i. \<not> fetched_at E v ls k) \<or>
   (\<exists>j < i. \<exists>jwks. fetched_at E v ls j \<and> lk_answer (ls ! j) = Inr jwks \<and>
      cache_after E v ls i = cache_replace E jwks (lc_stored (lk_clock (ls ! j))) \<and> (\<forall>k. j < k \<and> k < i \<longrightarrow> \<not> fetched_at E v ls k))"
proof (induction i)
  case (Suc i)
  show ?case
  proof (cases "fetched_at E v ls i")
    case True
    then obtain jwks where "lk_answer (ls ! i) = Inr jwks" "asked_at E v ls i" by (cases "lk_answer (ls ! i)") (auto simp: fetched_at_def)
    with True show ?thesis by (intro disjI2 exI [of _ i]) (auto simp: cache_step simp del: cache_after.simps)
  next
    case False
    then have "cache_after E v ls (Suc i) = cache_after E v ls i"
      by (auto simp: cache_step fetched_at_def simp del: cache_after.simps split: sum.split)
    with Suc.IH False show ?thesis by (metis less_Suc_eq less_antisym)
  qed
qed simp

lemma cache_replace_get: "cache_get (cache_replace E jwks t) kid = Some key \<Longrightarrow>
    \<exists>jwk \<in> set jwks. jwk_kid jwk = Some kid \<and> x_jwk_key E jwk = Some key"
  by (fastforce simp: cache_get_def cache_replace_def map_filter_def split: option.splits dest!: map_of_SomeD)

text \<open>A token accepted under one of the keys of an answer.\<close>

definition accepted_with :: "ext \<Rightarrow> verifier \<Rightarrow> lookup \<Rightarrow> jwk_set \<Rightarrow> auth_user \<Rightarrow> bool" where
  "accepted_with E v l jwks u \<longleftrightarrow> (\<exists>jwk key h. jwk \<in> set jwks \<and> x_jwk_key E jwk = Some key \<and>
     x_jwt_decode_header E (lk_token l) = Some h \<and> hdr_alg h = EdDSA \<and> hdr_typ h = Some ''at+jwt'' \<and>
     hdr_kid h = jwk_kid jwk \<and> jwk_kid jwk \<noteq> None \<and>
     x_jwt_decode E (lk_token l) key (v_validation v) (lk_now l) = Some (au_claims u) \<and>
     au_id u = sub_claim (au_claims u) \<and> au_client_id u = client_id_claim (au_claims u) \<and> au_token u = lk_token l)"

lemma accepted_with_answer:
  assumes "accepted_under E v (cache_replace E jwks t) l u"
  shows "accepted_with E v l jwks u"
proof -
  from assms obtain h kid key claims where h: "x_jwt_decode_header E (lk_token l) = Some h" "hdr_alg h = EdDSA"
    "hdr_typ h = Some ''at+jwt''" "hdr_kid h = Some kid" "cache_get (cache_replace E jwks t) kid = Some key"
    "x_jwt_decode E (lk_token l) key (v_validation v) (lk_now l) = Some claims"
    "u = \<lparr>au_id = sub_claim claims, au_client_id = client_id_claim claims, au_claims = claims, au_token = lk_token l\<rparr>"
    unfolding accepted_under_def by blast
  from cache_replace_get [OF h(5)] obtain jwk where "jwk \<in> set jwks" "jwk_kid jwk = Some kid" "x_jwk_key E jwk = Some key" by blast
  with h show ?thesis unfolding accepted_with_def by (intro exI [of _ jwk] exI [of _ key] exI [of _ h]) simp
qed

text \<open>Without asking the issuer, a token is only accepted while the keys are younger than an hour.\<close>

definition clock_ok :: "lookup_clock \<Rightarrow> bool" where
  "clock_ok t \<longleftrightarrow> lc_read t \<le> lc_write t \<and> lc_write t \<le> lc_refetch t"

lemma decoding_key_fresh:
  assumes "client_decoding_key E t answer kid c = (Inr key, c', False)" "kc_fetched_at c = Some at" "clock_ok t"
  shows "lc_read t < at + JWKS_MAX_AGE"
proof -
  have "MIN_REFETCH_INTERVAL \<le> JWKS_MAX_AGE" by (simp add: MIN_REFETCH_INTERVAL_def JWKS_MAX_AGE_def time_defs)
  moreover have "\<not> is_stale (lc_read t) c \<or> \<not> is_stale (lc_write t) c \<or> \<not> can_refetch (lc_refetch t) c"
    using assms(1) by (auto simp: client_decoding_key_def refresh_and_get_def Let_def split: option.splits if_splits sum.splits)
  ultimately show ?thesis
    using assms(2,3) by (auto simp: is_stale_def can_refetch_def clock_ok_def)
qed

lemma verify_fresh:
  assumes "verify_lookup E v l c = (Inr u, c', False)" "kc_fetched_at c = Some at" "clock_ok (lk_clock l)"
  shows "lc_read (lk_clock l) < at + JWKS_MAX_AGE"
proof -
  from assms(1) obtain kid key where "client_decoding_key E (lk_clock l) (lk_answer l) kid c = (Inr key, c', False)"
    by (auto simp: verify_lookup_def client_verify_def split: option.splits if_splits prod.splits sum.splits)
  from decoding_key_fresh [OF this assms(2,3)] show ?thesis .
qed

text \<open>The last answer before or at a verification.\<close>

definition last_answer :: "ext \<Rightarrow> verifier \<Rightarrow> lookup list \<Rightarrow> nat \<Rightarrow> nat \<Rightarrow> jwk_set \<Rightarrow> bool" where
  "last_answer E v ls i j jwks \<longleftrightarrow> j \<le> i \<and> fetched_at E v ls j \<and> lk_answer (ls ! j) = Inr jwks \<and>
     (\<forall>k. j < k \<and> k \<le> i \<longrightarrow> \<not> fetched_at E v ls k)"

lemma accepted_last_answer:
  assumes "outcome E v ls i = Inr u" "clock_ok (lk_clock (ls ! i))"
  shows "\<exists>j jwks. last_answer E v ls i j jwks \<and> accepted_with E v (ls ! i) jwks u \<and>
    (asked_at E v ls i \<or> lc_read (lk_clock (ls ! i)) < lc_stored (lk_clock (ls ! j)) + JWKS_MAX_AGE)"
proof -
  have acc: "accepted_under E v (cache_after E v ls (Suc i)) (ls ! i) u" by (rule run_step(2) [OF assms(1)])
  then have "cache_after E v ls (Suc i) \<noteq> empty_cache" unfolding accepted_under_def by (auto simp: cache_get_def empty_cache_def)
  with cache_source [of E v ls "Suc i"] obtain j jwks where
    j: "j \<le> i" "fetched_at E v ls j" "lk_answer (ls ! j) = Inr jwks" "\<forall>k. j < k \<and> k < Suc i \<longrightarrow> \<not> fetched_at E v ls k"
      "cache_after E v ls (Suc i) = cache_replace E jwks (lc_stored (lk_clock (ls ! j)))"
    by (auto simp del: cache_after.simps simp: less_Suc_eq_le)
  then have last: "last_answer E v ls i j jwks" by (auto simp: last_answer_def)
  have fresh: "lc_read (lk_clock (ls ! i)) < lc_stored (lk_clock (ls ! j)) + JWKS_MAX_AGE" if "\<not> asked_at E v ls i"
  proof (rule verify_fresh [OF _ _ assms(2)])
    show "verify_lookup E v (ls ! i) (cache_after E v ls i) = (Inr u, cache_after E v ls (Suc i), False)"
      using verify_run [of E v ls i] that assms(1) by simp
    have "cache_after E v ls (Suc i) = cache_after E v ls i"
      using that by (simp add: cache_step del: cache_after.simps split: sum.split)
    with j(5) have "cache_after E v ls i = cache_replace E jwks (lc_stored (lk_clock (ls ! j)))" by (simp only:)
    then show "kc_fetched_at (cache_after E v ls i) = Some (lc_stored (lk_clock (ls ! j)))" by (simp add: cache_replace_def)
  qed
  from acc j(5) have "accepted_with E v (ls ! i) jwks u" by (simp only: accepted_with_answer)
  with last fresh show ?thesis by blast
qed

lemma fetches_apart:
  assumes "sorted (map (\<lambda>l. lc_stored (lk_clock l)) ls)" "i < j" "j < length ls" "fetched_at E v ls i" "fetched_at E v ls j"
  shows "lc_stored (lk_clock (ls ! i)) + MIN_REFETCH_INTERVAL \<le> lc_refetch (lk_clock (ls ! j))"
proof -
  from cache_source [of E v ls j] assms(2,4) obtain k jwks where
    k: "k < j" "cache_after E v ls j = cache_replace E jwks (lc_stored (lk_clock (ls ! k)))" "\<forall>n. k < n \<and> n < j \<longrightarrow> \<not> fetched_at E v ls n"
    by blast
  then have "i \<le> k" using assms(2,4) by (meson not_le_imp_less)
  then have "lc_stored (lk_clock (ls ! i)) \<le> lc_stored (lk_clock (ls ! k))"
    using sorted_nth_mono [OF assms(1), of i k] k(1) assms(3) by simp
  moreover have "can_refetch (lc_refetch (lk_clock (ls ! j))) (cache_replace E jwks (lc_stored (lk_clock (ls ! k))))"
    using run_step(3) [of E v ls j] assms(5) k(2) by (simp add: fetched_at_def)
  ultimately show ?thesis by (simp add: can_refetch_def cache_replace_def)
qed

text \<open>While the issuer does not answer, a cached key serves, whatever its age.\<close>

lemma outage_serves:
  assumes "lk_answer l = Inl e" "accepted_under E v c l u"
  shows "fst (verify_lookup E v l c) = Inr u"
proof -
  from assms(2) obtain h kid key claims where h: "x_jwt_decode_header E (lk_token l) = Some h" "hdr_alg h = EdDSA"
    "hdr_typ h = Some ''at+jwt''" "hdr_kid h = Some kid" and key: "cache_get c kid = Some key"
    and u: "x_jwt_decode E (lk_token l) key (v_validation v) (lk_now l) = Some claims"
    "u = \<lparr>au_id = sub_claim claims, au_client_id = client_id_claim claims, au_claims = claims, au_token = lk_token l\<rparr>"
    unfolding accepted_under_def by blast
  from key have "fst (client_decoding_key E (lk_clock l) (Inl e) kid c) = Inr key"
    by (auto simp: client_decoding_key_def refresh_and_get_def Let_def cache_get_def)
  then obtain c' asked where "client_decoding_key E (lk_clock l) (Inl e) kid c = (Inr key, c', asked)" by (metis prod.collapse)
  with assms(1) h u show ?thesis by (simp add: verify_lookup_def client_verify_def)
qed

text \<open>Over any run of a verifier, from its empty cache: a token is accepted only as a
  typed EdDSA access token, under a key of the last set of keys the issuer answered with, and unless the issuer was
  asked at that very verification that set is less than an hour old; two successful fetches are at least thirty
  seconds apart; and while the issuer is unreachable every token the cached keys verify is still accepted.\<close>

lemma verifier_keys:
  assumes "sorted (map (\<lambda>l. lc_stored (lk_clock l)) ls)" "\<And>l. l \<in> set ls \<Longrightarrow> clock_ok (lk_clock l)" "i < length ls"
  shows "(\<forall>u. outcome E v ls i = Inr u \<longrightarrow> (\<exists>j jwks. last_answer E v ls i j jwks \<and> accepted_with E v (ls ! i) jwks u \<and>
        (asked_at E v ls i \<or> lc_read (lk_clock (ls ! i)) < lc_stored (lk_clock (ls ! j)) + JWKS_MAX_AGE))) \<and>
    (\<forall>j < i. fetched_at E v ls j \<and> fetched_at E v ls i \<longrightarrow>
        lc_stored (lk_clock (ls ! j)) + MIN_REFETCH_INTERVAL \<le> lc_refetch (lk_clock (ls ! i))) \<and>
    (\<forall>e u. lk_answer (ls ! i) = Inl e \<and> accepted_under E v (cache_after E v ls i) (ls ! i) u \<longrightarrow> outcome E v ls i = Inr u)"
proof (intro conjI allI impI)
  fix u assume "outcome E v ls i = Inr u"
  then show "\<exists>j jwks. last_answer E v ls i j jwks \<and> accepted_with E v (ls ! i) jwks u \<and>
      (asked_at E v ls i \<or> lc_read (lk_clock (ls ! i)) < lc_stored (lk_clock (ls ! j)) + JWKS_MAX_AGE)"
    using assms(2) [of "ls ! i"] assms(3) by (intro accepted_last_answer) simp_all
next
  fix j assume "j < i" "fetched_at E v ls j \<and> fetched_at E v ls i"
  then show "lc_stored (lk_clock (ls ! j)) + MIN_REFETCH_INTERVAL \<le> lc_refetch (lk_clock (ls ! i))"
    using fetches_apart [OF assms(1) _ assms(3)] by blast
next
  fix e u assume "lk_answer (ls ! i) = Inl e \<and> accepted_under E v (cache_after E v ls i) (ls ! i) u"
  then show "outcome E v ls i = Inr u" unfolding outcome_def using outage_serves by blast
qed

text \<open>The bound on fetches does not cover failed ones: while the issuer does not answer, every verification of a
  verifier without keys asks it again.\<close>

lemma outage_asks_every_time:
  assumes "\<And>l. l \<in> set ls \<Longrightarrow> isl (lk_answer l)"
    and "\<And>l. l \<in> set ls \<Longrightarrow> \<exists>h kid. x_jwt_decode_header E (lk_token l) = Some h \<and> hdr_alg h = EdDSA \<and> hdr_typ h = Some ''at+jwt'' \<and> hdr_kid h = Some kid"
    and "i < length ls"
  shows "asked_at E v ls i"
proof -
  have "\<not> fetched_at E v ls k" if "k < length ls" for k using assms(1) that by (simp add: fetched_at_def)
  with cache_source [of E v ls i] assms(3) have "cache_after E v ls i = empty_cache" by (meson order.strict_trans)
  moreover obtain h kid e where "x_jwt_decode_header E (lk_token (ls ! i)) = Some h" "hdr_alg h = EdDSA"
    "hdr_typ h = Some ''at+jwt''" "hdr_kid h = Some kid" "lk_answer (ls ! i) = Inl e"
    using assms(1,2) [of "ls ! i"] assms(3) by (auto elim!: isl_def [THEN iffD1, THEN exE] )
  ultimately show ?thesis
    by (simp add: asked_at_def verify_lookup_def client_verify_def client_decoding_key_def refresh_and_get_def Let_def
        cache_get_def empty_cache_def is_stale_def can_refetch_def)
qed

section \<open>A concrete run\<close>

text \<open>The first token fetches the keys; the second is verified two hours later, during an outage.\<close>

definition late_clock :: lookup_clock where
  "late_clock = \<lparr>lc_read = seconds 7200, lc_write = seconds 7200, lc_refetch = seconds 7200, lc_stored = seconds 7200\<rparr>"

definition demo_jwk :: jwk where
  "demo_jwk = \<lparr>jwk_kid = Some ''7'', jwk_use = ''sig'', jwk_alg = EdDSA, jwk_kty = ''OKP'', jwk_crv = ''Ed25519'', jwk_x = ''x''\<rparr>"

definition demo_run :: "lookup list" where
  "demo_run = [\<lparr>lk_clock = zero_clock, lk_answer = Inr [demo_jwk], lk_now = 0, lk_token = ''jwt''\<rparr>,
     \<lparr>lk_clock = late_clock, lk_answer = Inl ''down'', lk_now = 0, lk_token = ''jwt''\<rparr>]"

lemma verifier_keys_concrete:
  "outcome demo_ext (verifier_new ''https://id'' ''web'') demo_run 1 =
     Inr \<lparr>au_id = 1, au_client_id = ''web'', au_claims = demo_claims, au_token = ''jwt''\<rparr>"
proof -
  let ?v = "verifier_new ''https://id'' ''web''"
  have cache: "cache_after demo_ext ?v demo_run 1 = \<lparr>kc_keys = [(''7'', ''x'')], kc_fetched_at = Some 0\<rparr>"
    by (simp add: demo_run_def verify_lookup_def client_verify_def client_decoding_key_def refresh_and_get_def Let_def cache_get_def
        empty_cache_def is_stale_def can_refetch_def demo_ext_def demo_jwk_def cache_replace_def zero_clock_def map_filter_def)
  have "accepted_under demo_ext ?v (cache_after demo_ext ?v demo_run 1) (demo_run ! 1)
      \<lparr>au_id = 1, au_client_id = ''web'', au_claims = demo_claims, au_token = ''jwt''\<rparr>"
    unfolding cache by (simp add: accepted_under_def demo_ext_def demo_run_def cache_get_def demo_claims_def)
  moreover have "lk_answer (demo_run ! 1) = Inl ''down''" by (simp add: demo_run_def)
  moreover have "sorted (map (\<lambda>l. lc_stored (lk_clock l)) demo_run)" "l \<in> set demo_run \<Longrightarrow> clock_ok (lk_clock l)"
    "1 < length demo_run" for l
    by (auto simp: demo_run_def clock_ok_def zero_clock_def late_clock_def time_defs)
  ultimately show ?thesis using verifier_keys [of demo_run 1 demo_ext ?v] by blast
qed

end
