(* ===== verification/VerifierTasks.thy ===== *)
theory VerifierTasks
  imports VerifierCache
begin

text \<open>
  \<open>bauth_client::Verifier\<close> shared by concurrent tasks. \<open>decoding_key\<close> reads the cache under a read lock, gives it up,
  and takes the write lock only on a miss; it then looks again, because another task may have refreshed meanwhile, and
  keeps the lock while it waits for the issuer. The steps of the tasks interleave in any order; of the lock
  (\<open>tokio::sync::RwLock\<close>) only mutual exclusion is used. Shown: every interleaving gives each task the result, the
  issuer the requests and the cache the content of some run of whole verifications, one after the other, so that
  everything theory \<open>VerifierCache\<close> shows of such runs holds of concurrent use.
\<close>

section \<open>Tasks\<close>

text \<open>A task is about to verify, has missed under the read lock, waits for the issuer under the write lock, or is done.
  The times are the readings of the clock at the beginning of the write section.\<close>

datatype phase = Ready | Missed string | Fetching string time | Done "verify_error + auth_user"

record tasks =
  ts_phase :: "nat \<Rightarrow> phase"
  ts_cache :: key_cache
  ts_lock :: "nat option"
  ts_clock :: time
  ts_asked :: nat

text \<open>The checks on the header, before the cache; \<open>Inl\<close> is \<open>Malformed\<close>.\<close>

definition token_kid :: "ext \<Rightarrow> string \<Rightarrow> verify_error + string" where
  "token_kid E tok = (case x_jwt_decode_header E tok of
      None \<Rightarrow> Inl Malformed
    | Some h \<Rightarrow> if hdr_alg h \<noteq> EdDSA \<or> hdr_typ h \<noteq> Some ''at+jwt'' then Inl Malformed
        else (case hdr_kid h of None \<Rightarrow> Inl Malformed | Some kid \<Rightarrow> Inr kid))"

text \<open>The rest, with the key; \<open>now\<close> is the wall clock.\<close>

definition decode_with :: "ext \<Rightarrow> verifier \<Rightarrow> time \<Rightarrow> string \<Rightarrow> verify_error + bytes \<Rightarrow> verify_error + auth_user" where
  "decode_with E v now tok r = (case r of
      Inl e \<Rightarrow> Inl e
    | Inr key \<Rightarrow> (case x_jwt_decode E tok key (v_validation v) now of
        None \<Rightarrow> Inl Invalid
      | Some claims \<Rightarrow> Inr \<lparr>au_id = sub_claim claims, au_client_id = client_id_claim claims, au_claims = claims, au_token = tok\<rparr>))"

definition cached_key :: "string \<Rightarrow> key_cache \<Rightarrow> verify_error + bytes" where
  "cached_key kid c = (case cache_get c kid of None \<Rightarrow> Inl UnknownKey | Some key \<Rightarrow> Inr key)"

definition finish :: "nat \<Rightarrow> verify_error + auth_user \<Rightarrow> time \<Rightarrow> tasks \<Rightarrow> tasks" where
  "finish i r t s = s\<lparr>ts_phase := (ts_phase s)(i := Done r), ts_clock := t\<rparr>"

text \<open>One step of task \<open>i\<close> with token \<open>tok i\<close>, at a time \<open>t\<close> not before the last one. A write section is one step when it
  does not ask the issuer and two when it does; nothing else touches the cache in between.\<close>

inductive task_step :: "ext \<Rightarrow> verifier \<Rightarrow> (nat \<Rightarrow> string) \<Rightarrow> tasks \<Rightarrow> tasks \<Rightarrow> bool" for E v tok where
  malformed: "\<lbrakk>ts_phase s i = Ready; token_kid E (tok i) = Inl e; ts_clock s \<le> t\<rbrakk>
    \<Longrightarrow> task_step E v tok s (finish i (Inl e) t s)"
| read_hit: "\<lbrakk>ts_phase s i = Ready; token_kid E (tok i) = Inr kid; ts_lock s = None; ts_clock s \<le> t;
    cache_get (ts_cache s) kid = Some key; \<not> is_stale t (ts_cache s)\<rbrakk>
    \<Longrightarrow> task_step E v tok s (finish i (decode_with E v now (tok i) (Inr key)) t s)"
| read_miss: "\<lbrakk>ts_phase s i = Ready; token_kid E (tok i) = Inr kid; ts_lock s = None; ts_clock s \<le> t;
    cache_get (ts_cache s) kid = None \<or> is_stale t (ts_cache s)\<rbrakk>
    \<Longrightarrow> task_step E v tok s (s\<lparr>ts_phase := (ts_phase s)(i := Missed kid), ts_clock := t\<rparr>)"
| write_cached: "\<lbrakk>ts_phase s i = Missed kid; ts_lock s = None; ts_clock s \<le> t;
    \<not> ((is_stale t (ts_cache s) \<or> cache_get (ts_cache s) kid = None) \<and> can_refetch t (ts_cache s))\<rbrakk>
    \<Longrightarrow> task_step E v tok s (finish i (decode_with E v now (tok i) (cached_key kid (ts_cache s))) t s)"
| write_ask: "\<lbrakk>ts_phase s i = Missed kid; ts_lock s = None; ts_clock s \<le> t;
    is_stale t (ts_cache s) \<or> cache_get (ts_cache s) kid = None; can_refetch t (ts_cache s)\<rbrakk>
    \<Longrightarrow> task_step E v tok s (s\<lparr>ts_phase := (ts_phase s)(i := Fetching kid t), ts_lock := Some i, ts_clock := t,
      ts_asked := Suc (ts_asked s)\<rparr>)"
| answered: "\<lbrakk>ts_phase s i = Fetching kid t0; ts_lock s = Some i; ts_clock s \<le> t; c = cache_replace E jwks t\<rbrakk>
    \<Longrightarrow> task_step E v tok s (finish i (decode_with E v now (tok i) (cached_key kid c)) t (s\<lparr>ts_cache := c, ts_lock := None\<rparr>))"
| failed: "\<lbrakk>ts_phase s i = Fetching kid t0; ts_lock s = Some i; ts_clock s \<le> t;
    r = (if kc_keys (ts_cache s) \<noteq> [] then cached_key kid (ts_cache s) else Inl (Jwks e))\<rbrakk>
    \<Longrightarrow> task_step E v tok s (finish i (decode_with E v now (tok i) r) t (s\<lparr>ts_lock := None\<rparr>))"

inductive task_run :: "ext \<Rightarrow> verifier \<Rightarrow> (nat \<Rightarrow> string) \<Rightarrow> tasks \<Rightarrow> bool" for E v tok where
  start: "task_run E v tok \<lparr>ts_phase = (\<lambda>_. Ready), ts_cache = empty_cache, ts_lock = None, ts_clock = t, ts_asked = 0\<rparr>"
| step: "\<lbrakk>task_run E v tok s; task_step E v tok s s'\<rbrakk> \<Longrightarrow> task_run E v tok s'"

section \<open>Whole verifications\<close>

lemma verify_parts: "verify_lookup E v l c = (case token_kid E (lk_token l) of
    Inl e \<Rightarrow> (Inl e, c, False)
  | Inr kid \<Rightarrow> (case client_decoding_key E (lk_clock l) (lk_answer l) kid c of
      (r, c', asked) \<Rightarrow> (decode_with E v (lk_now l) (lk_token l) r, c', asked)))"
  by (auto simp: verify_lookup_def client_verify_def token_kid_def decode_with_def split: option.split sum.split prod.split)

text \<open>When the read lock and the write lock see the same cache at the same time, reading first changes nothing.\<close>

lemma decoding_key_direct: "lc_read t = lc_write t \<Longrightarrow> client_decoding_key E t answer kid c = refresh_and_get E t answer kid c"
  by (auto simp: client_decoding_key_def refresh_and_get_def Let_def split: option.split)

definition at_time :: "time \<Rightarrow> time \<Rightarrow> lookup_clock" where
  "at_time t t' = \<lparr>lc_read = t, lc_write = t, lc_refetch = t, lc_stored = t'\<rparr>"

lemma at_time_simps [simp]: "lc_read (at_time t t') = t" "lc_write (at_time t t') = t" "lc_refetch (at_time t t') = t"
  "lc_stored (at_time t t') = t'"
  by (simp_all add: at_time_def)

text \<open>Appending a verification to a run.\<close>

lemma cache_after_append: "i \<le> length ls \<Longrightarrow> cache_after E v (ls @ ls') i = cache_after E v ls i"
  by (induction i) (simp_all add: nth_append)

lemma outcome_append: "i < length ls \<Longrightarrow> outcome E v (ls @ ls') i = outcome E v ls i"
  and asked_append: "i < length ls \<Longrightarrow> asked_at E v (ls @ ls') i = asked_at E v ls i"
  by (simp_all add: outcome_def asked_at_def cache_after_append nth_append)

definition final_cache :: "ext \<Rightarrow> verifier \<Rightarrow> lookup list \<Rightarrow> key_cache" where
  "final_cache E v ls = cache_after E v ls (length ls)"

definition asked_count :: "ext \<Rightarrow> verifier \<Rightarrow> lookup list \<Rightarrow> nat" where
  "asked_count E v ls = length (filter (asked_at E v ls) [0..<length ls])"

lemma append_run:
  assumes "verify_lookup E v l (final_cache E v ls) = (r, c, asked)"
  shows "final_cache E v (ls @ [l]) = c" "outcome E v (ls @ [l]) (length ls) = r"
    "asked_count E v (ls @ [l]) = asked_count E v ls + of_bool asked"
proof -
  have last: "verify_lookup E v ((ls @ [l]) ! length ls) (cache_after E v (ls @ [l]) (length ls)) = (r, c, asked)"
    using assms by (simp add: final_cache_def cache_after_append)
  show "final_cache E v (ls @ [l]) = c" using last by (simp add: final_cache_def)
  show "outcome E v (ls @ [l]) (length ls) = r" using last by (simp add: outcome_def)
  have "filter (asked_at E v (ls @ [l])) [0..<length ls] = filter (asked_at E v ls) [0..<length ls]"
    by (rule filter_cong) (simp_all add: asked_append)
  then show "asked_count E v (ls @ [l]) = asked_count E v ls + of_bool asked"
    using last by (simp add: asked_count_def asked_at_def)
qed

section \<open>Every interleaving is a run\<close>

text \<open>The tasks that are done, as verifications of a run: task \<open>i\<close> is verification \<open>at i\<close>.\<close>

definition is_run_of :: "ext \<Rightarrow> verifier \<Rightarrow> (nat \<Rightarrow> string) \<Rightarrow> lookup list \<Rightarrow> (nat \<Rightarrow> nat) \<Rightarrow> (nat \<Rightarrow> phase) \<Rightarrow> key_cache \<Rightarrow> time \<Rightarrow> bool" where
  "is_run_of E v tok ls at ph c t \<longleftrightarrow> sorted (map (\<lambda>l. lc_stored (lk_clock l)) ls) \<and>
     (\<forall>l \<in> set ls. clock_ok (lk_clock l) \<and> lc_stored (lk_clock l) \<le> t) \<and> final_cache E v ls = c \<and>
     (\<forall>i r. ph i = Done r \<longrightarrow> at i < length ls \<and> lk_token (ls ! at i) = tok i \<and> outcome E v ls (at i) = r) \<and>
     inj_on at {i. \<exists>r. ph i = Done r}"

lemma is_run_later: "is_run_of E v tok ls at ph c t \<Longrightarrow> t \<le> t' \<Longrightarrow> (\<And>i r. ph' i = Done r \<longleftrightarrow> ph i = Done r) \<Longrightarrow>
    is_run_of E v tok ls at ph' c t'"
  unfolding is_run_of_def by (auto intro: order.trans)

lemma is_run_append:
  assumes run: "is_run_of E v tok ls at ph c t" and v: "verify_lookup E v l c = (r, c', asked)" "lk_token l = tok i"
    and "\<And>r. ph i \<noteq> Done r" "clock_ok (lk_clock l)" "t \<le> t'" "lc_stored (lk_clock l) = t'"
  shows "is_run_of E v tok (ls @ [l]) (at(i := length ls)) (ph(i := Done r)) c' t'"
proof -
  have c: "final_cache E v ls = c" using run by (simp add: is_run_of_def)
  note app = append_run [OF v(1) [folded c]]
  have "inj_on (at(i := length ls)) {k. \<exists>r'. (ph(i := Done r)) k = Done r'}"
  proof -
    have "at k \<noteq> length ls" if "ph k = Done r'" for k r' using run that by (fastforce simp: is_run_of_def)
    moreover have "inj_on at {k. \<exists>r. ph k = Done r}" using run by (simp add: is_run_of_def)
    ultimately show ?thesis unfolding inj_on_def by (auto split: if_splits) metis+
  qed
  moreover have "sorted (map (\<lambda>l. lc_stored (lk_clock l)) (ls @ [l]))"
    using run assms(6,7) by (auto simp: is_run_of_def sorted_append)
  moreover have "clock_ok (lk_clock k) \<and> lc_stored (lk_clock k) \<le> t'" if "k \<in> set (ls @ [l])" for k
    using run assms(5-7) that by (auto simp: is_run_of_def)
  moreover have "(at(i := length ls)) k < length (ls @ [l]) \<and> lk_token ((ls @ [l]) ! (at(i := length ls)) k) = tok k \<and>
      outcome E v (ls @ [l]) ((at(i := length ls)) k) = r'" if "(ph(i := Done r)) k = Done r'" for k r'
    using run that app(2) v(2) by (auto simp: is_run_of_def nth_append outcome_append split: if_splits)
  ultimately show ?thesis using app(1) unfolding is_run_of_def by blast
qed

text \<open>The lock and the phases.\<close>

definition locked_ok :: "ext \<Rightarrow> (nat \<Rightarrow> string) \<Rightarrow> tasks \<Rightarrow> bool" where
  "locked_ok E tok s \<longleftrightarrow>
     (\<forall>i kid. ts_phase s i = Missed kid \<longrightarrow> token_kid E (tok i) = Inr kid) \<and>
     (\<forall>i kid t. ts_phase s i = Fetching kid t \<longrightarrow> ts_lock s = Some i \<and> token_kid E (tok i) = Inr kid \<and> t \<le> ts_clock s \<and>
        (is_stale t (ts_cache s) \<or> cache_get (ts_cache s) kid = None) \<and> can_refetch t (ts_cache s)) \<and>
     (\<forall>i. ts_lock s = Some i \<longrightarrow> (\<exists>kid t. ts_phase s i = Fetching kid t))"

definition waiting :: "tasks \<Rightarrow> nat" where
  "waiting s = of_bool (ts_lock s \<noteq> None)"

lemma verify_task:
  assumes "token_kid E x = Inr kid" "client_decoding_key E clk ans kid c = (k, c', asked)"
  shows "verify_lookup E v \<lparr>lk_clock = clk, lk_answer = ans, lk_now = now, lk_token = x\<rparr> c =
    (decode_with E v now x k, c', asked)"
  using assms by (simp add: verify_parts)

lemma write_section:
  assumes "(is_stale t c \<or> cache_get c kid = None) \<and> can_refetch t c"
  shows "client_decoding_key E (at_time t t') (Inr jwks) kid c =
      (cached_key kid (cache_replace E jwks t'), cache_replace E jwks t', True)"
    and "client_decoding_key E (at_time t t') (Inl e) kid c =
      (if kc_keys c \<noteq> [] then cached_key kid c else Inl (Jwks e), c, True)"
  using assms by (auto simp: decoding_key_direct refresh_and_get_def Let_def cached_key_def)

lemma no_refresh:
  assumes "\<not> ((is_stale t c \<or> cache_get c kid = None) \<and> can_refetch t c)"
  shows "client_decoding_key E (at_time t t') ans kid c = (cached_key kid c, c, False)"
  using assms by (auto simp: decoding_key_direct refresh_and_get_def Let_def cached_key_def)

lemma read_section:
  assumes "cache_get c kid = Some key" "\<not> is_stale t c"
  shows "client_decoding_key E (at_time t t') ans kid c = (Inr key, c, False)"
  using assms by (simp add: client_decoding_key_def)

definition linear :: "ext \<Rightarrow> verifier \<Rightarrow> (nat \<Rightarrow> string) \<Rightarrow> tasks \<Rightarrow> bool" where
  "linear E v tok s \<longleftrightarrow> locked_ok E tok s \<and> (\<exists>ls at. is_run_of E v tok ls at (ts_phase s) (ts_cache s) (ts_clock s) \<and>
     ts_asked s = asked_count E v ls + waiting s)"

text \<open>A task that finishes is one more verification of the run.\<close>

lemma linear_finish:
  assumes "linear E v tok s" "verify_lookup E v l (ts_cache s) = (r, c, asked)" "lk_token l = tok i"
    and "\<And>r. ts_phase s i \<noteq> Done r" "clock_ok (lk_clock l)" "ts_clock s \<le> t" "lc_stored (lk_clock l) = t"
    and "ts_cache s' = c" "ts_phase s' = (ts_phase s)(i := Done r)" "ts_clock s' = t" "locked_ok E tok s'"
    and "ts_asked s' + waiting s = ts_asked s + waiting s' + of_bool asked"
  shows "linear E v tok s'"
proof -
  from assms(1) obtain ls at where run: "is_run_of E v tok ls at (ts_phase s) (ts_cache s) (ts_clock s)"
    and n: "ts_asked s = asked_count E v ls + waiting s" by (auto simp: linear_def)
  have "is_run_of E v tok (ls @ [l]) (at(i := length ls)) (ts_phase s') (ts_cache s') (ts_clock s')"
    unfolding assms(8-10) by (rule is_run_append [OF run assms(2-7)])
  moreover have "final_cache E v ls = ts_cache s" using run by (simp add: is_run_of_def)
  then have "asked_count E v (ls @ [l]) = asked_count E v ls + of_bool asked"
    using append_run(3) assms(2) by simp
  with n assms(12) have "ts_asked s' = asked_count E v (ls @ [l]) + waiting s'" by simp
  ultimately show ?thesis using assms(11) unfolding linear_def by blast
qed

lemma finish_simps [simp]: "ts_phase (finish i r t s) = (ts_phase s)(i := Done r)" "ts_cache (finish i r t s) = ts_cache s"
  "ts_lock (finish i r t s) = ts_lock s" "ts_clock (finish i r t s) = t" "ts_asked (finish i r t s) = ts_asked s"
  by (simp_all add: finish_def)

lemma locked_finish:
  assumes "locked_ok E tok s" "\<And>kid t0. ts_phase s i \<noteq> Fetching kid t0" "ts_clock s \<le> t"
  shows "locked_ok E tok (finish i r t s)"
  unfolding locked_ok_def
proof (intro conjI allI impI)
  fix j kid t0 assume "ts_phase (finish i r t s) j = Fetching kid t0"
  then have "ts_phase s j = Fetching kid t0" "j \<noteq> i" by (auto split: if_splits)
  with assms show "ts_lock (finish i r t s) = Some j" "token_kid E (tok j) = Inr kid" "t0 \<le> ts_clock (finish i r t s)"
    "is_stale t0 (ts_cache (finish i r t s)) \<or> cache_get (ts_cache (finish i r t s)) kid = None"
    "can_refetch t0 (ts_cache (finish i r t s))"
    by (fastforce simp: locked_ok_def)+
next
  fix j assume "ts_lock (finish i r t s) = Some j"
  with assms(1) obtain kid t0 where "ts_phase s j = Fetching kid t0" by (auto simp: locked_ok_def)
  with assms(2) show "\<exists>kid t0. ts_phase (finish i r t s) j = Fetching kid t0" by auto
qed (use assms(1) in \<open>auto simp: locked_ok_def split: if_splits\<close>)

lemma locked_release:
  assumes "locked_ok E tok s" "ts_lock s = Some i"
  shows "locked_ok E tok (finish i r t (s\<lparr>ts_cache := c, ts_lock := None\<rparr>))"
proof -
  have "ts_phase s j \<noteq> Fetching kid t0" if "j \<noteq> i" for j kid t0
    using assms that unfolding locked_ok_def by (metis option.inject)
  moreover have "\<forall>j kid. ts_phase s j = Missed kid \<longrightarrow> token_kid E (tok j) = Inr kid" using assms(1) by (simp add: locked_ok_def)
  ultimately show ?thesis unfolding locked_ok_def by simp
qed

lemma locked_holder:
  assumes "locked_ok E tok s" "ts_phase s i = Fetching kid t0"
  shows "ts_lock s = Some i" "token_kid E (tok i) = Inr kid" "t0 \<le> ts_clock s"
    "(is_stale t0 (ts_cache s) \<or> cache_get (ts_cache s) kid = None) \<and> can_refetch t0 (ts_cache s)"
  using assms by (simp_all add: locked_ok_def)

lemma linear_pause:
  assumes "linear E v tok s" "ts_clock s \<le> t" "\<And>r. ts_phase s i \<noteq> Done r" "\<And>r. p \<noteq> Done r" "ts_cache s' = ts_cache s"
    "ts_phase s' = (ts_phase s)(i := p)" "ts_clock s' = t" "ts_asked s' + waiting s = ts_asked s + waiting s'" "locked_ok E tok s'"
  shows "linear E v tok s'"
proof -
  from assms(1) obtain ls at where run: "is_run_of E v tok ls at (ts_phase s) (ts_cache s) (ts_clock s)"
    and n: "ts_asked s = asked_count E v ls + waiting s" by (auto simp: linear_def)
  have "is_run_of E v tok ls at (ts_phase s') (ts_cache s') (ts_clock s')"
    unfolding assms(5-7) by (rule is_run_later [OF run assms(2)]) (use assms(3,4) in auto)
  with n assms(8,9) show ?thesis unfolding linear_def by (intro conjI exI [of _ ls] exI [of _ at]) simp_all
qed

lemma linear_step:
  assumes "task_step E v tok s s'" "linear E v tok s"
  shows "linear E v tok s'"
proof -
  from assms(2) have locked: "locked_ok E tok s" by (simp add: linear_def)
  from assms(1) show ?thesis
  proof cases
    case (malformed i e t)
    have "verify_lookup E v \<lparr>lk_clock = at_time t t, lk_answer = Inl [], lk_now = 0, lk_token = tok i\<rparr> (ts_cache s) =
        (Inl e, ts_cache s, False)"
      using malformed(3) by (simp add: verify_parts)
    from linear_finish [OF assms(2) this] locked_finish [OF locked] malformed show ?thesis
      by (simp add: clock_ok_def waiting_def)
  next
    case (read_hit i kid t key now)
    from linear_finish [OF assms(2) verify_task [OF read_hit(3) read_section [OF read_hit(6,7), where t' = t], where now = now]]
      locked_finish [OF locked] read_hit show ?thesis
      by (simp add: clock_ok_def waiting_def)
  next
    case (read_miss i kid t)
    have "locked_ok E tok s'" using locked read_miss by (auto simp: locked_ok_def)
    with linear_pause [OF assms(2) read_miss(5), of i "Missed kid" s'] read_miss show ?thesis by (simp add: waiting_def)
  next
    case (write_cached i kid t now)
    have kid: "token_kid E (tok i) = Inr kid" using locked write_cached(2) by (simp add: locked_ok_def)
    from linear_finish [OF assms(2) verify_task [OF kid no_refresh [OF write_cached(5), where t' = t], where now = now]]
      locked_finish [OF locked] write_cached show ?thesis
      by (simp add: clock_ok_def waiting_def)
  next
    case (write_ask i kid t)
    have "locked_ok E tok s'" using locked write_ask by (auto simp: locked_ok_def)
    with linear_pause [OF assms(2) write_ask(4), of i "Fetching kid t" s'] write_ask show ?thesis by (simp add: waiting_def)
  next
    case (answered i kid t0 t c jwks now)
    note holder = locked_holder [OF locked answered(2)]
    from linear_finish [OF assms(2) verify_task [OF holder(2) write_section(1) [OF holder(4), where t' = t], where now = now]]
      locked_release [OF locked holder(1)] answered holder(3) show ?thesis
      by (simp add: clock_ok_def waiting_def)
  next
    case (failed i kid t0 t r e now)
    note holder = locked_holder [OF locked failed(2)]
    from linear_finish [OF assms(2) verify_task [OF holder(2) write_section(2) [OF holder(4), where t' = t], where now = now]]
      locked_release [OF locked holder(1), of _ _ "ts_cache s"] failed holder(3) show ?thesis
      by (simp add: clock_ok_def waiting_def)
  qed
qed

lemma linear_run: "task_run E v tok s \<Longrightarrow> linear E v tok s"
proof (induction rule: task_run.induct)
  case (start t)
  then show ?case
    by (auto simp: linear_def locked_ok_def waiting_def is_run_of_def final_cache_def asked_count_def intro!: exI [of _ "[]"])
qed (rule linear_step)

text \<open>What holds of every verification of a run.\<close>

definition sound_run :: "ext \<Rightarrow> verifier \<Rightarrow> lookup list \<Rightarrow> bool" where
  "sound_run E v ls \<longleftrightarrow> (\<forall>i < length ls.
     (\<forall>u. outcome E v ls i = Inr u \<longrightarrow> (\<exists>j jwks. last_answer E v ls i j jwks \<and> accepted_with E v (ls ! i) jwks u \<and>
        (asked_at E v ls i \<or> lc_read (lk_clock (ls ! i)) < lc_stored (lk_clock (ls ! j)) + JWKS_MAX_AGE))) \<and>
     (\<forall>j < i. fetched_at E v ls j \<and> fetched_at E v ls i \<longrightarrow>
        lc_stored (lk_clock (ls ! j)) + MIN_REFETCH_INTERVAL \<le> lc_refetch (lk_clock (ls ! i))) \<and>
     (\<forall>e u. lk_answer (ls ! i) = Inl e \<and> accepted_under E v (cache_after E v ls i) (ls ! i) u \<longrightarrow> outcome E v ls i = Inr u))"


section \<open>A concrete interleaving\<close>

text \<open>Two tasks miss at once; the first fetches, the second finds the key when it gets the lock.\<close>

definition two_tasks :: tasks where
  "two_tasks = \<lparr>ts_phase = (\<lambda>i. if i < 2 then Done (Inr \<lparr>au_id = 1, au_client_id = ''web'', au_claims = demo_claims, au_token = ''jwt''\<rparr>) else Ready),
     ts_cache = \<lparr>kc_keys = [(''7'', ''x'')], kc_fetched_at = Some 0\<rparr>, ts_lock = None, ts_clock = 0, ts_asked = 1\<rparr>"

lemma two_tasks_run: "task_run demo_ext (verifier_new ''https://id'' ''web'') (\<lambda>_. ''jwt'') two_tasks"
proof -
  let ?v = "verifier_new ''https://id'' ''web''" and ?tok = "\<lambda>_ :: nat. ''jwt''"
  let ?s0 = "\<lparr>ts_phase = (\<lambda>_. Ready), ts_cache = empty_cache, ts_lock = None, ts_clock = 0, ts_asked = 0\<rparr>"
  let ?s1 = "?s0\<lparr>ts_phase := (ts_phase ?s0)(0 := Missed ''7''), ts_clock := 0\<rparr>"
  let ?s2 = "?s1\<lparr>ts_phase := (ts_phase ?s1)(1 := Missed ''7''), ts_clock := 0\<rparr>"
  let ?s3 = "?s2\<lparr>ts_phase := (ts_phase ?s2)(0 := Fetching ''7'' 0), ts_lock := Some 0, ts_clock := 0, ts_asked := Suc (ts_asked ?s2)\<rparr>"
  let ?c = "cache_replace demo_ext [demo_jwk] 0"
  let ?s4 = "finish 0 (decode_with demo_ext ?v 0 ''jwt'' (cached_key ''7'' ?c)) 0 (?s3\<lparr>ts_cache := ?c, ts_lock := None\<rparr>)"
  let ?s5 = "finish 1 (decode_with demo_ext ?v 0 ''jwt'' (cached_key ''7'' (ts_cache ?s4))) 0 ?s4"
  have kid: "token_kid demo_ext ''jwt'' = Inr ''7''" by (simp add: token_kid_def demo_ext_def)
  have c: "?c = \<lparr>kc_keys = [(''7'', ''x'')], kc_fetched_at = Some 0\<rparr>"
    by (simp add: cache_replace_def demo_jwk_def demo_ext_def map_filter_def)
  have "task_run demo_ext ?v ?tok ?s0" by (rule task_run.start)
  then have "task_run demo_ext ?v ?tok ?s1"
    by (rule task_run.step) (rule task_step.read_miss, simp_all add: kid cache_get_def empty_cache_def)
  then have "task_run demo_ext ?v ?tok ?s2"
    by (rule task_run.step) (rule task_step.read_miss, simp_all add: kid cache_get_def empty_cache_def)
  then have "task_run demo_ext ?v ?tok ?s3"
    by (rule task_run.step) (rule task_step.write_ask, simp_all add: cache_get_def empty_cache_def can_refetch_def)
  then have "task_run demo_ext ?v ?tok ?s4"
    by (rule task_run.step) (rule task_step.answered, simp_all)
  then have "task_run demo_ext ?v ?tok ?s5"
    by (rule task_run.step) (rule task_step.write_cached, simp_all add: c cache_get_def can_refetch_def is_stale_def
        MIN_REFETCH_INTERVAL_def JWKS_MAX_AGE_def time_defs)
  moreover have "decode_with demo_ext ?v 0 ''jwt'' (cached_key ''7'' ?c) =
      Inr \<lparr>au_id = 1, au_client_id = ''web'', au_claims = demo_claims, au_token = ''jwt''\<rparr>"
    unfolding c by (simp add: decode_with_def cached_key_def cache_get_def demo_ext_def demo_claims_def)
  then have "?s5 = two_tasks"
    by (auto simp: two_tasks_def finish_def c fun_eq_iff)
  ultimately show ?thesis by simp
qed


end
