(* ===== verification/Codes.thy ===== *)
theory Codes
  imports Keys
begin

text \<open>
  The codes of \<open>magic_code.rs\<close> taken together: generating one ends at the first random value in the zone, the code
  passes the format check and verifies for its owner, and every code of six digits is equally likely.
\<close>

section \<open>Six digits\<close>

definition ascii_digits :: "char set" where
  "ascii_digits = char_of ` {48 ..< 58 :: nat}"

lemma ascii_digits_iff: "c \<in> ascii_digits \<longleftrightarrow> is_ascii_digit c"
proof
  assume "is_ascii_digit c"
  then have "of_char c \<in> {48 ..< 58 :: nat}" by (auto simp: is_ascii_digit_def)
  then show "c \<in> ascii_digits" unfolding ascii_digits_def by (metis char_of_char imageI)
qed (auto simp: ascii_digits_def is_ascii_digit_def)

lemma card_ascii_digits: "finite ascii_digits" "card ascii_digits = 10"
proof -
  have "inj_on (char_of :: nat \<Rightarrow> char) {48 ..< 58}"
    by (rule inj_on_inverseI [where g = of_char]) simp
  then show "card ascii_digits = 10" by (simp add: ascii_digits_def card_image)
qed (simp add: ascii_digits_def)

lemma well_formed_set: "{s. is_well_formed s} = {s. set s \<subseteq> ascii_digits \<and> length s = 6}"
  by (auto simp: is_well_formed_def list_all_iff ascii_digits_iff subset_iff)

text \<open>The million values are written as exactly the well-formed codes.\<close>

lemma pad6_image: "pad6 ` {..< 1000000} = {s. is_well_formed s}"
proof (rule card_subset_eq)
  show "finite {s. is_well_formed s}"
    unfolding well_formed_set by (rule finite_lists_length_eq [OF card_ascii_digits(1)])
  show "pad6 ` {..< 1000000} \<subseteq> {s. is_well_formed s}" using pad6_well_formed by auto
  have "inj_on pad6 {..< 1000000}" by (rule inj_on_inverseI [where g = "digits_value 0"]) (rule digits_value_pad6)
  then have "card (pad6 ` {..< 1000000}) = 1000000" by (simp add: card_image)
  also have "\<dots> = card {s. is_well_formed s}"
    unfolding well_formed_set card_lists_length_eq [OF card_ascii_digits(1)] card_ascii_digits(2) by simp
  finally show "card (pad6 ` {..< 1000000}) = card {s. is_well_formed s}" .
qed

lemma unat_code_range: "unat CODE_RANGE = 1000000" "0 < CODE_RANGE"
  by (simp_all add: CODE_RANGE_def word_less_nat_alt)

lemma code_of_plain: "mc_plain (code_of E key owner v) = pad6 (unat v)"
  by (simp add: code_of_def Let_def)

lemma pad6_inject: "pad6 m = pad6 n \<longleftrightarrow> m = n"
  by (metis digits_value_pad6)

lemma zone_code_range: "(unat (zone CODE_RANGE) + 1) div unat CODE_RANGE = 4294"
  unfolding unat_zone [OF unat_code_range(2)] unat_code_range(1) by simp

lemma code_uniform:
  assumes "is_well_formed s"
  shows "card {d. d \<le> zone CODE_RANGE \<and> mc_plain (code_of E key owner (d mod CODE_RANGE)) = s} = 4294"
proof -
  from assms pad6_image obtain n where n: "n < 1000000" "s = pad6 n" by blast
  define v :: "32 word" where "v = of_nat n"
  have v: "unat v = n" using n(1) by (simp add: v_def unat_of_nat)
  have "{d. d \<le> zone CODE_RANGE \<and> mc_plain (code_of E key owner (d mod CODE_RANGE)) = s} =
      {d. d \<le> zone CODE_RANGE \<and> d mod CODE_RANGE = v}"
    by (auto simp: code_of_plain n(2) pad6_inject word_unat_eq_iff v)
  also have "card \<dots> = 4294"
    unfolding zone_code_range [symmetric] using n(1)
    by (intro zone_uniform) (simp add: word_less_nat_alt v unat_code_range(1))
  finally show ?thesis .
qed

section \<open>Generating a code\<close>

lemma first_accepted:
  assumes "draw (shift (4 * n) rng) \<le> zone rg"
  obtains k where "k \<le> n" "draw (shift (4 * k) rng) \<le> zone rg" "\<forall>i < k. \<not> draw (shift (4 * i) rng) \<le> zone rg"
    "random_below rg rng = Some (draw (shift (4 * k) rng) mod rg, shift (4 * k + 4) rng)"
proof -
  let ?ok = "\<lambda>n. draw (shift (4 * n) rng) \<le> zone rg"
  have "?ok (Least ?ok)" "Least ?ok \<le> n" using assms by (rule LeastI, rule Least_le)
  moreover have "\<not> ?ok i" if "i < Least ?ok" for i using not_less_Least [OF that] .
  ultimately show thesis using that [of "Least ?ok"] random_below_first [of "Least ?ok" rng rg] by blast
qed

text \<open>C39 (code_generated): when one of the next random values is in the zone, generating a code ends, with the first
  such value; the code is six digits, passes the format check and verifies for its owner against its stored
  hash; and each of the million codes comes from the same number, 4294, of the values in the zone.\<close>

theorem code_generated:
  assumes "hmac_verifies E" "draw (shift (4 * n) (w_rng w)) \<le> zone CODE_RANGE"
  shows "\<exists>k code. k \<le> n \<and> (\<forall>i < k. \<not> draw (shift (4 * i) (w_rng w)) \<le> zone CODE_RANGE) \<and>
      code = code_of E key owner (draw (shift (4 * k) (w_rng w)) mod CODE_RANGE) \<and>
      (code_generate E key owner :: (api_error, magic_code) req) w = Some (Inr code, w\<lparr>w_rng := shift (4 * k + 4) (w_rng w)\<rparr>) \<and>
      check_format (mc_plain code) = Inr () \<and> code_verify E key owner (mc_plain code) (mc_hash code) \<and>
      (\<forall>s. is_well_formed s \<longrightarrow>
        card {d. d \<le> zone CODE_RANGE \<and> mc_plain (code_of E key owner (d mod CODE_RANGE)) = s} = 4294)"
proof -
  obtain k where k: "k \<le> n" "\<forall>i < k. \<not> draw (shift (4 * i) (w_rng w)) \<le> zone CODE_RANGE"
    "random_below CODE_RANGE (w_rng w) = Some (draw (shift (4 * k) (w_rng w)) mod CODE_RANGE, shift (4 * k + 4) (w_rng w))"
    by (rule first_accepted [OF assms(2)]) blast
  define code where "code = code_of E key owner (draw (shift (4 * k) (w_rng w)) mod CODE_RANGE)"
  have gen: "(code_generate E key owner :: (api_error, magic_code) req) w = Some (Inr code, w\<lparr>w_rng := shift (4 * k + 4) (w_rng w)\<rparr>)"
    by (simp add: code_generate_def and_then_def random_below_req_def k(3) ok_def code_def)
  have "unat (draw (shift (4 * k) (w_rng w)) mod CODE_RANGE) < 1000000"
    by (simp add: unat_mod unat_code_range)
  then have fmt: "check_format (mc_plain code) = Inr ()" by (simp add: check_format_def code_def code_of_plain pad6_well_formed)
  have "code_verify E key owner (mc_plain code) (mc_hash code)"
    using assms(1) by (simp add: code_verify_def hmac_verifies_def code_def code_of_def Let_def)
  with k(1,2) gen fmt code_uniform show ?thesis unfolding code_def by blast
qed

theorem code_generated_witness:
  "\<exists>code w'. (code_generate demo_ext ''k'' 5 :: (api_error, magic_code) req) (demo_world empty_db) = Some (Inr code, w') \<and>
     code_verify demo_ext ''k'' 5 (mc_plain code) (mc_hash code)"
proof -
  have "draw (shift (4 * 0) (w_rng (demo_world empty_db))) \<le> zone CODE_RANGE"
    by (simp add: draw_def shift_def)
  moreover have "hmac_verifies demo_ext" by (simp add: hmac_verifies_def demo_ext_def)
  ultimately show ?thesis using code_generated by blast
qed

end
