(* ===== verification/Addresses.thy ===== *)
theory Addresses
  imports Keys
begin

text \<open>
  The client address that rate limits count by: \<open>ClientIp\<close> and \<open>resolve\<close> in \<open>rate_limit.rs\<close>. A trusted proxy appends
  the address of its own peer to \<open>X-Forwarded-For\<close>; what stands before those entries was written by the client.
\<close>

lemma split_on_append: "split_on c (a @ c # b) = split_on c a @ split_on c b"
  by (induction a) (auto split: list.split)

lemma split_on_single: "c \<notin> set s \<Longrightarrow> split_on c s = [s]"
  by (induction s) auto

lemma split_join_commas: "xs \<noteq> [] \<Longrightarrow> split_on (CHR '','') (join_commas xs) = concat (map (split_on (CHR '','')) xs)"
  by (induction xs rule: join_commas.induct) (simp_all add: split_on_append)

text \<open>The text of a hop, as a proxy writes it.\<close>

definition names_hop :: "ext \<Rightarrow> string \<Rightarrow> ip_addr \<Rightarrow> bool" where
  "names_hop E h ip \<longleftrightarrow> CHR '','' \<notin> set h \<and> x_ip_parse E (str_trim h) = Some ip"

lemma split_hops: "list_all2 (names_hop E) hs ips \<Longrightarrow> concat (map (split_on (CHR '','')) hs) = hs"
  by (induction rule: list_all2_induct) (simp_all add: names_hop_def split_on_single)

lemma walk_trusted:
  assumes "list_all2 (names_hop E) hs ips" "set ips \<subseteq> set trusted"
  shows "walk_hops E trusted client (map str_trim hs @ rest) = walk_hops E trusted (last (client # ips)) rest"
  using assms by (induction arbitrary: client rule: list_all2_induct) (auto simp: names_hop_def)

text \<open>Behind trusted proxies, the entry before theirs is the client.\<close>

lemma resolve_behind_proxies:
  assumes "list_all2 (names_hop E) hs (c # ps)" "c \<notin> set trusted" "set ps \<subseteq> set trusted" "peer \<in> set trusted"
  shows "resolve E peer (join_commas (vs @ hs)) trusted = c"
proof -
  from assms(1) obtain h hs' where hs: "hs = h # hs'" "names_hop E h c" "list_all2 (names_hop E) hs' ps"
    by (auto simp: list_all2_Cons2)
  define front where "front = rev (map str_trim (concat (map (split_on (CHR '','')) vs)))"
  have "split_on (CHR '','') (join_commas (vs @ hs)) = concat (map (split_on (CHR '','')) vs) @ hs"
    using split_hops [OF assms(1)] by (subst split_join_commas) (simp_all add: hs(1))
  then have hops: "rev (map str_trim (split_on (CHR '','') (join_commas (vs @ hs)))) = map str_trim (rev hs') @ str_trim h # front"
    by (simp add: hs(1) rev_map front_def)
  have "walk_hops E trusted peer (map str_trim (rev hs') @ str_trim h # front) = c"
    using hs(2,3) assms(2,3) by (subst walk_trusted [of E "rev hs'" "rev ps"]) (simp_all add: names_hop_def)
  with assms(4) show ?thesis by (simp add: resolve_def hops)
qed

text \<open>One budget for a whole IPv6 prefix.\<close>

lemma prefix_key:
  assumes "(a, b, c, d) \<noteq> (0, 0, 0, 0)"
  shows "client_ip_key (V6 a b c d e f g h) = client_ip_key (V6 a b c d e' f' g' h')"
  using assms by auto


text \<open>A proxy at 10.0.0.1 in front of a client at 9.9.9.9 that sends a forged entry.\<close>

definition proxied_ext :: ext where
  "proxied_ext = demo_ext\<lparr>x_ip_parse := (\<lambda>s. if s = ''9.9.9.9'' then Some (V4 9 9 9 9) else if s = ''1.1.1.1'' then Some (V4 1 1 1 1) else None)\<rparr>"

definition proxied_state :: app_state where
  "proxied_state = demo_state\<lparr>st_trusted_proxies := [V4 10 0 0 1]\<rparr>"


text \<open>Trust is decided on the address as received: a peer that an IPv6 socket reports as IPv4-mapped is not
  recognised as the trusted IPv4 proxy it is, although its rate-limit key is the same.\<close>

lemma mapped_proxy_not_trusted:
  "resolve E (V6 0 0 0 0 0 0xffff 0x0a00 0x0001) hdr [V4 10 0 0 1] = V6 0 0 0 0 0 0xffff 0x0a00 0x0001"
  "client_ip_key (V6 0 0 0 0 0 0xffff 0x0a00 0x0001) = client_ip_key (V4 10 0 0 1)"
  by (simp add: resolve_def) code_simp

end
