(* ===== verification/Http.thy ===== *)
theory Http
  imports Startup
begin

text \<open>
  The HTTP edge: the route table of \<open>routes/mod.rs\<close> and of \<open>app\<close> in \<open>main.rs\<close>, the extractors each handler declares in
  their order (\<open>ClientIp\<close>, \<open>CurrentUser\<close>, \<open>AppPath\<close>, then the body as \<open>AppJson\<close> or \<open>OAuthForm\<close>), their rejections, and the
  status of every answer. Decoding bodies and path parameters (\<open>serde\<close>, \<open>axum\<close>) is a parameter: a decoder answers a
  value or the text of a rejection. Shown: on a request that decodes, the edge is exactly \<open>serve\<close>, on which all
  other properties rest; a request that does not decode, or finds no route, changes nothing.
\<close>

section \<open>Rejections\<close>

definition api_from_json_rejection :: "string \<Rightarrow> api_error" where
  "api_from_json_rejection body_text = InvalidRequest body_text"

definition api_from_path_rejection :: "string \<Rightarrow> api_error" where
  "api_from_path_rejection body_text = InvalidRequest body_text"

definition oauth_from_form_rejection :: "string \<Rightarrow> oauth_error" where
  "oauth_from_form_rejection body_text = OInvalidRequest body_text"

definition app_json :: "string + 'a \<Rightarrow> (api_error, 'a) req" where
  "app_json decoded = result (map_sum api_from_json_rejection id decoded)"

definition app_path :: "string + 'a \<Rightarrow> (api_error, 'a) req" where
  "app_path decoded = result (map_sum api_from_path_rejection id decoded)"

definition oauth_form :: "string + 'a \<Rightarrow> (oauth_error, 'a) req" where
  "oauth_form decoded = result (map_sum oauth_from_form_rejection id decoded)"

section \<open>Requests and routes\<close>

text \<open>The path is split at its slashes; the body comes with its content type.\<close>

record http_request =
  hq_method :: string
  hq_path :: "string list"
  hq_caller :: caller
  hq_authorization :: "string option"
  hq_body :: "string option \<times> bytes"

record decoders =
  dc_uuid :: "string \<Rightarrow> string + uuid"
  dc_create_flow :: "string option \<times> bytes \<Rightarrow> string + create_flow_request"
  dc_magic_link :: "string option \<times> bytes \<Rightarrow> string + string"
  dc_magic_code :: "string option \<times> bytes \<Rightarrow> string + string"
  dc_confirm :: "string option \<times> bytes \<Rightarrow> string + string"
  dc_confirm_email_change :: "string option \<times> bytes \<Rightarrow> string + string"
  dc_confirmation :: "string option \<times> bytes \<Rightarrow> string + confirmation_action"
  dc_change_email :: "string option \<times> bytes \<Rightarrow> string + string \<times> string"
  dc_delete_account :: "string option \<times> bytes \<Rightarrow> string + string"
  dc_token :: "string option \<times> bytes \<Rightarrow> string + token_request"
  dc_revoke :: "string option \<times> bytes \<Rightarrow> string + revoke_request"

datatype route = EmailChangeConfirm | CreateFlow | MagicLinkRequest | MagicCode | MagicLinkConfirm | MeGet | MeDelete
  | MeConfirmation | MeEmail | MeSessions | MeSession | OAuthToken | OAuthRevoke | OpenApi | WellKnownJwks | WellKnownServer
  | HealthLive | HealthReady

datatype segment = Lit string | Param

definition routes :: "(route \<times> string \<times> segment list) list" where
  "routes =
     [(HealthLive, ''GET'', [Lit ''health'', Lit ''live'']),
      (HealthReady, ''GET'', [Lit ''health'', Lit ''ready'']),
      (EmailChangeConfirm, ''POST'', [Lit ''email-change'', Lit ''confirm'']),
      (CreateFlow, ''POST'', [Lit ''flows'', Lit ''login'']),
      (MagicLinkRequest, ''POST'', [Lit ''flows'', Lit ''login'', Param, Lit ''magic-link'']),
      (MagicCode, ''POST'', [Lit ''flows'', Lit ''login'', Param, Lit ''magic-code'']),
      (MagicLinkConfirm, ''POST'', [Lit ''magic-link'', Lit ''confirm'']),
      (MeGet, ''GET'', [Lit ''me'']),
      (MeDelete, ''DELETE'', [Lit ''me'']),
      (MeConfirmation, ''POST'', [Lit ''me'', Lit ''confirmation'']),
      (MeEmail, ''POST'', [Lit ''me'', Lit ''email'']),
      (MeSessions, ''GET'', [Lit ''me'', Lit ''sessions'']),
      (MeSession, ''DELETE'', [Lit ''me'', Lit ''sessions'', Param]),
      (OAuthToken, ''POST'', [Lit ''oauth'', Lit ''token'']),
      (OAuthRevoke, ''POST'', [Lit ''oauth'', Lit ''revoke'']),
      (OpenApi, ''GET'', [Lit ''openapi.json'']),
      (WellKnownJwks, ''GET'', [Lit ''.well-known'', Lit ''jwks.json'']),
      (WellKnownServer, ''GET'', [Lit ''.well-known'', Lit ''oauth-authorization-server''])]"

text \<open>A parameter takes one non-empty segment. \<open>get\<close> also answers \<open>HEAD\<close>. A path that only matches with another method
  answers 405.\<close>

fun match_path :: "segment list \<Rightarrow> string list \<Rightarrow> string list option" where
  "match_path [] [] = Some []"
| "match_path (Lit l # ps) (s # ss) = (if l = s then match_path ps ss else None)"
| "match_path (Param # ps) (s # ss) = (if s = [] then None else map_option (Cons s) (match_path ps ss))"
| "match_path _ _ = None"

definition method_matches :: "string \<Rightarrow> string \<Rightarrow> bool" where
  "method_matches m method \<longleftrightarrow> m = method \<or> m = ''GET'' \<and> method = ''HEAD''"

definition find_route :: "string \<Rightarrow> string list \<Rightarrow> nat + route \<times> string list" where
  "find_route method path =
     (let found = List.map_filter (\<lambda>(r, m, pat). map_option (\<lambda>ps. (r, m, ps)) (match_path pat path)) routes
      in case List.find (\<lambda>(r, m, ps). method_matches m method) found of
          Some (r, _, ps) \<Rightarrow> Inr (r, ps)
        | None \<Rightarrow> Inl (if found = [] then 404 else 405))"

section \<open>Handlers with their extractors\<close>

definition param :: "string list \<Rightarrow> string" where
  "param ps = (case ps of [] \<Rightarrow> [] | p # _ \<Rightarrow> p)"

fun handle :: "decoders \<Rightarrow> ext \<Rightarrow> app_state \<Rightarrow> http_request \<Rightarrow> string list \<Rightarrow> route \<Rightarrow> (failure, response) req" where
  "handle D E st q ps EmailChangeConfirm = api_route StatusOnly
     (and_then (app_json (dc_confirm_email_change D (hq_body q))) (email_change_confirm E st (ip_of E st (hq_caller q))))"
| "handle D E st q ps CreateFlow = api_route FlowCreated
     (and_then (app_json (dc_create_flow D (hq_body q))) (create_flow st))"
| "handle D E st q ps MagicLinkRequest = api_route MagicLinkAccepted
     (and_then (app_path (dc_uuid D (param ps))) (\<lambda>flow_id.
      and_then (app_json (dc_magic_link D (hq_body q))) (magic_link_request E st (ip_of E st (hq_caller q)) flow_id)))"
| "handle D E st q ps MagicCode = api_route LoggedIn
     (and_then (app_path (dc_uuid D (param ps))) (\<lambda>flow_id.
      and_then (app_json (dc_magic_code D (hq_body q))) (confirm_code E st (ip_of E st (hq_caller q)) flow_id)))"
| "handle D E st q ps MagicLinkConfirm = api_route LoggedIn
     (and_then (app_json (dc_confirm D (hq_body q))) (magic_link_confirm E st (ip_of E st (hq_caller q))))"
| "handle D E st q ps MeGet = api_route MeBody (and_then (current_user_from_request E st (hq_authorization q)) me_get)"
| "handle D E st q ps MeDelete = api_route StatusOnly
     (and_then (current_user_from_request E st (hq_authorization q)) (\<lambda>user.
      and_then (app_json (dc_delete_account D (hq_body q))) (delete_account E st (ip_of E st (hq_caller q)) user)))"
| "handle D E st q ps MeConfirmation = api_route ConfirmationAccepted
     (and_then (current_user_from_request E st (hq_authorization q)) (\<lambda>user.
      and_then (app_json (dc_confirmation D (hq_body q))) (request_confirmation E st (ip_of E st (hq_caller q)) user)))"
| "handle D E st q ps MeEmail = api_route ConfirmationAccepted
     (and_then (current_user_from_request E st (hq_authorization q)) (\<lambda>user.
      and_then (app_json (dc_change_email D (hq_body q))) (\<lambda>(code, new_email).
      change_email E st (ip_of E st (hq_caller q)) user code new_email)))"
| "handle D E st q ps MeSessions = api_route SessionsBody
     (and_then (current_user_from_request E st (hq_authorization q)) (list_sessions st))"
| "handle D E st q ps MeSession = api_route StatusOnly
     (and_then (current_user_from_request E st (hq_authorization q)) (\<lambda>user.
      and_then (app_path (dc_uuid D (param ps))) (revoke_session user)))"
| "handle D E st q ps OAuthToken = oauth_route TokenBody
     (and_then (oauth_form (dc_token D (hq_body q))) (oauth_token E st))"
| "handle D E st q ps OAuthRevoke = oauth_route StatusOnly
     (and_then (oauth_form (dc_revoke D (hq_body q))) (oauth_revoke E st))"
| "handle D E st q ps OpenApi = ok (StatusOnly 200)"
| "handle D E st q ps WellKnownJwks = and_then well_known_jwks (\<lambda>b. ok (JwksBody b))"
| "handle D E st q ps WellKnownServer = ok (MetadataBody (authorization_server_metadata st))"
| "handle D E st q ps HealthLive = ok (StatusOnly 200)"
| "handle D E st q ps HealthReady = and_then ready (\<lambda>s. ok (StatusOnly s))"

section \<open>Answers\<close>

text \<open>Status, headers, and the code and message of an error body.\<close>

record http_answer =
  ha_status :: nat
  ha_headers :: "(string \<times> string) list"
  ha_code :: "string option"
  ha_message :: "string option"

fun response_status :: "response \<Rightarrow> nat" where
  "response_status (FlowCreated r) = fst r"
| "response_status (MagicLinkAccepted r) = fst r"
| "response_status (ConfirmationAccepted r) = fst r"
| "response_status (StatusOnly s) = s"
| "response_status _ = 200"

fun response_headers :: "response \<Rightarrow> (string \<times> string) list" where
  "response_headers (TokenBody _) = [(''cache-control'', ''no-store'')]"
| "response_headers (JwksBody r) = fst r"
| "response_headers (MetadataBody _) = [(''cache-control'', ''public, max-age=3600'')]"
| "response_headers _ = []"

fun answer :: "failure + response \<Rightarrow> http_answer" where
  "answer (Inr r) = \<lparr>ha_status = response_status r, ha_headers = response_headers r, ha_code = None, ha_message = None\<rparr>"
| "answer (Inl (ApiFailure e)) = (let b = api_error_response e in
     \<lparr>ha_status = er_status b, ha_headers = er_headers b, ha_code = Some (er_code b), ha_message = Some (er_message b)\<rparr>)"
| "answer (Inl (OAuthFailure e)) = (let b = oauth_error_response e in
     \<lparr>ha_status = oe_status b, ha_headers = oe_headers b, ha_code = Some (oe_error b), ha_message = oe_description b\<rparr>)"

definition http_exchange :: "decoders \<Rightarrow> ext \<Rightarrow> app_state \<Rightarrow> http_request \<Rightarrow> world \<Rightarrow> (http_answer \<times> world) option" where
  "http_exchange D E st q w = (case find_route (hq_method q) (hq_path q) of
      Inl status \<Rightarrow> Some (\<lparr>ha_status = status, ha_headers = [], ha_code = None, ha_message = None\<rparr>, w)
    | Inr (r, ps) \<Rightarrow> map_option (\<lambda>(x, w'). (answer x, w')) (handle D E st q ps r w))"

section \<open>The decoded request\<close>

definition json_part :: "string + 'a \<Rightarrow> failure + 'a" where
  "json_part r = map_sum (\<lambda>t. ApiFailure (api_from_json_rejection t)) id r"

definition path_part :: "string + 'a \<Rightarrow> failure + 'a" where
  "path_part r = map_sum (\<lambda>t. ApiFailure (api_from_path_rejection t)) id r"

definition form_part :: "string + 'a \<Rightarrow> failure + 'a" where
  "form_part r = map_sum (\<lambda>t. OAuthFailure (oauth_from_form_rejection t)) id r"

definition then_part :: "failure + 'a \<Rightarrow> ('a \<Rightarrow> failure + 'b) \<Rightarrow> failure + 'b" where
  "then_part r f = (case r of Inl e \<Rightarrow> Inl e | Inr a \<Rightarrow> f a)"

text \<open>What a request asks for, or the rejection of its path or body; \<open>None\<close> for the two constant pages.\<close>

fun decode_request :: "decoders \<Rightarrow> http_request \<Rightarrow> string list \<Rightarrow> route \<Rightarrow> (failure + request) option" where
  "decode_request D q ps EmailChangeConfirm =
     Some (then_part (json_part (dc_confirm_email_change D (hq_body q))) (\<lambda>t. Inr (PostEmailChangeConfirm (hq_caller q) t)))"
| "decode_request D q ps CreateFlow = Some (then_part (json_part (dc_create_flow D (hq_body q))) (\<lambda>i. Inr (PostFlow i)))"
| "decode_request D q ps MagicLinkRequest = Some (then_part (path_part (dc_uuid D (param ps))) (\<lambda>flow_id.
     then_part (json_part (dc_magic_link D (hq_body q))) (\<lambda>email. Inr (PostMagicLink (hq_caller q) flow_id email))))"
| "decode_request D q ps MagicCode = Some (then_part (path_part (dc_uuid D (param ps))) (\<lambda>flow_id.
     then_part (json_part (dc_magic_code D (hq_body q))) (\<lambda>code. Inr (PostMagicCode (hq_caller q) flow_id code))))"
| "decode_request D q ps MagicLinkConfirm =
     Some (then_part (json_part (dc_confirm D (hq_body q))) (\<lambda>t. Inr (PostMagicLinkConfirm (hq_caller q) t)))"
| "decode_request D q ps MeGet = Some (Inr (GetMe (hq_authorization q)))"
| "decode_request D q ps MeDelete = Some (then_part (json_part (dc_delete_account D (hq_body q)))
     (\<lambda>code. Inr (DeleteMe (hq_caller q) (hq_authorization q) code)))"
| "decode_request D q ps MeConfirmation = Some (then_part (json_part (dc_confirmation D (hq_body q)))
     (\<lambda>a. Inr (PostConfirmation (hq_caller q) (hq_authorization q) a)))"
| "decode_request D q ps MeEmail = Some (then_part (json_part (dc_change_email D (hq_body q)))
     (\<lambda>(code, new_email). Inr (PostMeEmail (hq_caller q) (hq_authorization q) code new_email)))"
| "decode_request D q ps MeSessions = Some (Inr (GetSessions (hq_authorization q)))"
| "decode_request D q ps MeSession = Some (then_part (path_part (dc_uuid D (param ps)))
     (\<lambda>i. Inr (DeleteSession (hq_authorization q) i)))"
| "decode_request D q ps OAuthToken = Some (then_part (form_part (dc_token D (hq_body q))) (\<lambda>i. Inr (PostToken i)))"
| "decode_request D q ps OAuthRevoke = Some (then_part (form_part (dc_revoke D (hq_body q))) (\<lambda>i. Inr (PostRevoke i)))"
| "decode_request D q ps OpenApi = None"
| "decode_request D q ps WellKnownJwks = Some (Inr GetJwks)"
| "decode_request D q ps WellKnownServer = Some (Inr GetMetadata)"
| "decode_request D q ps HealthLive = None"
| "decode_request D q ps HealthReady = Some (Inr GetReady)"

lemmas edge_defs = app_json_def app_path_def oauth_form_def json_part_def path_part_def form_part_def then_part_def result_def

lemma map_sum_Inl [simp]: "map_sum f id r = Inl x \<longleftrightarrow> (\<exists>t. r = Inl t \<and> x = f t)"
  by (cases r) auto

lemma and_then_left: "and_then (ok a) f = f a" "and_then (err e) f = err e"
  by (simp_all add: and_then_def ok_def err_def fun_eq_iff)

text \<open>A request that decodes is served as decoded.\<close>

lemma handle_decoded: "decode_request D q ps r = Some (Inr req) \<Longrightarrow> handle D E st q ps r = serve E st req"
  by (cases r) (auto simp: edge_defs and_then_left split: sum.splits prod.splits)

text \<open>Extracting the user only reads.\<close>

definition untouched :: "world \<Rightarrow> world \<Rightarrow> bool" where
  "untouched w w' \<longleftrightarrow> w_db w' = w_db w \<and> w_outbox w' = w_outbox w \<and> w_tx w' = w_tx w \<and> w_keys w' = w_keys w"

lemma current_user_reads: "wp (current_user_from_request E st auth) (\<lambda>_ w'. untouched w w')
    (\<lambda>e w'. untouched w w' \<and> (e = Unauthorized \<or> (\<exists>s. e = Internal s))) w"
  by (simp add: current_user_from_request_def wp untouched_def sessions_find_authenticated_def api_from_sql_def
      split: option.split)

lemma handle_rejected:
  assumes "decode_request D q ps r = Some (Inl f)"
  shows "wp (handle D E st q ps r) (\<lambda>_ _. False)
    (\<lambda>g w'. untouched w w' \<and> (g = f \<or> g = ApiFailure Unauthorized \<or> (\<exists>s. g = ApiFailure (Internal s)))) w"
proof -
  have *: "wp (current_user_from_request E st auth) P Q w" if "\<And>u w'. untouched w w' \<Longrightarrow> P u w'"
    "\<And>e w'. \<lbrakk>untouched w w'; e = Unauthorized \<or> (\<exists>s. e = Internal s)\<rbrakk> \<Longrightarrow> Q e w'" for auth P Q w
    using current_user_reads [of E st auth w] that by (auto simp: wp_def split: option.splits sum.splits)
  have refl: "untouched w w" by (simp add: untouched_def)
  from assms show ?thesis
    by (cases r) (auto simp: edge_defs and_then_left api_route_def oauth_route_def wp refl split: sum.splits prod.splits intro!: *)
qed

text \<open>An internal error answers the same whatever its source: the source is only logged.\<close>

lemma internal_hidden:
  "answer (Inl (ApiFailure (Internal s))) = answer (Inl (ApiFailure (Internal s')))"
  "answer (Inl (OAuthFailure (OServerError s))) = answer (Inl (OAuthFailure (OServerError s')))"
  by (simp_all add: api_error_response_def oauth_error_response_def)

definition rejected :: "failure \<Rightarrow> http_answer \<Rightarrow> bool" where
  "rejected f a \<longleftrightarrow> a = answer (Inl f) \<or> ha_status a = 401 \<and> ha_code a = Some ''unauthorized'' \<or>
     a = answer (Inl (ApiFailure (Internal (SqlError Unavailable))))"

lemma rejectedI: "g = f \<or> g = ApiFailure Unauthorized \<or> (\<exists>s. g = ApiFailure (Internal s)) \<Longrightarrow> rejected f (answer (Inl g))"
  using internal_hidden(1) by (auto simp: rejected_def api_error_response_def)


section \<open>A concrete exchange\<close>

definition demo_decoders :: decoders where
  "demo_decoders = \<lparr>dc_uuid = (\<lambda>_. Inl ''not a UUID''), dc_create_flow = (\<lambda>_. Inl ''bad JSON''), dc_magic_link = (\<lambda>_. Inl ''bad JSON''),
     dc_magic_code = (\<lambda>_. Inl ''bad JSON''), dc_confirm = (\<lambda>_. Inl ''bad JSON''), dc_confirm_email_change = (\<lambda>_. Inl ''bad JSON''),
     dc_confirmation = (\<lambda>_. Inl ''bad JSON''), dc_change_email = (\<lambda>_. Inl ''bad JSON''), dc_delete_account = (\<lambda>_. Inr ''123456''),
     dc_token = (\<lambda>_. Inl ''bad form''), dc_revoke = (\<lambda>_. Inl ''bad form'')\<rparr>"

text \<open>\<open>DELETE /me\<close> with the token of the demo session and its confirmation code.\<close>

definition demo_http :: http_request where
  "demo_http = \<lparr>hq_method = ''DELETE'', hq_path = [''me''], hq_caller = \<lparr>ca_peer = demo_ip, ca_forwarded = []\<rparr>,
     hq_authorization = Some ''Bearer jwt'', hq_body = (Some ''application/json'', [])\<rparr>"

lemma demo_http_route: "find_route (hq_method demo_http) (hq_path demo_http) = Inr (MeDelete, [])"
  by code_simp

lemma demo_http_runs:
  "map_option (ha_status \<circ> fst) (http_exchange demo_decoders demo_ext demo_state demo_http (demo_world session_db)) = Some 204"
  by code_simp


end
