(* ===== verification/OpenApi.thy ===== *)
theory OpenApi
  imports Http
begin

text \<open>
  The API contract of \<open>routes/openapi.rs\<close>: what the \<open>utoipa\<close> attribute of each handler declares, gathered in the document
  the SDKs are built from. Shown: the document has exactly the routes of the router (but its own page), protects exactly
  the handlers that ask for the current user, and lists the status and the code of every answer, except internal errors
  and two answers it forgets: a session id that is not a UUID, and a client removed from the configuration while its user
  changes address.
\<close>

section \<open>The declarations\<close>

text \<open>A response has a status, a description and the name of its body's schema. An operation without \<open>operation_id\<close> has
  the name of its function.\<close>

record operation =
  op_method :: string
  op_path :: string
  op_id :: string
  op_tag :: string
  op_bearer :: bool
  op_params :: "string list"
  op_body :: "(string \<times> string) option"
  op_responses :: "(nat \<times> string option \<times> string option) list"

definition doc_confirm_email_change :: operation where
  "doc_confirm_email_change = \<lparr>op_method = ''POST'', op_path = ''/email-change/confirm'', op_id = ''confirm_email_change'', op_tag = ''Me'', op_bearer = False,
     op_params = [], op_body = Some (''application/json'', ''ConfirmEmailChangeRequest''),
     op_responses =
       [(204, Some ''Email change applied'', None),
        (400, Some ''`invalid_request`, `invalid_token`, `account_disabled`, `email_taken`'', Some ''ErrorBody''),
        (429, Some ''`rate_limited`'', Some ''ErrorBody'')]\<rparr>"

definition doc_create_flow :: operation where
  "doc_create_flow = \<lparr>op_method = ''POST'', op_path = ''/flows/login'', op_id = ''create_flow'', op_tag = ''Login'', op_bearer = False,
     op_params = [], op_body = Some (''application/json'', ''CreateFlowRequest''),
     op_responses =
       [(201, Some ''Flow started: show the screens for `methods`'', Some ''FlowResponse''),
        (400, Some ''`invalid_request`, `invalid_client`, `invalid_redirect_uri`, `invalid_code_challenge`'', Some ''ErrorBody'')]\<rparr>"

definition doc_request_magic_link :: operation where
  "doc_request_magic_link = \<lparr>op_method = ''POST'', op_path = ''/flows/login/{flow_id}/magic-link'', op_id = ''request_magic_link'', op_tag = ''Login'', op_bearer = False,
     op_params = [''flow_id''], op_body = Some (''application/json'', ''MagicLinkRequest''),
     op_responses =
       [(202, Some ''Same answer whether the account exists, is created on first use, or no email is sent'', Some ''MagicLinkResponse''),
        (400, Some ''`invalid_request`, `flow_expired`, `invalid_client`, `invalid_email`'', Some ''ErrorBody''),
        (429, Some ''`rate_limited`; after 3 emails on one flow, until the flow expires: start a new one'', Some ''ErrorBody'')]\<rparr>"

definition doc_confirm_magic_link :: operation where
  "doc_confirm_magic_link = \<lparr>op_method = ''POST'', op_path = ''/magic-link/confirm'', op_id = ''confirm_magic_link'', op_tag = ''Login'', op_bearer = False,
     op_params = [], op_body = Some (''application/json'', ''ConfirmRequest''),
     op_responses =
       [(200, Some (''Exchange `code` on `/oauth/token` with the flow'' @ [CHR 0x27] @ ''s `code_verifier`''), Some ''LoginResponse''),
        (400, Some ''`invalid_request`, `invalid_token`, `account_disabled`, `flow_expired`'', Some ''ErrorBody''),
        (429, Some ''`rate_limited`'', Some ''ErrorBody'')]\<rparr>"

definition doc_confirm_magic_code :: operation where
  "doc_confirm_magic_code = \<lparr>op_method = ''POST'', op_path = ''/flows/login/{flow_id}/magic-code'', op_id = ''confirm_magic_code'', op_tag = ''Login'', op_bearer = False,
     op_params = [''flow_id''], op_body = Some (''application/json'', ''MagicCodeRequest''),
     op_responses =
       [(200, Some (''Exchange `code` on `/oauth/token` with the flow'' @ [CHR 0x27] @ ''s `code_verifier`''), Some ''LoginResponse''),
        (400, Some ''`invalid_request`, `invalid_code`, `account_disabled`, `flow_expired`'', Some ''ErrorBody''),
        (429, Some ''`rate_limited`'', Some ''ErrorBody'')]\<rparr>"

definition doc_get_me :: operation where
  "doc_get_me = \<lparr>op_method = ''GET'', op_path = ''/me'', op_id = ''get_me'', op_tag = ''Me'', op_bearer = True,
     op_params = [], op_body = None,
     op_responses =
       [(200, None, Some ''MeResponse''),
        (401, Some ''`unauthorized`: refresh the access token'', Some ''ErrorBody'')]\<rparr>"

definition doc_list_sessions :: operation where
  "doc_list_sessions = \<lparr>op_method = ''GET'', op_path = ''/me/sessions'', op_id = ''list_sessions'', op_tag = ''Me'', op_bearer = True,
     op_params = [], op_body = None,
     op_responses =
       [(200, None, Some ''[SessionResponse]''),
        (401, Some ''`unauthorized`: refresh the access token'', Some ''ErrorBody'')]\<rparr>"

definition doc_revoke_session :: operation where
  "doc_revoke_session = \<lparr>op_method = ''DELETE'', op_path = ''/me/sessions/{session_id}'', op_id = ''revoke_session'', op_tag = ''Me'', op_bearer = True,
     op_params = [''session_id''], op_body = None,
     op_responses =
       [(204, Some ''Session revoked'', None),
        (401, Some ''`unauthorized`: refresh the access token'', Some ''ErrorBody''),
        (404, Some ''`not_found`'', Some ''ErrorBody'')]\<rparr>"

definition doc_request_confirmation :: operation where
  "doc_request_confirmation = \<lparr>op_method = ''POST'', op_path = ''/me/confirmation'', op_id = ''request_confirmation'', op_tag = ''Me'', op_bearer = True,
     op_params = [], op_body = Some (''application/json'', ''ConfirmationRequest''),
     op_responses =
       [(202, Some (''Code emailed to the account'' @ [CHR 0x27] @ ''s address''), Some ''ConfirmationResponse''),
        (400, Some ''`invalid_request`'', Some ''ErrorBody''),
        (401, Some ''`unauthorized`: refresh the access token'', Some ''ErrorBody''),
        (429, Some ''`rate_limited`'', Some ''ErrorBody'')]\<rparr>"

definition doc_change_email :: operation where
  "doc_change_email = \<lparr>op_method = ''POST'', op_path = ''/me/email'', op_id = ''change_email'', op_tag = ''Me'', op_bearer = True,
     op_params = [], op_body = Some (''application/json'', ''ChangeEmailRequest''),
     op_responses =
       [(202, Some ''Confirmation link sent to the new address, unless it is taken: the answer is the same, and a `code` is spent either way'', Some ''ChangeEmailResponse''),
        (400, Some ''`invalid_request`, `invalid_email`, `invalid_code`'', Some ''ErrorBody''),
        (401, Some ''`unauthorized`: refresh the access token'', Some ''ErrorBody''),
        (429, Some ''`rate_limited`'', Some ''ErrorBody'')]\<rparr>"

definition doc_delete_account :: operation where
  "doc_delete_account = \<lparr>op_method = ''DELETE'', op_path = ''/me'', op_id = ''delete_account'', op_tag = ''Me'', op_bearer = True,
     op_params = [], op_body = Some (''application/json'', ''DeleteAccountRequest''),
     op_responses =
       [(204, Some ''Account deleted'', None),
        (400, Some ''`invalid_request`, `invalid_code`'', Some ''ErrorBody''),
        (401, Some ''`unauthorized`: refresh the access token'', Some ''ErrorBody''),
        (429, Some ''`rate_limited`'', Some ''ErrorBody'')]\<rparr>"

definition doc_token :: operation where
  "doc_token = \<lparr>op_method = ''POST'', op_path = ''/oauth/token'', op_id = ''token'', op_tag = ''OAuth'', op_bearer = False,
     op_params = [], op_body = Some (''application/x-www-form-urlencoded'', ''TokenRequest''),
     op_responses =
       [(200, None, Some ''TokenResponse''),
        (400, Some ''`invalid_request`, `invalid_grant`, `unsupported_grant_type`'', Some ''OAuthErrorBody''),
        (401, Some ''`invalid_client`'', Some ''OAuthErrorBody'')]\<rparr>"

definition doc_revoke :: operation where
  "doc_revoke = \<lparr>op_method = ''POST'', op_path = ''/oauth/revoke'', op_id = ''revoke'', op_tag = ''OAuth'', op_bearer = False,
     op_params = [], op_body = Some (''application/x-www-form-urlencoded'', ''RevokeRequest''),
     op_responses =
       [(200, Some ''Revoked, or nothing to revoke (RFC 7009)'', None),
        (400, Some ''`invalid_request`'', Some ''OAuthErrorBody''),
        (401, Some ''`invalid_client`'', Some ''OAuthErrorBody'')]\<rparr>"

definition doc_jwks :: operation where
  "doc_jwks = \<lparr>op_method = ''GET'', op_path = ''/.well-known/jwks.json'', op_id = ''jwks'', op_tag = ''Well-known'', op_bearer = False,
     op_params = [], op_body = None,
     op_responses =
       [(200, Some ''JWK Set (RFC 7517) with the Ed25519 keys signing access tokens'', Some ''Object'')]\<rparr>"

definition doc_authorization_server_metadata :: operation where
  "doc_authorization_server_metadata = \<lparr>op_method = ''GET'', op_path = ''/.well-known/oauth-authorization-server'', op_id = ''authorization_server_metadata'', op_tag = ''Well-known'', op_bearer = False,
     op_params = [], op_body = None,
     op_responses =
       [(200, Some ''RFC 8414 metadata'', Some ''AuthorizationServerMetadata'')]\<rparr>"

definition doc_live :: operation where
  "doc_live = \<lparr>op_method = ''GET'', op_path = ''/health/live'', op_id = ''live'', op_tag = ''Health'', op_bearer = False,
     op_params = [], op_body = None,
     op_responses =
       [(200, Some ''Process is up'', None)]\<rparr>"

definition doc_ready :: operation where
  "doc_ready = \<lparr>op_method = ''GET'', op_path = ''/health/ready'', op_id = ''ready'', op_tag = ''Health'', op_bearer = False,
     op_params = [], op_body = None,
     op_responses =
       [(200, Some ''Database reachable'', None),
        (503, Some ''Database unreachable'', None)]\<rparr>"

section \<open>The document\<close>

text \<open>\<open>paths(\<dots>)\<close>, each with the handler it names.\<close>

definition api_doc :: "(route \<times> operation) list" where
  "api_doc =
     [(HealthLive, doc_live),
      (HealthReady, doc_ready),
      (EmailChangeConfirm, doc_confirm_email_change),
      (CreateFlow, doc_create_flow),
      (MagicLinkRequest, doc_request_magic_link),
      (MagicLinkConfirm, doc_confirm_magic_link),
      (MagicCode, doc_confirm_magic_code),
      (OAuthToken, doc_token),
      (OAuthRevoke, doc_revoke),
      (MeGet, doc_get_me),
      (MeDelete, doc_delete_account),
      (MeEmail, doc_change_email),
      (MeConfirmation, doc_request_confirmation),
      (MeSessions, doc_list_sessions),
      (MeSession, doc_revoke_session),
      (WellKnownJwks, doc_jwks),
      (WellKnownServer, doc_authorization_server_metadata)]"

definition operation_of :: "route \<Rightarrow> operation option" where
  "operation_of r = map_of api_doc r"

text \<open>\<open>SecurityAddon\<close>: the scheme the operations refer to.\<close>

record security_scheme =
  sc_name :: string
  sc_scheme :: string
  sc_bearer_format :: string
  sc_description :: string

definition security_addon :: security_scheme where
  "security_addon = \<lparr>sc_name = ''bearer_auth'', sc_scheme = ''bearer'', sc_bearer_format = ''JWT'',
     sc_description = ''Access token from `/oauth/token`''\<rparr>"

text \<open>A path template as the segments of the router.\<close>

fun split_path :: "string \<Rightarrow> string \<Rightarrow> string list" where
  "split_path acc [] = [rev acc]"
| "split_path acc (c # cs) = (if c = CHR ''/'' then rev acc # split_path [] cs else split_path (c # acc) cs)"

definition segment_of :: "string \<Rightarrow> segment" where
  "segment_of s = (if s \<noteq> [] \<and> hd s = CHR ''{'' \<and> last s = CHR ''}'' then Param else Lit s)"

definition template_of :: "string \<Rightarrow> segment list" where
  "template_of path = map segment_of (tl (split_path [] path))"

text \<open>The codes a description names between backticks.\<close>

fun backticked :: "string option \<Rightarrow> string \<Rightarrow> string list" where
  "backticked cur [] = []"
| "backticked None (c # cs) = backticked (if c = CHR ''`'' then Some [] else None) cs"
| "backticked (Some w) (c # cs) = (if c = CHR ''`'' then rev w # backticked None cs else backticked (Some (c # w)) cs)"

definition documented_codes :: "operation \<Rightarrow> nat \<Rightarrow> string list" where
  "documented_codes op s = concat (map (\<lambda>(s', d, b). if s' = s then backticked None (case d of None \<Rightarrow> [] | Some t \<Rightarrow> t) else []) (op_responses op))"

definition documented :: "operation \<Rightarrow> http_answer \<Rightarrow> bool" where
  "documented op a \<longleftrightarrow> ha_status a \<in> fst ` set (op_responses op) \<and>
     (case ha_code a of None \<Rightarrow> True | Some c \<Rightarrow> c \<in> set (documented_codes op (ha_status a)))"

section \<open>What handlers can answer\<close>

text \<open>\<open>outcome Q P m\<close>: every result of \<open>m\<close> satisfies \<open>Q\<close>, every error \<open>P\<close>.\<close>

definition outcome :: "('a \<Rightarrow> bool) \<Rightarrow> ('e \<Rightarrow> bool) \<Rightarrow> ('e, 'a) req \<Rightarrow> bool" where
  "outcome Q P m \<longleftrightarrow> (\<forall>w. wp m (\<lambda>a _. Q a) (\<lambda>e _. P e) w)"

lemma outcome_run: "outcome Q P m \<Longrightarrow> m w = Some (x, w') \<Longrightarrow> case x of Inl e \<Rightarrow> P e | Inr a \<Rightarrow> Q a"
  unfolding outcome_def wp_def by (metis (mono_tags, lifting) option.case(2) prod.case)

named_theorems outcomes

lemma outcome_and_then: "outcome R P m \<Longrightarrow> (\<And>a. R a \<Longrightarrow> outcome Q P (f a)) \<Longrightarrow> outcome Q P (and_then m f)"
  unfolding outcome_def wp_and_then by (blast intro: wp_mono)

lemma outcome_then [outcomes]: "outcome (\<lambda>_. True) P m \<Longrightarrow> (\<And>a. outcome Q P (f a)) \<Longrightarrow> outcome Q P (and_then m f)"
  by (rule outcome_and_then)

lemma outcome_prims [outcomes]:
  "Q a \<Longrightarrow> outcome Q P (ok a)" "P e \<Longrightarrow> outcome Q P (err e)" "P e \<Longrightarrow> outcome (\<lambda>_. True) P (ok_or x e)"
  "outcome Q (\<lambda>e. P (g e)) l \<Longrightarrow> outcome Q P (map_err g l)" "outcome Q P m \<Longrightarrow> outcome Q P (scoped m)"
  "outcome (\<lambda>_. True) P' n \<Longrightarrow> outcome (\<lambda>_. True) P (attempt n)"
  "outcome (\<lambda>_. True) P utc_now" "outcome (\<lambda>_. True) P uuid_now_v7" "outcome (\<lambda>_. True) P load_keys"
  "outcome (\<lambda>_. True) P (send_in_background msg)" "outcome (\<lambda>_. True) P (token_generate E)" "outcome (\<lambda>_. True) P (code_generate E k owner)"
  by (simp_all add: outcome_def wp split: option.split)

lemma outcome_sql [outcomes]: "(\<And>s. P (api_from_sql s)) \<Longrightarrow> outcome (\<lambda>_. True) P (sql q)"
  "(\<And>s. P' (oauth_from_sql s)) \<Longrightarrow> outcome (\<lambda>_. True) P' (osql q)" "(\<And>s. P'' s) \<Longrightarrow> outcome (\<lambda>_. True) P'' (exec q)"
  "(\<And>s. P'' s) \<Longrightarrow> outcome (\<lambda>_. True) P'' begin_tx" "(\<And>s. P'' s) \<Longrightarrow> outcome (\<lambda>_. True) P'' commit_tx"
  "(\<And>s. P'' s) \<Longrightarrow> outcome (\<lambda>_. True) P'' rollback_tx"
  by (simp_all add: outcome_def wp split: option.split sum.split)

lemma outcome_limiter [outcomes]: "(\<And>d. P (RateLimited d)) \<Longrightarrow> outcome (\<lambda>_. True) P (limiter_check E l key)"
  by (simp add: outcome_def wp Let_def split: option.split)

lemma outcome_result [outcomes]: "(\<And>e. r = Inl e \<Longrightarrow> P e) \<Longrightarrow> (\<And>a. r = Inr a \<Longrightarrow> Q a) \<Longrightarrow> outcome Q P (result r)"
  by (simp add: outcome_def wp split: sum.split)

lemma outcome_cases [outcomes]:
  "\<lbrakk>b \<Longrightarrow> outcome Q P m; \<not> b \<Longrightarrow> outcome Q P m'\<rbrakk> \<Longrightarrow> outcome Q P (if b then m else m')"
  "\<lbrakk>outcome Q P m; \<And>a. outcome Q P (f a)\<rbrakk> \<Longrightarrow> outcome Q P (case x of None \<Rightarrow> m | Some a \<Rightarrow> f a)"
  "\<lbrakk>\<And>a. outcome Q P (g a); \<And>a. outcome Q P (h a)\<rbrakk> \<Longrightarrow> outcome Q P (case y of Inl a \<Rightarrow> g a | Inr a \<Rightarrow> h a)"
  "(\<And>a b. outcome Q P (k a b)) \<Longrightarrow> outcome Q P (case p of (a, b) \<Rightarrow> k a b)"
  "(\<And>a. outcome Q P (l a)) \<Longrightarrow> outcome Q P (Let z l)"
  by (simp_all split: option.split sum.split prod.split)

text \<open>An error of the app routes with one of these codes, or an internal one.\<close>

definition codes :: "string list \<Rightarrow> api_error \<Rightarrow> bool" where
  "codes cs e \<longleftrightarrow> api_error_code e \<in> set cs \<or> api_error_code e = ''internal_error''"

definition oauth_codes :: "string list \<Rightarrow> oauth_error \<Rightarrow> bool" where
  "oauth_codes cs e \<longleftrightarrow> fst (snd (oauth_error_parts e)) \<in> set cs \<or> fst (snd (oauth_error_parts e)) = ''server_error''"

lemma codes_sql [outcomes]: "codes cs (api_from_sql s)" "oauth_codes cs (oauth_from_sql s)" "oauth_codes cs (oauth_from_issue i)"
  by (simp_all add: codes_def oauth_codes_def api_from_sql_def oauth_from_sql_def oauth_from_issue_def)

lemma codes_mono: "outcome Q (codes cs) m \<Longrightarrow> set cs \<subseteq> set cs' \<Longrightarrow> outcome Q (codes cs') m"
  unfolding outcome_def codes_def by (blast intro: wp_mono)

lemma create_flow_answers: "outcome (\<lambda>a. fst a = 201)
    (codes [''invalid_request'', ''invalid_client'', ''invalid_redirect_uri'', ''invalid_code_challenge'']) (create_flow st input)"
  unfolding create_flow_def by (intro outcomes) (simp_all add: codes_def)

lemma magic_link_request_answers: "outcome (\<lambda>a. fst a = 202)
    (codes [''invalid_email'', ''flow_expired'', ''invalid_client'', ''rate_limited'']) (magic_link_request E st ip flow_id email)"
  unfolding magic_link_request_def flow_exhausted_def send_magic_link_def by (intro outcomes) (simp_all add: codes_def)

lemma log_in_answers: "codes cs stale \<Longrightarrow> set [''account_disabled'', ''flow_expired''] \<subseteq> set cs \<Longrightarrow>
    outcome (\<lambda>_. True) (codes cs) (log_in E flow_id user_id email stale)"
  unfolding log_in_def login_user_def log_in_end_def flow_complete_def by (intro outcomes TrueI) (simp_all add: codes_def)

lemma magic_link_confirm_answers: "outcome (\<lambda>_. True)
    (codes [''invalid_token'', ''account_disabled'', ''flow_expired'', ''rate_limited'']) (magic_link_confirm E st ip tok)"
  unfolding magic_link_confirm_def by (intro outcomes log_in_answers TrueI) (simp_all add: codes_def)

lemma find_link_answers: "(\<And>e. P e) \<Longrightarrow> outcome (\<lambda>_. True) P (magic_links_find_code_candidate f m n)"
  and find_confirmation_answers: "(\<And>e. P e) \<Longrightarrow> outcome (\<lambda>_. True) P (confirmations_find_code_candidate u i a m n)"
  unfolding magic_links_find_code_candidate_def confirmations_find_code_candidate_def by (intro outcomes TrueI; blast)+

lemma check_format_error: "check_format code = Inl e \<Longrightarrow> api_error_code e = ''invalid_request''"
  by (simp add: check_format_def split: if_splits) auto

lemma confirm_code_answers: "outcome (\<lambda>_. True)
    (codes [''invalid_request'', ''invalid_code'', ''account_disabled'', ''flow_expired'', ''rate_limited'']) (confirm_code E st ip flow_id code)"
  unfolding confirm_code_def use_code_def
  by (intro outcomes log_in_answers find_link_answers TrueI) (auto simp: codes_def dest: check_format_error)

lemma email_change_confirm_answers: "outcome (\<lambda>a. a = 204)
    (codes [''invalid_token'', ''account_disabled'', ''email_taken'', ''rate_limited'']) (email_change_confirm E st ip tok)"
  unfolding email_change_confirm_def by (intro outcomes TrueI) (simp_all add: codes_def)

lemma current_user_answers: "outcome (\<lambda>_. True) (codes [''unauthorized'']) (current_user_from_request E st auth)"
  unfolding current_user_from_request_def by (intro outcomes TrueI) (simp_all add: codes_def)

lemma me_get_answers: "outcome (\<lambda>_. True) (codes [''unauthorized'']) (me_get user)"
  unfolding me_get_def by (intro outcomes TrueI) (simp_all add: codes_def)

lemma list_sessions_answers: "outcome (\<lambda>_. True) (codes []) (list_sessions st user)"
  unfolding list_sessions_def by (intro outcomes TrueI)

lemma revoke_session_answers: "outcome (\<lambda>a. a = 204) (codes [''not_found'']) (revoke_session user i)"
  unfolding revoke_session_def by (intro outcomes TrueI) (simp_all add: codes_def)

lemma request_confirmation_answers: "outcome (\<lambda>a. fst a = 202) (codes [''rate_limited'']) (request_confirmation E st ip user action)"
  unfolding request_confirmation_def by (intro outcomes TrueI) (simp_all add: codes_def)

lemma check_code_answers: "outcome (\<lambda>_. True) (codes [''invalid_request'', ''invalid_code'', ''rate_limited'']) (check_code E st ip user action code)"
  unfolding check_code_def
  by (intro outcomes find_confirmation_answers TrueI) (auto simp: codes_def dest: check_format_error)

lemma email_change_page_error: "email_change_page c = Inl e \<Longrightarrow> api_error_code e = ''invalid_request''"
  by (auto simp: email_change_page_def split: option.splits)

lemma change_email_answers: "outcome (\<lambda>a. fst a = 202)
    (codes [''invalid_request'', ''invalid_email'', ''invalid_client'', ''invalid_code'', ''rate_limited'']) (change_email E st ip user code e)"
  unfolding change_email_def
  by (intro outcomes codes_mono [OF check_code_answers] TrueI) (auto simp: codes_def dest: email_change_page_error)

lemma delete_account_answers: "outcome (\<lambda>a. a = 204)
    (codes [''invalid_request'', ''invalid_code'', ''rate_limited'']) (delete_account E st ip user code)"
  unfolding delete_account_def by (intro outcomes codes_mono [OF check_code_answers] TrueI) (simp_all add: codes_def)

lemma sessions_open_answers: "(\<And>e. P e) \<Longrightarrow> outcome (\<lambda>_. True) P (sessions_open E u c k)"
  and issue_answers: "(\<And>e. P' e) \<Longrightarrow> outcome (\<lambda>_. True) P' (issue E ks is u i cl now)"
  unfolding sessions_open_def new_refresh_token_def issue_def by (intro outcomes TrueI; blast)+

lemma reject_answers: "outcome (\<lambda>e. oauth_codes [''invalid_grant''] e) (oauth_codes []) (reject_unusable_code h)"
  unfolding reject_unusable_code_def by (intro outcomes TrueI) (simp_all add: oauth_codes_def)

lemma oauth_codes_mono: "outcome Q (oauth_codes cs) m \<Longrightarrow> set cs \<subseteq> set cs' \<Longrightarrow> outcome Q (oauth_codes cs') m"
  unfolding outcome_def oauth_codes_def by (blast intro: wp_mono)

lemma rejection_answers: "outcome Q (oauth_codes [''invalid_request'', ''invalid_client'', ''invalid_grant'']) (and_then (reject_unusable_code h) err)"
  by (rule outcome_and_then [OF oauth_codes_mono [OF reject_answers]]) (auto simp: outcome_def wp oauth_codes_def)

lemma authorization_code_answers: "outcome (\<lambda>_. True)
    (oauth_codes [''invalid_request'', ''invalid_client'', ''invalid_grant'']) (authorization_code_grant E st input)"
  unfolding authorization_code_grant_def required_def
  by (intro rejection_answers outcomes sessions_open_answers issue_answers TrueI) (simp_all add: oauth_codes_def)

lemma refresh_answers: "outcome (\<lambda>_. True)
    (oauth_codes [''invalid_request'', ''invalid_client'', ''invalid_grant'']) (refresh_token_grant E st input)"
  unfolding refresh_token_grant_def refresh_stolen_def refresh_finish_def new_refresh_token_def required_def
  by (intro outcomes issue_answers TrueI) (simp_all add: oauth_codes_def)

lemma oauth_token_answers: "outcome (\<lambda>_. True)
    (oauth_codes [''invalid_request'', ''invalid_client'', ''invalid_grant'', ''unsupported_grant_type'']) (oauth_token E st input)"
  unfolding oauth_token_def
  by (intro outcomes oauth_codes_mono [OF authorization_code_answers] oauth_codes_mono [OF refresh_answers]) (simp_all add: oauth_codes_def)

lemma oauth_revoke_answers: "outcome (\<lambda>a. a = 200) (oauth_codes [''invalid_client'']) (oauth_revoke E st input)"
  unfolding oauth_revoke_def by (intro outcomes TrueI) (simp_all add: oauth_codes_def)

lemma ready_answers: "outcome (\<lambda>s. s \<in> {200, 503}) P ready"
  by (simp add: outcome_def ready_def wp split: sum.split)

section \<open>Every answer is in the document\<close>

text \<open>The two answers the document forgets.\<close>

definition forgotten :: "(route \<times> nat \<times> string) list" where
  "forgotten = [(MeSession, 400, ''invalid_request''), (MeEmail, 400, ''invalid_client'')]"

definition listed :: "route \<Rightarrow> operation \<Rightarrow> http_answer \<Rightarrow> bool" where
  "listed r op a \<longleftrightarrow> documented op a \<or> ha_status a = 500 \<or> (\<exists>c. ha_code a = Some c \<and> (r, ha_status a, c) \<in> set forgotten)"

definition covers :: "route \<Rightarrow> operation \<Rightarrow> nat \<Rightarrow> string \<Rightarrow> bool" where
  "covers r op s c \<longleftrightarrow> s \<in> set (map fst (op_responses op)) \<and> c \<in> set (documented_codes op s) \<or> (r, s, c) \<in> set forgotten"

definition status_of_code :: "string \<Rightarrow> nat" where
  "status_of_code c = (if c = ''unauthorized'' then 401 else if c = ''not_found'' then 404 else if c = ''rate_limited'' then 429 else 400)"

definition oauth_status_of_code :: "string \<Rightarrow> nat" where
  "oauth_status_of_code c = (if c = ''invalid_client'' then 401 else 400)"

lemma api_listed:
  assumes "codes cs e" "list_all (\<lambda>c. covers r op (status_of_code c) c) cs"
  shows "listed r op (answer (Inl (ApiFailure e)))"
proof (cases "api_error_code e = ''internal_error''")
  case True
  then show ?thesis by (cases e) (simp_all add: listed_def api_error_response_def)
next
  case False
  then have "api_error_status e = status_of_code (api_error_code e)" by (cases e) (simp_all add: status_of_code_def)
  moreover have "covers r op (status_of_code (api_error_code e)) (api_error_code e)"
    using assms False by (auto simp: codes_def list_all_iff)
  ultimately show ?thesis by (auto simp: listed_def covers_def documented_def api_error_response_def)
qed

lemma oauth_listed:
  assumes "oauth_codes cs e" "list_all (\<lambda>c. covers r op (oauth_status_of_code c) c) cs"
  shows "listed r op (answer (Inl (OAuthFailure e)))"
proof (cases "fst (snd (oauth_error_parts e)) = ''server_error''")
  case True
  then show ?thesis by (cases e) (simp_all add: listed_def oauth_error_response_def)
next
  case False
  then have "fst (oauth_error_parts e) = oauth_status_of_code (fst (snd (oauth_error_parts e)))"
    by (cases e) (simp_all add: oauth_status_of_code_def)
  moreover have "covers r op (oauth_status_of_code (fst (snd (oauth_error_parts e)))) (fst (snd (oauth_error_parts e)))"
    using assms False by (auto simp: oauth_codes_def list_all_iff)
  ultimately show ?thesis
    by (auto simp: listed_def covers_def documented_def oauth_error_response_def split: prod.splits intro: rev_image_eqI)
qed

lemma success_listed: "response_status x \<in> set (map fst (op_responses op)) \<Longrightarrow> listed r op (answer (Inr x))"
  by (simp add: listed_def documented_def)

abbreviation answers :: "route \<Rightarrow> operation \<Rightarrow> (failure, response) req \<Rightarrow> bool" where
  "answers r op \<equiv> outcome (\<lambda>x. listed r op (answer (Inr x))) (\<lambda>f. listed r op (answer (Inl f)))"

lemma api_answers:
  assumes "outcome Q (codes cs) m" "list_all (\<lambda>c. covers r op (status_of_code c) c) cs"
    and "\<And>a. Q a \<Longrightarrow> response_status (f a) \<in> set (map fst (op_responses op))"
  shows "answers r op (api_route f m)"
  using assms api_listed [OF _ assms(2)] success_listed unfolding outcome_def api_route_def wp_map_err wp_and_then wp_ok
  by (blast intro: wp_mono)

lemma oauth_answers:
  assumes "outcome Q (oauth_codes cs) m" "list_all (\<lambda>c. covers r op (oauth_status_of_code c) c) cs"
    and "\<And>a. Q a \<Longrightarrow> response_status (f a) \<in> set (map fst (op_responses op))"
  shows "answers r op (oauth_route f m)"
  using assms oauth_listed [OF _ assms(2)] success_listed unfolding outcome_def oauth_route_def wp_map_err wp_and_then wp_ok
  by (blast intro: wp_mono)

text \<open>The extractors.\<close>

lemma extractor_answers:
  "''invalid_request'' \<in> set cs \<Longrightarrow> outcome (\<lambda>_. True) (codes cs) (app_json d)"
  "''invalid_request'' \<in> set cs \<Longrightarrow> outcome (\<lambda>_. True) (codes cs) (app_path d')"
  "''invalid_request'' \<in> set os \<Longrightarrow> outcome (\<lambda>_. True) (oauth_codes os) (oauth_form d'')"
  unfolding app_json_def app_path_def oauth_form_def
  by (intro outcome_result TrueI, auto simp: codes_def oauth_codes_def api_from_json_rejection_def api_from_path_rejection_def
      oauth_from_form_rejection_def)+

text \<open>The codes each route can answer, its extractors included.\<close>

fun route_codes :: "route \<Rightarrow> string list" where
  "route_codes EmailChangeConfirm = [''invalid_request'', ''invalid_token'', ''account_disabled'', ''email_taken'', ''rate_limited'']"
| "route_codes CreateFlow = [''invalid_request'', ''invalid_client'', ''invalid_redirect_uri'', ''invalid_code_challenge'']"
| "route_codes MagicLinkRequest = [''invalid_request'', ''invalid_email'', ''flow_expired'', ''invalid_client'', ''rate_limited'']"
| "route_codes MagicCode = [''invalid_request'', ''invalid_code'', ''account_disabled'', ''flow_expired'', ''rate_limited'']"
| "route_codes MagicLinkConfirm = [''invalid_request'', ''invalid_token'', ''account_disabled'', ''flow_expired'', ''rate_limited'']"
| "route_codes MeGet = [''unauthorized'']"
| "route_codes MeDelete = [''unauthorized'', ''invalid_request'', ''invalid_code'', ''rate_limited'']"
| "route_codes MeConfirmation = [''unauthorized'', ''invalid_request'', ''rate_limited'']"
| "route_codes MeEmail = [''unauthorized'', ''invalid_request'', ''invalid_email'', ''invalid_client'', ''invalid_code'', ''rate_limited'']"
| "route_codes MeSessions = [''unauthorized'']"
| "route_codes MeSession = [''unauthorized'', ''invalid_request'', ''not_found'']"
| "route_codes OAuthToken = [''invalid_request'', ''invalid_client'', ''invalid_grant'', ''unsupported_grant_type'']"
| "route_codes OAuthRevoke = [''invalid_request'', ''invalid_client'']"
| "route_codes _ = []"

lemma oauth_routes_covered:
  "list_all (\<lambda>c. covers OAuthToken doc_token (oauth_status_of_code c) c) (route_codes OAuthToken)"
  "list_all (\<lambda>c. covers OAuthRevoke doc_revoke (oauth_status_of_code c) c) (route_codes OAuthRevoke)"
  by code_simp+

lemma routes_covered:
  "list_all (\<lambda>(r, op). r \<in> {OAuthToken, OAuthRevoke} \<or> list_all (\<lambda>c. covers r op (status_of_code c) c) (route_codes r)) api_doc"
  by code_simp

lemma route_covered:
  assumes "operation_of r = Some op" "r \<notin> {OAuthToken, OAuthRevoke}"
  shows "list_all (\<lambda>c. covers r op (status_of_code c) c) (route_codes r)"
proof -
  have "(r, op) \<in> set api_doc" using assms(1) unfolding operation_of_def by (rule map_of_SomeD)
  with routes_covered assms(2) show ?thesis by (auto simp: list_all_iff)
qed

text \<open>The handlers behind their extractors.\<close>

lemmas part_answers = extractor_answers codes_mono [OF current_user_answers] codes_mono [OF create_flow_answers]
  codes_mono [OF magic_link_request_answers] codes_mono [OF magic_link_confirm_answers] codes_mono [OF confirm_code_answers]
  codes_mono [OF email_change_confirm_answers] codes_mono [OF me_get_answers] codes_mono [OF list_sessions_answers]
  codes_mono [OF revoke_session_answers] codes_mono [OF request_confirmation_answers] codes_mono [OF change_email_answers]
  codes_mono [OF delete_account_answers] oauth_codes_mono [OF oauth_token_answers] oauth_codes_mono [OF oauth_revoke_answers]

lemma public_outcomes:
  "outcome (\<lambda>a. a = 204) (codes (route_codes EmailChangeConfirm)) (and_then (app_json d) (email_change_confirm E st ip))"
  "outcome (\<lambda>a. fst a = 201) (codes (route_codes CreateFlow)) (and_then (app_json d1) (create_flow st))"
  "outcome (\<lambda>a. fst a = 202) (codes (route_codes MagicLinkRequest))
     (and_then (app_path u) (\<lambda>flow_id. and_then (app_json d) (magic_link_request E st ip flow_id)))"
  "outcome (\<lambda>_. True) (codes (route_codes MagicCode)) (and_then (app_path u) (\<lambda>flow_id. and_then (app_json d) (confirm_code E st ip flow_id)))"
  "outcome (\<lambda>_. True) (codes (route_codes MagicLinkConfirm)) (and_then (app_json d) (magic_link_confirm E st ip))"
  "outcome (\<lambda>_. True) (oauth_codes (route_codes OAuthToken)) (and_then (oauth_form d2) (oauth_token E st))"
  "outcome (\<lambda>a. a = 200) (oauth_codes (route_codes OAuthRevoke)) (and_then (oauth_form d3) (oauth_revoke E st))"
  by (intro outcome_then part_answers; simp)+

lemma account_outcomes:
  "outcome (\<lambda>_. True) (codes (route_codes MeGet)) (and_then (current_user_from_request E st auth) me_get)"
  "outcome (\<lambda>a. a = 204) (codes (route_codes MeDelete))
     (and_then (current_user_from_request E st auth) (\<lambda>user. and_then (app_json d) (delete_account E st ip user)))"
  "outcome (\<lambda>a. fst a = 202) (codes (route_codes MeConfirmation))
     (and_then (current_user_from_request E st auth) (\<lambda>user. and_then (app_json d1) (request_confirmation E st ip user)))"
  "outcome (\<lambda>a. fst a = 202) (codes (route_codes MeEmail)) (and_then (current_user_from_request E st auth) (\<lambda>user.
     and_then (app_json d2) (\<lambda>(code, new_email). change_email E st ip user code new_email)))"
  "outcome (\<lambda>_. True) (codes (route_codes MeSessions)) (and_then (current_user_from_request E st auth) (list_sessions st))"
  "outcome (\<lambda>a. a = 204) (codes (route_codes MeSession))
     (and_then (current_user_from_request E st auth) (\<lambda>user. and_then (app_path u) (revoke_session user)))"
  by (intro outcome_then outcome_cases(4) part_answers; simp)+

fun success_status :: "route \<Rightarrow> nat list" where
  "success_status EmailChangeConfirm = [204]"
| "success_status CreateFlow = [201]"
| "success_status MagicLinkRequest = [202]"
| "success_status MeDelete = [204]"
| "success_status MeConfirmation = [202]"
| "success_status MeEmail = [202]"
| "success_status MeSession = [204]"
| "success_status HealthReady = [200, 503]"
| "success_status _ = [200]"

lemma successes_covered: "list_all (\<lambda>(r, op). list_all (\<lambda>s. s \<in> set (map fst (op_responses op))) (success_status r)) api_doc"
  by code_simp

lemma success_documented:
  assumes "operation_of r = Some op" "s \<in> set (success_status r)"
  shows "s \<in> set (map fst (op_responses op))"
proof -
  have "(r, op) \<in> set api_doc" using assms(1) unfolding operation_of_def by (rule map_of_SomeD)
  with assms(2) show ?thesis using successes_covered by (auto simp: list_all_iff)
qed

lemma api_route_documented:
  assumes "operation_of r = Some op" "outcome Q (codes (route_codes r)) m" "r \<notin> {OAuthToken, OAuthRevoke}"
    and "\<And>a. Q a \<Longrightarrow> response_status (f a) \<in> set (success_status r)"
  shows "answers r op (api_route f m)"
  by (rule api_answers [OF assms(2) route_covered [OF assms(1,3)]]) (rule success_documented [OF assms(1) assms(4)])

lemma oauth_documented:
  "operation_of OAuthToken = Some op \<Longrightarrow> op = doc_token" "operation_of OAuthRevoke = Some op \<Longrightarrow> op = doc_revoke"
  by (simp_all add: operation_of_def api_doc_def)

lemma handle_listed:
  assumes "operation_of r = Some op"
  shows "answers r op (handle D E st q ps r)"
  using assms
proof (cases r)
  case OAuthToken
  show ?thesis unfolding OAuthToken handle.simps
    by (rule oauth_answers [OF public_outcomes(6) oauth_routes_covered(1) [folded oauth_documented(1) [OF assms [unfolded OAuthToken]]]])
      (rule success_documented [OF assms [unfolded OAuthToken]], simp)
next
  case OAuthRevoke
  show ?thesis unfolding OAuthRevoke handle.simps
    by (rule oauth_answers [OF public_outcomes(7) oauth_routes_covered(2) [folded oauth_documented(2) [OF assms [unfolded OAuthRevoke]]]])
      (rule success_documented [OF assms [unfolded OAuthRevoke]], simp)
next
  case OpenApi
  with assms show ?thesis by (simp add: operation_of_def api_doc_def)
next
  case HealthReady
  show ?thesis unfolding HealthReady handle.simps
    by (auto simp: outcome_def ready_def wp intro!: success_listed success_documented [OF assms, unfolded HealthReady]
        simp del: answer.simps split: sum.split)
qed ((hypsubst, unfold handle.simps, erule api_route_documented, rule public_outcomes account_outcomes, simp, simp)
  | (auto simp: outcome_def wp well_known_jwks_def intro!: success_listed dest: success_documented simp del: answer.simps))+

section \<open>The contract\<close>

lemma doc_routes: "list_all (\<lambda>(r, op). (r, op_method op, template_of (op_path op)) \<in> set routes) api_doc"
  "list_all (\<lambda>(r, m, p). r = OpenApi \<or> operation_of r \<noteq> None) routes"
  by code_simp+

lemma doc_ids: "distinct (map fst api_doc)" "distinct (map (op_id \<circ> snd) api_doc)"
  by code_simp+

lemma doc_bearer: "list_all (\<lambda>(r, op). op_bearer op \<longleftrightarrow> r \<in> {MeGet, MeDelete, MeConfirmation, MeEmail, MeSessions, MeSession}) api_doc"
  by code_simp

lemma no_authorization: "current_user_from_request E st None = err Unauthorized"
  by (simp add: current_user_from_request_def ok_or_def and_then_left)

lemma bearer_required:
  assumes "r \<in> {MeGet, MeDelete, MeConfirmation, MeEmail, MeSessions, MeSession}" "hq_authorization q = None"
  shows "handle D E st q ps r = err (ApiFailure Unauthorized)"
proof -
  have route: "api_route f (err Unauthorized) = err (ApiFailure Unauthorized)" for f :: "'a \<Rightarrow> response"
    by (simp add: api_route_def and_then_left map_err_def err_def fun_eq_iff)
  from assms show ?thesis by (auto simp: no_authorization and_then_left route)
qed

lemma bearer_ignored:
  "r \<notin> {MeGet, MeDelete, MeConfirmation, MeEmail, MeSessions, MeSession} \<Longrightarrow>
    handle D E st (q\<lparr>hq_authorization := x\<rparr>) ps r = handle D E st q ps r"
  by (cases r) simp_all

text \<open>C35 (answers_documented): the API document is true. It has the method and path of every route but its own page.
  Whatever the server answers on a route has a status the document gives for it, and an error has one of the codes
  named there, except an internal error, and two answers the document forgets: \<open>DELETE /me/sessions/{session_id}\<close> with an id
  that is not a UUID (400 \<open>invalid_request\<close>), \<open>POST /me/email\<close> from a client no longer configured (400 \<open>invalid_client\<close>).
  A route the document protects answers 401 without an access token, changing nothing; the others ignore the header.\<close>

theorem answers_documented:
  assumes "http_exchange D E st q w = Some (a, w')" "find_route (hq_method q) (hq_path q) = Inr (r, ps)" "r \<noteq> OpenApi"
  shows "\<exists>op. operation_of r = Some op \<and> (r, op_method op, template_of (op_path op)) \<in> set routes \<and>
    (documented op a \<or> ha_status a = 500 \<or>
      r = MeSession \<and> ha_status a = 400 \<and> ha_code a = Some ''invalid_request'' \<or>
      r = MeEmail \<and> ha_status a = 400 \<and> ha_code a = Some ''invalid_client'') \<and>
    (if op_bearer op then hq_authorization q = None \<longrightarrow> ha_status a = 401 \<and> w' = w
     else \<forall>x. http_exchange D E st (q\<lparr>hq_authorization := x\<rparr>) w = Some (a, w'))"
proof -
  from assms(2) have "\<exists>m p. (r, m, p) \<in> set routes"
    by (auto simp: find_route_def Let_def set_map_filter split: option.splits prod.splits dest!: find_Some_set) blast
  with doc_routes(2) assms(3) obtain op where op: "operation_of r = Some op" by (auto simp: list_all_iff)
  then have doc: "(r, op) \<in> set api_doc" unfolding operation_of_def by (rule map_of_SomeD)
  from assms(1,2) obtain x where x: "handle D E st q ps r w = Some (x, w')" "a = answer x"
    by (auto simp: http_exchange_def)
  from outcome_run [OF handle_listed [OF op] x(1)] have "listed r op a" by (cases x) (simp_all add: x(2) del: answer.simps)
  moreover have "(r, op_method op, template_of (op_path op)) \<in> set routes" using doc_routes(1) doc by (auto simp: list_all_iff)
  moreover have "ha_status a = 401 \<and> w' = w" if "op_bearer op" "hq_authorization q = None"
  proof -
    from doc doc_bearer that(1) have "r \<in> {MeGet, MeDelete, MeConfirmation, MeEmail, MeSessions, MeSession}" by (auto simp: list_all_iff)
    from bearer_required [OF this that(2)] x show ?thesis by (auto simp: err_def api_error_response_def)
  qed
  moreover have "http_exchange D E st (q\<lparr>hq_authorization := y\<rparr>) w = Some (a, w')" if "\<not> op_bearer op" for y
  proof -
    from doc doc_bearer that have "r \<notin> {MeGet, MeDelete, MeConfirmation, MeEmail, MeSessions, MeSession}" by (auto simp: list_all_iff)
    from bearer_ignored [OF this] assms(1,2) show ?thesis by (simp add: http_exchange_def)
  qed
  ultimately show ?thesis using op by (intro exI [of _ op]) (auto simp: listed_def forgotten_def)
qed

text \<open>Ending the session \<open>nope\<close> is one of the two.\<close>

definition bad_session :: http_request where
  "bad_session = demo_http\<lparr>hq_path := [''me'', ''sessions'', ''nope'']\<rparr>"

lemma bad_session_runs:
  "map_option fst (http_exchange demo_decoders demo_ext demo_state bad_session (demo_world session_db)) =
     Some \<lparr>ha_status = 400, ha_headers = [], ha_code = Some ''invalid_request'', ha_message = Some ''not a UUID''\<rparr>"
  "find_route (hq_method bad_session) (hq_path bad_session) = Inr (MeSession, [''nope''])"
  by code_simp+

theorem answers_documented_witness:
  "\<exists>op a w'. operation_of MeSession = Some op \<and> op_bearer op \<and> ha_status a = 400 \<and> \<not> documented op a \<and>
     http_exchange demo_decoders demo_ext demo_state bad_session (demo_world session_db) = Some (a, w')"
proof -
  from bad_session_runs(1) obtain w' where w': "http_exchange demo_decoders demo_ext demo_state bad_session (demo_world session_db) =
      Some (\<lparr>ha_status = 400, ha_headers = [], ha_code = Some ''invalid_request'', ha_message = Some ''not a UUID''\<rparr>, w')" by auto
  from answers_documented [OF w' bad_session_runs(2)] obtain op where op: "operation_of MeSession = Some op" by auto
  then have "op = doc_revoke_session" by (simp add: operation_of_def api_doc_def)
  moreover have "op_bearer doc_revoke_session" "400 \<notin> set (map fst (op_responses doc_revoke_session))" by code_simp+
  ultimately show ?thesis using op w' unfolding documented_def by (intro exI [of _ op] exI) (auto simp: image_iff)
qed

end
