(* ===== verification/UnitTests.thy ===== *)
theory UnitTests
  imports Codes Http
begin

text \<open>
  The unit tests the modules of the server carry (\<open>#[cfg(test)] mod tests\<close>), translated as the code is: a test is
  a computation of the model whose value is the conjunction of its assertions, an \<open>unwrap\<close> that would panic is an
  error, and what it generates at random is drawn from the world. Each lemma shows that the test passes on the
  model, for all random values; what the crates must do on the test's own inputs is a hypothesis. The tests that
  only exercise a crate (\<open>tera\<close>, \<open>lettre\<close>, \<open>governor\<close>, the encoding of a JWT with other claims) are left out. The tests
  of \<open>clients.rs\<close> are in \<open>ClientTests\<close>.
\<close>

section \<open>Tests as computations\<close>

type_synonym test = "(unit, bool) req"

definition unwrap :: "'e + 'a \<Rightarrow> (unit, 'a) req" where
  "unwrap r = result (map_sum (\<lambda>_. ()) id r)"

definition passes :: "test \<Rightarrow> world \<Rightarrow> bool" where
  "passes t w \<longleftrightarrow> (\<exists>w'. t w = Some (Inr True, w'))"

text \<open>The rules that run a test.\<close>

named_theorems run \<open>running a test\<close>

lemma passes_ok [run]: "passes (ok b) w \<longleftrightarrow> b"
  by (simp add: passes_def ok_def)

lemma passes_and_then [run]: "passes (and_then m f) w \<longleftrightarrow> (\<exists>a w'. m w = Some (Inr a, w') \<and> passes (f a) w')"
  by (auto simp: passes_def and_then_def split: option.splits sum.splits)

lemma runs [run]:
  "ok a w = Some (Inr b, w') \<longleftrightarrow> b = a \<and> w' = w"
  "and_then m f w = Some (Inr b, w') \<longleftrightarrow> (\<exists>a v. m w = Some (Inr a, v) \<and> f a v = Some (Inr b, w'))"
  "unwrap r w = Some (Inr b, w') \<longleftrightarrow> r = Inr b \<and> w' = w"
  by (auto simp: ok_def and_then_def unwrap_def result_def err_def split: option.splits sum.splits)

lemma draws [run]:
  "random_bytes n w = Some (Inr bs, w') \<longleftrightarrow> bs = map (w_rng w) [0..<n] \<and> w' = w\<lparr>w_rng := shift n (w_rng w)\<rparr>"
  "uuid_now_v7 w = Some (Inr u, w') \<longleftrightarrow> u = w_ids w 0 \<and> w' = w\<lparr>w_ids := shift 1 (w_ids w)\<rparr>"
  "utc_now w = Some (Inr t, w') \<longleftrightarrow> t = w_utc w 0 \<and> w' = w\<lparr>w_utc := shift 1 (w_utc w)\<rparr>"
  by (auto simp: random_bytes_def uuid_now_v7_def utc_now_def)

section \<open>\<open>email.rs\<close>\<close>

definition accepts_common_addresses :: bool where
  "accepts_common_addresses \<longleftrightarrow> is_valid_email ''alice@example.com'' \<and> is_valid_email ''  Alice+test@Mail.Example.com ''"

definition rejects_malformed_addresses :: bool where
  "rejects_malformed_addresses \<longleftrightarrow>
     list_all (\<lambda>email. \<not> is_valid_email email)
       [[], ''alice'', ''@example.com'', ''alice@'', ''alice@localhost'', ''a@b@c.fr'', ''alice@.fr'', ''alice@fr.'',
        ''e gor@example.com'', CHR 0x09 # ''alice@example.com''] \<and>
     \<not> is_valid_email (replicate 250 (CHR ''a'') @ ''@example.com'')"

lemma email_tests: accepts_common_addresses rejects_malformed_addresses
  by code_simp+

section \<open>\<open>token.rs\<close> and \<open>pkce.rs\<close>\<close>

definition generated_token_is_url_safe_and_hash_matches :: "ext \<Rightarrow> test" where
  "generated_token_is_url_safe_and_hash_matches E =
     and_then (token_generate E) (\<lambda>token.
     ok (length (tok_plain token) = 43 \<and>
         list_all (\<lambda>c. is_ascii_alphanumeric c \<or> c = CHR ''-'' \<or> c = CHR ''_'') (tok_plain token) \<and>
         length (tok_hash token) = 32 \<and> token_hash E (tok_plain token) = tok_hash token))"

definition tokens_are_unique :: "ext \<Rightarrow> test" where
  "tokens_are_unique E = and_then (token_generate E) (\<lambda>a. and_then (token_generate E) (\<lambda>b. ok (tok_plain a \<noteq> tok_plain b)))"

lemma token_test: "s256_shape E \<Longrightarrow> passes (generated_token_is_url_safe_and_hash_matches E) w"
  by (simp add: generated_token_is_url_safe_and_hash_matches_def run token_generate_def token_of_bytes_def
      s256_shape_def is_base64url_def token_hash_def Let_def)

lemma token_unique_test:
  assumes "inj (x_b64url E)" "map (w_rng w) [0..<32] \<noteq> map (shift 32 (w_rng w)) [0..<32]"
  shows "passes (tokens_are_unique E) w"
  using assms by (simp add: tokens_are_unique_def run token_generate_def token_of_bytes_def inj_eq Let_def del: upt_Suc)

definition VERIFIER :: string where "VERIFIER = ''dBjftJeZ4CVP-mB92K27uhbUJU1p1r_wW1gFWFOEjXk''"
definition CHALLENGE :: string where "CHALLENGE = ''E9Melhoa2OwvFrEMTJguCHaoeK1t8URWbuGJSstw-cM''"

definition rfc_7636_test_vector :: "ext \<Rightarrow> bool" where
  "rfc_7636_test_vector E \<longleftrightarrow> is_valid_challenge CHALLENGE \<and> pkce_verify E VERIFIER CHALLENGE"

definition rejects_wrong_or_malformed_values :: "ext \<Rightarrow> bool" where
  "rejects_wrong_or_malformed_values E \<longleftrightarrow>
     \<not> pkce_verify E ''wrong-verifier-wrong-verifier-wrong-verifier'' CHALLENGE \<and>
     \<not> pkce_verify E ''short'' CHALLENGE \<and>
     \<not> is_valid_challenge ''too-short'' \<and>
     \<not> is_valid_challenge ''E9Melhoa2OwvFrEMTJguCHaoeK1t8URWbuGJSstw+cM'' \<and>
     \<not> is_valid_challenge ''E9Melhoa2OwvFrEMTJguCHaoeK1t8URWbuGJSstw-cM=''"

lemma pkce_forms: "is_valid_challenge CHALLENGE" "is_valid_verifier VERIFIER" "\<not> is_valid_verifier ''short''"
    "\<not> is_valid_challenge ''too-short''" "\<not> is_valid_challenge ''E9Melhoa2OwvFrEMTJguCHaoeK1t8URWbuGJSstw+cM''"
    "\<not> is_valid_challenge ''E9Melhoa2OwvFrEMTJguCHaoeK1t8URWbuGJSstw-cM=''"
  by code_simp+

text \<open>The vector of RFC 7636 is one of SHA-256 and base64.\<close>

lemma pkce_tests:
  assumes "x_b64url E (x_sha256 E VERIFIER) = CHALLENGE"
  shows "rfc_7636_test_vector E"
    and "inj (x_b64url E) \<Longrightarrow> sha256_distinct E {VERIFIER, ''wrong-verifier-wrong-verifier-wrong-verifier''} \<Longrightarrow>
      rejects_wrong_or_malformed_values E"
proof -
  show "rfc_7636_test_vector E" by (simp add: rfc_7636_test_vector_def pkce_verify_def pkce_forms assms)
  assume inj: "inj (x_b64url E)" "sha256_distinct E {VERIFIER, ''wrong-verifier-wrong-verifier-wrong-verifier''}"
  have "VERIFIER \<noteq> ''wrong-verifier-wrong-verifier-wrong-verifier''" by (simp add: VERIFIER_def)
  then have "x_b64url E (x_sha256 E ''wrong-verifier-wrong-verifier-wrong-verifier'') \<noteq> CHALLENGE"
    using inj unfolding assms [symmetric] by (simp add: sha256_distinct_def inj_eq)
  then show "rejects_wrong_or_malformed_values E"
    by (simp add: rejects_wrong_or_malformed_values_def pkce_verify_def pkce_forms)
qed

section \<open>\<open>master_key.rs\<close>\<close>

definition MASTER :: string where "MASTER = ''AAECAwQFBgcICQoLDA0ODxAREhMUFRYXGBkaGxwdHh8=''"
definition OTHER_MASTER :: string where "OTHER_MASTER = ''HxwdHh8AAQIDBAUGBwgJCgsMDQ4PEBESExQVFhcYGRo=''"

text \<open>What \<open>base64\<close> makes of the keys of the tests: two of 32 bytes, a text with a space, and one of 16 bytes.\<close>

definition test_keys_decode :: "ext \<Rightarrow> bytes \<Rightarrow> bytes \<Rightarrow> bool" where
  "test_keys_decode E k other \<longleftrightarrow> x_b64_decode E MASTER = Some k \<and> x_b64_decode E OTHER_MASTER = Some other \<and>
     length k = 32 \<and> length other = 32 \<and> k \<noteq> other \<and>
     x_b64_decode E ''too short'' = None \<and>
     (\<exists>short. x_b64_decode E ''AAECAwQFBgcICQoLDA0ODw=='' = Some short \<and> length short = 16)"

lemma test_strings_trimmed: "str_trim MASTER = MASTER" "str_trim OTHER_MASTER = OTHER_MASTER"
    "str_trim ''too short'' = ''too short''" "str_trim ''AAECAwQFBgcICQoLDA0ODw=='' = ''AAECAwQFBgcICQoLDA0ODw==''"
  by code_simp+

lemma test_key_loads:
  assumes "test_keys_decode E k other"
  shows "master_key_from_base64 E MASTER = Inr \<lparr>mk_cipher = k, mk_derivation = k\<rparr>"
    and "master_key_from_base64 E OTHER_MASTER = Inr \<lparr>mk_cipher = other, mk_derivation = other\<rparr>"
  using assms by (simp_all add: master_key_from_base64_def test_keys_decode_def test_strings_trimmed)

definition master_key_roundtrip :: "ext \<Rightarrow> test" where
  "master_key_roundtrip E =
     and_then (unwrap (master_key_from_base64 E MASTER)) (\<lambda>key.
     and_then (master_key_encrypt E key ''secret'' ''signing_key:1'') (\<lambda>sealed.
     and_then (unwrap (master_key_decrypt E key sealed ''signing_key:1'')) (\<lambda>plain.
     ok (plain = ''secret''))))"

definition same_plaintext_encrypts_differently :: "ext \<Rightarrow> test" where
  "same_plaintext_encrypts_differently E =
     and_then (unwrap (master_key_from_base64 E MASTER)) (\<lambda>key.
     and_then (master_key_encrypt E key ''secret'' ''ctx'') (\<lambda>a.
     and_then (master_key_encrypt E key ''secret'' ''ctx'') (\<lambda>b. ok (a \<noteq> b))))"

definition derived_keys_depend_on_purpose_and_master_key :: "ext \<Rightarrow> test" where
  "derived_keys_depend_on_purpose_and_master_key E =
     and_then (unwrap (master_key_from_base64 E MASTER)) (\<lambda>key.
     and_then (unwrap (master_key_from_base64 E OTHER_MASTER)) (\<lambda>other.
     ok (master_key_derive E key ''magic_code'' = master_key_derive E key ''magic_code'' \<and>
         master_key_derive E key ''magic_code'' \<noteq> master_key_derive E key ''other'' \<and>
         master_key_derive E key ''magic_code'' \<noteq> master_key_derive E other ''magic_code'')))"

text \<open>\<open>Debug\<close> of a master key.\<close>

definition master_key_debug :: "master_key \<Rightarrow> string" where
  "master_key_debug mk = ''MasterKey(<redacted>)''"

definition rejects_invalid_master_key :: "ext \<Rightarrow> test" where
  "rejects_invalid_master_key E =
     and_then (unwrap (master_key_from_base64 E MASTER)) (\<lambda>key.
     ok (isl (master_key_from_base64 E ''too short'') \<and>
         isl (master_key_from_base64 E ''AAECAwQFBgcICQoLDA0ODw=='') \<and>
         master_key_debug key = ''MasterKey(<redacted>)''))"

lemma encrypt_run [run]: "master_key_encrypt E mk m ctx w = Some (Inr s, w') \<longleftrightarrow>
    s = seal_with E mk (map (w_rng w) [0..<24]) m ctx \<and> w' = w\<lparr>w_rng := shift 24 (w_rng w)\<rparr>"
  by (auto simp: master_key_encrypt_def run simp del: upt_Suc)

lemma master_key_tests:
  assumes "test_keys_decode E k other"
  shows "aead_opens E \<Longrightarrow> passes (master_key_roundtrip E) w"
    and "map (w_rng w) [0..<24] \<noteq> map (shift 24 (w_rng w)) [0..<24] \<Longrightarrow> passes (same_plaintext_encrypts_differently E) w"
    and "inj (\<lambda>(k, m). x_hmac E k m) \<Longrightarrow> passes (derived_keys_depend_on_purpose_and_master_key E) w"
    and "passes (rejects_invalid_master_key E) w"
proof -
  note loads = test_key_loads [OF assms]
  show "aead_opens E \<Longrightarrow> passes (master_key_roundtrip E) w"
    by (simp add: master_key_roundtrip_def run loads decrypt_seal del: upt_Suc)
  show "map (w_rng w) [0..<24] \<noteq> map (shift 24 (w_rng w)) [0..<24] \<Longrightarrow> passes (same_plaintext_encrypts_differently E) w"
    by (simp add: same_plaintext_encrypts_differently_def run loads seal_with_def del: upt_Suc)
  show "passes (rejects_invalid_master_key E) w"
    using assms by (auto simp: rejects_invalid_master_key_def run loads master_key_debug_def master_key_from_base64_def
        test_keys_decode_def test_strings_trimmed)
  assume "inj (\<lambda>(k, m). x_hmac E k m)"
  then have "x_hmac E a m = x_hmac E b n \<longleftrightarrow> a = b \<and> m = n" for a b m n
    using inj_eq [of "\<lambda>(k, m). x_hmac E k m" "(a, m)" "(b, n)"] by simp
  then show "passes (derived_keys_depend_on_purpose_and_master_key E) w"
    using assms by (simp add: derived_keys_depend_on_purpose_and_master_key_def run loads master_key_derive_def test_keys_decode_def)
qed

section \<open>\<open>magic_code.rs\<close>\<close>

definition test_code_keys :: "ext \<Rightarrow> string \<Rightarrow> (unit, code_keys) req" where
  "test_code_keys E master = and_then (unwrap (master_key_from_base64 E master)) (\<lambda>mk. ok (code_keys_new E mk))"

definition code_is_six_digits_and_verifies_only_for_its_flow :: "ext \<Rightarrow> test" where
  "code_is_six_digits_and_verifies_only_for_its_flow E =
     and_then (test_code_keys E MASTER) (\<lambda>keys. let key = magic_link_key keys in
     and_then uuid_now_v7 (\<lambda>flow_id.
     and_then (code_generate E key flow_id) (\<lambda>code.
     let wrong = pad6 ((digits_value 0 (mc_plain code) + 1) mod unat CODE_RANGE) in
     and_then uuid_now_v7 (\<lambda>other_flow.
     ok (is_well_formed (mc_plain code) \<and> code_verify E key flow_id (mc_plain code) (mc_hash code) \<and>
         \<not> code_verify E key flow_id wrong (mc_hash code) \<and>
         \<not> code_verify E key other_flow (mc_plain code) (mc_hash code))))))"

definition hash_depends_on_the_master_key_and_the_purpose :: "ext \<Rightarrow> test" where
  "hash_depends_on_the_master_key_and_the_purpose E =
     and_then uuid_now_v7 (\<lambda>flow_id.
     and_then (test_code_keys E MASTER) (\<lambda>keys.
     and_then (code_generate E (magic_link_key keys) flow_id) (\<lambda>code.
     and_then (test_code_keys E OTHER_MASTER) (\<lambda>other.
     ok (\<not> code_verify E (magic_link_key other) flow_id (mc_plain code) (mc_hash code) \<and>
         \<not> code_verify E (confirmation_key keys) flow_id (mc_plain code) (mc_hash code))))))"

text \<open>The fourth code is six Arabic-Indic digits, two bytes each.\<close>

definition well_formed_codes :: bool where
  "well_formed_codes \<longleftrightarrow> is_well_formed ''012345'' \<and>
     list_all (\<lambda>code. \<not> is_well_formed code \<and> isl (check_format code))
       [''12345'', ''1234567'', ''12 345'',
        [CHR 0xD9, CHR 0xA1, CHR 0xD9, CHR 0xA2, CHR 0xD9, CHR 0xA3, CHR 0xD9, CHR 0xA4, CHR 0xD9, CHR 0xA5, CHR 0xD9, CHR 0xA6],
        ''abcdef'', []]"

text \<open>\<open>(0..n).all(|_| random_below(range) < range)\<close> stops at the first draw out of range.\<close>

fun all_below :: "nat \<Rightarrow> 32 word \<Rightarrow> test" where
  "all_below 0 rg = ok True"
| "all_below (Suc n) rg = and_then (random_below_req rg) (\<lambda>v. if v < rg then all_below n rg else ok False)"

definition random_below_stays_in_range :: "test" where
  "random_below_stays_in_range = and_then (all_below 1000 CODE_RANGE) (\<lambda>a. and_then (all_below 100 3) (\<lambda>b. ok (a \<and> b)))"

lemma well_formed_codes_test: well_formed_codes
  by code_simp

lemma code_run [run]: "code_generate E key u w = Some (Inr c, w') \<longleftrightarrow>
    (\<exists>v rng. random_below CODE_RANGE (w_rng w) = Some (v, rng) \<and> c = code_of E key u v \<and> w' = w\<lparr>w_rng := rng\<rparr>)"
  by (auto simp: code_generate_def run random_below_req_def split: option.splits prod.splits)

text \<open>HMAC, idealised: no two keys and messages have the same tag.\<close>

definition hmac_ideal :: "ext \<Rightarrow> bool" where
  "hmac_ideal E \<longleftrightarrow> hmac_verifies E \<and> (\<forall>k m l n. x_hmac E k m = x_hmac E l n \<longleftrightarrow> k = l \<and> m = n)"

lemma ideal_verify: "hmac_ideal E \<Longrightarrow> code_verify E key u c (mc_hash (code_of E key' u' v)) \<longleftrightarrow>
    key = key' \<and> code_message E u c = code_message E u' (pad6 (unat v))"
  unfolding hmac_ideal_def hmac_verifies_def code_verify_def code_of_def Let_def by auto

lemma derived_keys_differ:
  "hmac_ideal E \<Longrightarrow> master_key_derive E mk p = master_key_derive E mk' p' \<longleftrightarrow> mk_derivation mk = mk_derivation mk' \<and> p = p'"
  by (simp add: hmac_ideal_def master_key_derive_def)

lemma magic_code_tests:
  assumes keys: "test_keys_decode E k other" and ideal: "hmac_ideal E"
    and drawn: "random_below CODE_RANGE (w_rng w) \<noteq> None"
    and ids: "x_uuid_bytes E (w_ids w 0) \<noteq> x_uuid_bytes E (w_ids w 1)"
  shows "passes (code_is_six_digits_and_verifies_only_for_its_flow E) w"
    and "passes (hash_depends_on_the_master_key_and_the_purpose E) w"
proof -
  from drawn obtain v rng where v: "random_below CODE_RANGE (w_rng w) = Some (v, rng)" by auto
  have below: "unat v < 1000000"
    using random_below_less [OF v unat_code_range(2)] by (simp add: word_less_nat_alt unat_code_range)
  then have next_code: "(unat v + 1) mod 1000000 \<noteq> unat v"
    by (cases "unat v + 1 = 1000000") simp_all
  show "passes (code_is_six_digits_and_verifies_only_for_its_flow E) w"
    using v below next_code ids
    by (simp add: code_is_six_digits_and_verifies_only_for_its_flow_def run test_code_keys_def Let_def
        test_key_loads [OF keys] ideal_verify [OF ideal] code_of_plain digits_value_pad6 pad6_well_formed unat_code_range
        code_message_def pad6_inject)
  show "passes (hash_depends_on_the_master_key_and_the_purpose E) w"
    using v keys unfolding test_keys_decode_def
    by (auto simp: hash_depends_on_the_master_key_and_the_purpose_def run test_code_keys_def test_key_loads [OF keys]
        ideal_verify [OF ideal] code_keys_new_def code_key_new_def derived_keys_differ [OF ideal])
qed

text \<open>The generator keeps yielding draws in the zone.\<close>

definition never_stuck :: "32 word \<Rightarrow> (nat \<Rightarrow> char) \<Rightarrow> bool" where
  "never_stuck rg rng \<longleftrightarrow> (\<forall>k. \<exists>n. draw (shift (4 * (k + n)) rng) \<le> zone rg)"

lemma never_stuck_shift:
  assumes "never_stuck rg rng"
  shows "never_stuck rg (shift (4 * m) rng)"
  unfolding never_stuck_def
proof
  fix k
  from assms obtain n where n: "draw (shift (4 * ((m + k) + n)) rng) \<le> zone rg"
    unfolding never_stuck_def by blast
  have "4 * ((m + k) + n) = 4 * m + 4 * (k + n)" by simp
  with n show "\<exists>n. draw (shift (4 * (k + n)) (shift (4 * m) rng)) \<le> zone rg"
    unfolding shift_shift by metis
qed

lemma never_stuck_draw:
  assumes "never_stuck rg rng"
  shows "\<exists>v m. random_below rg rng = Some (v, shift (4 * m) rng)"
proof -
  let ?good = "\<lambda>n. draw (shift (4 * n) rng) \<le> zone rg"
  from assms have "\<exists>n. ?good n" unfolding never_stuck_def by metis
  then have "?good (LEAST n. ?good n)" by (rule LeastI_ex)
  moreover have "\<not> ?good i" if "i < (LEAST n. ?good n)" for i using that by (rule not_less_Least)
  ultimately have "random_below rg rng = Some (draw (shift (4 * (LEAST n. ?good n)) rng) mod rg,
      shift (4 * (LEAST n. ?good n) + 4) rng)" by (rule random_below_first)
  then show ?thesis by (metis mult_Suc_right add.commute)
qed

lemma all_below_run:
  "\<lbrakk>never_stuck rg (w_rng w); 0 < rg\<rbrakk> \<Longrightarrow>
    \<exists>m. all_below n rg w = Some (Inr True, w\<lparr>w_rng := shift (4 * m) (w_rng w)\<rparr>)"
proof (induction n arbitrary: w)
  case 0
  have "w = w\<lparr>w_rng := shift (4 * 0) (w_rng w)\<rparr>" by (simp add: shift_def)
  then show ?case unfolding all_below.simps ok_def by metis
next
  case (Suc n)
  from never_stuck_draw [OF Suc.prems(1)] obtain v m where v: "random_below rg (w_rng w) = Some (v, shift (4 * m) (w_rng w))"
    by blast
  let ?w = "w\<lparr>w_rng := shift (4 * m) (w_rng w)\<rparr>"
  have "never_stuck rg (w_rng ?w)" using never_stuck_shift [OF Suc.prems(1)] by simp
  from Suc.IH [OF this Suc.prems(2)] obtain l where
    "all_below n rg ?w = Some (Inr True, ?w\<lparr>w_rng := shift (4 * l) (w_rng ?w)\<rparr>)" by blast
  then have "all_below (Suc n) rg w = Some (Inr True, w\<lparr>w_rng := shift (4 * (m + l)) (w_rng w)\<rparr>)"
    using random_below_less [OF v Suc.prems(2)] v by (simp add: and_then_def random_below_req_def)
  then show ?case by blast
qed

lemma random_below_test:
  assumes "never_stuck CODE_RANGE (w_rng w)" "never_stuck 3 (w_rng w)"
  shows "passes random_below_stays_in_range w"
proof -
  from all_below_run [OF assms(1) unat_code_range(2), of 1000] obtain m where
    m: "all_below 1000 CODE_RANGE w = Some (Inr True, w\<lparr>w_rng := shift (4 * m) (w_rng w)\<rparr>)" by blast
  have "never_stuck 3 (w_rng (w\<lparr>w_rng := shift (4 * m) (w_rng w)\<rparr>))" using never_stuck_shift [OF assms(2)] by simp
  from all_below_run [OF this, of 100] obtain l where
    n: "all_below 100 3 (w\<lparr>w_rng := shift (4 * m) (w_rng w)\<rparr>) = Some (Inr True, w\<lparr>w_rng := shift (4 * l) (shift (4 * m) (w_rng w))\<rparr>)"
    by auto
  show ?thesis by (simp add: random_below_stays_in_range_def passes_and_then passes_ok m n ex_bool_eq)
qed

section \<open>\<open>rate_limit.rs\<close>\<close>

text \<open>\<open>ip(s)\<close> is \<open>s.parse().unwrap()\<close>.\<close>

definition ip :: "ext \<Rightarrow> string \<Rightarrow> (unit, ip_addr) req" where
  "ip E s = ok_or (x_ip_parse E s) ()"

definition keys_normalize_emails_and_ipv6_prefixes :: "ext \<Rightarrow> test" where
  "keys_normalize_emails_and_ipv6_prefixes E =
     and_then (ip E ''203.0.113.7'') (\<lambda>a.
     and_then (ip E ''::ffff:203.0.113.7'') (\<lambda>b.
     and_then (ip E ''2001:db8:1:2:aaaa:bbbb:cccc:dddd'') (\<lambda>c.
     and_then (ip E ''2001:db8:1:2::1'') (\<lambda>d.
     ok (email_key E '' Alice@Example.COM '' = ''alice@example.com'' \<and>
         client_ip_key a = ''203.0.113.7'' \<and> client_ip_key b = ''203.0.113.7'' \<and>
         client_ip_key c = client_ip_key d)))))"

definition forwarded_for_is_only_trusted_from_trusted_proxies :: "ext \<Rightarrow> test" where
  "forwarded_for_is_only_trusted_from_trusted_proxies E =
     and_then (ip E ''10.0.0.2'') (\<lambda>proxy.
     and_then (ip E ''10.0.0.3'') (\<lambda>other.
     let trusted = [proxy, other] in
     and_then (ip E ''198.51.100.1'') (\<lambda>caller.
     ok (resolve E caller ''1.2.3.4'' trusted = caller \<and>
         resolve E proxy ''1.2.3.4, 198.51.100.1'' trusted = caller \<and>
         resolve E proxy ''198.51.100.1, 10.0.0.3'' trusted = caller \<and>
         resolve E proxy [] trusted = proxy \<and>
         resolve E proxy ''nope'' trusted = proxy))))"

definition parses_trusted_proxies :: "ext \<Rightarrow> test" where
  "parses_trusted_proxies E =
     and_then (unwrap (parse_trusted_proxies E [])) (\<lambda>none.
     and_then (unwrap (parse_trusted_proxies E ''127.0.0.1, ::1'')) (\<lambda>two.
     and_then (ip E ''127.0.0.1'') (\<lambda>a.
     and_then (ip E ''::1'') (\<lambda>b.
     ok (none = [] \<and> two = [a, b] \<and> isl (parse_trusted_proxies E ''10.0.0.0/8''))))))"

text \<open>What \<open>std\<close>'s parser answers on the addresses of the tests.\<close>

definition test_addresses :: "(string \<times> ip_addr option) list" where
  "test_addresses =
     [(''203.0.113.7'', Some (V4 203 0 113 7)), (''::ffff:203.0.113.7'', Some (V6 0 0 0 0 0 0xffff 0xcb00 0x7107)),
      (''2001:db8:1:2:aaaa:bbbb:cccc:dddd'', Some (V6 0x2001 0xdb8 1 2 0xaaaa 0xbbbb 0xcccc 0xdddd)),
      (''2001:db8:1:2::1'', Some (V6 0x2001 0xdb8 1 2 0 0 0 1)),
      (''10.0.0.2'', Some (V4 10 0 0 2)), (''10.0.0.3'', Some (V4 10 0 0 3)),
      (''198.51.100.1'', Some (V4 198 51 100 1)), (''1.2.3.4'', Some (V4 1 2 3 4)), ([], None), (''nope'', None),
      (''127.0.0.1'', Some (V4 127 0 0 1)), (''::1'', Some (V6 0 0 0 0 0 0 0 1)), (''10.0.0.0/8'', None)]"

definition reads_addresses :: "ext \<Rightarrow> bool" where
  "reads_addresses E \<longleftrightarrow> list_all (\<lambda>(s, a). x_ip_parse E s = a) test_addresses"

lemma ip_run [run]: "ip E s w = Some (Inr a, w') \<longleftrightarrow> x_ip_parse E s = Some a \<and> w' = w"
  by (auto simp: ip_def ok_or_def ok_def err_def split: option.splits)

lemma test_hops:
  "str_trim ''1.2.3.4'' = ''1.2.3.4''"
  "str_trim '' 198.51.100.1'' = ''198.51.100.1''"
  "str_trim ''198.51.100.1'' = ''198.51.100.1''"
  "str_trim '' 10.0.0.3'' = ''10.0.0.3''"
  "str_trim [] = []"
  "str_trim ''nope'' = ''nope''"
  "str_trim ''127.0.0.1'' = ''127.0.0.1''"
  "str_trim '' ::1'' = ''::1''"
  "str_trim ''10.0.0.0/8'' = ''10.0.0.0/8''"
  by code_simp+

text \<open>The bytes of the first two, as the keys print them.\<close>

lemma test_octets: "show_octet 203 = ''203''" "show_octet 0 = ''0''" "show_octet 113 = ''113''" "show_octet 7 = ''7''"
    "show_octet 51968 = ''0''" "show_octet 28935 = ''7''"
  by code_simp+

lemma rate_limit_tests:
  assumes "reads_addresses E"
  shows "x_to_lowercase E ''Alice@Example.COM'' = ''alice@example.com'' \<Longrightarrow>
      passes (keys_normalize_emails_and_ipv6_prefixes E) w"
    and "passes (forwarded_for_is_only_trusted_from_trusted_proxies E) w"
    and "passes (parses_trusted_proxies E) w"
proof -
  note reads = assms [unfolded reads_addresses_def test_addresses_def, simplified]
  have trim: "trim_spaces '' Alice@Example.COM '' = ''Alice@Example.COM''" by code_simp
  show "x_to_lowercase E ''Alice@Example.COM'' = ''alice@example.com'' \<Longrightarrow>
      passes (keys_normalize_emails_and_ipv6_prefixes E) w"
    using reads by (simp add: keys_normalize_emails_and_ipv6_prefixes_def run test_octets email_key_def trim)
  show "passes (forwarded_for_is_only_trusted_from_trusted_proxies E) w"
    using reads by (simp add: forwarded_for_is_only_trusted_from_trusted_proxies_def run Let_def resolve_def test_hops)
  show "passes (parses_trusted_proxies E) w"
    using reads by (simp add: parses_trusted_proxies_def run parse_trusted_proxies_def test_hops)
qed

section \<open>\<open>signing_keys.rs\<close>\<close>

text \<open>\<open>SigningKeys::for_tests_with\<close>: one key per window, generated and opened again, latest activation first.\<close>

fun generated_keys :: "ext \<Rightarrow> master_key \<Rightarrow> (time \<times> time option) list \<Rightarrow> (unit, loaded_key list \<times> jwk_set) req" where
  "generated_keys E mk [] = ok ([], [])"
| "generated_keys E mk ((active_at, retired_at) # windows) =
     and_then (key_generate E mk) (\<lambda>key.
     and_then (unwrap (master_key_decrypt E mk (gk_encrypted_private_key key) (key_context E (gk_kid key)))) (\<lambda>seed.
     and_then (generated_keys E mk windows) (\<lambda>(keys, jwks).
     ok (\<lparr>lk_kid = gk_kid key, lk_encoding_key = encoding_key seed, lk_active_at = active_at, lk_retired_at = retired_at\<rparr> # keys,
         jwk_of E (gk_kid key) (gk_public_key key) # jwks))))"

definition for_tests_with :: "ext \<Rightarrow> (time \<times> time option) list \<Rightarrow> (unit, signing_keys_set) req" where
  "for_tests_with E windows =
     and_then (unwrap (master_key_from_base64 E MASTER)) (\<lambda>mk.
     and_then (generated_keys E mk windows) (\<lambda>(keys, jwks).
     ok \<lparr>sk_keys = sort_key (\<lambda>k. - lk_active_at k) keys, sk_jwks = jwks\<rparr>))"

definition for_tests :: "ext \<Rightarrow> (unit, signing_keys_set) req" where
  "for_tests E = and_then utc_now (\<lambda>now. for_tests_with E [(now - days 1, None)])"

definition jwk_is_serialized_as_expected :: "ext \<Rightarrow> bool" where
  "jwk_is_serialized_as_expected E \<longleftrightarrow> (let jwk = jwk_of E 0 (replicate 32 (CHR 0x00)) in
     jwk_kty jwk = ''OKP'' \<and> jwk_crv jwk = ''Ed25519'' \<and> jwk_alg jwk = EdDSA \<and> jwk_use jwk = ''sig'' \<and>
     jwk_kid jwk = Some (x_uuid_string E 0) \<and> length (jwk_x jwk) = 43)"

definition signing_key_hands_over_at_the_new_key_activation :: "ext \<Rightarrow> test" where
  "signing_key_hands_over_at_the_new_key_activation E =
     and_then utc_now (\<lambda>now. let takeover = now + hours 24 in
     and_then (for_tests_with E [(now - days 30, Some takeover), (takeover, None)]) (\<lambda>keys.
     let old = lk_kid (sk_keys keys ! 1); new = lk_kid (sk_keys keys ! 0) in
     ok (map_option lk_kid (signing_key keys now) = Some old \<and>
         map_option lk_kid (signing_key keys (takeover - seconds 1)) = Some old \<and>
         map_option lk_kid (signing_key keys takeover) = Some new \<and>
         length (sk_jwks keys) = 2)))"

definition no_signing_key_when_all_are_retired :: "ext \<Rightarrow> test" where
  "no_signing_key_when_all_are_retired E =
     and_then utc_now (\<lambda>now.
     and_then (for_tests_with E [(now - days 2, Some (now - hours 1))]) (\<lambda>keys.
     ok (signing_key keys now = None)))"

lemma key_generate_run [run]: "key_generate E mk w = Some (Inr k, w') \<longleftrightarrow>
    (let seed = map (w_rng w) [0..<32]; rng = shift 32 (w_rng w) in
     k = \<lparr>gk_kid = w_ids w 0, gk_public_key = x_ed25519_public E seed,
       gk_encrypted_private_key = seal_with E mk (map rng [0..<24]) seed (key_context E (w_ids w 0))\<rparr> \<and>
     w' = w\<lparr>w_ids := shift 1 (w_ids w), w_rng := shift 24 rng\<rparr>)"
  by (auto simp: key_generate_def run Let_def SEED_LEN_def simp del: upt_Suc)

lemma for_tests_run [run]:
  assumes "test_keys_decode E k other"
  shows "for_tests_with E ws w = Some (Inr ks, w') \<longleftrightarrow>
    (\<exists>keys jwks. generated_keys E \<lparr>mk_cipher = k, mk_derivation = k\<rparr> ws w = Some (Inr (keys, jwks), w') \<and>
       ks = \<lparr>sk_keys = sort_key (\<lambda>k. - lk_active_at k) keys, sk_jwks = jwks\<rparr>)"
  by (auto simp: for_tests_with_def run test_key_loads [OF assms])

lemma signing_keys_tests:
  assumes "test_keys_decode E k other" "aead_opens E"
  shows "passes (signing_key_hands_over_at_the_new_key_activation E) w"
    and "passes (no_signing_key_when_all_are_retired E) w"
    and "s256_shape E \<Longrightarrow> jwk_is_serialized_as_expected E"
proof -
  note steps = run for_tests_run [OF assms(1)] Let_def decrypt_seal [OF assms(2)]
  show "passes (signing_key_hands_over_at_the_new_key_activation E) w"
    by (simp add: signing_key_hands_over_at_the_new_key_activation_def steps signing_key_def can_sign_def time_defs del: upt_Suc)
  show "passes (no_signing_key_when_all_are_retired E) w"
    by (simp add: no_signing_key_when_all_are_retired_def steps signing_key_def can_sign_def time_defs del: upt_Suc)
  show "s256_shape E \<Longrightarrow> jwk_is_serialized_as_expected E"
    by (simp add: jwk_is_serialized_as_expected_def jwk_of_def s256_shape_def Let_def)
qed

section \<open>\<open>errors.rs\<close>\<close>

text \<open>\<open>call\<close> posts a body to a route whose handler takes \<open>AppJson\<close> and fails; \<open>dec\<close> is \<open>axum::Json\<close> on the content
  type and the body.\<close>

definition failing_handler :: "string + string \<Rightarrow> (api_error, nat) req" where
  "failing_handler decoded = and_then (app_json decoded) (\<lambda>input. err InvalidEmail)"

definition call :: "(string \<Rightarrow> string \<Rightarrow> string + string) \<Rightarrow> string \<Rightarrow> string \<Rightarrow> (unit, error_response) req" where
  "call dec body content_type =
     and_then (attempt (failing_handler (dec content_type body))) (\<lambda>r.
     case r of Inl e \<Rightarrow> ok (api_error_response e) | Inr _ \<Rightarrow> err ())"

definition handler_error_has_stable_code :: "(string \<Rightarrow> string \<Rightarrow> string + string) \<Rightarrow> test" where
  "handler_error_has_stable_code dec =
     and_then (call dec ''{\"email\":\"a@b.c\"}'' ''application/json'') (\<lambda>b.
     ok (er_status b = 400 \<and> er_code b = ''invalid_email''))"

definition json_rejection_uses_same_shape :: "(string \<Rightarrow> string \<Rightarrow> string + string) \<Rightarrow> test" where
  "json_rejection_uses_same_shape dec =
     and_then (call dec ''{\"nope\":1}'' ''application/json'') (\<lambda>a.
     and_then (call dec ''{\"email\":\"a@b.c\"}'' ''text/plain'') (\<lambda>b.
     ok (er_status a = 400 \<and> er_code a = ''invalid_request'' \<and> er_code b = ''invalid_request'')))"

definition internal_error_hides_details :: bool where
  "internal_error_hides_details \<longleftrightarrow> (let error = api_from_sql Unavailable in
     api_error_message error = ''internal server error'' \<and> api_error_code error = ''internal_error'')"

lemma errors_tests:
  shows "dec ''application/json'' ''{\"email\":\"a@b.c\"}'' = Inr x \<Longrightarrow> passes (handler_error_has_stable_code dec) w"
    and "\<lbrakk>dec ''application/json'' ''{\"nope\":1}'' = Inl a; dec ''text/plain'' ''{\"email\":\"a@b.c\"}'' = Inl b\<rbrakk> \<Longrightarrow>
      passes (json_rejection_uses_same_shape dec) w"
    and "internal_error_hides_details"
  by (simp_all add: handler_error_has_stable_code_def json_rejection_uses_same_shape_def internal_error_hides_details_def
      run call_def failing_handler_def app_json_def result_def attempt_def and_then_def ok_def err_def
      api_from_json_rejection_def api_error_response_def api_from_sql_def Let_def)

end
