(* ===== verification/ClientTests.thy ===== *)
theory ClientTests
  imports UnitTests Startup
begin

text \<open>
  The unit tests of \<open>clients.rs\<close>, \<open>config.rs\<close> and \<open>access_token.rs\<close>, as \<open>UnitTests\<close> has those of the other modules: a
  \<open>bauth.toml\<close> of a test is its text, built as the test builds it. What the \<open>toml\<close> and \<open>url\<close> crates read in those texts
  and URLs is given by two tables, the hypotheses of the lemmas.
\<close>

section \<open>What the crates read\<close>

abbreviation nl :: char where "nl \<equiv> CHR 0x0A"

text \<open>\<open>str::contains\<close>.\<close>

fun str_contains :: "string \<Rightarrow> string \<Rightarrow> bool" where
  "str_contains p [] \<longleftrightarrow> p = []"
| "str_contains p (c # cs) \<longleftrightarrow> take (length p) (c # cs) = p \<or> str_contains p cs"

definition app_url :: "string \<Rightarrow> string option \<Rightarrow> 16 word option \<Rightarrow> string \<Rightarrow> string + url" where
  "app_url scheme host port s = Inr \<lparr>url_scheme = scheme, url_host_str = host, url_port = port, url_query = None,
     url_fragment = None, url_as_str = s\<rparr>"

definition test_urls :: "(string \<times> (string + url)) list" where
  "test_urls =
     [(''http://localhost:5173/auth/callback'', app_url ''http'' (Some ''localhost'') (Some 5173) ''http://localhost:5173/auth/callback''),
      (''https://app.example.com/auth/callback'', app_url ''https'' (Some ''app.example.com'') None ''https://app.example.com/auth/callback''),
      (''https://app.example.com/auth/magic-link'', app_url ''https'' (Some ''app.example.com'') None ''https://app.example.com/auth/magic-link''),
      (''com.example.app:/auth/callback'', app_url ''com.example.app'' None None ''com.example.app:/auth/callback''),
      (''com.example.app:/auth/magic-link'', app_url ''com.example.app'' None None ''com.example.app:/auth/magic-link''),
      (''javascript:alert(1)'', app_url ''javascript'' None None ''javascript:alert(1)''),
      (''data:text/html,hi'', app_url ''data'' None None ''data:text/html,hi''),
      (''myapp:/callback'', app_url ''myapp'' None None ''myapp:/callback''),
      (''http://localhost:8025/auth/callback'', app_url ''http'' (Some ''localhost'') (Some 8025) ''http://localhost:8025/auth/callback''),
      (''http://localhost:8025/auth/magic-link'', app_url ''http'' (Some ''localhost'') (Some 8025) ''http://localhost:8025/auth/magic-link''),
      (''https://www.example.com:8443/email-change'', app_url ''https'' (Some ''www.example.com'') (Some 8443) ''https://www.example.com:8443/email-change''),
      (''tauri://localhost'', app_url ''tauri'' (Some ''localhost'') None ''tauri://localhost''),
      (''http://tauri.localhost'', app_url ''http'' (Some ''tauri.localhost'') None ''http://tauri.localhost/''),
      (''https://a.fr/magic'', app_url ''https'' (Some ''a.fr'') None ''https://a.fr/magic''),
      (''http://a.fr/magic'', app_url ''http'' (Some ''a.fr'') None ''http://a.fr/magic''),
      (''https://a.fr/cb'', app_url ''https'' (Some ''a.fr'') None ''https://a.fr/cb''),
      (''https://a.fr/'', app_url ''https'' (Some ''a.fr'') None ''https://a.fr/''),
      (''https://a.fr/path'', app_url ''https'' (Some ''a.fr'') None ''https://a.fr/path''),
      (''https://a.fr'', app_url ''https'' (Some ''a.fr'') None ''https://a.fr/''),
      (''a.fr'', Inl ''relative URL without a base''), (''*'', Inl ''relative URL without a base''),
      (''http://example.com/cb'', app_url ''http'' (Some ''example.com'') None ''http://example.com/cb''),
      (''https://example.com'', app_url ''https'' (Some ''example.com'') None ''https://example.com/''),
      (''https://example.com/cb#x'', Inr \<lparr>url_scheme = ''https'', url_host_str = Some ''example.com'', url_port = None,
         url_query = None, url_fragment = Some ''x'', url_as_str = ''https://example.com/cb#x''\<rparr>),
      (''https://auth.example.com'', app_url ''https'' (Some ''auth.example.com'') None ''https://auth.example.com/''),
      (''https://auth.example.com/'', app_url ''https'' (Some ''auth.example.com'') None ''https://auth.example.com/''),
      (''http://auth.example.com'', app_url ''http'' (Some ''auth.example.com'') None ''http://auth.example.com/''),
      (''http://localhost:8401'', app_url ''http'' (Some ''localhost'') (Some 8401) ''http://localhost:8401/''),
      (''https://auth.example.com?x=1'', Inr \<lparr>url_scheme = ''https'', url_host_str = Some ''auth.example.com'', url_port = None,
         url_query = Some ''x=1'', url_fragment = None, url_as_str = ''https://auth.example.com/?x=1''\<rparr>),
      (''auth.example.com'', Inl ''relative URL without a base'')]"

definition reads_urls :: "ext \<Rightarrow> bool" where
  "reads_urls E \<longleftrightarrow> list_all (\<lambda>(s, u). x_url_parse E s = u) test_urls"

section \<open>\<open>config.rs\<close>\<close>

definition issuer_validation :: "ext \<Rightarrow> bool" where
  "issuer_validation E \<longleftrightarrow>
     \<not> isl (validate_issuer E ''https://auth.example.com'') \<and>
     \<not> isl (validate_issuer E ''http://localhost:8401'') \<and>
     isl (validate_issuer E ''https://auth.example.com/'') \<and>
     isl (validate_issuer E ''http://auth.example.com'') \<and>
     isl (validate_issuer E ''https://auth.example.com?x=1'') \<and>
     isl (validate_issuer E ''auth.example.com'')"

lemma config_test:
  assumes "reads_urls E"
  shows "issuer_validation E"
  using assms [unfolded reads_urls_def test_urls_def list.pred_inject prod.case]
  by (simp add: issuer_validation_def validate_issuer_def app_url_def is_loopback_def)

section \<open>\<open>clients.rs\<close>\<close>

text \<open>The message of an error.\<close>

fun load_error_message :: "load_error \<Rightarrow> string" where
  "load_error_message (ClientsRead path source) = ''cannot read '' @ path @ '': '' @ source"
| "load_error_message (ClientsParse e) = ''invalid TOML: '' @ e"
| "load_error_message (ClientsInvalid (InvalidClientConfig client reason)) = ''client `'' @ client @ ''`: '' @ reason"

text \<open>\<open>error_of(toml).contains(p)\<close>.\<close>

definition error_contains :: "ext \<Rightarrow> files \<Rightarrow> string \<Rightarrow> string \<Rightarrow> bool" where
  "error_contains E F toml p \<longleftrightarrow> (case clients_from_toml E F toml of
      Inl e \<Rightarrow> str_contains p (load_error_message e) | Inr _ \<Rightarrow> False)"

text \<open>A raw string of a test: its lines, indented, and the indentation of the closing quote.\<close>

definition raw_lines :: "nat \<Rightarrow> string list \<Rightarrow> string" where
  "raw_lines n ls = nl # concat (map (\<lambda>l. (if l = [] then [] else replicate n space @ l) @ [nl]) ls) @ replicate (n - 4) space"

definition VALID :: string where
  "VALID = raw_lines 8
     [''[[clients]]'',
      ''id = \"my-app\"'',
      ''name = \"My App\"'',
      ''redirect_uris = [\"http://localhost:5173/auth/callback\", \"https://app.example.com/auth/callback\"]'',
      ''magic_link_url = \"https://app.example.com/auth/magic-link\"'',
      ''allow_signup = true'']"

definition with_client :: "ext \<Rightarrow> files \<Rightarrow> string \<Rightarrow> string \<Rightarrow> (client \<Rightarrow> bool) \<Rightarrow> bool" where
  "with_client E F toml i P \<longleftrightarrow> (case clients_from_toml E F toml of
      Inl _ \<Rightarrow> False
    | Inr m \<Rightarrow> (case m i of None \<Rightarrow> False | Some c \<Rightarrow> P c))"

definition loads_valid_clients :: "ext \<Rightarrow> files \<Rightarrow> bool" where
  "loads_valid_clients E F \<longleftrightarrow>
     with_client E F VALID ''my-app'' (\<lambda>c. cl_allow_signup c \<and> allows_redirect_uri c ''http://localhost:5173/auth/callback'') \<and>
     (case clients_from_toml E F VALID of Inl _ \<Rightarrow> False | Inr m \<Rightarrow> m ''unknown'' = None)"

definition NATIVE :: string where
  "NATIVE = raw_lines 12
     [''[[clients]]'',
      ''id = \"my-app-mobile\"'',
      ''name = \"My App\"'',
      ''redirect_uris = [\"com.example.app:/auth/callback\"]'',
      ''magic_link_url = \"com.example.app:/auth/magic-link\"'']"

definition toml_with_uri :: "string \<Rightarrow> string" where
  "toml_with_uri uri = ''[[clients]]'' @ nl # ''id = \"app\"'' @ nl # ''name = \"App\"'' @ nl #
     ''magic_link_url = \"https://a.fr/magic\"'' @ nl # ''redirect_uris = [\"'' @ uri @ ''\"]''"

definition accepts_native_app_schemes :: "ext \<Rightarrow> files \<Rightarrow> bool" where
  "accepts_native_app_schemes E F \<longleftrightarrow>
     with_client E F NATIVE ''my-app-mobile'' (\<lambda>c. allows_redirect_uri c ''com.example.app:/auth/callback'' \<and>
       \<not> allows_redirect_uri c ''com.example.app:/auth/callback/'') \<and>
     list_all (\<lambda>uri. isl (clients_from_toml E F (toml_with_uri uri)))
       [''javascript:alert(1)'', ''data:text/html,hi'', ''myapp:/callback'']"

definition TWO_APPS :: string where
  "TWO_APPS = raw_lines 12
     [''[[clients]]'',
      ''id = \"my-app\"'',
      ''name = \"My App\"'',
      ''redirect_uris = [\"http://localhost:8025/auth/callback\", \"https://app.example.com/auth/callback\"]'',
      ''magic_link_url = \"https://app.example.com/auth/magic-link\"'',
      ''email_change_url = \"https://www.example.com:8443/email-change\"'',
      [],
      ''[[clients]]'',
      ''id = \"my-app-mobile\"'',
      ''name = \"My App\"'',
      ''redirect_uris = [\"com.example.app:/auth/callback\"]'',
      ''magic_link_url = \"com.example.app:/auth/magic-link\"'',
      ''allowed_origins = [\"tauri://localhost\", \"http://tauri.localhost\"]'']"

text \<open>The order of the \<open>BTreeSet\<close> that the test also fixes is that of the list here; the model has the set.\<close>

definition origins_come_from_urls_and_allowed_origins :: "ext \<Rightarrow> files \<Rightarrow> bool" where
  "origins_come_from_urls_and_allowed_origins E F \<longleftrightarrow> (case clients_from_toml E F TWO_APPS of
      Inl _ \<Rightarrow> False
    | Inr m \<Rightarrow> clients_origins E m =
        set [''http://localhost:8025'', ''http://tauri.localhost'', ''https://app.example.com'',
          ''https://www.example.com:8443'', ''tauri://localhost''])"

definition toml_with_origin :: "string \<Rightarrow> string" where
  "toml_with_origin origin = ''[[clients]]'' @ nl # ''id = \"app\"'' @ nl # ''name = \"App\"'' @ nl #
     ''magic_link_url = \"https://a.fr/magic\"'' @ nl # ''redirect_uris = [\"https://a.fr/cb\"]'' @ nl #
     ''allowed_origins = [\"'' @ origin @ ''\"]''"

definition rejects_allowed_origins_that_are_not_origins :: "ext \<Rightarrow> files \<Rightarrow> bool" where
  "rejects_allowed_origins_that_are_not_origins E F \<longleftrightarrow>
     list_all (\<lambda>origin. isl (clients_from_toml E F (toml_with_origin origin)))
       [''https://a.fr/'', ''https://a.fr/path'', ''a.fr'', ''*''] \<and>
     \<not> isl (clients_from_toml E F (toml_with_origin ''https://a.fr''))"

definition redirect_uri_match_is_exact :: "ext \<Rightarrow> files \<Rightarrow> bool" where
  "redirect_uri_match_is_exact E F \<longleftrightarrow>
     with_client E F VALID ''my-app'' (\<lambda>c. list_all (\<lambda>uri. \<not> allows_redirect_uri c uri)
       [''http://localhost:5173/auth/callback/'', ''http://localhost:5173/auth/callback?x=1'',
        ''http://LOCALHOST:5173/auth/callback'', ''https://app.example.com/auth/callback.evil.com''])"

definition named :: "string \<Rightarrow> string" where
  "named extra = ''[[clients]]'' @ nl # ''id = \"app\"'' @ nl # ''name = \"App\"'' @ nl # extra"

definition with_link :: "string \<Rightarrow> string" where
  "with_link extra = named (''magic_link_url = \"https://a.fr/magic\"'' @ nl # extra)"

definition BAD_ID :: string where
  "BAD_ID = ''[[clients]]'' @ nl # ''id = \"Bad Id\"'' @ nl # ''name = \"x\"'' @ nl #
     ''magic_link_url = \"https://a.fr/magic\"'' @ nl # ''redirect_uris = [\"https://a.fr/cb\"]''"

definition rejects_invalid_config :: "ext \<Rightarrow> files \<Rightarrow> bool" where
  "rejects_invalid_config E F \<longleftrightarrow>
     error_contains E F (with_link ''redirect_uris = []'') ''at least one'' \<and>
     error_contains E F (with_link ''redirect_uris = [\"http://example.com/cb\"]'') ''https'' \<and>
     error_contains E F (with_link ''redirect_uris = [\"https://example.com\"]'') ''must be written `https://example.com/`'' \<and>
     error_contains E F (with_link ''redirect_uris = [\"https://example.com/cb#x\"]'') ''fragment'' \<and>
     error_contains E F (with_link (''redirect_uris = [\"https://a.fr/cb\"]'' @ nl # ''allow_sigup = true'')) ''unknown field'' \<and>
     error_contains E F BAD_ID ''id must match'' \<and>
     (let dup = with_link ''redirect_uris = [\"https://a.fr/cb\"]'' @ nl # with_link ''redirect_uris = [\"https://a.fr/cb\"]''
      in error_contains E F dup ''duplicate id'') \<and>
     error_contains E F (named (''redirect_uris = [\"https://a.fr/cb\"]'' @ nl # ''magic_link_url = \"http://a.fr/magic\"'')) ''magic_link_url'' \<and>
     error_contains E F (named ''redirect_uris = [\"https://a.fr/cb\"]'') ''missing field `magic_link_url`''"

subsection \<open>They pass\<close>

text \<open>A client with the defaults of the fields a file may leave out.\<close>

definition plain_client :: "string \<Rightarrow> string \<Rightarrow> string list \<Rightarrow> string \<Rightarrow> client" where
  "plain_client i name uris link = \<lparr>cl_id = i, cl_name = name, cl_redirect_uris = uris, cl_allow_signup = False,
     cl_audience = None, cl_magic_link_url = link, cl_email_change_url = None, cl_allowed_origins = []\<rparr>"

abbreviation app_client :: "string list \<Rightarrow> client" where
  "app_client uris \<equiv> plain_client ''app'' ''App'' uris ''https://a.fr/magic''"

definition test_files :: "(string \<times> client list) list" where
  "test_files =
     [(VALID, [(plain_client ''my-app'' ''My App'' [''http://localhost:5173/auth/callback'', ''https://app.example.com/auth/callback'']
         ''https://app.example.com/auth/magic-link'')\<lparr>cl_allow_signup := True\<rparr>]),
      (NATIVE, [plain_client ''my-app-mobile'' ''My App'' [''com.example.app:/auth/callback''] ''com.example.app:/auth/magic-link'']),
      (TWO_APPS,
        [(plain_client ''my-app'' ''My App'' [''http://localhost:8025/auth/callback'', ''https://app.example.com/auth/callback'']
           ''https://app.example.com/auth/magic-link'')\<lparr>cl_email_change_url := Some ''https://www.example.com:8443/email-change''\<rparr>,
         (plain_client ''my-app-mobile'' ''My App'' [''com.example.app:/auth/callback''] ''com.example.app:/auth/magic-link'')
           \<lparr>cl_allowed_origins := [''tauri://localhost'', ''http://tauri.localhost'']\<rparr>]),
      (BAD_ID, [plain_client ''Bad Id'' ''x'' [''https://a.fr/cb''] ''https://a.fr/magic'']),
      (with_link ''redirect_uris = []'', [app_client []]),
      (with_link ''redirect_uris = [\"http://example.com/cb\"]'', [app_client [''http://example.com/cb'']]),
      (with_link ''redirect_uris = [\"https://example.com\"]'', [app_client [''https://example.com'']]),
      (with_link ''redirect_uris = [\"https://example.com/cb#x\"]'', [app_client [''https://example.com/cb#x'']]),
      (with_link ''redirect_uris = [\"https://a.fr/cb\"]'' @ nl # with_link ''redirect_uris = [\"https://a.fr/cb\"]'',
        [app_client [''https://a.fr/cb''], app_client [''https://a.fr/cb'']]),
      (named (''redirect_uris = [\"https://a.fr/cb\"]'' @ nl # ''magic_link_url = \"http://a.fr/magic\"''),
        [plain_client ''app'' ''App'' [''https://a.fr/cb''] ''http://a.fr/magic''])]"

definition reads_files :: "files \<Rightarrow> bool" where
  "reads_files F \<longleftrightarrow> list_all (\<lambda>(text, cs). fs_toml F text = Inr cs) test_files \<and>
     (\<forall>uri \<in> {''javascript:alert(1)'', ''data:text/html,hi'', ''myapp:/callback''}.
        fs_toml F (toml_with_uri uri) = Inr [app_client [uri]]) \<and>
     (\<forall>origin \<in> {''https://a.fr/'', ''https://a.fr/path'', ''a.fr'', ''*'', ''https://a.fr''}.
        fs_toml F (toml_with_origin origin) = Inr [(app_client [''https://a.fr/cb''])\<lparr>cl_allowed_origins := [origin]\<rparr>]) \<and>
     (\<exists>e. fs_toml F (with_link (''redirect_uris = [\"https://a.fr/cb\"]'' @ nl # ''allow_sigup = true'')) = Inl e \<and>
        str_contains ''unknown field'' (''invalid TOML: '' @ e)) \<and>
     (\<exists>e. fs_toml F (named ''redirect_uris = [\"https://a.fr/cb\"]'') = Inl e \<and>
        str_contains ''missing field `magic_link_url`'' (''invalid TOML: '' @ e))"

lemma valid_ids: "valid_client_id ''my-app''" "valid_client_id ''my-app-mobile''" "valid_client_id ''app''" "valid_client_id ''my-app-web''" "\<not> valid_client_id ''Bad Id''"
  by code_simp+

lemma port_digits: "digits_of 8025 = ''8025''" "digits_of 8443 = ''8443''"
proof -
  have "char_of (48 :: nat) = CHR ''0''" "char_of (50 :: nat) = CHR ''2''" "char_of (51 :: nat) = CHR ''3''"
    "char_of (52 :: nat) = CHR ''4''" "char_of (53 :: nat) = CHR ''5''" "char_of (56 :: nat) = CHR ''8''"
    by code_simp+
  then show "digits_of 8025 = ''8025''" "digits_of 8443 = ''8443''" by (simp_all add: digits_of.simps)
qed

lemmas read_urls = reads_urls_def [THEN iffD1, unfolded test_urls_def list.pred_inject prod.case]
lemmas read_files = reads_files_def [THEN iffD1, unfolded test_files_def list.pred_inject prod.case]

lemmas loading = clients_from_toml_def clients_from_file_def client_validate_def plain_client_def check_url_def app_url_def
  is_loopback_def valid_ids Let_def

lemma clients_tests:
  assumes "reads_urls E" "reads_files F"
  shows "loads_valid_clients E F" and "accepts_native_app_schemes E F"
    and "origins_come_from_urls_and_allowed_origins E F" and "rejects_allowed_origins_that_are_not_origins E F"
    and "redirect_uri_match_is_exact E F" and "rejects_invalid_config E F"
proof -
  note reads = read_urls [OF assms(1)] read_files [OF assms(2)]
  show "loads_valid_clients E F" "redirect_uri_match_is_exact E F"
    using reads by (simp_all add: loads_valid_clients_def redirect_uri_match_is_exact_def with_client_def loading
        allows_redirect_uri_iff)
  show "accepts_native_app_schemes E F"
    using reads by (simp add: accepts_native_app_schemes_def with_client_def loading allows_redirect_uri_iff)
  show "rejects_allowed_origins_that_are_not_origins E F"
    using reads by (simp add: rejects_allowed_origins_that_are_not_origins_def loading origin_of_def)
  show "rejects_invalid_config E F"
    using reads by (auto simp: rejects_invalid_config_def error_contains_def loading)
  show "origins_come_from_urls_and_allowed_origins E F"
    using reads by (simp add: origins_come_from_urls_and_allowed_origins_def loading clients_origins_def client_origins_def
        origin_of_def port_digits url_ok_def insert_commute)
qed

section \<open>\<open>access_token.rs\<close>\<close>

definition ISSUER :: string where "ISSUER = ''http://localhost:8401''"

definition client_toml :: "string \<Rightarrow> string" where
  "client_toml extra = ''[[clients]]'' @ nl # ''id = \"my-app-web\"'' @ nl # ''name = \"My App\"'' @ nl #
     ''redirect_uris = [\"http://localhost:8025/auth/callback\"]'' @ nl #
     ''magic_link_url = \"http://localhost:8025/auth/magic-link\"'' @ nl # extra"

definition test_client :: "ext \<Rightarrow> files \<Rightarrow> string \<Rightarrow> (unit, client) req" where
  "test_client E F extra =
     and_then (unwrap (clients_from_toml E F (client_toml extra))) (\<lambda>clients. ok_or (clients ''my-app-web'') ())"

text \<open>\<open>Validation::new\<close> requires \<open>exp\<close> and grants a minute of leeway.\<close>

definition test_validation :: "string \<Rightarrow> validation" where
  "test_validation aud = \<lparr>val_alg = EdDSA, val_iss = ISSUER, val_aud = Some aud, val_required = [''exp''], val_leeway = 60\<rparr>"

text \<open>\<open>DecodingKey::from_jwk(..).unwrap()\<close> and \<open>decode\<close>, which reads the clock.\<close>

definition decode_with_jwk :: "ext \<Rightarrow> string \<Rightarrow> jwk \<Rightarrow> validation \<Rightarrow> (unit, access_token_claims option) req" where
  "decode_with_jwk E tok jwk v =
     and_then (ok_or (x_jwk_key E jwk) ()) (\<lambda>key. and_then utc_now (\<lambda>now. ok (x_jwt_decode E tok key v now)))"

definition issued_token_verifies_against_jwks :: "ext \<Rightarrow> files \<Rightarrow> test" where
  "issued_token_verifies_against_jwks E F =
     and_then (for_tests E) (\<lambda>keys.
     and_then uuid_now_v7 (\<lambda>user_id.
     and_then uuid_now_v7 (\<lambda>session_id.
     and_then (test_client E F ''audience = \"my-app\"'') (\<lambda>client.
     and_then utc_now (\<lambda>now.
     and_then (map_err (\<lambda>_. ()) (issue E keys ISSUER user_id session_id client now)) (\<lambda>issued.
     and_then (ok_or (x_jwt_decode_header E (ia_token issued)) ()) (\<lambda>header.
     and_then (ok_or (case hdr_kid header of None \<Rightarrow> None | Some kid \<Rightarrow> jwks_find (sk_jwks keys) kid) ()) (\<lambda>jwk.
     and_then (decode_with_jwk E (ia_token issued) jwk (test_validation ''my-app'')) (\<lambda>decoded.
     and_then (ok_or decoded ()) (\<lambda>claims.
     ok (ia_expires_in issued = 900 \<and> hdr_typ header = Some ''at+jwt'' \<and> sub_claim claims = user_id \<and>
         aud_claim claims = ''my-app'' \<and> client_id_claim claims = ''my-app-web'' \<and>
         exp_claim claims - iat_claim claims = 900)))))))))))"

text \<open>The other two tests issue for the client without an audience, at an instant given from the clock.\<close>

definition issue_for_default_client :: "ext \<Rightarrow> files \<Rightarrow> (time \<Rightarrow> time) \<Rightarrow> (unit, jwk \<times> issued_access_token) req" where
  "issue_for_default_client E F at =
     and_then (for_tests E) (\<lambda>keys.
     and_then uuid_now_v7 (\<lambda>user_id.
     and_then uuid_now_v7 (\<lambda>session_id.
     and_then (test_client E F []) (\<lambda>client.
     and_then utc_now (\<lambda>now.
     and_then (map_err (\<lambda>_. ()) (issue E keys ISSUER user_id session_id client (at now))) (\<lambda>issued.
     ok (sk_jwks keys ! 0, issued)))))))"

definition audience_defaults_to_client_id_and_is_enforced :: "ext \<Rightarrow> files \<Rightarrow> test" where
  "audience_defaults_to_client_id_and_is_enforced E F =
     and_then (issue_for_default_client E F (\<lambda>now. now)) (\<lambda>(jwk, issued).
     and_then (decode_with_jwk E (ia_token issued) jwk (test_validation ''my-app-web'')) (\<lambda>a.
     and_then (decode_with_jwk E (ia_token issued) jwk (test_validation ''other-api'')) (\<lambda>b.
     ok (a \<noteq> None \<and> b = None))))"

definition expired_token_is_rejected :: "ext \<Rightarrow> files \<Rightarrow> test" where
  "expired_token_is_rejected E F =
     and_then (issue_for_default_client E F (\<lambda>now. now - hours 1)) (\<lambda>(jwk, issued).
     and_then (decode_with_jwk E (ia_token issued) jwk (test_validation ''my-app-web'')) (\<lambda>a. ok (a = None)))"

text \<open>What the tests rely on: the two files, that \<open>jsonwebtoken\<close> signs with any key, reads the JWKs of the server,
  accepts what is acceptable and nothing else, and a clock that does not go back and a test that takes at most
  a minute.\<close>

definition web_client :: client where
  "web_client = plain_client ''my-app-web'' ''My App'' [''http://localhost:8025/auth/callback''] ''http://localhost:8025/auth/magic-link''"

definition reads_web_client :: "files \<Rightarrow> bool" where
  "reads_web_client F \<longleftrightarrow> fs_toml F (client_toml []) = Inr [web_client] \<and>
     fs_toml F (client_toml ''audience = \"my-app\"'') = Inr [web_client\<lparr>cl_audience := Some ''my-app''\<rparr>]"

definition jwt_library :: "ext \<Rightarrow> bool" where
  "jwt_library E \<longleftrightarrow> jwt_verifies E \<and> (\<forall>h c k. \<exists>tok. x_jwt_encode E h c k = Some tok) \<and>
     (\<forall>u b. \<exists>pub. x_jwk_key E (jwk_of E u b) = Some pub) \<and>
     (\<forall>h c k tok pub v now. x_jwt_encode E h c k = Some tok \<longrightarrow> \<not> acceptable v c now \<longrightarrow> x_jwt_decode E tok pub v now = None)"

definition quick_clock :: "world \<Rightarrow> bool" where
  "quick_clock w \<longleftrightarrow> mono (w_utc w) \<and> (\<forall>n. w_utc w n \<le> w_utc w 0 + minutes 1)"

lemma option_run [run]: "ok_or x e w = Some (Inr a, w') \<longleftrightarrow> x = Some a \<and> w' = w"
  and map_err_run [run]: "map_err g m w = Some (Inr a, w') \<longleftrightarrow> m w = Some (Inr a, w')"
  by (auto simp: ok_or_def ok_def err_def map_err_def split: option.splits)

lemma issue_run [run]: "issue E ks iss u s c t w = Some (Inr i, w') \<longleftrightarrow>
    (\<exists>key tok. signing_key ks t = Some key \<and>
       x_jwt_encode E (access_header E key) (access_claims iss u s c t (w_ids w 0)) (lk_encoding_key key) = Some tok \<and>
       i = \<lparr>ia_token = tok, ia_expires_in = 900\<rparr> \<and> w' = w\<lparr>w_ids := shift 1 (w_ids w)\<rparr>)"
  by (auto simp: issue_def run ACCESS_TOKEN_TTL_def time_defs)

lemma decode_run [run]: "decode_with_jwk E tok k v w = Some (Inr r, w') \<longleftrightarrow>
    (\<exists>pub. x_jwk_key E k = Some pub \<and> r = x_jwt_decode E tok pub v (w_utc w 0) \<and> w' = w\<lparr>w_utc := shift 1 (w_utc w)\<rparr>)"
  by (auto simp: decode_with_jwk_def run)

lemma web_client_ok: "reads_urls E \<Longrightarrow> client_validate E web_client = Inr ()"
    "reads_urls E \<Longrightarrow> client_validate E (web_client\<lparr>cl_audience := a\<rparr>) = Inr ()"
  by (drule read_urls, simp add: web_client_def loading)+

lemma test_client_run [run]:
  assumes "reads_urls E" "reads_web_client F"
  shows "test_client E F [] w = Some (Inr c, w') \<longleftrightarrow> c = web_client \<and> w' = w"
    and "test_client E F ''audience = \"my-app\"'' w = Some (Inr c, w') \<longleftrightarrow>
      c = web_client\<lparr>cl_audience := Some ''my-app''\<rparr> \<and> w' = w"
proof -
  have ids: "cl_id (web_client\<lparr>cl_audience := a\<rparr>) = ''my-app-web''" "cl_id web_client = ''my-app-web''" for a
    by (simp_all add: web_client_def plain_client_def)
  show "test_client E F [] w = Some (Inr c, w') \<longleftrightarrow> c = web_client \<and> w' = w"
    "test_client E F ''audience = \"my-app\"'' w = Some (Inr c, w') \<longleftrightarrow>
      c = web_client\<lparr>cl_audience := Some ''my-app''\<rparr> \<and> w' = w"
    using assms(2) unfolding reads_web_client_def
    by (auto simp: test_client_def run clients_from_toml_def clients_from_file_def web_client_ok [OF assms(1)] ids)
qed

text \<open>The key set of the tests: one key, active since a day, and its JWK.\<close>

lemma for_tests_one [run]:
  assumes "test_keys_decode E k other" "aead_opens E"
  shows "for_tests E w = Some (Inr ks, w') \<longleftrightarrow>
    (\<exists>seed rng. ks = \<lparr>sk_keys = [\<lparr>lk_kid = w_ids w 0, lk_encoding_key = encoding_key seed,
         lk_active_at = w_utc w 0 - days 1, lk_retired_at = None\<rparr>],
         sk_jwks = [jwk_of E (w_ids w 0) (x_ed25519_public E seed)]\<rparr> \<and>
       seed = map (w_rng w) [0..<32] \<and> rng = shift 56 (w_rng w) \<and>
       w' = w\<lparr>w_utc := shift 1 (w_utc w), w_ids := shift 1 (w_ids w), w_rng := rng\<rparr>)"
  by (auto simp: for_tests_def run for_tests_run [OF assms(1)] Let_def decrypt_seal [OF assms(2)] simp del: upt_Suc)

lemma signed:
  assumes "jwt_library E" "hdr_alg h = EdDSA"
  obtains tok pub where "x_jwt_encode E h c (encoding_key seed) = Some tok" "x_jwt_decode_header E tok = Some h"
    "x_jwk_key E (jwk_of E kid (x_ed25519_public E seed)) = Some pub"
    "\<And>v now. x_jwt_decode E tok pub v now = (if acceptable v c now then Some c else None)"
proof -
  obtain tok pub where t: "x_jwt_encode E h c (encoding_key seed) = Some tok"
    and p: "x_jwk_key E (jwk_of E kid (x_ed25519_public E seed)) = Some pub"
    using assms(1) unfolding jwt_library_def by metis
  have "x_jwt_decode_header E tok = Some h" "acceptable v c now \<Longrightarrow> x_jwt_decode E tok pub v now = Some c"
    "\<not> acceptable v c now \<Longrightarrow> x_jwt_decode E tok pub v now = None" for v now
    using assms t p unfolding jwt_library_def jwt_verifies_def by blast+
  then have "x_jwt_decode E tok pub v now = (if acceptable v c now then Some c else None)" for v now
    by simp
  with t \<open>x_jwt_decode_header E tok = Some h\<close> p show thesis by (rule that)
qed

lemma timestamp_plus: "timestamp (t + minutes n) = timestamp t + 60 * n"
  by (simp add: timestamp_def time_defs)

lemma timestamp_mono: "s \<le> t \<Longrightarrow> timestamp s \<le> timestamp t"
  by (simp add: timestamp_def time_defs zdiv_mono1)

text \<open>A quick test reads its own token within its life, and one issued an hour ago after it.\<close>

lemma quick_times:
  assumes "quick_clock w"
  shows "w_utc w 0 - days 1 \<le> w_utc w n" "w_utc w 0 - days 1 \<le> w_utc w n - hours 1"
    and "timestamp (w_utc w m) \<le> timestamp (w_utc w n + ACCESS_TOKEN_TTL) + 60"
    and "n \<le> m \<Longrightarrow> \<not> timestamp (w_utc w m) \<le> timestamp (w_utc w n - hours 1 + ACCESS_TOKEN_TTL) + 60"
proof -
  from assms have le: "w_utc w 0 \<le> w_utc w n" "w_utc w m \<le> w_utc w 0 + minutes 1"
    and later: "n \<le> m \<Longrightarrow> w_utc w n \<le> w_utc w m" by (auto simp: quick_clock_def mono_def)
  show "w_utc w 0 - days 1 \<le> w_utc w n" "w_utc w 0 - days 1 \<le> w_utc w n - hours 1"
    using le by (simp_all add: time_defs)
  have "w_utc w m \<le> w_utc w n + minutes 1" using le by simp
  from timestamp_mono [OF this] show "timestamp (w_utc w m) \<le> timestamp (w_utc w n + ACCESS_TOKEN_TTL) + 60"
    by (simp add: timestamp_plus ACCESS_TOKEN_TTL_def)
  have ago: "w_utc w n - hours 1 + ACCESS_TOKEN_TTL = w_utc w n + minutes (- 45)"
    by (simp add: ACCESS_TOKEN_TTL_def time_defs)
  show "\<not> timestamp (w_utc w m) \<le> timestamp (w_utc w n - hours 1 + ACCESS_TOKEN_TTL) + 60" if "n \<le> m"
    using timestamp_mono [OF later [OF that]] unfolding ago by (simp add: timestamp_plus)
qed

lemma acceptable_test: "acceptable (test_validation a) (access_claims ISSUER u s c t j) now \<longleftrightarrow>
    audience c = a \<and> timestamp now \<le> timestamp (t + ACCESS_TOKEN_TTL) + 60"
  by (simp add: acceptable_def test_validation_def access_claims_def)

lemma web_client_audience: "audience web_client = ''my-app-web''" "cl_id web_client = ''my-app-web''"
    "audience (web_client\<lparr>cl_audience := Some ''my-app''\<rparr>) = ''my-app''"
  by (simp_all add: audience_def web_client_def plain_client_def)

lemma claims_fields:
  "sub_claim (access_claims iss u s c t j) = u" "aud_claim (access_claims iss u s c t j) = audience c"
  "client_id_claim (access_claims iss u s c t j) = cl_id c"
  "exp_claim (access_claims iss u s c t j) = iat_claim (access_claims iss u s c t j) + 900"
  by (simp_all add: access_claims_def ACCESS_TOKEN_TTL_def timestamp_plus)

lemma header_fields: "hdr_typ (access_header E k) = Some ''at+jwt''" "hdr_kid (access_header E k) = Some (x_uuid_string E (lk_kid k))"
    "jwk_kid (jwk_of E u b) = Some (x_uuid_string E u)"
  by (simp_all add: access_header_def jwk_of_def)

lemma access_token_tests:
  assumes keys: "test_keys_decode E k other" "aead_opens E" and files: "reads_urls E" "reads_web_client F"
    and jwt: "jwt_library E" and clock: "quick_clock w"
  shows "passes (issued_token_verifies_against_jwks E F) w"
    and "passes (audience_defaults_to_client_id_and_is_enforced E F) w"
    and "passes (expired_token_is_rejected E F) w"
proof -
  note steps = run for_tests_one [OF keys] test_client_run [OF files] signing_key_def can_sign_def quick_times [OF clock]
    acceptable_test web_client_audience
  let ?seed = "map (w_rng w) [0..<32]"
  let ?key = "\<lparr>lk_kid = w_ids w 0, lk_encoding_key = encoding_key ?seed, lk_active_at = w_utc w 0 - days 1, lk_retired_at = None\<rparr>"
  let ?claims = "\<lambda>c t. access_claims ISSUER (w_ids w (Suc 0)) (w_ids w (Suc (Suc 0))) c t (w_ids w (Suc (Suc (Suc 0))))"
  have h: "hdr_alg (access_header E ?key) = EdDSA" by (simp add: access_header_def)
  show "passes (issued_token_verifies_against_jwks E F) w"
    by (rule signed [OF jwt h, where seed = ?seed and kid = "w_ids w 0" and c = "?claims (web_client\<lparr>cl_audience := Some ''my-app''\<rparr>) (w_utc w (Suc 0))"])
      (simp add: issued_token_verifies_against_jwks_def steps jwks_find_def header_fields claims_fields del: upt_Suc)
  show "passes (audience_defaults_to_client_id_and_is_enforced E F) w"
    by (rule signed [OF jwt h, where seed = ?seed and kid = "w_ids w 0" and c = "?claims web_client (w_utc w (Suc 0))"])
      (simp add: audience_defaults_to_client_id_and_is_enforced_def issue_for_default_client_def steps del: upt_Suc)
  show "passes (expired_token_is_rejected E F) w"
    by (rule signed [OF jwt h, where seed = ?seed and kid = "w_ids w 0" and c = "?claims web_client (w_utc w (Suc 0) - hours 1)"])
      (simp add: expired_token_is_rejected_def issue_for_default_client_def steps del: upt_Suc)
qed

end
