(* ===== verification/Journey.thy ===== *)
theory Journey
  imports Keys "HOL-Library.Countable"
begin

text \<open>
  A whole login, end to end: a user who starts a flow, asks for the email, follows its link, lets the app exchange
  the code and reads the account gets through, when nothing outside the program is in the way. Each route is shown
  to complete on the state the one before has left; the requests are composed by what they leave of the supplies
  of the world (clocks, ids, random bytes, faults), which they only read on.
\<close>

section \<open>Requests read the supplies on\<close>

definition later_world :: "world \<Rightarrow> world \<Rightarrow> bool" where
  "later_world w w' \<longleftrightarrow> (\<exists>a b i r f. w_utc w' = shift a (w_utc w) \<and> w_db_clock w' = shift b (w_db_clock w) \<and>
     w_ids w' = shift i (w_ids w) \<and> w_rng w' = shift r (w_rng w) \<and> w_faults w' = shift f (w_faults w) \<and>
     w_keys w' = w_keys w)"

definition reads_on :: "('e, 'a) req \<Rightarrow> bool" where
  "reads_on m \<longleftrightarrow> (\<forall>w. wp m (\<lambda>_. later_world w) (\<lambda>_. later_world w) w)"

named_theorems onward \<open>computations that read the supplies on and keep the signing keys\<close>

lemma later_world_refl [simp]: "later_world w w"
  unfolding later_world_def by (intro exI [of _ 0]) (simp add: shift_def)

lemma later_world_trans: "later_world u v \<Longrightarrow> later_world v w \<Longrightarrow> later_world u w"
  unfolding later_world_def by (elim exE conjE) (simp, blast)

lemma shift_0 [simp]: "shift 0 s = s"
  by (simp add: shift_def)

lemma later_worldI:
  "\<lbrakk>w_utc w' = shift a (w_utc w); w_db_clock w' = shift b (w_db_clock w); w_ids w' = shift i (w_ids w);
    w_rng w' = shift r (w_rng w); w_faults w' = shift f (w_faults w); w_keys w' = w_keys w\<rbrakk> \<Longrightarrow> later_world w w'"
  unfolding later_world_def by blast

lemma later_world_same:
  "\<lbrakk>w_utc w' = w_utc w; w_db_clock w' = w_db_clock w; w_ids w' = w_ids w;
    w_rng w' = w_rng w; w_faults w' = w_faults w; w_keys w' = w_keys w\<rbrakk> \<Longrightarrow> later_world w w'"
  by (rule later_worldI [of _ 0 _ 0 0 0 0]) simp_all

lemma later_after_stmt: "later_world w (after_stmt w)" "later_world w ((after_stmt w)\<lparr>w_db := d\<rparr>)"
    "later_world w ((after_stmt w)\<lparr>w_tx := t\<rparr>)"
  unfolding after_stmt_def
  by (cases "w_tx w"; rule later_worldI [where a = 0 and b = "if w_tx w = None then 1 else 0" and i = 1 and r = 0 and f = 1]; simp)+

lemma later_drop_tx: "later_world w (drop_tx w)"
  by (rule later_world_same) (simp_all add: drop_tx_def split: option.split)

lemma reads_on_prim [onward]:
  "reads_on (ok a)" "reads_on (err e)" "reads_on (ok_or y e)" "reads_on (result z)" "reads_on load_keys"
  "reads_on (send_in_background x)"
  by (simp_all add: reads_on_def wp later_world_same split: option.split sum.split)

lemma reads_on_supplies [onward]: "reads_on utc_now" "reads_on uuid_now_v7" "reads_on (random_bytes n)"
  unfolding reads_on_def wp
  by (auto intro: later_worldI [of _ 1 _ 0 0 0 0] later_worldI [of _ 0 _ 0 1 0 0] later_worldI [of _ 0 _ 0 0 n 0])

lemma reads_on_exec [onward]: "reads_on (exec q)" "reads_on (sql q)" "reads_on (osql q)"
  by (simp_all add: reads_on_def wp later_after_stmt split: sum.split prod.split)

lemma reads_on_tx [onward]: "reads_on begin_tx" "reads_on commit_tx" "reads_on rollback_tx"
  by (auto simp: reads_on_def wp later_after_stmt intro: later_world_trans [OF later_after_stmt(1) later_drop_tx])

lemma reads_on_and_then [onward]: "\<lbrakk>reads_on m; \<And>a. reads_on (f a)\<rbrakk> \<Longrightarrow> reads_on (and_then m f)"
  unfolding reads_on_def wp by (blast intro: wp_mono later_world_trans)

lemma reads_on_scoped [onward]: "reads_on m \<Longrightarrow> reads_on (scoped m)"
  unfolding reads_on_def wp by (blast intro: wp_mono later_world_trans later_drop_tx)

lemma reads_on_map_err [onward]: "reads_on m \<Longrightarrow> reads_on (map_err g m)"
  by (simp add: reads_on_def wp)

lemma reads_on_cases [onward]:
  "\<lbrakk>reads_on m; reads_on m'\<rbrakk> \<Longrightarrow> reads_on (if b then m else m')"
  "\<lbrakk>reads_on n; \<And>a. reads_on (f a)\<rbrakk> \<Longrightarrow> reads_on (case x of None \<Rightarrow> n | Some a \<Rightarrow> f a)"
  "\<lbrakk>\<And>e. reads_on (g e); \<And>a. reads_on (h a)\<rbrakk> \<Longrightarrow> reads_on (case s of Inl e \<Rightarrow> g e | Inr a \<Rightarrow> h a)"
  "(\<And>a b. reads_on (k a b)) \<Longrightarrow> reads_on (case y of (a, b) \<Rightarrow> k a b)"
  "(\<And>a. reads_on (j a)) \<Longrightarrow> reads_on (Let z j)"
  "\<lbrakk>\<And>u. reads_on (p u); reads_on q\<rbrakk> \<Longrightarrow> reads_on (case r of Account u \<Rightarrow> p u | SignUp \<Rightarrow> q)"
  by (auto split: option.split sum.split prod.split recipient.split)

lemma reads_on_limiter [onward]: "reads_on (limiter_check E l key)"
proof -
  have "w_utc (log_check l c v) = w_utc v \<and> w_keys (log_check l c v) = w_keys v" for c v by simp
  then show ?thesis by (auto simp: reads_on_def wp Let_def split: option.split intro!: later_world_same)
qed

lemma random_below_shift: "random_below rg rng = Some (v, rng') \<Longrightarrow> \<exists>n. rng' = shift n rng"
proof -
  assume "random_below rg rng = Some (v, rng')"
  then have "\<exists>n. snd (v, rng') = shift n rng"
  proof (rule random_below.raw_induct [where P = "\<lambda>rg rng r. \<exists>n. snd r = shift n rng", rotated])
    fix f rg' and r :: "nat \<Rightarrow> char" and y
    assume "\<And>rg rng y. f rg rng = Some y \<Longrightarrow> \<exists>n. snd y = shift n rng"
      and "(if draw r \<le> zone rg' then Some (draw r mod rg', shift 4 r) else f rg' (shift 4 r)) = Some y"
    then show "\<exists>n. snd y = shift n r" by (fastforce split: if_splits)
  qed
  then show ?thesis by simp
qed

lemma reads_on_code [onward]: "reads_on (code_generate E k owner)"
  unfolding reads_on_def wp
  by (auto split: option.split dest!: random_below_shift intro: later_worldI [of _ 0 _ 0 0 _ 0])

lemma reads_on_token [onward]: "reads_on (token_generate E)"
  unfolding token_generate_def by (intro onward)

lemma login_routes_read_on [onward]:
  "reads_on (create_flow st input)" "reads_on (magic_link_request E st ip f m)" "reads_on (magic_link_confirm E st ip t)"
  "reads_on (authorization_code_grant E st tr)" "reads_on (current_user_from_request E st auth)" "reads_on (me_get u)"
  unfolding create_flow_def magic_link_request_def send_magic_link_def flow_exhausted_def magic_link_confirm_def
    log_in_def login_user_def log_in_end_def flow_complete_def grant_defs reject_unusable_code_def current_user_from_request_def me_get_def
  by (intro onward)+

lemma reads_on_run: "\<lbrakk>reads_on m; m w = Some (r, w')\<rbrakk> \<Longrightarrow> later_world w w'"
  unfolding reads_on_def by (drule spec [of _ w]) (auto simp: wp_def split: sum.splits)

section \<open>Following the link goes through\<close>

text \<open>The account the link logs in as can be used: the one it was sent to, enabled and still at the address, or none yet at
  that address.\<close>

definition login_allowed :: "ext \<Rightarrow> db \<Rightarrow> uuid option \<Rightarrow> string \<Rightarrow> bool" where
  "login_allowed E d user_id email \<longleftrightarrow> (case user_id of
      Some i \<Rightarrow> \<exists>u. user_of d i = Some u \<and> u_disabled_at u = None \<and> u_email u = email
    | None \<Rightarrow> account_at E email d = None \<and> sql_normalize E email = email)"

lemma flow_row_count:
  assumes "wf_db d" "f \<in> set (login_flows d)" "flow_pending now f"
  shows "count_where (\<lambda>g. f_id g = f_id f \<and> flow_pending now g) (login_flows d) = 1"
proof -
  have dist: "distinct (map f_id (login_flows d))" using assms(1) by (simp add: wf_defs)
  have "g = f" if "g \<in> set (login_flows d)" "f_id g = f_id f" for g
    using distinct_key_eq [OF dist that(1) assms(2) that(2)] .
  with assms(3) have "filter (\<lambda>g. f_id g = f_id f \<and> flow_pending now g) (login_flows d) = filter (\<lambda>g. f_id g = f_id f) (login_flows d)"
    by (intro filter_cong) auto
  with count_unique [OF dist assms(2)] show ?thesis by (simp add: count_where_def)
qed

text \<open>No code was issued for a flow that is still pending.\<close>

lemma pending_no_code:
  assumes "wf_db d" "provenance d" "f \<in> set (login_flows d)" "f_completed_at f = None"
  shows "f_id f \<notin> c_flow_id ` set (authorization_codes d)"
proof
  assume "f_id f \<in> c_flow_id ` set (authorization_codes d)"
  then have "flow_completed (f_id f) d" using assms(2) by (auto simp: provenance_def)
  then obtain g where g: "g \<in> set (login_flows d)" "f_id g = f_id f" "f_completed_at g \<noteq> None"
    by (auto simp: flow_completed_def)
  then have "g = f" using assms(1,3) by (auto simp: wf_defs intro: distinct_key_eq [of f_id])
  with g assms(4) show False by simp
qed

lemma link_login_completes:
  assumes "w_tx w = None" "wf_db (w_db w)" "provenance (w_db w)" "\<And>n. \<not> w_faults w n"
    and "usable_link (stmt_now w) (token_hash E tok) (w_db w) = Some m"
    and "f \<in> set (login_flows (w_db w))" "f_id f = m_flow_id m" "flow_pending (stmt_now w) f"
    and "login_allowed E (w_db w) (m_user_id m) (m_email m)"
    and "\<And>n. w_ids w n \<notin> u_id ` set (users (w_db w))" "\<And>n. w_ids w n \<notin> c_id ` set (authorization_codes (w_db w))"
    and "\<And>n. token_hash E (tok_plain (token_of_bytes E (map (shift n (w_rng w)) [0..<32])))
      \<notin> c_code_hash ` set (authorization_codes (w_db w))"
    and "\<And>log now. x_gov_check E (limiter_quota TokenPerIp) log (client_ip_key ip) now = None"
  shows "\<exists>resp w'. magic_link_confirm E st ip tok w = Some (Inr resp, w')"
proof -
  have count: "count_where (\<lambda>g. f_id g = m_flow_id m \<and> flow_pending (stmt_now w) g) (login_flows (w_db w)) = 1"
    using flow_row_count [OF assms(2,6,8)] assms(7) by simp
  have unused: "m_flow_id m \<notin> c_flow_id ` set (authorization_codes (w_db w))"
    using pending_no_code [OF assms(2,3,6)] assms(7,8) by (simp add: flow_pending_def)
  have mem: "m_flow_id m \<in> f_id ` set (login_flows (w_db w))" using assms(6,7) by (metis imageI)
  note login_defs = magic_link_confirm_def log_in_def login_user_def log_in_end_def flow_complete_def
  have "wp (magic_link_confirm E st ip tok) (\<lambda>_ _. True) (\<lambda>_ _. False) w"
  proof (cases "m_user_id m")
    case None
    with assms(9) have norm: "sql_normalize E (m_email m) = m_email m"
      and free: "List.find (\<lambda>u. u_email u = m_email m) (users (w_db w)) = None"
      by (auto simp: login_allowed_def account_at_def)
    with None assms(1,2,4,5,10,11,13) assms(12) [of 0] count unused mem show ?thesis
      by (simp add: login_defs wp Let_def link_consume_eq users_create_eq users_mark_email_verified_def
          login_flows_complete_def authorization_codes_create_def spend_link_def account_at_def)
  next
    case (Some i)
    with assms(9) obtain u where u: "user_of (w_db w) i = Some u" "u_disabled_at u = None" "u_email u = m_email m"
      by (auto simp: login_allowed_def)
    from user_of_Some [OF u(1)] have "u_id u \<in> u_id ` set (users (w_db w))" by blast
    with Some u assms(1,2,4,5,10,11,13) assms(12) [of 0] count unused mem show ?thesis
      by (simp add: login_defs wp Let_def link_consume_eq users_find_by_id_eq users_mark_email_verified_def
          login_flows_complete_def authorization_codes_create_def spend_link_def user_of_def)
  qed
  moreover have "returns (magic_link_confirm E st ip tok)"
  proof -
    have [total]: "returns (limiter_check E l key)" for l key
      by (auto simp: returns_def limiter_check_def Let_def split: option.split)
    show ?thesis unfolding login_defs sql_def by (intro total)
  qed
  ultimately show ?thesis using returns_success by blast
qed

section \<open>The access token opens the account\<close>

text \<open>What the exchange returns: a token for the session it opens.\<close>

definition opens_session :: "ext \<Rightarrow> app_state \<Rightarrow> signing_keys_set \<Rightarrow> time \<Rightarrow> time \<Rightarrow> client \<Rightarrow> uuid \<Rightarrow> string \<Rightarrow> db \<Rightarrow> bool" where
  "opens_session E st keys utc later client user_id access d \<longleftrightarrow> (\<exists>s key jti. s \<in> set (sessions d) \<and> s_user_id s = user_id \<and>
     s_revoked_at s = None \<and> s_expires_at s = utc + SESSION_TTL \<and> signing_key keys later = Some key \<and>
     x_jwt_encode E (access_header E key) (access_claims (st_issuer st) user_id (s_id s) client later jti) (lk_encoding_key key)
       = Some access)"

lemma opens_sessionI:
  assumes "s \<in> set (sessions d)" "s_user_id s = user_id" "s_revoked_at s = None" "s_expires_at s = utc + SESSION_TTL"
    and "signing_key keys later = Some key"
    and "x_jwt_encode E (access_header E key) (access_claims (st_issuer st) user_id (s_id s) client later jti) (lk_encoding_key key) = Some access"
  shows "opens_session E st keys utc later client user_id access d"
  using assms unfolding opens_session_def by blast

lemma exchange_opens:
  assumes "w_tx w = None" "wf_db (w_db w)" "authorization_code_grant E st input w = Some (Inr resp, w')"
  shows "\<exists>client code c. st_clients st (tr_client_id input) = Some client \<and> tr_code input = Some code \<and>
    usable_code (stmt_now w) (token_hash E code) (w_db w) = Some c \<and> users (w_db w') = users (w_db w) \<and>
    opens_session E st (w_keys w) (w_utc w 0) (w_utc w 1) client (c_user_id c) (tp_access_token resp) (w_db w')"
proof -
  have "wp (authorization_code_grant E st input)
    (\<lambda>resp w'. \<exists>client code c. st_clients st (tr_client_id input) = Some client \<and> tr_code input = Some code \<and>
      usable_code (stmt_now w) (token_hash E code) (w_db w) = Some c \<and> users (w_db w') = users (w_db w) \<and>
      opens_session E st (w_keys w) (w_utc w 0) (w_utc w 1) client (c_user_id c) (tp_access_token resp) (w_db w'))
    (\<lambda>_ _. True) w"
    using assms(1,2)
    by (simp add: grant_defs wp consume_eq users_find_by_id_eq sessions_create_def refresh_tokens_create_def
        consumed_of_def split: option.split sum.split prod.split)
       (auto intro: opens_sessionI simp: mark_consumed_def)
  from wp_ok_run [OF this assms(3)] show ?thesis .
qed

text \<open>The signing key is a key pair whose public half is in the key set of the server.\<close>

definition key_published :: "ext \<Rightarrow> signing_keys_set \<Rightarrow> loaded_key \<Rightarrow> bool" where
  "key_published E keys key \<longleftrightarrow> (\<exists>seed pub. lk_encoding_key key = encoding_key seed \<and>
     jwks_find (sk_jwks keys) (x_uuid_string E (lk_kid key)) = Some (jwk_of E (lk_kid key) (x_ed25519_public E seed)) \<and>
     x_jwk_key E (jwk_of E (lk_kid key) (x_ed25519_public E seed)) = Some pub)"

lemma published_key_verifies:
  assumes "jwt_verifies E" "key_published E keys key" "hdr_alg h = EdDSA" "hdr_kid h = Some (x_uuid_string E (lk_kid key))"
    and "x_jwt_encode E h c (lk_encoding_key key) = Some tok"
  obtains pub where "x_jwt_decode_header E tok = Some h" "decoding_key E keys (x_uuid_string E (lk_kid key)) = Some pub"
    "\<And>v now. acceptable v c now \<Longrightarrow> x_jwt_decode E tok pub v now = Some c"
proof -
  from assms(2) obtain seed pub where key: "lk_encoding_key key = encoding_key seed"
      "jwks_find (sk_jwks keys) (x_uuid_string E (lk_kid key)) = Some (jwk_of E (lk_kid key) (x_ed25519_public E seed))"
      "x_jwk_key E (jwk_of E (lk_kid key) (x_ed25519_public E seed)) = Some pub"
    by (auto simp: key_published_def)
  have "x_jwt_decode_header E tok = Some h" "acceptable v c now \<Longrightarrow> x_jwt_decode E tok pub v now = Some c" for v now
    using assms(1,3,5) key unfolding jwt_verifies_def by metis+
  with key show thesis by (intro that [of pub]) (simp_all add: decoding_key_def)
qed

text \<open>The account as \<open>GET /me\<close> shows it.\<close>

definition me_of :: "user \<Rightarrow> me_response" where
  "me_of u = \<lparr>me_id = u_id u, me_email = u_email u, me_email_verified = (u_email_verified_at u \<noteq> None), me_created_at = u_created_at u\<rparr>"

lemma live_session_eq:
  assumes "wf_db d" "s \<in> set (sessions d)" "s_revoked_at s = None" "now < s_expires_at s"
    and "u \<in> set (users d)" "u_id u = s_user_id s" "u_disabled_at u = None"
  shows "live_session now (s_id s) d = Some (s, u)"
proof -
  have "List.find (\<lambda>x. s_id x = s_id s \<and> s_revoked_at x = None \<and> s_expires_at x > now) (sessions d) = Some s"
    using assms by (intro find_key [where k = s_id]) (auto simp: wf_defs)
  moreover have "List.find (\<lambda>x. u_id x = s_user_id s \<and> u_disabled_at x = None) (users d) = Some u"
    using assms by (intro find_key [where k = u_id]) (auto simp: wf_defs)
  ultimately show ?thesis by (simp add: live_session_def)
qed

lemma user_of_eq: "\<lbrakk>wf_db d; u \<in> set (users d)\<rbrakk> \<Longrightarrow> user_of d (u_id u) = Some u"
  unfolding user_of_def by (intro find_key [where k = u_id]) (auto simp: wf_defs)

lemma account_read:
  assumes "w_tx w = None" "wf_db (w_db w)" "\<And>n. \<not> w_faults w n"
    and "jwt_verifies E" "key_published E (w_keys w) key" "signing_key (w_keys w) later = Some key"
    and "opens_session E st (w_keys w) utc later client (u_id u) access (w_db w)"
    and "u \<in> set (users (w_db w))" "u_disabled_at u = None"
    and "stmt_now w < utc + SESSION_TTL" "timestamp (w_utc w 0) \<le> timestamp (later + ACCESS_TOKEN_TTL) + LEEWAY_SECONDS"
  shows "\<exists>w'. and_then (current_user_from_request E st (Some (''Bearer '' @ access))) me_get w = Some (Inr (me_of u), w')"
proof -
  from assms(6,7) obtain s jti where s: "s \<in> set (sessions (w_db w))" "s_user_id s = u_id u" "s_revoked_at s = None"
      "s_expires_at s = utc + SESSION_TTL"
    and enc: "x_jwt_encode E (access_header E key) (access_claims (st_issuer st) (u_id u) (s_id s) client later jti)
      (lk_encoding_key key) = Some access"
    by (auto simp: opens_session_def)
  let ?c = "access_claims (st_issuer st) (u_id u) (s_id s) client later jti"
  obtain pub where pub: "x_jwt_decode_header E access = Some (access_header E key)"
      "decoding_key E (w_keys w) (x_uuid_string E (lk_kid key)) = Some pub"
      "\<And>v now. acceptable v ?c now \<Longrightarrow> x_jwt_decode E access pub v now = Some ?c"
    by (rule published_key_verifies [OF assms(4,5) _ _ enc]) (simp_all add: access_header_def)
  have "acceptable (own_validation (st_issuer st)) ?c (w_utc w 0)"
    using assms(11) by (simp add: acceptable_def own_validation_def access_claims_def)
  note dec = pub(3) [OF this]
  have live: "live_session (stmt_now w) (s_id s) (w_db w) = Some (s, u)"
    by (rule live_session_eq [OF assms(2) s(1,3) _ assms(8) _ assms(9)]) (use s assms(10) in simp_all)
  have claims: "sid_claim ?c = s_id s" "sub_claim ?c = u_id u" by (simp_all add: access_claims_def)
  have header: "hdr_alg (access_header E key) = EdDSA" "hdr_typ (access_header E key) = Some ''at+jwt''"
      "hdr_kid (access_header E key) = Some (x_uuid_string E (lk_kid key))"
    by (simp_all add: access_header_def)
  have prefix: "strip_prefix ''Bearer '' (''Bearer '' @ access) = Some access" by (simp add: strip_prefix_Some)
  let ?m = "and_then (current_user_from_request E st (Some (''Bearer '' @ access))) me_get"
  have "wp ?m (\<lambda>r _. r = me_of u) (\<lambda>_ _. False) w"
    using assms(1,3) live s(2) user_of_eq [OF assms(2,8)]
    by (simp add: current_user_from_request_def me_get_def wp prefix pub(1,2) header dec claims find_authenticated_eq
        users_find_by_id_eq me_of_def del: append_Cons append_Nil)
  moreover have "returns ?m"
    unfolding current_user_from_request_def me_get_def sql_def by (intro total)
  ultimately show ?thesis using returns_success by blast
qed

section \<open>Nothing in the way\<close>

text \<open>Between two requests: no transaction is open, the schema holds and codes come from completed flows.\<close>

definition settled :: "world \<Rightarrow> bool" where
  "settled w \<longleftrightarrow> w_tx w = None \<and> wf_db (w_db w) \<and> provenance (w_db w)"

lemma settled_serve:
  assumes "settled w" "serve E st r w = Some (x, w')"
  shows "settled w'"
proof -
  have "holds {} wf_db w" "holds {} provenance w" using assms(1) by (simp_all add: settled_def holds_def)
  then have "holds {} wf_db w'" "holds {} provenance w'"
    by (auto intro: preserves_run [OF wf.serve_keeps _ assms(2)] preserves_run [OF provenance.serve_keeps _ assms(2)])
  moreover have "w_tx w' = None"
    using leaves_no_tx_run [OF serve_leaves_no_tx _ assms(2)] assms(1) by (simp add: settled_def)
  ultimately show ?thesis by (simp add: settled_def holds_def)
qed

lemma route_run:
  "m w = Some (Inr a, w') \<Longrightarrow> api_route f m w = Some (Inr (f a), w')"
  "n w = Some (Inr b, w') \<Longrightarrow> oauth_route g n w = Some (Inr (g b), w')"
  by (simp_all add: api_route_def oauth_route_def map_err_def and_then_def ok_def)

text \<open>The database answers, both clocks stay within the minute a code lives, ids and tokens are new to the database,
  the generator yields usable draws, and one key signs throughout.\<close>

definition row_ids :: "db \<Rightarrow> uuid set" where
  "row_ids d = u_id ` set (users d) \<union> f_id ` set (login_flows d) \<union> m_id ` set (magic_links d) \<union>
     c_id ` set (authorization_codes d) \<union> s_id ` set (sessions d) \<union> r_id ` set (refresh_tokens d)"

definition secret_hashes :: "db \<Rightarrow> bytes set" where
  "secret_hashes d = m_token_hash ` set (magic_links d) \<union> c_code_hash ` set (authorization_codes d) \<union>
     r_token_hash ` set (refresh_tokens d)"

definition calm :: "ext \<Rightarrow> db \<Rightarrow> time \<Rightarrow> loaded_key \<Rightarrow> world \<Rightarrow> bool" where
  "calm E d T key w \<longleftrightarrow> (\<forall>n. \<not> w_faults w n) \<and>
     (\<forall>n. T \<le> w_utc w n \<and> w_utc w n < T + FLOW_CODE_TTL) \<and> (\<forall>n. T \<le> w_db_clock w n \<and> w_db_clock w n < T + FLOW_CODE_TTL) \<and>
     (\<forall>n. random_below CODE_RANGE (shift n (w_rng w)) \<noteq> None) \<and> (\<forall>n. signing_key (w_keys w) (w_utc w n) = Some key) \<and>
     (\<forall>n. w_ids w n \<notin> row_ids d) \<and>
     (\<forall>n. token_hash E (tok_plain (token_of_bytes E (map (shift n (w_rng w)) [0..<32]))) \<notin> secret_hashes d)"

lemma calm_later: "\<lbrakk>calm E d T key w; later_world w w'\<rbrakk> \<Longrightarrow> calm E d T key w'"
  unfolding calm_def later_world_def by (elim exE conjE, simp)

text \<open>The limits are not reached for this key.\<close>

definition unlimited :: "ext \<Rightarrow> string \<Rightarrow> bool" where
  "unlimited E k \<longleftrightarrow> (\<forall>q log now. x_gov_check E q log k now = None)"

section \<open>The four steps\<close>

lemma flow_step:
  assumes "settled w" "calm E d T key w" "login_flows d = login_flows (w_db w)" "valid_flow_request st input client"
  shows "\<exists>i w'. create_flow st input w = Some (Inr (201, \<lparr>fr_flow_id = i, fr_methods = [MagicLink], fr_expires_at = w_utc w 0 + FLOW_TTL\<rparr>), w') \<and>
    w_db w' = (w_db w)\<lparr>login_flows := login_flows (w_db w) @ [new_flow input client i (w_utc w 0) (stmt_now w)]\<rparr> \<and>
    w_outbox w' = w_outbox w"
proof -
  have "w_ids w 0 \<notin> f_id ` set (login_flows (w_db w))" "\<not> w_faults w 0"
    using assms(2,3) by (auto simp: calm_def row_ids_def)
  with assms(4) have "wp (create_flow st input)
    (\<lambda>a w'. \<exists>i. a = (201, \<lparr>fr_flow_id = i, fr_methods = [MagicLink], fr_expires_at = w_utc w 0 + FLOW_TTL\<rparr>) \<and>
       w_db w' = (w_db w)\<lparr>login_flows := login_flows (w_db w) @ [new_flow input client i (w_utc w 0) (stmt_now w)]\<rparr> \<and>
       w_outbox w' = w_outbox w) (\<lambda>_ _. False) w"
    by (auto simp: create_flow_def wp login_flows_create_def valid_flow_request_def new_flow_def Let_def
        allows_redirect_uri_iff not_less split: option.split)
  moreover have "returns (create_flow st input)" unfolding create_flow_def sql_def by (intro total)
  ultimately show ?thesis using returns_success by blast
qed

text \<open>The flow as it stands while it is pending.\<close>

definition open_flow :: "create_flow_request \<Rightarrow> client \<Rightarrow> uuid \<Rightarrow> time \<Rightarrow> db \<Rightarrow> login_flow \<Rightarrow> bool" where
  "open_flow input client i t d f \<longleftrightarrow> f \<in> set (login_flows d) \<and> f_id f = i \<and> f_client_id f = cl_id client \<and>
     f_redirect_uri f = cf_redirect_uri input \<and> f_code_challenge f = cf_code_challenge input \<and>
     f_completed_at f = None \<and> t < f_expires_at f"

lemma email_step:
  assumes "settled w" "calm E d T key w" "magic_links d = magic_links (w_db w)"
    and "open_flow input client i (T + FLOW_CODE_TTL) (w_db w) f" "f_magic_link_requests f = 0"
    and "st_clients st (cl_id client) = Some client" "is_valid_email email"
    and "recipient_of client (account_at E email (w_db w)) = Some r"
    and "unlimited E (client_ip_key ip)" "unlimited E (email_key E email)"
  shows "\<exists>mr w'. magic_link_request E st ip i email w = Some (Inr (202, mr), w') \<and>
    link_sent E st client i email (w_utc w 0 + CODE_TTL) r (count_request i (w_utc w 0 + CODE_TTL) (w_db w)) (w_db w')
      (w_outbox w) (w_outbox w')"
proof -
  have tx: "w_tx w = None" and wf: "wf_db (w_db w)" using assms(1) by (auto simp: settled_def)
  have calm: "\<not> w_faults w n" "w_ids w n \<notin> row_ids d" "random_below CODE_RANGE (shift n (w_rng w)) \<noteq> None"
      "token_hash E (tok_plain (token_of_bytes E (map (shift n (w_rng w)) [0..<32]))) \<notin> secret_hashes d"
      "w_db_clock w n < T + FLOW_CODE_TTL" for n
    using assms(2) by (auto simp: calm_def)
  have und: "undisturbed E w"
    using calm(1-3) calm(4) [of 0] assms(3) by (auto simp: undisturbed_def row_ids_def secret_hashes_def)
  have pend: "flow_pending (w_db_clock w n) f" for n
    using assms(4) calm(5) [of n] by (auto simp: flow_pending_def open_flow_def)
  have "List.find (\<lambda>g. f_id g = i \<and> flow_pending (stmt_now w) g) (login_flows (w_db w)) = Some f"
    using assms(4) wf tx pend [of 0] by (intro find_key [where k = f_id]) (auto simp: open_flow_def wf_defs)
  then have "pending_flow (stmt_now w) i (w_db w) = Some f" by (simp add: pending_flow_def)
  then have "request_answer E st ip i email w =
      Inr (202, \<lparr>mr_status = MagicLinkSent, mr_expires_at = max (f_expires_at f) (w_utc w 0 + CODE_TTL)\<rparr>)"
    using assms(4-7,9,10) pend [of 1] by (simp add: request_answer_def unlimited_def open_flow_def MAX_EMAILS_PER_FLOW_def)
  with request_answer_run [OF tx wf und, of st ip i email] obtain mr w'
    where run: "magic_link_request E st ip i email w = Some (Inr (202, mr), w')" by auto
  from wp_ok_run [OF magic_link_request_wp [OF tx wf] run] obtain g client'
    where "pending_flow (stmt_now w) i (w_db w) = Some g" "st_clients st (f_client_id g) = Some client'"
      and eff: "request_effect E st client' i email (w_utc w 0 + CODE_TTL) (w_db w) (w_db w') (w_outbox w) (w_outbox w')"
    by blast
  with \<open>pending_flow (stmt_now w) i (w_db w) = Some f\<close> assms(4,6) have "client' = client" by (simp add: open_flow_def)
  with eff assms(8) run show ?thesis by (auto simp: request_effect_def)
qed

text \<open>A code ready to be exchanged, by this client and for this account, once the address is verified.\<close>

definition code_ready :: "ext \<Rightarrow> create_flow_request \<Rightarrow> client \<Rightarrow> string \<Rightarrow> string \<Rightarrow> time \<Rightarrow> user \<Rightarrow> db \<Rightarrow> bool" where
  "code_ready E input client email auth t u d \<longleftrightarrow>
     u \<in> set (users d) \<and> u_email u = email \<and> u_disabled_at u = None \<and> u_email_verified_at u \<noteq> None \<and>
     (\<exists>c f. c \<in> set (authorization_codes d) \<and> c_code_hash c = token_hash E auth \<and> c_user_id c = u_id u \<and>
        c_consumed_at c = None \<and> t \<le> c_expires_at c \<and>
        f \<in> set (login_flows d) \<and> f_id f = c_flow_id c \<and> f_client_id f = cl_id client \<and>
        f_redirect_uri f = cf_redirect_uri input \<and> f_code_challenge f = cf_code_challenge input)"

lemma code_readyI:
  assumes "u \<in> set (users d)" "u_email u = email" "u_disabled_at u = None" "u_email_verified_at u \<noteq> None"
    "c \<in> set (authorization_codes d)" "c_code_hash c = token_hash E auth" "c_user_id c = u_id u"
    "c_consumed_at c = None" "t \<le> c_expires_at c"
    "f \<in> set (login_flows d)" "f_id f = c_flow_id c" "f_client_id f = cl_id client"
    "f_redirect_uri f = cf_redirect_uri input" "f_code_challenge f = cf_code_challenge input"
  shows "code_ready E input client email auth t u d"
  using assms unfolding code_ready_def by blast

lemma login_account_user:
  "login_account E user_id email i now d u d' \<Longrightarrow> u \<in> set (users d') \<and> u_disabled_at u = None \<and> u_email u = email \<and>
    login_flows d' = login_flows d \<and> sessions d' = sessions d \<and> refresh_tokens d' = refresh_tokens d"
  by (auto simp: login_account_def dest: user_of_Some account_at_Some split: option.splits if_splits)

lemma logged_in_ready:
  assumes "logged_in E m i now utc resp d d'" "open_flow input client (m_flow_id m) t d f" "t \<le> utc + FLOW_CODE_TTL"
  shows "\<exists>auth u. resp = Completed auth \<and> code_ready E input client (m_email m) auth t u d' \<and>
    sessions d' = sessions d \<and> refresh_tokens d' = refresh_tokens d"
proof -
  from assms(1) obtain u d1 where acc: "login_account E (m_user_id m) (m_email m) i now (spend_link (m_id m) now d) u d1"
    and "login_effect E (m_flow_id m) u now utc resp d1 d'" by (auto simp: logged_in_def)
  then obtain auth c where resp: "resp = Completed auth" and
    d': "d' = d1\<lparr>users := upd_where (\<lambda>x. u_id x = u_id u \<and> u_email x = u_email u)
          (\<lambda>x. x\<lparr>u_email_verified_at := (case u_email_verified_at x of None \<Rightarrow> Some now | Some t \<Rightarrow> Some t),
                u_updated_at := now\<rparr>) (users d1),
        login_flows := upd_where (\<lambda>f. f_id f = m_flow_id m \<and> flow_pending now f)
          (\<lambda>f. f\<lparr>f_completed_at := Some now\<rparr>) (login_flows d1),
        authorization_codes := authorization_codes d1 @ [c]\<rparr>"
    and c: "c_flow_id c = m_flow_id m" "c_user_id c = u_id u" "c_code_hash c = token_hash E auth"
      "c_consumed_at c = None" "c_expires_at c = utc + FLOW_CODE_TTL"
    by (auto simp: login_effect_def)
  note u = login_account_user [OF acc]
  let ?u = "u\<lparr>u_email_verified_at := (case u_email_verified_at u of None \<Rightarrow> Some now | Some t \<Rightarrow> Some t), u_updated_at := now\<rparr>"
  let ?f = "if flow_pending now f then f\<lparr>f_completed_at := Some now\<rparr> else f"
  have f: "f \<in> set (login_flows d1)" "f_id f = m_flow_id m"
    using u assms(2) by (simp_all add: open_flow_def spend_link_def)
  have mem: "?u \<in> set (users d')" "?f \<in> set (login_flows d')"
    using u f unfolding d' by (auto simp: in_upd_where)
  have "code_ready E input client (m_email m) auth t ?u d'"
    by (rule code_readyI [OF mem(1) _ _ _ _ _ _ _ _ mem(2), of _ c])
       (use u f assms(2,3) c in \<open>auto simp: d' open_flow_def split: option.split\<close>)
  moreover have "sessions d' = sessions d" "refresh_tokens d' = refresh_tokens d"
    using u by (simp_all add: d' spend_link_def)
  ultimately show ?thesis using resp by blast
qed

lemma link_step:
  assumes "settled w" "calm E d T key w" "users d = users (w_db w)" "authorization_codes d = authorization_codes (w_db w)"
    and "m \<in> set (magic_links (w_db w))" "m_token_hash m = token_hash E tok" "m_consumed_at m = None"
    and "T + FLOW_CODE_TTL \<le> m_expires_at m" "open_flow input client (m_flow_id m) (T + FLOW_CODE_TTL) (w_db w) f"
    and "login_allowed E (w_db w) (m_user_id m) (m_email m)" "unlimited E (client_ip_key ip)"
  shows "\<exists>auth w' u. magic_link_confirm E st ip tok w = Some (Inr (Completed auth), w') \<and>
    code_ready E input client (m_email m) auth (T + FLOW_CODE_TTL) u (w_db w') \<and>
    sessions (w_db w') = sessions (w_db w) \<and> refresh_tokens (w_db w') = refresh_tokens (w_db w)"
proof -
  have tx: "w_tx w = None" and wf: "wf_db (w_db w)" and prov: "provenance (w_db w)" using assms(1) by (auto simp: settled_def)
  have calm: "\<not> w_faults w n" "w_ids w n \<notin> row_ids d" "w_db_clock w n < T + FLOW_CODE_TTL" "T \<le> w_utc w n"
      "token_hash E (tok_plain (token_of_bytes E (map (shift n (w_rng w)) [0..<32]))) \<notin> secret_hashes d" for n
    using assms(2) by (auto simp: calm_def)
  have link: "usable_link (stmt_now w) (token_hash E tok) (w_db w) = Some m"
    unfolding usable_link_def using assms(5-8) wf tx calm(3) [of 0]
    by (intro find_key [where k = m_token_hash]) (auto simp: wf_defs)
  have "\<exists>resp w'. magic_link_confirm E st ip tok w = Some (Inr resp, w')"
  proof (rule link_login_completes [OF tx wf prov calm(1) link, of f])
    show "flow_pending (stmt_now w) f" using assms(9) tx calm(3) [of 0] by (simp add: open_flow_def flow_pending_def)
    show "w_ids w n \<notin> u_id ` set (users (w_db w))" "w_ids w n \<notin> c_id ` set (authorization_codes (w_db w))" for n
      using calm(2) [of n] assms(3,4) by (auto simp: row_ids_def)
    show "token_hash E (tok_plain (token_of_bytes E (map (shift n (w_rng w)) [0..<32])))
        \<notin> c_code_hash ` set (authorization_codes (w_db w))" for n
      using calm(5) [of n] assms(4) by (simp add: secret_hashes_def)
  qed (use assms(9,10,11) in \<open>simp_all add: open_flow_def unlimited_def\<close>)
  then obtain resp w' where run: "magic_link_confirm E st ip tok w = Some (Inr resp, w')" by blast
  from wp_ok_run [OF magic_link_confirm_wp [OF tx wf] run] link obtain i
    where "logged_in E m i (stmt_now w) (w_utc w 0) resp (w_db w) (w_db w')" by auto
  from logged_in_ready [OF this assms(9)] calm(4) [of 0] run show ?thesis by auto
qed

text \<open>The request the app sends with the code and the verifier it kept.\<close>

definition code_exchange :: "create_flow_request \<Rightarrow> string \<Rightarrow> string \<Rightarrow> token_request" where
  "code_exchange input verifier auth = \<lparr>tr_grant_type = ''authorization_code'', tr_client_id = cf_client_id input,
     tr_code = Some auth, tr_redirect_uri = Some (cf_redirect_uri input), tr_code_verifier = Some verifier,
     tr_refresh_token = None\<rparr>"

lemma token_step:
  assumes "settled w" "calm E d T key w" "sessions d = sessions (w_db w)" "refresh_tokens d = refresh_tokens (w_db w)"
    and "code_ready E input client email auth (T + FLOW_CODE_TTL) u (w_db w)"
    and "st_clients st (cf_client_id input) = Some client" "pkce_verify E verifier (cf_code_challenge input)"
    and "\<And>claims. x_jwt_encode E (access_header E key) claims (lk_encoding_key key) \<noteq> None"
  shows "\<exists>tokens w'. oauth_token E st (code_exchange input verifier auth) w = Some (Inr tokens, w') \<and>
    users (w_db w') = users (w_db w) \<and>
    opens_session E st (w_keys w) (w_utc w 0) (w_utc w 1) client (u_id u) (tp_access_token tokens) (w_db w')"
proof -
  let ?tr = "code_exchange input verifier auth"
  have tx: "w_tx w = None" and wf: "wf_db (w_db w)" and prov: "provenance (w_db w)" using assms(1) by (auto simp: settled_def)
  have calm: "\<not> w_faults w n" "w_ids w n \<notin> row_ids d" "w_db_clock w n < T + FLOW_CODE_TTL"
      "signing_key (w_keys w) (w_utc w n) = Some key"
      "token_hash E (tok_plain (token_of_bytes E (map (shift n (w_rng w)) [0..<32]))) \<notin> secret_hashes d" for n
    using assms(2) by (auto simp: calm_def)
  from assms(5) obtain c f where u: "u \<in> set (users (w_db w))" "u_disabled_at u = None"
    and c: "c \<in> set (authorization_codes (w_db w))" "c_code_hash c = token_hash E auth" "c_user_id c = u_id u"
      "c_consumed_at c = None" "T + FLOW_CODE_TTL \<le> c_expires_at c"
    and f: "f \<in> set (login_flows (w_db w))" "f_id f = c_flow_id c" "f_client_id f = cl_id client"
      "f_redirect_uri f = cf_redirect_uri input" "f_code_challenge f = cf_code_challenge input"
    unfolding code_ready_def by blast
  have flow: "flow_of (w_db w) (c_flow_id c) = Some f"
    unfolding flow_of_def using f(1,2) wf by (intro find_key [where k = f_id]) (auto simp: wf_defs)
  have usable: "usable_code (stmt_now w) (token_hash E auth) (w_db w) = Some c"
    unfolding usable_code_def using c flow wf tx calm(3) [of 0]
    by (intro find_key [where k = c_code_hash]) (auto simp: wf_defs)
  have user: "user_of (w_db w) (c_user_id c) = Some u" using user_of_eq [OF wf u(1)] c(3) by simp
  have may: "may_exchange E st ?tr (stmt_now w) (w_db w) client c"
    unfolding may_exchange_def using usable user u(2) assms(6,7) f flow by (simp add: code_exchange_def consumed_of_def)
  have fresh: "w_ids w 3 \<notin> s_id ` set (sessions (w_db w))" "w_ids w 4 \<notin> r_id ` set (refresh_tokens (w_db w))"
    "token_hash E (tok_plain (token_of_bytes E (map (w_rng w) [0..<32]))) \<notin> r_token_hash ` set (refresh_tokens (w_db w))"
    using calm(2) [of 3] calm(2) [of 4] calm(5) [of 0] assms(3,4) by (auto simp: row_ids_def secret_hashes_def)
  from exchange_completes [OF tx wf prov may calm(1) fresh calm(4) assms(8)] obtain tokens w'
    where run: "authorization_code_grant E st ?tr w = Some (Inr tokens, w')" by blast
  with exchange_opens [OF tx wf run] usable assms(6) c(3) show ?thesis
    by (auto simp: oauth_token_def code_exchange_def)
qed

section \<open>The login\<close>

text \<open>A link waits for the user: unused, on a flow that is still open, to an account it can log in as. Nothing else was
  added since the database was \<open>d0\<close>.\<close>

definition link_waiting :: "ext \<Rightarrow> create_flow_request \<Rightarrow> client \<Rightarrow> string \<Rightarrow> string \<Rightarrow> time \<Rightarrow> db \<Rightarrow> db \<Rightarrow> bool" where
  "link_waiting E input client email tok t d0 d \<longleftrightarrow>
     users d = users d0 \<and> authorization_codes d = authorization_codes d0 \<and> sessions d = sessions d0 \<and>
     refresh_tokens d = refresh_tokens d0 \<and>
     (\<exists>m f. m \<in> set (magic_links d) \<and> m_token_hash m = token_hash E tok \<and> m_consumed_at m = None \<and> t \<le> m_expires_at m \<and>
        m_email m = email \<and> open_flow input client (m_flow_id m) t d f \<and> login_allowed E d (m_user_id m) email)"

lemma recipient_allowed:
  assumes "recipient_of client (account_at E email d) = Some r" "sql_normalize E (sql_normalize E email) = sql_normalize E email"
    and "wf_db d"
  shows "login_allowed E d (recipient_user r) (sql_normalize E email)"
proof (cases "account_at E email d")
  case None
  with assms(1,2) show ?thesis
    by (auto simp: recipient_of_def recipient_user_def login_allowed_def account_at_def split: if_splits)
next
  case (Some u)
  from account_at_Some [OF this] have u: "u \<in> set (users d)" "u_email u = sql_normalize E email" by auto
  with Some assms(1) user_of_eq [OF assms(3) u(1)] show ?thesis
    by (auto simp: recipient_of_def recipient_user_def login_allowed_def split: if_splits)
qed

lemma open_flow_counted:
  assumes "open_flow input client i t d f"
  shows "open_flow input client i t (count_request i e d)
    (f\<lparr>f_magic_link_requests := f_magic_link_requests f + 1, f_expires_at := max (f_expires_at f) e\<rparr>)"
  using assms unfolding open_flow_def count_request_def by (auto simp: in_upd_where)

lemma link_sent_waiting:
  assumes "link_sent E st client i email e r (count_request i e d1) d2 out out'"
    and "open_flow input client i t d1 f" "t \<le> e" "wf_db d2"
    and "recipient_of client (account_at E email d1) = Some r" "sql_normalize E (sql_normalize E email) = sql_normalize E email"
    and "users d1 = users d0" "authorization_codes d1 = authorization_codes d0" "sessions d1 = sessions d0"
      "refresh_tokens d1 = refresh_tokens d0"
  shows "\<exists>tok code. link_waiting E input client (sql_normalize E email) tok t d0 d2 \<and>
    out' = out @ [login_message E client r (sql_normalize E email) tok code]"
proof -
  from assms(1) obtain m tok and v :: "32 word" where d2: "d2 = (count_request i e d1)\<lparr>magic_links := magic_links (count_request i e d1) @ [m]\<rparr>"
    and m: "m_flow_id m = i" "m_user_id m = recipient_user r" "m_email m = sql_normalize E email"
      "m_token_hash m = token_hash E tok" "m_consumed_at m = None" "m_expires_at m = e"
    and out: "out' = out @ [login_message E client r (sql_normalize E email) tok (pad6 (unat v))]"
    unfolding link_sent_def by blast
  have same: "users d2 = users d1" "authorization_codes d2 = authorization_codes d1" "sessions d2 = sessions d1"
      "refresh_tokens d2 = refresh_tokens d1" "login_flows d2 = login_flows (count_request i e d1)"
    by (simp_all add: d2 count_request_def)
  have "open_flow input client i t d2 (f\<lparr>f_magic_link_requests := f_magic_link_requests f + 1, f_expires_at := max (f_expires_at f) e\<rparr>)"
    using open_flow_counted [OF assms(2), of e] by (simp add: open_flow_def same)
  moreover have "account_at E email d2 = account_at E email d1" by (simp add: account_at_def same)
  then have "login_allowed E d2 (recipient_user r) (sql_normalize E email)"
    using assms(4-6) by (intro recipient_allowed) simp_all
  moreover have "m \<in> set (magic_links d2)" by (simp add: d2)
  ultimately have "link_waiting E input client (sql_normalize E email) tok t d0 d2"
    unfolding link_waiting_def using m assms(3,7-10) same by metis
  with out show ?thesis by blast
qed

text \<open>The first half: the flow is started and the email sent.\<close>

lemma email_half:
  assumes "settled w" "calm E (w_db w) T key w"
    and "valid_flow_request st input client" "cl_id client = cf_client_id input"
    and "is_valid_email email" "recipient_of client (account_at E email (w_db w)) = Some r"
    and "sql_normalize E (sql_normalize E email) = sql_normalize E email"
    and "unlimited E (client_ip_key (ip_of E st who))" "unlimited E (email_key E email)"
  shows "\<exists>flow w1 sent w2 tok code.
    serve E st (PostFlow input) w = Some (Inr (FlowCreated (201, flow)), w1) \<and>
    serve E st (PostMagicLink who (fr_flow_id flow) email) w1 = Some (Inr (MagicLinkAccepted (202, sent)), w2) \<and>
    w_outbox w2 = w_outbox w @ [login_message E client r (sql_normalize E email) tok code] \<and>
    settled w2 \<and> calm E (w_db w) T key w2 \<and> w_keys w2 = w_keys w \<and>
    link_waiting E input client (sql_normalize E email) tok (T + FLOW_CODE_TTL) (w_db w) (w_db w2)"
proof -
  have client: "st_clients st (cl_id client) = Some client" using assms(3,4) by (simp add: valid_flow_request_def)
  have utc: "T \<le> w_utc v n" if "calm E (w_db w) T key v" for n and v :: world using that by (simp add: calm_def)
  from flow_step [OF assms(1,2) refl assms(3)] obtain i w1 flow where
    run1: "create_flow st input w = Some (Inr (201, flow), w1)" and flow: "fr_flow_id flow = i"
    and db1: "w_db w1 = (w_db w)\<lparr>login_flows := login_flows (w_db w) @ [new_flow input client i (w_utc w 0) (stmt_now w)]\<rparr>"
    and out1: "w_outbox w1 = w_outbox w" by force
  have req1: "serve E st (PostFlow input) w = Some (Inr (FlowCreated (201, flow)), w1)" by (simp add: route_run run1)
  note on1 = reads_on_run [OF login_routes_read_on(1) run1]
  note settled1 = settled_serve [OF assms(1) req1] and calm1 = calm_later [OF assms(2) on1]
  have f: "open_flow input client i (T + FLOW_CODE_TTL) (w_db w1) (new_flow input client i (w_utc w 0) (stmt_now w))"
    using utc [OF assms(2), of 0] by (simp add: open_flow_def db1 new_flow_def FLOW_CODE_TTL_def FLOW_TTL_def time_defs)
  have r: "recipient_of client (account_at E email (w_db w1)) = Some r" using assms(6) by (simp add: db1 account_at_def)
  from email_step [OF settled1 calm1 _ f _ client assms(5) r assms(8,9)] obtain sent w2 where
    run2: "magic_link_request E st (ip_of E st who) i email w1 = Some (Inr (202, sent), w2)"
    and sent: "link_sent E st client i email (w_utc w1 0 + CODE_TTL) r (count_request i (w_utc w1 0 + CODE_TTL) (w_db w1)) (w_db w2)
      (w_outbox w1) (w_outbox w2)"
    by (auto simp: db1 new_flow_def)
  have req2: "serve E st (PostMagicLink who i email) w1 = Some (Inr (MagicLinkAccepted (202, sent)), w2)"
    by (simp add: route_run run2)
  note on2 = reads_on_run [OF login_routes_read_on(2) run2]
  note settled2 = settled_serve [OF settled1 req2] and calm2 = calm_later [OF calm1 on2]
  have "T + FLOW_CODE_TTL \<le> w_utc w1 0 + CODE_TTL"
    using utc [OF calm1, of 0] by (simp add: FLOW_CODE_TTL_def CODE_TTL_def time_defs)
  from link_sent_waiting [OF sent f this _ r assms(7), of "w_db w"] settled2 obtain tok code where
    "link_waiting E input client (sql_normalize E email) tok (T + FLOW_CODE_TTL) (w_db w) (w_db w2)"
    "w_outbox w2 = w_outbox w @ [login_message E client r (sql_normalize E email) tok code]"
    by (auto simp: db1 out1 settled_def)
  moreover have "w_keys w2 = w_keys w" using on1 on2 by (auto simp: later_world_def)
  ultimately show ?thesis using req1 req2 settled2 calm2 unfolding flow [symmetric] by blast
qed

text \<open>The second half: the link, the exchange and the account.\<close>

lemma still_accepted: "now < start + FLOW_CODE_TTL \<Longrightarrow> start \<le> issued \<Longrightarrow>
    timestamp now \<le> timestamp (issued + ACCESS_TOKEN_TTL) + LEEWAY_SECONDS"
  unfolding timestamp_def by (rule order_trans [OF zdiv_mono1 [of now "issued + ACCESS_TOKEN_TTL"]])
    (simp_all add: FLOW_CODE_TTL_def ACCESS_TOKEN_TTL_def LEEWAY_SECONDS_def time_defs)

lemma account_half:
  assumes "settled w" "calm E d T key w" "link_waiting E input client email tok (T + FLOW_CODE_TTL) d (w_db w)"
    and "unlimited E (client_ip_key (ip_of E st who))"
    and "st_clients st (cf_client_id input) = Some client" "pkce_verify E verifier (cf_code_challenge input)"
    and "jwt_verifies E" "key_published E (w_keys w) key"
    and "\<And>claims. x_jwt_encode E (access_header E key) claims (lk_encoding_key key) \<noteq> None"
  shows "\<exists>auth w3 tokens w4 me w5.
    serve E st (PostMagicLinkConfirm who tok) w = Some (Inr (LoggedIn (Completed auth)), w3) \<and>
    serve E st (PostToken (code_exchange input verifier auth)) w3 = Some (Inr (TokenBody tokens), w4) \<and>
    serve E st (GetMe (Some (''Bearer '' @ tp_access_token tokens))) w4 = Some (Inr (MeBody me), w5) \<and>
    me_email me = email \<and> me_email_verified me"
proof -
  from assms(3) obtain m f where same: "users d = users (w_db w)" "authorization_codes d = authorization_codes (w_db w)"
      "sessions d = sessions (w_db w)" "refresh_tokens d = refresh_tokens (w_db w)"
    and m: "m \<in> set (magic_links (w_db w))" "m_token_hash m = token_hash E tok" "m_consumed_at m = None"
      "T + FLOW_CODE_TTL \<le> m_expires_at m" "m_email m = email"
    and f: "open_flow input client (m_flow_id m) (T + FLOW_CODE_TTL) (w_db w) f" "login_allowed E (w_db w) (m_user_id m) (m_email m)"
    unfolding link_waiting_def by metis
  from link_step [OF assms(1,2) same(1,2) m(1-4) f assms(4)] obtain auth w3 u where
    run3: "magic_link_confirm E st (ip_of E st who) tok w = Some (Inr (Completed auth), w3)"
    and ready: "code_ready E input client (m_email m) auth (T + FLOW_CODE_TTL) u (w_db w3)"
    and same3: "sessions (w_db w3) = sessions (w_db w)" "refresh_tokens (w_db w3) = refresh_tokens (w_db w)" by blast
  have req3: "serve E st (PostMagicLinkConfirm who tok) w = Some (Inr (LoggedIn (Completed auth)), w3)"
    by (simp add: route_run run3)
  note on3 = reads_on_run [OF login_routes_read_on(3) run3]
  note settled3 = settled_serve [OF assms(1) req3] and calm3 = calm_later [OF assms(2) on3]
  from token_step [OF settled3 calm3 _ _ ready assms(5,6,9)] same(3,4) same3 obtain tokens w4 where
    run4: "oauth_token E st (code_exchange input verifier auth) w3 = Some (Inr tokens, w4)"
    and users4: "users (w_db w4) = users (w_db w3)"
    and opens: "opens_session E st (w_keys w3) (w_utc w3 0) (w_utc w3 1) client (u_id u) (tp_access_token tokens) (w_db w4)"
    by auto
  have req4: "serve E st (PostToken (code_exchange input verifier auth)) w3 = Some (Inr (TokenBody tokens), w4)"
    by (simp add: route_run run4)
  have "authorization_code_grant E st (code_exchange input verifier auth) w3 = Some (Inr tokens, w4)"
    using run4 by (simp add: oauth_token_def code_exchange_def)
  note on4 = reads_on_run [OF login_routes_read_on(4) this]
  note settled4 = settled_serve [OF settled3 req4] and calm4 = calm_later [OF calm3 on4]
  have keys: "w_keys w3 = w_keys w" "w_keys w4 = w_keys w" using on3 on4 by (auto simp: later_world_def)
  have times: "T \<le> w_utc w3 0" "T \<le> w_utc w3 1" "w_utc w4 0 < T + FLOW_CODE_TTL" "w_db_clock w4 0 < T + FLOW_CODE_TTL"
      "signing_key (w_keys w3) (w_utc w3 1) = Some key" "\<not> w_faults w4 n" for n
    using calm3 calm4 by (simp_all add: calm_def)
  have u: "u \<in> set (users (w_db w3))" "u_disabled_at u = None" "u_email u = email" "u_email_verified_at u \<noteq> None"
    using ready m(5) by (auto simp: code_ready_def)
  have "\<exists>w5. and_then (current_user_from_request E st (Some (''Bearer '' @ tp_access_token tokens))) me_get w4 = Some (Inr (me_of u), w5)"
  proof (rule account_read [OF _ _ times(6) assms(7)])
    show "timestamp (w_utc w4 0) \<le> timestamp (w_utc w3 1 + ACCESS_TOKEN_TTL) + LEEWAY_SECONDS"
      using still_accepted [OF times(3)] times(2) .
    show "stmt_now w4 < w_utc w3 0 + SESSION_TTL"
      using times settled4 by (simp add: settled_def FLOW_CODE_TTL_def SESSION_TTL_def time_defs)
  qed (use settled4 keys times(5) assms(8) opens u users4 in \<open>simp_all add: settled_def\<close>)
  then obtain w5 where "serve E st (GetMe (Some (''Bearer '' @ tp_access_token tokens))) w4 = Some (Inr (MeBody (me_of u)), w5)"
    by (auto simp: route_run)
  with req3 req4 show ?thesis using u by (fastforce simp: me_of_def)
qed

text \<open>C1 (login_completes): a user can log in. From any settled state, when the database answers, the limits are not
  reached, the whole login takes less than a minute, ids and secrets are fresh and a published key signs: an app
  that starts a flow for one of its redirect URIs, with a valid address that has an enabled account or may sign
  up, gets the flow; the email for it is sent; following the link in that email logs in; exchanging the code with
  the PKCE verifier gives tokens; and the access token opens the account, whose address is the one typed,
  normalized, and is now verified.\<close>

theorem login_completes:
  assumes "settled w" "calm E (w_db w) T key w"
    and "valid_flow_request st input client" "cl_id client = cf_client_id input" "pkce_verify E verifier (cf_code_challenge input)"
    and "is_valid_email email" "recipient_of client (account_at E email (w_db w)) = Some r"
    and "sql_normalize E (sql_normalize E email) = sql_normalize E email"
    and "unlimited E (client_ip_key (ip_of E st who))" "unlimited E (email_key E email)"
    and "jwt_verifies E" "key_published E (w_keys w) key"
    and "\<And>claims. x_jwt_encode E (access_header E key) claims (lk_encoding_key key) \<noteq> None"
  shows "\<exists>flow w1 sent w2 tok code auth w3 tokens w4 me w5.
    serve E st (PostFlow input) w = Some (Inr (FlowCreated (201, flow)), w1) \<and>
    serve E st (PostMagicLink who (fr_flow_id flow) email) w1 = Some (Inr (MagicLinkAccepted (202, sent)), w2) \<and>
    w_outbox w2 = w_outbox w @ [login_message E client r (sql_normalize E email) tok code] \<and>
    serve E st (PostMagicLinkConfirm who tok) w2 = Some (Inr (LoggedIn (Completed auth)), w3) \<and>
    serve E st (PostToken (code_exchange input verifier auth)) w3 = Some (Inr (TokenBody tokens), w4) \<and>
    serve E st (GetMe (Some (''Bearer '' @ tp_access_token tokens))) w4 = Some (Inr (MeBody me), w5) \<and>
    me_email me = sql_normalize E email \<and> me_email_verified me"
proof -
  have client: "st_clients st (cf_client_id input) = Some client" using assms(3) by (simp add: valid_flow_request_def)
  from email_half [OF assms(1-4,6-10)] obtain flow w1 sent w2 tok code where
    first: "serve E st (PostFlow input) w = Some (Inr (FlowCreated (201, flow)), w1)"
      "serve E st (PostMagicLink who (fr_flow_id flow) email) w1 = Some (Inr (MagicLinkAccepted (202, sent)), w2)"
      "w_outbox w2 = w_outbox w @ [login_message E client r (sql_normalize E email) tok code]"
    and half: "settled w2" "calm E (w_db w) T key w2" "w_keys w2 = w_keys w"
      "link_waiting E input client (sql_normalize E email) tok (T + FLOW_CODE_TTL) (w_db w) (w_db w2)" by blast
  from assms(12) half(3) have "key_published E (w_keys w2) key" by simp
  from account_half [OF half(1,2,4) assms(9) client assms(5,11) this assms(13)] first show ?thesis by blast
qed

text \<open>A library that signs every token: header, claims and key are numbered, and the number written in unary.\<close>

definition alg_number :: "jwt_alg \<Rightarrow> string option" where
  "alg_number a = (case a of EdDSA \<Rightarrow> None | OtherAlg s \<Rightarrow> Some s)"

definition token_number :: "jwt_header \<Rightarrow> access_token_claims \<Rightarrow> nat" where
  "token_number h c = to_nat (alg_number (hdr_alg h), hdr_typ h, hdr_kid h, iss_claim c, sub_claim c, aud_claim c,
     client_id_claim c, sid_claim c, iat_claim c, exp_claim c, jti_claim c)"

definition numbered :: "nat \<Rightarrow> jwt_header \<times> access_token_claims" where
  "numbered n = (case from_nat n of (a, typ, kid, iss, sub, aud, client, sid, iat, exp, jti) \<Rightarrow>
     (\<lparr>hdr_alg = (case a of None \<Rightarrow> EdDSA | Some s \<Rightarrow> OtherAlg s), hdr_typ = typ, hdr_kid = kid\<rparr>,
      \<lparr>iss_claim = iss, sub_claim = sub, aud_claim = aud, client_id_claim = client, sid_claim = sid, iat_claim = iat,
       exp_claim = exp, jti_claim = jti\<rparr>))"

lemma numbered_token: "numbered (token_number h c) = (h, c)"
  by (cases "hdr_alg h") (simp_all add: numbered_def token_number_def alg_number_def)

definition unary_ext :: ext where
  "unary_ext = demo_ext\<lparr>
     x_jwt_encode := (\<lambda>h c k. Some (replicate (token_number h c) (CHR ''x''))),
     x_jwt_decode_header := (\<lambda>t. Some (fst (numbered (length t)))),
     x_jwt_decode := (\<lambda>t k v now. let c = snd (numbered (length t)) in if acceptable v c now then Some c else None)\<rparr>"

definition unary_key :: loaded_key where
  "unary_key = \<lparr>lk_kid = 7, lk_encoding_key = encoding_key ''seed'', lk_active_at = 0, lk_retired_at = None\<rparr>"

definition first_world :: world where
  "first_world = (demo_world empty_db)\<lparr>w_keys := \<lparr>sk_keys = [unary_key], sk_jwks = [jwk_of unary_ext 7 ''seed'']\<rparr>\<rparr>"

lemma unary_ext_verifies: "jwt_verifies unary_ext"
  by (auto simp: jwt_verifies_def unary_ext_def numbered_token Let_def)

lemma unary_key_published: "key_published unary_ext (w_keys first_world) unary_key"
  by (auto simp: key_published_def first_world_def unary_key_def jwks_find_def jwk_of_def unary_ext_def demo_ext_def
      intro!: exI [of _ "''seed''"])

lemma first_world_calm: "calm unary_ext empty_db 10 unary_key first_world"
proof -
  have "shift n (\<lambda>_. CHR 0x00) = (\<lambda>_. CHR 0x00)" for n by (simp add: shift_def)
  then show ?thesis
    using demo_draw by (simp add: calm_def first_world_def demo_world_def row_ids_def secret_hashes_def empty_db_def
        FLOW_CODE_TTL_def time_defs signing_key_def can_sign_def unary_key_def)
qed

definition local_caller :: caller where
  "local_caller = \<lparr>ca_peer = V4 127 0 0 1, ca_forwarded = []\<rparr>"

text \<open>The first user of an empty server signs up.\<close>

theorem login_completes_witness:
  "\<exists>flow w1 sent w2 tok code auth w3 tokens w4 me w5.
    serve unary_ext demo_state (PostFlow demo_flow_request) first_world = Some (Inr (FlowCreated (201, flow)), w1) \<and>
    serve unary_ext demo_state (PostMagicLink local_caller (fr_flow_id flow) ''N@b.c '') w1 = Some (Inr (MagicLinkAccepted (202, sent)), w2) \<and>
    w_outbox w2 = [login_message unary_ext demo_client SignUp ''n@b.c'' tok code] \<and>
    serve unary_ext demo_state (PostMagicLinkConfirm local_caller tok) w2 = Some (Inr (LoggedIn (Completed auth)), w3) \<and>
    serve unary_ext demo_state (PostToken (code_exchange demo_flow_request demo_verifier auth)) w3 = Some (Inr (TokenBody tokens), w4) \<and>
    serve unary_ext demo_state (GetMe (Some (''Bearer '' @ tp_access_token tokens))) w4 = Some (Inr (MeBody me), w5) \<and>
    me_email me = ''n@b.c'' \<and> me_email_verified me"
proof -
  have norm: "sql_normalize unary_ext ''N@b.c '' = ''n@b.c''" "sql_normalize unary_ext ''n@b.c'' = ''n@b.c''" by code_simp+
  have valid: "is_valid_email ''N@b.c ''" "pkce_verify unary_ext demo_verifier demo_verifier" "is_valid_challenge demo_verifier"
    by code_simp+
  have start: "settled first_world" "w_db first_world = empty_db" "w_outbox first_world = []"
    using empty_db_sound by (simp_all add: settled_def first_world_def)
  have free: "unlimited unary_ext k" for k by (simp add: unlimited_def unary_ext_def demo_ext_def)
  have flow: "valid_flow_request demo_state demo_flow_request demo_client" "cl_id demo_client = cf_client_id demo_flow_request"
      "cf_code_challenge demo_flow_request = demo_verifier"
    using valid(3) by (simp_all add: valid_flow_request_def demo_flow_request_def demo_state_def demo_client_def)
  have sign_up: "recipient_of demo_client (account_at unary_ext ''N@b.c '' empty_db) = Some SignUp"
    by (simp add: recipient_of_def account_at_def empty_db_def demo_client_def)
  have signs: "x_jwt_encode unary_ext (access_header unary_ext unary_key) c (lk_encoding_key unary_key) \<noteq> None" for c
    by (simp add: unary_ext_def)
  show ?thesis
    using login_completes [where w = first_world and E = unary_ext and st = demo_state and verifier = demo_verifier and
        email = "''N@b.c ''" and who = local_caller, OF start(1) _ flow(1,2) _ valid(1) _ _ free free unary_ext_verifies
        unary_key_published signs]
      first_world_calm valid(2) flow(3) sign_up unfolding norm start by simp
qed

end
