(* ===== verification/Interleave.thy ===== *)
theory Interleave
  imports World
begin

text \<open>
  Requests of several clients at once. The handlers are \<open>async\<close> functions: at every statement of the database
  another request may run. A \<open>task\<close> is a request as its steps, where each statement, each \<open>begin\<close>, \<open>commit\<close> and
  rollback, and each use of a clock or of random bytes is one step; \<open>run\<close> runs it alone and gives back the
  computation of theory \<open>World\<close>.

  A \<open>site\<close> is the shared world and one connection per request. It says of Postgres (\<open>READ COMMITTED\<close>) what the
  handlers rely on: a statement sees the committed rows and the writes of its own transaction; what a transaction
  writes stays its own until it commits; a statement that writes a row, inserts a value of a unique column or selects
  a row \<open>FOR UPDATE\<close>, or asks for an advisory lock of the transaction, takes a lock, held to the end of the transaction, and waits while another transaction has
  it. A statement outside a transaction commits at once. The tables are those the routes of login and the token endpoint write.
\<close>

section \<open>Requests as steps\<close>

text \<open>What a statement locks: a row, a value of a unique column, or the advisory lock of an email address.\<close>

datatype resource =
    CodeRow uuid | CodeHash bytes | CodeOfFlow uuid
  | SessionRow uuid | SessionOfCode uuid
  | TokenRow uuid | TokenHash bytes
  | UserRow uuid | UserEmail string
  | FlowRow uuid
  | LinkRow uuid | LinkHash bytes
  | Address string

text \<open>A step is given what it locks explicitly (\<open>FOR UPDATE\<close>), and goes from a world to the rest of the request and the
  next world.\<close>

datatype ('e, 'a) task =
    Answered "'e + 'a"
  | Never
  | Step "db \<Rightarrow> resource list" "world \<Rightarrow> ('e, 'a) task \<times> world"

primrec run :: "('e, 'a) task \<Rightarrow> ('e, 'a) req" where
  "run (Answered r) = (\<lambda>w. Some (r, w))"
| "run Never = (\<lambda>w. None)"
| "run (Step l f) = (\<lambda>w. case map_prod run id (f w) of (m, w') \<Rightarrow> m w')"

primrec after :: "('e, 'a) task \<Rightarrow> ('e + 'a \<Rightarrow> ('f, 'b) task) \<Rightarrow> ('f, 'b) task" where
  "after (Answered r) = (\<lambda>k. k r)"
| "after Never = (\<lambda>k. Never)"
| "after (Step l f) = (\<lambda>k. Step l (\<lambda>w. case map_prod after id (f w) of (t, w') \<Rightarrow> (t k, w')))"

text \<open>A computation of \<open>World\<close> as one step; the counterparts of \<open>ok\<close>, \<open>err\<close>, \<open>?\<close>, \<open>From\<close> and of the end of a function
  that owns a transaction.\<close>

definition locking :: "(db \<Rightarrow> resource list) \<Rightarrow> ('e, 'a) req \<Rightarrow> ('e, 'a) task" where
  "locking l m = Step l (\<lambda>w. case m w of None \<Rightarrow> (Never, w) | Some (r, w') \<Rightarrow> (Answered r, w'))"

definition one :: "('e, 'a) req \<Rightarrow> ('e, 'a) task" where
  "one m = locking (\<lambda>_. []) m"

definition t_ok :: "'a \<Rightarrow> ('e, 'a) task" where
  "t_ok a = Answered (Inr a)"

definition t_err :: "'e \<Rightarrow> ('e, 'a) task" where
  "t_err e = Answered (Inl e)"

definition t_ok_or :: "'a option \<Rightarrow> 'e \<Rightarrow> ('e, 'a) task" where
  "t_ok_or x e = (case x of None \<Rightarrow> t_err e | Some a \<Rightarrow> t_ok a)"

definition t_then :: "('e, 'a) task \<Rightarrow> ('a \<Rightarrow> ('e, 'b) task) \<Rightarrow> ('e, 'b) task" where
  "t_then t k = after t (\<lambda>r. case r of Inl e \<Rightarrow> Answered (Inl e) | Inr a \<Rightarrow> k a)"

definition t_map_err :: "('e \<Rightarrow> 'f) \<Rightarrow> ('e, 'a) task \<Rightarrow> ('f, 'a) task" where
  "t_map_err g t = after t (\<lambda>r. Answered (map_sum g id r))"

definition t_scoped :: "('e, 'a) task \<Rightarrow> ('e, 'a) task" where
  "t_scoped t = after t (\<lambda>r. Step (\<lambda>_. []) (\<lambda>w. (Answered r, drop_tx w)))"

lemma run_Step: "run (Step l f) w = (case f w of (t, w') \<Rightarrow> run t w')"
  and after_Step: "after (Step l f) k = Step l (\<lambda>w. case f w of (t, w') \<Rightarrow> (after t k, w'))"
  by (auto simp: fun_eq_iff split: prod.split)

declare run.simps(3) [simp del] after.simps(3) [simp del] run_Step [simp] after_Step [simp]

lemma task_steps [case_names Answered Never Step]:
  assumes "\<And>r. P (Answered r)" "P Never" "\<And>l f. (\<And>w. P (fst (f w))) \<Longrightarrow> P (Step l f)"
  shows "P t"
proof (induction t)
  case (Step l f)
  have "P (fst (f w))" for w by (rule Step [of "f w"]) (auto simp: prod_set_defs)
  then show ?case by (rule assms(3))
qed (rule assms)+

lemma run_after: "run (after t k) w = (case run t w of None \<Rightarrow> None | Some (r, w') \<Rightarrow> run (k r) w')"
proof (induction t arbitrary: w rule: task_steps)
  case (Step l f)
  from Step [of w] show ?case by (simp add: case_prod_beta)
qed simp_all

named_theorems runs_as \<open>a request as steps, run alone, is the computation\<close>

lemma run_locking [runs_as]: "run (locking l m) = m"
  and run_one [runs_as]: "run (one m) = m"
  by (auto simp: locking_def one_def fun_eq_iff split: option.split)

lemma run_ok [runs_as]: "run (t_ok a) = ok a" and run_err [runs_as]: "run (t_err e) = err e"
  and run_ok_or [runs_as]: "run (t_ok_or x e) = ok_or x e"
  by (auto simp: t_ok_def t_err_def t_ok_or_def ok_def err_def ok_or_def fun_eq_iff split: option.split)

lemma run_then [runs_as]: "run (t_then t k) = and_then (run t) (\<lambda>a. run (k a))"
  by (auto simp: t_then_def and_then_def run_after fun_eq_iff split: option.split sum.split)

lemma run_map_err [runs_as]: "run (t_map_err g t) = map_err g (run t)"
  and run_scoped [runs_as]: "run (t_scoped t) = scoped (run t)"
  by (auto simp: t_map_err_def t_scoped_def map_err_def scoped_def run_after fun_eq_iff split: option.split)

lemma run_if [runs_as]: "run (if b then t else u) = (if b then run t else run u)"
  and run_case_option [runs_as]: "run (case x of None \<Rightarrow> t | Some a \<Rightarrow> f a) = (case x of None \<Rightarrow> run t | Some a \<Rightarrow> run (f a))"
  by (simp_all split: option.split)

text \<open>Sequencing is associative, so that a request can be brought to the form: first step, then the rest.\<close>

lemma after_after: "after (after t j) k = after t (\<lambda>r. after (j r) k)"
proof (induction t rule: task_steps)
  case (Step l f)
  then show ?case by (simp add: case_prod_beta)
qed simp_all

lemma after_locking: "after (locking l m) k =
    Step l (\<lambda>w. case m w of None \<Rightarrow> (Never, w) | Some (r, w') \<Rightarrow> (k r, w'))"
  by (auto simp: locking_def fun_eq_iff split: option.split)

section \<open>Rows and locks of a transaction\<close>

text \<open>The row versions a transaction has written and not committed. \<open>put_all\<close> lays them over a table: a version replaces
  the row of the same key, a new row is appended.\<close>

record writes =
  wr_codes :: "authorization_code list"
  wr_sessions :: "session list"
  wr_tokens :: "refresh_token_row list"
  wr_users :: "user list"
  wr_flows :: "login_flow list"
  wr_links :: "magic_link_row list"

definition no_writes :: writes where
  "no_writes = \<lparr>wr_codes = [], wr_sessions = [], wr_tokens = [],
     wr_users = [], wr_flows = [], wr_links = []\<rparr>"

definition put_all :: "('r \<Rightarrow> 'k) \<Rightarrow> 'r list \<Rightarrow> 'r list \<Rightarrow> 'r list" where
  "put_all key ps rows =
     map (\<lambda>r. case List.find (\<lambda>p. key p = key r) ps of None \<Rightarrow> r | Some p \<Rightarrow> p) rows @
     filter (\<lambda>p. key p \<notin> key ` set rows) ps"

definition new_rows :: "'r list \<Rightarrow> 'r list \<Rightarrow> 'r list" where
  "new_rows old rows = filter (\<lambda>r. r \<notin> set old) rows"

definition overlay :: "writes \<Rightarrow> db \<Rightarrow> db" where
  "overlay own d = d\<lparr>authorization_codes := put_all c_id (wr_codes own) (authorization_codes d),
     sessions := put_all s_id (wr_sessions own) (sessions d),
     refresh_tokens := put_all r_id (wr_tokens own) (refresh_tokens d),
     users := put_all u_id (wr_users own) (users d),
     login_flows := put_all f_id (wr_flows own) (login_flows d),
     magic_links := put_all m_id (wr_links own) (magic_links d)\<rparr>"

definition written :: "db \<Rightarrow> db \<Rightarrow> writes" where
  "written d d' = \<lparr>wr_codes = new_rows (authorization_codes d) (authorization_codes d'),
     wr_sessions = new_rows (sessions d) (sessions d'),
     wr_tokens = new_rows (refresh_tokens d) (refresh_tokens d'),
     wr_users = new_rows (users d) (users d'),
     wr_flows = new_rows (login_flows d) (login_flows d'),
     wr_links = new_rows (magic_links d) (magic_links d')\<rparr>"

definition more_writes :: "writes \<Rightarrow> writes \<Rightarrow> writes" where
  "more_writes new own = \<lparr>wr_codes = put_all c_id (wr_codes new) (wr_codes own),
     wr_sessions = put_all s_id (wr_sessions new) (wr_sessions own),
     wr_tokens = put_all r_id (wr_tokens new) (wr_tokens own),
     wr_users = put_all u_id (wr_users new) (wr_users own),
     wr_flows = put_all f_id (wr_flows new) (wr_flows own),
     wr_links = put_all m_id (wr_links new) (wr_links own)\<rparr>"

definition resources_of :: "writes \<Rightarrow> resource list" where
  "resources_of own =
     concat (map (\<lambda>c. [CodeRow (c_id c), CodeHash (c_code_hash c), CodeOfFlow (c_flow_id c)]) (wr_codes own)) @
     map (\<lambda>s. SessionRow (s_id s)) (wr_sessions own) @
     map SessionOfCode (List.map_filter s_authorization_code_id (wr_sessions own)) @
     map (\<lambda>r. TokenRow (r_id r)) (wr_tokens own) @
     map (\<lambda>r. TokenHash (r_token_hash r)) (wr_tokens own) @
     concat (map (\<lambda>u. [UserRow (u_id u), UserEmail (u_email u)]) (wr_users own)) @
     map (\<lambda>f. FlowRow (f_id f)) (wr_flows own) @
     concat (map (\<lambda>m. [LinkRow (m_id m), LinkHash (m_token_hash m)]) (wr_links own))"

section \<open>Connections\<close>

record txn =
  tx_writes :: writes
  tx_now :: time
  tx_locks :: "resource list"

type_synonym ('e, 'a) conn = "('e, 'a) task \<times> txn option"
type_synonym ('e, 'a) site = "world \<times> ('e, 'a) conn list"

definition locks_of :: "txn option \<Rightarrow> resource list" where
  "locks_of x = (case x of None \<Rightarrow> [] | Some x \<Rightarrow> tx_locks x)"

definition writes_of :: "txn option \<Rightarrow> writes" where
  "writes_of x = (case x of None \<Rightarrow> no_writes | Some x \<Rightarrow> tx_writes x)"

text \<open>The world as a connection sees it.\<close>

definition seen_by :: "txn option \<Rightarrow> world \<Rightarrow> world" where
  "seen_by x w = (case x of None \<Rightarrow> w
     | Some x \<Rightarrow> w\<lparr>w_db := overlay (tx_writes x) (w_db w), w_tx := Some (w_db w, tx_now x)\<rparr>)"

text \<open>One step of a connection, \<open>None\<close> if there is none to take or it has to wait. \<open>held\<close> are the locks of the others. The
  end of a transaction takes no lock: after a commit the world it leaves is the committed one, after a
  rollback the one it found.\<close>

definition conn_step :: "resource list \<Rightarrow> world \<Rightarrow> ('e, 'a) conn \<Rightarrow> (('e, 'a) conn \<times> world) option" where
  "conn_step held w c = (case c of (t, x) \<Rightarrow> (case t of
       Answered r \<Rightarrow> None
     | Never \<Rightarrow> None
     | Step l f \<Rightarrow>
         (let v = seen_by x w; (t', v') = f v;
              new = written (w_db v) (w_db v');
              wanted = l (w_db v) @ resources_of new
          in if x \<noteq> None \<and> w_tx v' = None then Some ((t', None), v')
             else if list_ex (\<lambda>r. r \<in> set held) wanted then None
             else (case w_tx v' of
                 None \<Rightarrow> Some ((t', None), v')
               | Some (_, now) \<Rightarrow>
                   Some ((t', Some \<lparr>tx_writes = more_writes new (writes_of x), tx_now = now,
                       tx_locks = locks_of x @ wanted\<rparr>),
                     v'\<lparr>w_db := w_db w, w_tx := None\<rparr>)))))"

definition held_by_others :: "nat \<Rightarrow> ('e, 'a) conn list \<Rightarrow> resource list" where
  "held_by_others i cs = concat (map (\<lambda>j. if j = i then [] else locks_of (snd (cs ! j))) [0..<length cs])"

text \<open>Connection \<open>i\<close> takes a step; a schedule is the order in which connections do.\<close>

definition site_step :: "nat \<Rightarrow> ('e, 'a) site \<Rightarrow> ('e, 'a) site option" where
  "site_step i s = (case s of (w, cs) \<Rightarrow>
     if i < length cs
     then map_option (\<lambda>(c, w'). (w', cs[i := c])) (conn_step (held_by_others i cs) w (cs ! i))
     else None)"

fun run_site :: "nat list \<Rightarrow> ('e, 'a) site \<Rightarrow> ('e, 'a) site option" where
  "run_site [] s = Some s"
| "run_site (i # is) s = (case site_step i s of None \<Rightarrow> None | Some s' \<Rightarrow> run_site is s')"

definition open_site :: "world \<Rightarrow> ('e, 'a) task list \<Rightarrow> ('e, 'a) site" where
  "open_site w ts = (w, map (\<lambda>t. (t, None)) ts)"

definition answer_of :: "nat \<Rightarrow> ('e, 'a) site \<Rightarrow> ('e + 'a) option" where
  "answer_of i s = (case fst (snd s ! i) of Answered r \<Rightarrow> Some r | _ \<Rightarrow> None)"

lemma run_site_append: "run_site (xs @ ys) s = Option.bind (run_site xs s) (run_site ys)"
  by (induction xs arbitrary: s) (simp_all split: option.split)

end
