(* ===== verification/TokenTasks.thy ===== *)
theory TokenTasks
  imports System Interleave Demo
begin

text \<open>
  The handlers of \<open>routes/oauth.rs\<close> as steps, statement by statement: run alone each is the handler of theory \<open>OAuth\<close>.
  The last section sets up the evaluation of concrete schedules, for the examples of theories \<open>Exchanges\<close> and
  \<open>Theft\<close>.
\<close>

section \<open>The handlers\<close>

definition t_osql :: "'a stmt \<Rightarrow> (oauth_error, 'a) task" where
  "t_osql q = one (osql q)"

definition new_refresh_token_task :: "ext \<Rightarrow> uuid \<Rightarrow> uuid option \<Rightarrow> (sql_error, string) task" where
  "new_refresh_token_task E session_id parent_id =
     t_then (one (token_generate E)) (\<lambda>tok.
     t_then (one (exec (refresh_tokens_create session_id (tok_hash tok) parent_id))) (\<lambda>_.
     t_ok (tok_plain tok)))"

definition sessions_open_task :: "ext \<Rightarrow> uuid \<Rightarrow> string \<Rightarrow> uuid \<Rightarrow> (sql_error, opened_session) task" where
  "sessions_open_task E user_id client_id authorization_code_id =
     t_then (one utc_now) (\<lambda>now.
     t_then (one (exec (sessions_create user_id client_id authorization_code_id (now + SESSION_TTL)))) (\<lambda>session_id.
     t_then (new_refresh_token_task E session_id None) (\<lambda>refresh_token.
     t_ok \<lparr>os_session_id = session_id, os_refresh_token = refresh_token\<rparr>)))"

definition reject_unusable_code_task :: "bytes \<Rightarrow> (oauth_error, oauth_error) task" where
  "reject_unusable_code_task code_hash =
     t_then (t_osql (authorization_codes_find_consumed code_hash)) (\<lambda>found.
     t_then (case found of
         None \<Rightarrow> t_ok False
       | Some code_id \<Rightarrow> t_osql (sessions_revoke_by_authorization_code code_id)) (\<lambda>_.
     t_ok (OInvalidGrant ''code is invalid, expired or already used'')))"

text \<open>\<open>authorization_code\<close>, from the code it consumed on.\<close>

definition exchange_consumed_task ::
    "ext \<Rightarrow> app_state \<Rightarrow> client \<Rightarrow> string \<Rightarrow> string \<Rightarrow> consumed_code \<Rightarrow> (oauth_error, token_response) task" where
  "exchange_consumed_task E st client redirect_uri code_verifier consumed =
     (if cc_client_id consumed \<noteq> cl_id client
      then t_err (OInvalidGrant ''code was issued to another client'')
      else if cc_redirect_uri consumed \<noteq> redirect_uri
      then t_err (OInvalidGrant ''redirect_uri does not match'')
      else if \<not> pkce_verify E code_verifier (cc_code_challenge consumed)
      then t_err (OInvalidGrant ''code_verifier does not match'')
      else
        t_then (t_osql (users_find_by_id (cc_user_id consumed))) (\<lambda>user.
        if user_unusable user then t_err (OInvalidGrant ''account is disabled'')
        else
          t_then (t_map_err oauth_from_sql
            (sessions_open_task E (cc_user_id consumed) (cl_id client) (cc_id consumed))) (\<lambda>session.
          t_then (one load_keys) (\<lambda>keys.
          t_then (one utc_now) (\<lambda>now.
          t_then (t_map_err oauth_from_issue
            (one (issue E keys (st_issuer st) (cc_user_id consumed) (os_session_id session) client now))) (\<lambda>access.
          t_then (one (map_err oauth_from_sql commit_tx)) (\<lambda>_.
          t_ok (token_response_of access (os_refresh_token session)))))))))"

definition authorization_code_task ::
    "ext \<Rightarrow> app_state \<Rightarrow> token_request \<Rightarrow> (oauth_error, token_response) task" where
  "authorization_code_task E st input = t_scoped (
     t_then (t_ok_or (tr_code input) (OInvalidRequest ''missing `code`'')) (\<lambda>code.
     t_then (t_ok_or (tr_redirect_uri input) (OInvalidRequest ''missing `redirect_uri`'')) (\<lambda>redirect_uri.
     t_then (t_ok_or (tr_code_verifier input) (OInvalidRequest ''missing `code_verifier`'')) (\<lambda>code_verifier.
     t_then (t_ok_or (st_clients st (tr_client_id input)) OInvalidClient) (\<lambda>client.
     t_then (one (map_err oauth_from_sql begin_tx)) (\<lambda>_.
     t_then (t_osql (authorization_codes_consume (token_hash E code))) (\<lambda>found.
     case found of
       None \<Rightarrow>
         t_then (one (map_err oauth_from_sql rollback_tx)) (\<lambda>_.
         t_then (reject_unusable_code_task (token_hash E code)) t_err)
     | Some consumed \<Rightarrow> exchange_consumed_task E st client redirect_uri code_verifier consumed)))))))"

definition refresh_stolen_task :: "refresh_token_with_session \<Rightarrow> time \<Rightarrow> (oauth_error, bool) task" where
  "refresh_stolen_task current now =
     (case rs_superseded_at current of
        Some _ \<Rightarrow> t_ok True
      | None \<Rightarrow> (case rs_rotated_at current of
          None \<Rightarrow> t_then (t_osql (refresh_tokens_mark_rotated (rs_id current))) (\<lambda>_. t_ok False)
        | Some rotated_at \<Rightarrow>
            if now - rotated_at \<le> REFRESH_REUSE_GRACE then t_ok False
            else
              t_then (t_osql (refresh_tokens_has_used_successor (rs_id current))) (\<lambda>stolen.
              if stolen then t_ok True
              else t_then (t_osql (refresh_tokens_supersede_unused_successors (rs_id current))) (\<lambda>_. t_ok False))))"

definition refresh_finish_task ::
    "ext \<Rightarrow> app_state \<Rightarrow> client \<Rightarrow> refresh_token_with_session \<Rightarrow> time \<Rightarrow> (oauth_error, token_response) task" where
  "refresh_finish_task E st client current now =
     t_then (t_osql (users_find_by_id (rs_user_id current))) (\<lambda>user.
     if user_unusable user then
       t_then (t_osql (sessions_revoke (rs_session_id current))) (\<lambda>_.
       t_then (one (map_err oauth_from_sql commit_tx)) (\<lambda>_.
       t_err (OInvalidGrant ''account is disabled'')))
     else
       t_then (t_map_err oauth_from_sql
         (new_refresh_token_task E (rs_session_id current) (Some (rs_id current)))) (\<lambda>fresh.
       t_then (one load_keys) (\<lambda>keys.
       t_then (t_map_err oauth_from_issue
         (one (issue E keys (st_issuer st) (rs_user_id current) (rs_session_id current) client now))) (\<lambda>access.
       t_then (one (map_err oauth_from_sql commit_tx)) (\<lambda>_.
       t_ok (token_response_of access fresh))))))"

text \<open>\<open>FOR UPDATE OF r\<close>: the row of the token that was found, if it has a session.\<close>

definition for_update_of_r :: "bytes \<Rightarrow> db \<Rightarrow> resource list" where
  "for_update_of_r th d = (case List.find (\<lambda>r. r_token_hash r = th) (refresh_tokens d) of
       None \<Rightarrow> []
     | Some r \<Rightarrow> (case session_of d (r_session_id r) of None \<Rightarrow> [] | Some _ \<Rightarrow> [TokenRow (r_id r)]))"

definition refresh_token_task :: "ext \<Rightarrow> app_state \<Rightarrow> token_request \<Rightarrow> (oauth_error, token_response) task" where
  "refresh_token_task E st input = t_scoped (
     t_then (t_ok_or (tr_refresh_token input) (OInvalidRequest ''missing `refresh_token`'')) (\<lambda>refresh_token.
     t_then (t_ok_or (st_clients st (tr_client_id input)) OInvalidClient) (\<lambda>client.
     t_then (one utc_now) (\<lambda>now.
     t_then (one (map_err oauth_from_sql begin_tx)) (\<lambda>_.
     t_then (locking (for_update_of_r (token_hash E refresh_token))
        (osql (refresh_tokens_find_for_update (token_hash E refresh_token)))) (\<lambda>found.
     case found of
       None \<Rightarrow> t_err (OInvalidGrant ''refresh token is invalid'')
     | Some current \<Rightarrow>
         if rs_client_id current \<noteq> cl_id client
         then t_err (OInvalidGrant ''refresh token was issued to another client'')
         else if rs_session_revoked_at current \<noteq> None \<or> rs_session_expires_at current \<le> now
         then t_err (OInvalidGrant ''session is expired or revoked'')
         else
           t_then (refresh_stolen_task current now) (\<lambda>stolen.
           if stolen then
             t_then (t_osql (sessions_revoke (rs_session_id current))) (\<lambda>_.
             t_then (one (map_err oauth_from_sql commit_tx)) (\<lambda>_.
             t_err (OInvalidGrant ''refresh token was already used'')))
           else refresh_finish_task E st client current now)))))))"

definition oauth_token_task :: "ext \<Rightarrow> app_state \<Rightarrow> token_request \<Rightarrow> (oauth_error, token_response) task" where
  "oauth_token_task E st input =
     (if tr_grant_type input = ''authorization_code'' then authorization_code_task E st input
      else if tr_grant_type input = ''refresh_token'' then refresh_token_task E st input
      else t_err OUnsupportedGrantType)"

definition oauth_revoke_task :: "ext \<Rightarrow> app_state \<Rightarrow> revoke_request \<Rightarrow> (oauth_error, nat) task" where
  "oauth_revoke_task E st input =
     t_then (t_ok_or (st_clients st (rv_client_id input)) OInvalidClient) (\<lambda>client.
     t_then (t_osql (sessions_revoke_by_refresh_token (token_hash E (rv_token input)) (cl_id client))) (\<lambda>_.
     t_ok 200))"

section \<open>Run alone they are the handlers\<close>

lemma run_token_parts [runs_as]:
  "run (t_osql q) = osql q"
  "run (new_refresh_token_task E i p) = new_refresh_token E i p"
  "run (sessions_open_task E u c a) = sessions_open E u c a"
  "run (reject_unusable_code_task h) = reject_unusable_code h"
  by (simp_all add: runs_as t_osql_def new_refresh_token_task_def new_refresh_token_def sessions_open_task_def sessions_open_def
      reject_unusable_code_task_def reject_unusable_code_def cong: option.case_cong)

lemma run_refresh_parts [runs_as]:
  "run (refresh_stolen_task cur now) = refresh_stolen cur now"
  "run (refresh_finish_task E st client cur now) = refresh_finish E st client cur now"
  by (simp_all add: runs_as refresh_stolen_task_def refresh_stolen_def refresh_finish_task_def refresh_finish_def
      split: option.split cong: if_cong)

lemma run_authorization_code [runs_as]: "run (authorization_code_task E st input) = authorization_code_grant E st input"
  by (simp add: runs_as authorization_code_task_def authorization_code_grant_def exchange_consumed_task_def required_def Let_def
      cong: option.case_cong if_cong)

lemma run_refresh_token [runs_as]: "run (refresh_token_task E st input) = refresh_token_grant E st input"
  by (simp add: runs_as refresh_token_task_def refresh_token_grant_def required_def Let_def cong: option.case_cong if_cong)

lemma run_oauth_token: "run (oauth_token_task E st input) = oauth_token E st input"
  and run_oauth_revoke: "run (oauth_revoke_task E st rv) = oauth_revoke E st rv"
  by (simp_all add: runs_as oauth_token_task_def oauth_token_def oauth_revoke_task_def oauth_revoke_def required_def)

text \<open>The two routes.\<close>

datatype token_call = CallToken token_request | CallRevoke revoke_request

fun call_request :: "token_call \<Rightarrow> request" where
  "call_request (CallToken input) = PostToken input"
| "call_request (CallRevoke input) = PostRevoke input"

definition oauth_route_task :: "('a \<Rightarrow> response) \<Rightarrow> (oauth_error, 'a) task \<Rightarrow> (failure, response) task" where
  "oauth_route_task f t = t_map_err OAuthFailure (t_then t (\<lambda>a. t_ok (f a)))"

fun call_task :: "ext \<Rightarrow> app_state \<Rightarrow> token_call \<Rightarrow> (failure, response) task" where
  "call_task E st (CallToken input) = oauth_route_task TokenBody (oauth_token_task E st input)"
| "call_task E st (CallRevoke input) = oauth_route_task StatusOnly (oauth_revoke_task E st input)"

lemma run_call: "run (call_task E st c) = serve E st (call_request c)"
  by (cases c) (simp_all add: runs_as oauth_route_task_def oauth_route_def run_oauth_token run_oauth_revoke)

section \<open>Concrete schedules\<close>

definition answered :: "nat \<Rightarrow> ('e, 'a) site \<Rightarrow> bool" where
  "answered i s = (case answer_of i s of None \<Rightarrow> False | Some r \<Rightarrow> (case r of Inl _ \<Rightarrow> False | Inr _ \<Rightarrow> True))"

definition refused :: "nat \<Rightarrow> ('e, 'a) site \<Rightarrow> bool" where
  "refused i s = (case answer_of i s of None \<Rightarrow> False | Some r \<Rightarrow> (case r of Inl _ \<Rightarrow> True | Inr _ \<Rightarrow> False))"

definition open_sessions :: "('e, 'a) site \<Rightarrow> uuid list" where
  "open_sessions s = map s_id (filter (\<lambda>x. s_revoked_at x = None) (sessions (w_db (fst s))))"

lemma answered_answer: "answered i s \<Longrightarrow> answer_of i s = Some (Inr (projr (the (answer_of i s))))"
  by (auto simp: answered_def split: option.splits sum.splits)

text \<open>To evaluate a schedule only the step to take is unfolded: the congruence rules keep the rest of the request as it
  is until its first step is reached.\<close>

lemma Step_weak: "Step l f = Step l f"
  and t_then_weak: "t = t' \<Longrightarrow> t_then t k = t_then t' k"
  and after_weak: "u = u' \<Longrightarrow> after u j = after u' j"
  by simp_all

lemma conn_step_Step: "conn_step held w (Step l f, x) =
    (let v = seen_by x w; (t', v') = f v; new = written (w_db v) (w_db v'); wanted = l (w_db v) @ resources_of new
     in if x \<noteq> None \<and> w_tx v' = None then Some ((t', None), v')
        else if list_ex (\<lambda>r. r \<in> set held) wanted then None
        else (case w_tx v' of
            None \<Rightarrow> Some ((t', None), v')
          | Some (_, now) \<Rightarrow>
              Some ((t', Some \<lparr>tx_writes = more_writes new (writes_of x), tx_now = now, tx_locks = locks_of x @ wanted\<rparr>),
                v'\<lparr>w_db := w_db w, w_tx := None\<rparr>)))"
  by (simp add: conn_step_def)

lemma after_one: "after (one m) k = Step (\<lambda>_. []) (\<lambda>w. case m w of None \<Rightarrow> (Never, w) | Some (r, w') \<Rightarrow> (k r, w'))"
  by (simp add: one_def after_locking)

lemma tables_eval: "put_all key [] rows = rows"
  "put_all key (p # ps) rows = map (\<lambda>r. case List.find (\<lambda>p. key p = key r) (p # ps) of None \<Rightarrow> r | Some p \<Rightarrow> p) rows @
     filter (\<lambda>p. key p \<notin> key ` set rows) (p # ps)"
  "new_rows old rows = (if rows = old then [] else filter (\<lambda>r. r \<notin> set old) rows)"
  by (simp_all add: put_all_def new_rows_def)

lemma upt_32: "[0..<32 :: nat] =
    [0, 1, 2, 3, 4, 5, 6, 7, 8, 9, 10, 11, 12, 13, 14, 15, 16, 17, 18, 19, 20, 21, 22, 23, 24, 25, 26, 27, 28, 29, 30, 31]"
  by (simp add: upt_rec)

text \<open>The stand-ins stay folded.\<close>

lemma demo_fields:
  "x_sha256 demo_ext m = m" "x_b64url demo_ext b = b" "x_hmac demo_ext k m = k @ m" "x_hmac_verify demo_ext k m t = (t = k @ m)"
  "x_uuid_bytes demo_ext u = [char_of (unat u)]" "x_uuid_string demo_ext u = digits_of (unat u)"
  "x_jwt_encode demo_ext h c k' = Some ''jwt''" "x_gov_check demo_ext q log key now = None"
  "x_pg_lower demo_ext e = map to_ascii_lowercase e" "st_issuer demo_state = ''https://id''"
  "st_clients demo_state = [''web'' \<mapsto> demo_client]" "magic_link_key (st_code_keys demo_state) = ''a''"
  "st_trusted_proxies demo_state = []" "cl_id demo_client = ''web''" "cl_audience demo_client = None"
  by (simp_all add: demo_ext_def demo_state_def demo_client_def)

lemmas demo_rows = demo_fields demo_user_def demo_verifier_def demo_flow_def demo_code_def demo_session_def demo_token_def
  demo_pending_flow_def demo_link_def login_db_def demo_world_def empty_db_def

lemmas site_eval = open_site_def site_step_def conn_step_Step held_by_others_def seen_by_def written_def tables_eval
  resources_of_def more_writes_def writes_of_def locks_of_def overlay_def no_writes_def List.map_filter_def
  answered_def refused_def answer_of_def open_sessions_def

lemmas task_eval = after_one after_locking after_after t_then_def t_map_err_def t_scoped_def t_ok_def t_err_def t_ok_or_def
  t_osql_def oauth_route_task_def oauth_token_task_def authorization_code_task_def exchange_consumed_task_def
  reject_unusable_code_task_def sessions_open_task_def new_refresh_token_task_def refresh_token_task_def refresh_stolen_task_def
  refresh_finish_task_def for_update_of_r_def

lemmas step_eval = osql_def oauth_from_sql_def begin_tx_def commit_tx_def rollback_tx_def drop_tx_def exec_def after_stmt_def
  stmt_now_def utc_now_def load_keys_def map_err_def token_generate_def token_of_bytes_def token_hash_def upt_32 and_then_def
  random_bytes_def ok_def err_def issue_def ok_or_def uuid_now_v7_def signing_key_def can_sign_def session_of_def
  access_header_def access_claims_def token_response_of_def user_unusable_def flow_of_def upd_returning_def revoke_where_def
  shift_def Let_def
  time_defs REFRESH_REUSE_GRACE_def ACCESS_TOKEN_TTL_def SESSION_TTL_def

lemmas keep_rest = Step_weak t_then_weak after_weak let_weak_cong

end
