(* ===== verification/Serial.thy ===== *)
theory Serial
  imports Interleave Integrity
begin

text \<open>
  When is a transaction as good as alone? A general answer for the site of theory \<open>Interleave\<close>, in the manner of
  rely and guarantee: every request on the site is \<open>tame\<close> (its statements only add rows, or change rows in
  place), so what others commit while a transaction holds its locks is bounded by the relation \<open>env\<close>. A
  request is \<open>protected\<close> if each statement of its transaction, together with what it locks, answers the same whatever
  others do within \<open>env\<close>. Such a request, however interleaved, takes effect as if it had run alone, all of it, at the
  moment of its commit (\<open>protected_takes_effect\<close>).
\<close>

section \<open>Laying rows over a table\<close>

lemma put_all_Nil [simp]: "put_all key [] rows = rows"
  by (simp add: put_all_def)

lemma find_of_map: "(\<And>p. key (f p) = key p) \<Longrightarrow>
    List.find (\<lambda>p. key p = x) (map f ps) = map_option f (List.find (\<lambda>p. key p = x) ps)"
  by (induction ps) auto

lemma find_of_filter: "x \<notin> X \<Longrightarrow> List.find (\<lambda>p. key p = x) (filter (\<lambda>p. key p \<notin> X) ps) = List.find (\<lambda>p. key p = x) ps"
  by (induction ps) auto

lemma find_no_key: "List.find (\<lambda>p. key p = x) ps = None \<longleftrightarrow> x \<notin> key ` set ps"
  by (auto simp: find_None_set)

lemma version_key: "key (case List.find (\<lambda>p. key p = key r) ps of None \<Rightarrow> r | Some p \<Rightarrow> p) = key r"
  by (auto dest: find_Some_set split: option.split)

lemma put_all_keys: "map key (put_all key ps rows) = map key rows @ filter (\<lambda>k. k \<notin> key ` set rows) (map key ps)"
  by (simp add: put_all_def filter_map comp_def version_key)

lemma put_all_key_set: "key ` set (put_all key ps rows) = key ` set rows \<union> key ` set ps"
  using arg_cong [OF put_all_keys, of set key ps rows] by auto

lemma put_put: "put_all key (put_all key new own) rows = put_all key new (put_all key own rows)"
proof -
  let ?v = "\<lambda>ps r. case List.find (\<lambda>p. key p = key r) ps of None \<Rightarrow> r | Some p \<Rightarrow> p"
  have key: "key (?v ps r) = key r" for ps r by (rule version_key)
  have one: "?v (put_all key new own) r = ?v new (?v own r)" for r
  proof (cases "List.find (\<lambda>p. key p = key r) own")
    case None
    then have "key r \<notin> key ` set own" by (simp add: find_no_key)
    then show ?thesis
      using None by (simp add: put_all_def find_append find_of_map [of key, OF key] find_of_filter split: option.split)
  next
    case (Some p)
    with find_Some_set [OF this] show ?thesis
      by (simp add: put_all_def find_append find_of_map [of key, OF key] split: option.split)
  qed
  have keys: "key ` set (put_all key own rows) = key ` set rows \<union> key ` set own"
    by (rule put_all_key_set)
  have "filter (\<lambda>p. key p \<notin> key ` set rows) (put_all key new own) =
      map (?v new) (filter (\<lambda>p. key p \<notin> key ` set rows) own) @ filter (\<lambda>p. key p \<notin> key ` set (put_all key own rows)) new"
    unfolding keys by (simp add: put_all_def filter_map comp_def key conj_commute)
  then show ?thesis
    by (subst put_all_def, subst (3) put_all_def) (simp add: one put_all_def [of key own rows])
qed

lemma put_all_distinct: "distinct (map key rows) \<Longrightarrow> distinct (map key ps) \<Longrightarrow> distinct (map key (put_all key ps rows))"
  by (auto simp: put_all_keys)

lemma set_put_all: "p \<in> set (put_all key ps rows) \<Longrightarrow> p \<in> set ps \<or> p \<in> set rows \<and> key p \<notin> key ` set ps"
  by (auto simp: put_all_def split: option.splits dest!: find_Some_set) (force simp: find_None_set)

lemma put_new_rows:
  assumes "map key rows' = map key rows @ ks" "distinct (map key rows')"
  shows "put_all key (new_rows rows rows') rows = rows'"
proof -
  define as where "as = take (length rows) rows'"
  define bs where "bs = drop (length rows) rows'"
  have rows': "rows' = as @ bs" by (simp add: as_def bs_def)
  have as: "map key as = map key rows" using arg_cong [OF assms(1), of "take (length rows)"] by (simp add: as_def take_map)
  have same: "x = y" if "x \<in> set rows'" "y \<in> set rows'" "key x = key y" for x y
    by (rule distinct_key_eq [OF assms(2) that])
  have inside: "key ` set as = key ` set rows" by (metis as list.set_map)
  have "key ` set as \<inter> key ` set bs = {}" using assms(2) by (auto simp: rows')
  then have bs: "key ` set bs \<inter> key ` set rows = {}" by (auto simp: inside)
  have find: "(case List.find (\<lambda>p. key p = key r) (new_rows rows rows') of None \<Rightarrow> r | Some p \<Rightarrow> p) = a"
    if "a \<in> set as" "key a = key r" "a \<in> set rows \<Longrightarrow> a = r" for a r
  proof (cases "List.find (\<lambda>p. key p = key r) (new_rows rows rows')")
    case None
    with that(1,2) have "a \<in> set rows" by (auto simp: find_None_set new_rows_def rows')
    with None that(3) show ?thesis by simp
  next
    case (Some p)
    with find_Some_set [OF Some] show ?thesis using that(1,2) same [of p a] by (auto simp: new_rows_def rows')
  qed
  have "map (\<lambda>r. case List.find (\<lambda>p. key p = key r) (new_rows rows rows') of None \<Rightarrow> r | Some p \<Rightarrow> p) rows = as"
  proof (rule nth_equalityI, goal_cases)
    case 1
    show ?case using arg_cong [OF as, of length] by simp
  next
    case (2 i)
    then have i: "i < length rows" "i < length as" using arg_cong [OF as, of length] by simp_all
    have key: "key (as ! i) = key (rows ! i)" using i arg_cong [OF as, of "\<lambda>l. l ! i"] by simp
    have "distinct (map key rows)" using assms(2) by (simp add: assms(1))
    then have "as ! i = rows ! i" if "as ! i \<in> set rows"
      using that key i by (metis distinct_key_eq nth_mem)
    with i key show ?case by (simp add: find)
  qed
  moreover have "filter (\<lambda>p. key p \<notin> key ` set rows) (new_rows rows as) = []"
    using inside by (auto simp: new_rows_def filter_empty_conv)
  moreover have "filter (\<lambda>p. key p \<notin> key ` set rows) (new_rows rows bs) = bs"
    using bs by (auto simp: new_rows_def filter_id_conv)
  ultimately show ?thesis by (simp add: put_all_def rows' new_rows_def)
qed

section \<open>What others may do\<close>

definition uniq :: "db \<Rightarrow> bool" where
  "uniq d \<longleftrightarrow> distinct (map c_id (authorization_codes d)) \<and> distinct (map c_code_hash (authorization_codes d)) \<and>
     distinct (map s_id (sessions d)) \<and> distinct (map r_id (refresh_tokens d))"

definition other_tables :: "db \<Rightarrow> db" where
  "other_tables d = d\<lparr>authorization_codes := [], sessions := [], refresh_tokens := []\<rparr>"

text \<open>A code only ever changes by being consumed.\<close>

definition code_kept :: "authorization_code \<Rightarrow> authorization_code \<Rightarrow> bool" where
  "code_kept c c' \<longleftrightarrow> c'\<lparr>c_consumed_at := None\<rparr> = c\<lparr>c_consumed_at := None\<rparr> \<and>
     (c_consumed_at c \<noteq> None \<longrightarrow> c_consumed_at c' \<noteq> None)"

definition keeps_rows :: "('r \<Rightarrow> 'k) \<Rightarrow> 'r list \<Rightarrow> 'r list \<Rightarrow> bool" where
  "keeps_rows key rows rows' \<longleftrightarrow> (\<exists>ks. map key rows' = map key rows @ ks)"

text \<open>What one statement of a tame request does to the database.\<close>

definition writes_ok :: "db \<Rightarrow> db \<Rightarrow> bool" where
  "writes_ok d d' \<longleftrightarrow> other_tables d' = other_tables d \<and>
     list_all2 code_kept (authorization_codes d) (authorization_codes d') \<and>
     keeps_rows s_id (sessions d) (sessions d') \<and> keeps_rows r_id (refresh_tokens d) (refresh_tokens d') \<and> uniq d'"

text \<open>What a transaction with the locks \<open>L\<close> may see change around it.\<close>

definition env :: "resource list \<Rightarrow> db \<Rightarrow> db \<Rightarrow> bool" where
  "env L d d' \<longleftrightarrow> other_tables d' = other_tables d \<and>
     list_all2 code_kept (authorization_codes d) (authorization_codes d') \<and>
     s_id ` set (sessions d) \<subseteq> s_id ` set (sessions d') \<and>
     r_id ` set (refresh_tokens d) \<subseteq> r_id ` set (refresh_tokens d') \<and> uniq d' \<and>
     set (resources_of (written d d')) \<inter> set L = {}"

lemma other_tables_eq: "other_tables d' = other_tables d \<longleftrightarrow>
    users d' = users d \<and> login_flows d' = login_flows d \<and> signing_keys d' = signing_keys d \<and>
    magic_links d' = magic_links d \<and> email_changes d' = email_changes d \<and> confirmations d' = confirmations d"
  by (cases d; cases d') (simp add: other_tables_def)

lemma code_kept_fields: "code_kept c c' \<Longrightarrow> c_id c' = c_id c \<and> c_code_hash c' = c_code_hash c \<and> c_flow_id c' = c_flow_id c \<and>
    c_user_id c' = c_user_id c \<and> c_expires_at c' = c_expires_at c"
  by (cases c; cases c') (simp add: code_kept_def)

lemma code_kept_refl [simp]: "code_kept c c"
  by (simp add: code_kept_def)

lemma code_kept_trans: "code_kept a b \<Longrightarrow> code_kept b c \<Longrightarrow> code_kept a c"
  by (auto simp: code_kept_def)

lemma codes_kept_trans: "list_all2 code_kept xs ys \<Longrightarrow> list_all2 code_kept ys zs \<Longrightarrow> list_all2 code_kept xs zs"
  by (rule list_all2_trans) (rule code_kept_trans)

lemma codes_kept_refl [simp]: "list_all2 code_kept xs xs"
  by (simp add: list_all2_refl)

lemma codes_kept_map: "list_all2 code_kept xs ys \<Longrightarrow> (\<And>a b. code_kept a b \<Longrightarrow> k b = k a) \<Longrightarrow> map k ys = map k xs"
  by (induction rule: list_all2_induct) auto

lemma codes_kept_ids:
  assumes "list_all2 code_kept xs ys"
  shows "map c_id ys = map c_id xs" "map c_code_hash ys = map c_code_hash xs"
  using codes_kept_map [OF assms] code_kept_fields by blast+

lemma codes_kept_set: "list_all2 code_kept xs ys \<Longrightarrow> y \<in> set ys \<Longrightarrow> \<exists>x \<in> set xs. code_kept x y"
  and codes_kept_set': "list_all2 code_kept xs ys \<Longrightarrow> x \<in> set xs \<Longrightarrow> \<exists>y \<in> set ys. code_kept x y"
  by (metis in_set_conv_nth list_all2_conv_all_nth)+

lemma in_resources [simp]:
  "CodeRow i \<in> set (resources_of own) \<longleftrightarrow> i \<in> c_id ` set (wr_codes own)"
  "SessionRow i \<in> set (resources_of own) \<longleftrightarrow> i \<in> s_id ` set (wr_sessions own)"
  "SessionOfCode i \<in> set (resources_of own) \<longleftrightarrow> Some i \<in> s_authorization_code_id ` set (wr_sessions own)"
  "TokenRow i \<in> set (resources_of own) \<longleftrightarrow> i \<in> r_id ` set (wr_tokens own)"
  "TokenHash h \<in> set (resources_of own) \<longleftrightarrow> h \<in> r_token_hash ` set (wr_tokens own)"
  "CodeHash h \<in> set (resources_of own) \<longleftrightarrow> h \<in> c_code_hash ` set (wr_codes own)"
  "CodeOfFlow i \<in> set (resources_of own) \<longleftrightarrow> i \<in> c_flow_id ` set (wr_codes own)"
  "UserRow i \<in> set (resources_of own) \<longleftrightarrow> i \<in> u_id ` set (wr_users own)"
  "UserEmail e \<in> set (resources_of own) \<longleftrightarrow> e \<in> u_email ` set (wr_users own)"
  "FlowRow i \<in> set (resources_of own) \<longleftrightarrow> i \<in> f_id ` set (wr_flows own)"
  "LinkRow i \<in> set (resources_of own) \<longleftrightarrow> i \<in> m_id ` set (wr_links own)"
  "LinkHash h \<in> set (resources_of own) \<longleftrightarrow> h \<in> m_token_hash ` set (wr_links own)"
  "Address e \<notin> set (resources_of own)"
  by (auto simp: resources_of_def set_map_filter image_iff) metis+

definition sub_writes :: "writes \<Rightarrow> writes \<Rightarrow> writes \<Rightarrow> bool" where
  "sub_writes a b c \<longleftrightarrow>
     set (wr_codes a) \<subseteq> set (wr_codes b) \<union> set (wr_codes c) \<and> set (wr_sessions a) \<subseteq> set (wr_sessions b) \<union> set (wr_sessions c) \<and>
     set (wr_tokens a) \<subseteq> set (wr_tokens b) \<union> set (wr_tokens c) \<and> set (wr_users a) \<subseteq> set (wr_users b) \<union> set (wr_users c) \<and>
     set (wr_flows a) \<subseteq> set (wr_flows b) \<union> set (wr_flows c) \<and> set (wr_links a) \<subseteq> set (wr_links b) \<union> set (wr_links c)"

lemma image_sub: "A \<subseteq> B \<union> C \<Longrightarrow> x \<in> f ` A \<Longrightarrow> x \<in> f ` B \<or> x \<in> f ` C"
  by blast

lemma resources_mono: "sub_writes a b c \<Longrightarrow> set (resources_of a) \<subseteq> set (resources_of b) \<union> set (resources_of c)"
proof (rule subsetI)
  fix r assume sub: "sub_writes a b c"
  assume r: "r \<in> set (resources_of a)"
  show "r \<in> set (resources_of b) \<union> set (resources_of c)"
    by (insert r sub, cases r rule: resource.exhaust; hypsubst; simp only: in_resources Un_iff; unfold sub_writes_def;
        elim conjE; erule (1) image_sub)
qed

lemma in_new_rows [simp]: "r \<in> set (new_rows old rows) \<longleftrightarrow> r \<in> set rows \<and> r \<notin> set old"
  by (auto simp: new_rows_def)

lemma keys_new: "x \<in> key ` set rows' \<Longrightarrow> x \<notin> key ` set (new_rows rows rows') \<Longrightarrow> x \<in> key ` set rows"
  by (auto simp: image_iff Ball_def)

lemma new_rows_same [simp]: "new_rows rows rows = []"
  by (simp add: new_rows_def filter_empty_conv)

lemma written_same [simp]: "written d d = no_writes"
  by (simp add: written_def no_writes_def)

lemma no_writes_simps [simp]: "overlay no_writes d = d" "more_writes new no_writes = new" "resources_of no_writes = []"
  "more_writes no_writes own = own"
  by (simp_all add: overlay_def no_writes_def more_writes_def resources_of_def put_all_def List.map_filter_def)

lemma env_refl: "uniq d \<Longrightarrow> env L d d"
  by (simp add: env_def)

lemma env_trans:
  assumes "env L a b" "env L b c"
  shows "env L a c"
proof -
  have "set (resources_of (written a c)) \<subseteq> set (resources_of (written a b)) \<union> set (resources_of (written b c))"
    by (rule resources_mono) (auto simp: sub_writes_def written_def)
  moreover have "set (resources_of (written a b)) \<inter> set L = {}" "set (resources_of (written b c)) \<inter> set L = {}"
    using assms by (simp_all add: env_def)
  ultimately have "set (resources_of (written a c)) \<inter> set L = {}" by blast
  moreover have "list_all2 code_kept (authorization_codes a) (authorization_codes c)"
    using assms unfolding env_def by (metis codes_kept_trans)
  moreover have "s_id ` set (sessions a) \<subseteq> s_id ` set (sessions c)" "r_id ` set (refresh_tokens a) \<subseteq> r_id ` set (refresh_tokens c)"
    using assms unfolding env_def by (meson subset_trans)+
  ultimately show ?thesis using assms by (simp add: env_def)
qed

lemma env_less: "env L d d' \<Longrightarrow> set K \<subseteq> set L \<Longrightarrow> env K d d'"
  by (auto simp: env_def)

lemma writes_ok_env: "writes_ok d d' \<Longrightarrow> set (resources_of (written d d')) \<inter> set L = {} \<Longrightarrow> env L d d'"
  unfolding writes_ok_def env_def keeps_rows_def by (auto dest!: arg_cong [where f = set] simp: image_Un)

text \<open>A row whose lock is held stays as it is, and no row with a locked key appears.\<close>

lemma env_code_locked:
  assumes "env L d d'" "uniq d" "c \<in> set (authorization_codes d)" "CodeRow (c_id c) \<in> set L"
  shows "c \<in> set (authorization_codes d')"
proof (rule ccontr)
  assume no: "c \<notin> set (authorization_codes d')"
  from assms(1,3) obtain c' where c': "c' \<in> set (authorization_codes d')" "code_kept c c'"
    by (auto simp: env_def dest: codes_kept_set')
  with no have "c' \<noteq> c" by auto
  with assms(2,3) c'(2) have "c' \<notin> set (authorization_codes d)"
    by (auto simp: uniq_def dest!: code_kept_fields intro: distinct_key_eq [of c_id])
  with c'(1) have "CodeRow (c_id c') \<in> set (resources_of (written d d'))"
    by (auto simp: resources_of_def written_def)
  with assms(4) code_kept_fields [OF c'(2)] have "CodeRow (c_id c) \<in> set (resources_of (written d d')) \<inter> set L" by simp
  with assms(1) show False by (auto simp: env_def)
qed

lemma env_locked_keys:
  assumes "env L d d'"
  shows "SessionRow i \<in> set L \<Longrightarrow> i \<in> s_id ` set (sessions d') \<Longrightarrow> i \<in> s_id ` set (sessions d)"
    and "SessionOfCode i \<in> set L \<Longrightarrow> Some i \<in> s_authorization_code_id ` set (sessions d') \<Longrightarrow>
      Some i \<in> s_authorization_code_id ` set (sessions d)"
    and "TokenRow i \<in> set L \<Longrightarrow> i \<in> r_id ` set (refresh_tokens d') \<Longrightarrow> i \<in> r_id ` set (refresh_tokens d)"
    and "TokenHash h \<in> set L \<Longrightarrow> h \<in> r_token_hash ` set (refresh_tokens d') \<Longrightarrow> h \<in> r_token_hash ` set (refresh_tokens d)"
proof -
  have free: "r \<in> set L \<Longrightarrow> r \<notin> set (resources_of (written d d'))" for r
    using assms by (auto simp: env_def)
  show "SessionRow i \<in> set L \<Longrightarrow> i \<in> s_id ` set (sessions d') \<Longrightarrow> i \<in> s_id ` set (sessions d)"
    using free [of "SessionRow i"] by (auto simp: written_def intro: keys_new)
  show "SessionOfCode i \<in> set L \<Longrightarrow> Some i \<in> s_authorization_code_id ` set (sessions d') \<Longrightarrow>
      Some i \<in> s_authorization_code_id ` set (sessions d)"
    using free [of "SessionOfCode i"] by (auto simp: written_def intro: keys_new)
  show "TokenRow i \<in> set L \<Longrightarrow> i \<in> r_id ` set (refresh_tokens d') \<Longrightarrow> i \<in> r_id ` set (refresh_tokens d)"
    using free [of "TokenRow i"] by (auto simp: written_def intro: keys_new)
  show "TokenHash h \<in> set L \<Longrightarrow> h \<in> r_token_hash ` set (refresh_tokens d') \<Longrightarrow> h \<in> r_token_hash ` set (refresh_tokens d)"
    using free [of "TokenHash h"] by (auto simp: written_def intro: keys_new)
qed

section \<open>The view of a transaction\<close>

text \<open>The writes of a transaction fit the committed database: they change codes that are there, have one version of
  each row, and are in the tables of the token endpoint.\<close>

definition fits :: "writes \<Rightarrow> db \<Rightarrow> bool" where
  "fits own d \<longleftrightarrow> (\<forall>p \<in> set (wr_codes own). \<exists>c \<in> set (authorization_codes d). code_kept c p) \<and>
     distinct (map c_id (wr_codes own)) \<and> distinct (map s_id (wr_sessions own)) \<and> distinct (map r_id (wr_tokens own)) \<and>
     wr_users own = [] \<and> wr_flows own = [] \<and> wr_links own = []"

lemma new_rows_distinct: "distinct (map key rows') \<Longrightarrow> distinct (map key (new_rows rows rows'))"
  unfolding new_rows_def by (rule distinct_map_filter)

lemma put_all_has:
  assumes "distinct (map key ps)" "p \<in> set ps"
  shows "p \<in> set (put_all key ps rows)"
proof (cases "key p \<in> key ` set rows")
  case True
  then obtain r where r: "r \<in> set rows" "key r = key p" by auto
  have "List.find (\<lambda>q. key q = key r) ps = Some p"
    by (rule find_key [OF assms]) (simp_all add: r)
  with r(1) show ?thesis by (force simp: put_all_def)
next
  case False
  with assms(2) show ?thesis by (simp add: put_all_def)
qed

lemma put_all_other: "r \<in> set rows \<Longrightarrow> key r \<notin> key ` set ps \<Longrightarrow> r \<in> set (put_all key ps rows)"
  using find_no_key [of key "key r" ps] by (force simp: put_all_def)

lemma put_all_change:
  assumes "distinct (map key ps)" "p \<in> set (put_all key ps rows')" "p \<notin> set (put_all key ps rows)"
  shows "p \<in> set rows' \<and> p \<notin> set rows"
  using set_put_all [OF assms(2)] assms(3) put_all_has [OF assms(1), of p rows] put_all_other [of p rows key ps] by blast

lemma put_all_versions: "key ` set ps \<subseteq> key ` set rows \<Longrightarrow>
    put_all key ps rows = map (\<lambda>r. case List.find (\<lambda>p. key p = key r) ps of None \<Rightarrow> r | Some p \<Rightarrow> p) rows"
  by (auto simp: put_all_def filter_empty_conv)

lemma fits_ids: "fits own d \<Longrightarrow> c_id ` set (wr_codes own) \<subseteq> c_id ` set (authorization_codes d)"
  by (force simp: fits_def image_iff dest: code_kept_fields)

lemma fits_codes:
  assumes "fits own d" "uniq d"
  shows "list_all2 code_kept (authorization_codes d) (put_all c_id (wr_codes own) (authorization_codes d))"
proof -
  have "code_kept c p" if "List.find (\<lambda>p. c_id p = c_id c) (wr_codes own) = Some p" "c \<in> set (authorization_codes d)" for c p
  proof -
    from find_Some_set [OF that(1)] assms(1) obtain c0 where c0: "c0 \<in> set (authorization_codes d)" "code_kept c0 p" "c_id p = c_id c"
      by (auto simp: fits_def)
    then have "c0 = c"
      using assms(2) that(2) code_kept_fields [of c0 p] by (auto simp: uniq_def intro: distinct_key_eq [of c_id])
    with c0(2) show ?thesis by simp
  qed
  then show ?thesis
    unfolding put_all_versions [OF fits_ids [OF assms(1)]]
    by (auto simp: list_all2_conv_all_nth split: option.split)
qed

lemma overlay_simps [simp]:
  "authorization_codes (overlay own d) = put_all c_id (wr_codes own) (authorization_codes d)"
  "sessions (overlay own d) = put_all s_id (wr_sessions own) (sessions d)"
  "refresh_tokens (overlay own d) = put_all r_id (wr_tokens own) (refresh_tokens d)"
  "users (overlay own d) = put_all u_id (wr_users own) (users d)"
  "login_flows (overlay own d) = put_all f_id (wr_flows own) (login_flows d)"
  "magic_links (overlay own d) = put_all m_id (wr_links own) (magic_links d)"
  "signing_keys (overlay own d) = signing_keys d" "email_changes (overlay own d) = email_changes d"
  "confirmations (overlay own d) = confirmations d"
  by (simp_all add: overlay_def)

lemma fits_other: "fits own d \<Longrightarrow> other_tables (overlay own d) = other_tables d"
  by (simp add: other_tables_eq fits_def)

lemma fits_uniq:
  assumes "fits own d" "uniq d"
  shows "uniq (overlay own d)"
  using assms codes_kept_ids [OF fits_codes [OF assms]] by (simp add: uniq_def fits_def put_all_distinct)

lemma written_overlay: "set (resources_of (written d (overlay own d))) \<subseteq> set (resources_of own)"
proof -
  have "set (resources_of (written d (overlay own d))) \<subseteq> set (resources_of own) \<union> set (resources_of no_writes)"
    by (rule resources_mono) (auto simp: sub_writes_def written_def dest: set_put_all)
  then show ?thesis by simp
qed

lemma fits_env: "fits own d \<Longrightarrow> uniq d \<Longrightarrow> set (resources_of own) \<inter> set L = {} \<Longrightarrow> env L d (overlay own d)"
  using fits_codes fits_uniq written_overlay fits_other unfolding env_def by (simp add: put_all_key_set) blast

lemma fits_stable:
  assumes "fits own d" "uniq d" "env L d d'" "set (resources_of own) \<subseteq> set L"
  shows "fits own d'"
proof -
  have "\<exists>c \<in> set (authorization_codes d'). code_kept c p" if p: "p \<in> set (wr_codes own)" for p
  proof -
    from assms(1) p obtain c where c: "c \<in> set (authorization_codes d)" "code_kept c p" by (auto simp: fits_def)
    have "CodeRow (c_id c) \<in> set L" using assms(4) p code_kept_fields [OF c(2)] by (metis image_eqI in_resources(1) subsetD)
    from env_code_locked [OF assms(3,2) c(1) this] c(2) show ?thesis by blast
  qed
  with assms(1) show ?thesis by (simp add: fits_def)
qed

text \<open>What others commit changes the view of a transaction no more than the committed database.\<close>

lemma overlay_env:
  assumes "env L d d'" "fits own d" "uniq d" "set (resources_of own) \<subseteq> set L"
  shows "env L (overlay own d) (overlay own d')"
proof -
  have uniq': "uniq d'" and kept: "list_all2 code_kept (authorization_codes d) (authorization_codes d')"
    using assms(1) by (simp_all add: env_def)
  have fits': "fits own d'" by (rule fits_stable [OF assms(2,3,1,4)])
  have "list_all2 code_kept (put_all c_id (wr_codes own) (authorization_codes d)) (put_all c_id (wr_codes own) (authorization_codes d'))"
    unfolding put_all_versions [OF fits_ids [OF assms(2)]] put_all_versions [OF fits_ids [OF fits']]
    using kept by (auto simp: list_all2_conv_all_nth code_kept_fields split: option.split)
  moreover have "set (resources_of (written (overlay own d) (overlay own d'))) \<subseteq> set (resources_of (written d d')) \<union> set (resources_of no_writes)"
    using assms(2) by (intro resources_mono) (auto simp: sub_writes_def written_def fits_def dest: put_all_change)
  ultimately show ?thesis
    using assms(1) fits_uniq [OF fits' uniq'] fits_other [OF fits'] fits_other [OF assms(2)] unfolding env_def
    by (simp add: put_all_key_set) blast
qed

text \<open>A further statement adds its rows to the writes, and the view is what the statement left.\<close>

lemma fits_more:
  assumes "fits own d" "uniq d" "writes_ok (overlay own d) d'"
  shows "fits (more_writes (written (overlay own d) d') own) d"
    and "overlay (more_writes (written (overlay own d) d') own) d = d'"
proof -
  let ?v = "overlay own d"
  have kept: "list_all2 code_kept (authorization_codes ?v) (authorization_codes d')" and uniq': "uniq d'"
    and other: "other_tables d' = other_tables d"
    using assms(3) fits_other [OF assms(1)] by (simp_all add: writes_ok_def)
  have "\<exists>c \<in> set (authorization_codes d). code_kept c p" if p: "p \<in> set (put_all c_id (new_rows (authorization_codes ?v) (authorization_codes d')) (wr_codes own))" for p
    using set_put_all [OF p]
  proof
    assume "p \<in> set (new_rows (authorization_codes ?v) (authorization_codes d'))"
    with codes_kept_set [OF kept] obtain q where "q \<in> set (authorization_codes ?v)" "code_kept q p" by auto
    with codes_kept_set [OF fits_codes [OF assms(1,2)]] show ?thesis by (auto intro: code_kept_trans)
  qed (use assms(1) in \<open>auto simp: fits_def\<close>)
  then show "fits (more_writes (written ?v d') own) d"
    using assms(1) uniq' other
    by (simp add: fits_def more_writes_def written_def put_all_distinct uniq_def new_rows_distinct other_tables_eq)
  have "put_all c_id (new_rows (authorization_codes ?v) (authorization_codes d')) (authorization_codes ?v) = authorization_codes d'"
    by (rule put_new_rows [where ks = "[]"]) (use codes_kept_ids [OF kept] uniq' in \<open>simp_all add: uniq_def\<close>)
  moreover have "put_all s_id (new_rows (sessions ?v) (sessions d')) (sessions ?v) = sessions d'"
    "put_all r_id (new_rows (refresh_tokens ?v) (refresh_tokens d')) (refresh_tokens ?v) = refresh_tokens d'"
    using assms(3) by (auto simp: writes_ok_def keeps_rows_def uniq_def intro!: put_new_rows)
  ultimately have "overlay (written ?v d') ?v = d'"
    using other assms(1) unfolding other_tables_eq by (intro db.equality) (simp_all add: overlay_def written_def fits_def)
  then show "overlay (more_writes (written ?v d') own) d = d'"
    by (simp add: overlay_def more_writes_def put_put)
qed

end
