(* ===== verification/Protected.thy ===== *)
theory Protected
  imports Serial
begin

text \<open>
  The requests of a site, and when one of them is as good as alone. \<open>tame\<close> is what every request on the site must be;
  \<open>unopened\<close>, \<open>protected\<close> and \<open>closing\<close> follow a request before, inside and after its transaction. The invariant of
  a site, and \<open>protected_takes_effect\<close>: an answered request took effect at one step of its own, its commit, and
  what that step did and the answer are those of a run of the whole request, alone, from the committed database
  of that moment.
\<close>

section \<open>Tame requests\<close>

text \<open>Two worlds a statement cannot tell apart but by what the supplies give next.\<close>

definition same_data :: "world \<Rightarrow> world \<Rightarrow> bool" where
  "same_data X Y \<longleftrightarrow> w_db Y = w_db X \<and> w_tx Y = w_tx X \<and> w_keys Y = w_keys X"

text \<open>What a step may do: begin, commit, roll back, or write rows.\<close>

definition effect_ok :: "world \<Rightarrow> world \<Rightarrow> bool" where
  "effect_ok X Y \<longleftrightarrow> w_keys Y = w_keys X \<and>
     (case w_tx X of
        None \<Rightarrow> (case w_tx Y of
            None \<Rightarrow> uniq (w_db X) \<longrightarrow> writes_ok (w_db X) (w_db Y)
          | Some (c, now) \<Rightarrow> c = w_db X \<and> w_db Y = w_db X)
      | Some (c, now) \<Rightarrow> (case w_tx Y of
            None \<Rightarrow> w_db Y = w_db X \<or> w_db Y = c
          | Some _ \<Rightarrow> uniq (w_db X) \<longrightarrow> writes_ok (w_db X) (w_db Y)))"

text \<open>A step that left a world could have left any world with the same data, given other supplies.\<close>

definition rewinds :: "(world \<Rightarrow> 'b \<times> world) \<Rightarrow> bool" where
  "rewinds f \<longleftrightarrow> (\<forall>X Y. same_data (snd (f X)) Y \<longrightarrow> (\<exists>X0. same_data X X0 \<and> f X0 = (fst (f X), Y)))"

inductive tame :: "('e, 'a) task \<Rightarrow> bool" where
  tame_Answered: "tame (Answered r)"
| tame_Never: "tame Never"
| tame_Step: "(\<And>X. effect_ok X (snd (f X))) \<Longrightarrow> rewinds f \<Longrightarrow> (\<And>X. tame (fst (f X))) \<Longrightarrow> tame (Step l f)"

inductive_cases tame_StepE: "tame (Step l f)"

lemma tame_stepD: "tame (Step l f) \<Longrightarrow> f X = (t, Y) \<Longrightarrow> effect_ok X Y \<and> tame t"
  by (elim tame_StepE) (metis fst_conv snd_conv)

section \<open>Runs with any supplies\<close>

text \<open>\<open>may K t0 d0 x0 t d x\<close>: from the database \<open>d0\<close> and the transaction \<open>x0\<close>, the request \<open>t0\<close> alone may come to \<open>t\<close>, \<open>d\<close>
  and \<open>x\<close>, whatever the supplies give at each step.\<close>

inductive may :: "signing_keys_set \<Rightarrow> ('e, 'a) task \<Rightarrow> db \<Rightarrow> (db \<times> time) option \<Rightarrow>
    ('e, 'a) task \<Rightarrow> db \<Rightarrow> (db \<times> time) option \<Rightarrow> bool" for K t0 d0 x0 where
  may_start: "may K t0 d0 x0 t0 d0 x0"
| may_step: "may K t0 d0 x0 (Step l f) (w_db X) (w_tx X) \<Longrightarrow> w_keys X = K \<Longrightarrow>
    may K t0 d0 x0 (fst (f X)) (w_db (snd (f X))) (w_tx (snd (f X)))"

text \<open>Then some supplies make it run so.\<close>

lemma may_run:
  assumes "may K t0 d0 x0 t d x" "tame t0"
  shows "tame t \<and> (\<forall>Y :: world. w_db Y = d \<longrightarrow> w_tx Y = x \<longrightarrow> w_keys Y = K \<longrightarrow>
    (\<exists>X0. w_db X0 = d0 \<and> w_tx X0 = x0 \<and> w_keys X0 = K \<and> run t0 X0 = run t Y))"
  using assms(1)
proof induction
  case may_start
  with assms(2) show ?case by blast
next
  case (may_step l f X)
  then have f: "effect_ok X (snd (f X))" "rewinds f" "tame (fst (f X))" by (auto elim: tame_StepE)
  show ?case
  proof (intro conjI allI impI f(3))
    fix Y :: world assume Y: "w_db Y = w_db (snd (f X))" "w_tx Y = w_tx (snd (f X))" "w_keys Y = K"
    with f(1) may_step.hyps(2) have "same_data (snd (f X)) Y" by (simp add: same_data_def effect_ok_def)
    with f(2) obtain X1 where X1: "same_data X X1" "f X1 = (fst (f X), Y)" by (auto simp: rewinds_def)
    with may_step.IH may_step.hyps(2) obtain X0 where
      "w_db X0 = d0" "w_tx X0 = x0" "w_keys X0 = K" "run t0 X0 = run (Step l f) X1"
      by (auto simp: same_data_def)
    with X1(2) show "\<exists>X0. w_db X0 = d0 \<and> w_tx X0 = x0 \<and> w_keys X0 = K \<and> run t0 X0 = run (fst (f X)) Y" by auto
  qed
qed

definition replay :: "(world \<Rightarrow> 'b \<times> world) \<Rightarrow> world \<Rightarrow> db \<Rightarrow> (db \<times> time) option \<Rightarrow> db \<Rightarrow> (db \<times> time) option \<Rightarrow> bool" where
  "replay f X d x d' x' \<longleftrightarrow> (\<exists>Y. w_db Y = d \<and> w_tx Y = x \<and> w_keys Y = w_keys X \<and> fst (f Y) = fst (f X) \<and>
     w_db (snd (f Y)) = d' \<and> w_tx (snd (f Y)) = x')"

lemma may_replay: "may K t0 d0 x0 (Step l f) d x \<Longrightarrow> replay f X d x d' x' \<Longrightarrow> w_keys X = K \<Longrightarrow>
    may K t0 d0 x0 (fst (f X)) d' x'"
  unfolding replay_def using may_step [of K t0 d0 x0 l f] by metis

section \<open>Protected requests\<close>

text \<open>No answer but errors any more.\<close>

inductive hopeless :: "('e, 'a) task \<Rightarrow> bool" where
  hopeless_Inl: "hopeless (Answered (Inl e))"
| hopeless_Never: "hopeless Never"
| hopeless_Step: "(\<And>X. hopeless (fst (f X))) \<Longrightarrow> hopeless (Step l f)"

inductive_cases hopeless_AnsweredE: "hopeless (Answered r)"
inductive_cases hopeless_StepE: "hopeless (Step l f)"

text \<open>After the transaction: the answer is known, and the database is left alone.\<close>

inductive closing :: "('e, 'a) task \<Rightarrow> 'e + 'a \<Rightarrow> bool" where
  closing_Answered: "closing (Answered r) r"
| closing_Step: "(\<And>X. w_tx X = None \<Longrightarrow> w_db (snd (f X)) = w_db X \<and> w_tx (snd (f X)) = None) \<Longrightarrow>
    (\<And>X. closing (fst (f X)) r) \<Longrightarrow> closing (Step l f) r"

inductive_cases closing_AnsweredE: "closing (Answered r) q"
inductive_cases closing_StepE: "closing (Step l f) r"
inductive_cases closing_NeverE: "closing Never r"

definition commits :: "(world \<Rightarrow> ('e, 'a) task \<times> world) \<Rightarrow> world \<Rightarrow> 'e + 'a \<Rightarrow> bool" where
  "commits f X r \<longleftrightarrow> w_tx (snd (f X)) = None \<and> w_db (snd (f X)) = w_db X \<and> closing (fst (f X)) r"

text \<open>A statement of a transaction that would have answered the same, and written the same rows, whatever others did that
  its locks and the rows it wrote allow.\<close>

definition steady :: "(db \<Rightarrow> resource list) \<Rightarrow> (world \<Rightarrow> 'b \<times> world) \<Rightarrow> world \<Rightarrow> db \<Rightarrow> time \<Rightarrow> bool" where
  "steady l f X c now \<longleftrightarrow> w_tx (snd (f X)) = Some (c, now) \<and>
     (\<forall>d2 c2. env (l (w_db X) @ resources_of (written (w_db X) (w_db (snd (f X))))) (w_db X) d2 \<longrightarrow>
        replay f X d2 (Some (c2, now)) (overlay (written (w_db X) (w_db (snd (f X)))) d2) (Some (c2, now)))"

inductive protected :: "('e, 'a) task \<Rightarrow> bool" where
  protected_hopeless: "hopeless t \<Longrightarrow> protected t"
| protected_Step: "(\<And>X c now. w_tx X = Some (c, now) \<Longrightarrow> uniq (w_db X) \<Longrightarrow>
    hopeless (fst (f X)) \<or> (\<exists>r. commits f X r) \<or> steady l f X c now \<and> protected (fst (f X))) \<Longrightarrow> protected (Step l f)"

inductive_cases protected_StepE: "protected (Step l f)"
inductive_cases protected_AnsweredE: "protected (Answered r)"

lemma protected_stepD: "protected (Step l f) \<Longrightarrow> w_tx X = Some (c, now) \<Longrightarrow> uniq (w_db X) \<Longrightarrow>
    hopeless (fst (f X)) \<or> (\<exists>r. commits f X r) \<or> steady l f X c now \<and> protected (fst (f X))"
  by (elim protected_StepE) (auto elim: hopeless_StepE)

text \<open>A step before the transaction, and the \<open>begin\<close>, whatever the database is.\<close>

definition aside :: "(world \<Rightarrow> 'b \<times> world) \<Rightarrow> world \<Rightarrow> bool" where
  "aside f X \<longleftrightarrow> w_tx (snd (f X)) = None \<and> w_db (snd (f X)) = w_db X \<and> (\<forall>d. replay f X d None d None)"

definition begins :: "(world \<Rightarrow> 'b \<times> world) \<Rightarrow> world \<Rightarrow> bool" where
  "begins f X \<longleftrightarrow> (\<exists>now. w_tx (snd (f X)) = Some (w_db X, now) \<and> w_db (snd (f X)) = w_db X \<and>
     (\<forall>d. replay f X d None d (Some (d, now))))"

inductive unopened :: "('e, 'a) task \<Rightarrow> bool" where
  unopened_hopeless: "hopeless t \<Longrightarrow> unopened t"
| unopened_Step: "(\<And>X. w_tx X = None \<Longrightarrow>
    hopeless (fst (f X)) \<or> aside f X \<and> unopened (fst (f X)) \<or> begins f X \<and> protected (fst (f X))) \<Longrightarrow> unopened (Step l f)"

inductive_cases unopened_StepE: "unopened (Step l f)"
inductive_cases unopened_AnsweredE: "unopened (Answered r)"

section \<open>The invariant of a site\<close>

definition conn_ok :: "world \<Rightarrow> ('e, 'a) conn \<Rightarrow> bool" where
  "conn_ok w c \<longleftrightarrow> tame (fst c) \<and> (case snd c of None \<Rightarrow> True
     | Some x \<Rightarrow> fits (tx_writes x) (w_db w) \<and> set (resources_of (tx_writes x)) \<subseteq> set (tx_locks x))"

definition apart :: "('e, 'a) conn list \<Rightarrow> bool" where
  "apart cs \<longleftrightarrow> (\<forall>i < length cs. \<forall>j < length cs. i \<noteq> j \<longrightarrow> set (locks_of (snd (cs ! i))) \<inter> set (locks_of (snd (cs ! j))) = {})"

definition site_ok :: "('e, 'a) site \<Rightarrow> bool" where
  "site_ok s \<longleftrightarrow> w_tx (fst s) = None \<and> uniq (w_db (fst s)) \<and> (\<forall>c \<in> set (snd s). conn_ok (fst s) c) \<and> apart (snd s)"

lemma more_resources: "set (resources_of (more_writes new own)) \<subseteq> set (resources_of new) \<union> set (resources_of own)"
  by (rule resources_mono) (auto simp: sub_writes_def more_writes_def dest: set_put_all)

lemma seen_by_simps [simp]: "seen_by None w = w" "w_keys (seen_by x w) = w_keys w"
  "w_db (seen_by (Some y) w) = overlay (tx_writes y) (w_db w)" "w_tx (seen_by (Some y) w) = Some (w_db w, tx_now y)"
  by (simp_all add: seen_by_def split: option.split)

lemma fits_no_writes [simp]: "fits no_writes d"
  by (simp add: fits_def no_writes_def)

lemma writes_ok_refl: "uniq d \<Longrightarrow> writes_ok d d"
  by (simp add: writes_ok_def keeps_rows_def)

text \<open>What a step of a connection does, as the four things a statement can be.\<close>

inductive moves :: "resource list \<Rightarrow> world \<Rightarrow> ('e, 'a) conn \<Rightarrow> ('e, 'a) conn \<Rightarrow> world \<Rightarrow> bool" for held w where
  end_tx: "f (seen_by (Some x) w) = (t', v) \<Longrightarrow> w_tx v = None \<Longrightarrow> moves held w (Step l f, Some x) (t', None) v"
| auto_commit: "f w = (t', v) \<Longrightarrow> w_tx v = None \<Longrightarrow> set (l (w_db w) @ resources_of (written (w_db w) (w_db v))) \<inter> set held = {} \<Longrightarrow>
    moves held w (Step l f, None) (t', None) v"
| in_tx: "f (seen_by x w) = (t', v) \<Longrightarrow> w_tx v = Some (c, now) \<Longrightarrow> new = written (w_db (seen_by x w)) (w_db v) \<Longrightarrow>
    wanted = l (w_db (seen_by x w)) @ resources_of new \<Longrightarrow> set wanted \<inter> set held = {} \<Longrightarrow>
    moves held w (Step l f, x)
      (t', Some \<lparr>tx_writes = more_writes new (writes_of x), tx_now = now, tx_locks = locks_of x @ wanted\<rparr>)
      (v\<lparr>w_db := w_db w, w_tx := None\<rparr>)"

inductive_cases moves_NoneE [consumes 1, case_names auto_commit in_tx]: "moves held w (Step l f, None) c' w'"
inductive_cases moves_SomeE [consumes 1, case_names end_tx in_tx]: "moves held w (Step l f, Some x) c' w'"
inductive_cases moves_StepE: "moves held w (Step l f, x) c' w'"

lemma conn_step_moves: "conn_step held w c = Some (c', w') \<Longrightarrow> moves held w c c' w'"
  unfolding conn_step_def
  by (auto simp: Let_def list_ex_iff disjoint_iff split: prod.splits task.splits if_splits option.splits
      intro: moves.intros)

text \<open>It keeps the connection in order, and gives any other connection, whose locks are \<open>L\<close>, no more than \<open>env\<close> to see.\<close>

definition orderly :: "resource list \<Rightarrow> world \<Rightarrow> ('e, 'a) conn \<Rightarrow> ('e, 'a) conn \<Rightarrow> world \<Rightarrow> bool" where
  "orderly held w c c' w' \<longleftrightarrow> w_tx w' = None \<and> w_keys w' = w_keys w \<and> uniq (w_db w') \<and> conn_ok w' c' \<and>
     (\<forall>L. set L \<subseteq> set held \<longrightarrow> set (locks_of (snd c)) \<inter> set L = {} \<longrightarrow>
        env L (w_db w) (w_db w') \<and> set (locks_of (snd c')) \<inter> set L = {})"

lemma moves_end:
  assumes "tame (Step l f)" "fits (tx_writes x) (w_db w)" "set (resources_of (tx_writes x)) \<subseteq> set (tx_locks x)" "uniq (w_db w)"
    and "f (seen_by (Some x) w) = (t', v)" "w_tx v = None"
  shows "orderly held w (Step l f, Some x) (t', None) v"
proof -
  from tame_stepD [OF assms(1,5)] have f: "effect_ok (seen_by (Some x) w) v" "tame t'" by auto
  then have db: "w_db v = overlay (tx_writes x) (w_db w) \<or> w_db v = w_db w" using assms(6) by (simp add: effect_ok_def)
  have "env L (w_db w) (w_db v)" if "set (tx_locks x) \<inter> set L = {}" for L
  proof -
    have "set (resources_of (tx_writes x)) \<inter> set L = {}" using assms(3) that by blast
    with db fits_env [OF assms(2,4) this] env_refl [OF assms(4), of L] show ?thesis by metis
  qed
  then show ?thesis
    using f db fits_uniq [OF assms(2,4)] assms(4,6) by (auto simp: orderly_def conn_ok_def locks_of_def effect_ok_def)
qed

lemma moves_auto:
  assumes "tame (Step l f)" "w_tx w = None" "uniq (w_db w)" "f w = (t', v)" "w_tx v = None"
    and free: "set (l (w_db w) @ resources_of (written (w_db w) (w_db v))) \<inter> set held = {}"
  shows "orderly held w (Step l f, None) (t', None) v"
proof -
  from tame_stepD [OF assms(1,4)] have f: "effect_ok w v" "tame t'" by auto
  then have ok: "writes_ok (w_db w) (w_db v)" using assms(2,3,5) by (simp add: effect_ok_def)
  have "env L (w_db w) (w_db v)" if "set L \<subseteq> set held" for L
    by (rule writes_ok_env [OF ok]) (use that free in auto)
  then show ?thesis
    using f ok assms(5) by (simp add: orderly_def conn_ok_def locks_of_def effect_ok_def writes_ok_def)
qed

lemma moves_in:
  assumes "conn_ok w (Step l f, x)" "w_tx w = None" "uniq (w_db w)" "f (seen_by x w) = (t', v)" "w_tx v = Some (k, now)"
    and free: "set (l (w_db (seen_by x w)) @ resources_of (written (w_db (seen_by x w)) (w_db v))) \<inter> set held = {}"
  shows "orderly held w (Step l f, x)
      (t', Some \<lparr>tx_writes = more_writes (written (w_db (seen_by x w)) (w_db v)) (writes_of x), tx_now = now,
         tx_locks = locks_of x @ l (w_db (seen_by x w)) @ resources_of (written (w_db (seen_by x w)) (w_db v))\<rparr>)
      (v\<lparr>w_db := w_db w, w_tx := None\<rparr>)"
proof -
  let ?v = "w_db (seen_by x w)" and ?own = "writes_of x"
  have view: "?v = overlay ?own (w_db w)" and own: "fits ?own (w_db w)" "set (resources_of ?own) \<subseteq> set (locks_of x)"
    using assms(1) by (auto simp: writes_of_def locks_of_def conn_ok_def split: option.splits)
  have "tame (Step l f)" using assms(1) by (simp add: conn_ok_def)
  from tame_stepD [OF this assms(4)] have f: "effect_ok (seen_by x w) v" "tame t'" by auto
  have "uniq ?v" unfolding view by (rule fits_uniq [OF own(1) assms(3)])
  then have "writes_ok ?v (w_db v)"
    using f(1) assms(2,5) by (cases x) (auto simp: effect_ok_def intro: writes_ok_refl)
  then have "fits (more_writes (written ?v (w_db v)) ?own) (w_db w)"
    unfolding view by (rule fits_more [OF own(1) assms(3)])
  moreover have "set (resources_of (more_writes (written ?v (w_db v)) ?own)) \<subseteq> set (locks_of x @ l ?v @ resources_of (written ?v (w_db v)))"
    using more_resources [of "written ?v (w_db v)" ?own] own(2) by auto
  moreover have "set (locks_of x @ l ?v @ resources_of (written ?v (w_db v))) \<inter> set L = {}"
    if "set L \<subseteq> set held" "set (locks_of x) \<inter> set L = {}" for L
    using that free by auto
  ultimately show ?thesis
    using f assms(3) env_refl [OF assms(3)] by (simp add: orderly_def conn_ok_def locks_of_def [of "Some _"] effect_ok_def)
qed

lemma conn_step_orderly:
  assumes "conn_step held w c = Some (c', w')" "w_tx w = None" "uniq (w_db w)" "conn_ok w c"
  shows "orderly held w c c' w'"
  using conn_step_moves [OF assms(1)]
proof cases
  case (end_tx f x t' l)
  with assms show ?thesis by (auto simp: conn_ok_def intro: moves_end)
next
  case (auto_commit f t' l)
  with assms show ?thesis by (auto simp: conn_ok_def intro!: moves_auto)
next
  case (in_tx f x t' v k now new wanted l)
  with assms show ?thesis using moves_in [of w l f x t' v k now held] by simp
qed

text \<open>The invariant is kept, and what another connection sees of a step is bounded by its locks.\<close>

lemma held_by_others_set: "j < length cs \<Longrightarrow> j \<noteq> i \<Longrightarrow> set (locks_of (snd (cs ! j))) \<subseteq> set (held_by_others i cs)"
  by (auto simp: held_by_others_def)

lemma apart_step:
  assumes "apart cs" "\<And>j. j < length cs \<Longrightarrow> j \<noteq> i \<Longrightarrow> set (locks_of (snd c')) \<inter> set (locks_of (snd (cs ! j))) = {}"
  shows "apart (cs[i := c'])"
  unfolding apart_def
proof (intro allI impI)
  fix j k assume "j < length (cs[i := c'])" "k < length (cs[i := c'])" "j \<noteq> k"
  with assms(2) [of j] assms(2) [of k] assms(1)
  show "set (locks_of (snd (cs[i := c'] ! j))) \<inter> set (locks_of (snd (cs[i := c'] ! k))) = {}"
    by (cases "j = i"; cases "k = i") (simp_all add: apart_def Int_commute)
qed

lemma site_step_ok:
  assumes "site_ok s" "site_step i s = Some s'"
  shows "site_ok s'" "w_keys (fst s') = w_keys (fst s)" "length (snd s') = length (snd s)"
    and "env [] (w_db (fst s)) (w_db (fst s'))"
    and "\<And>j. j < length (snd s) \<Longrightarrow> j \<noteq> i \<Longrightarrow> snd s' ! j = snd s ! j \<and> env (locks_of (snd (snd s ! j))) (w_db (fst s)) (w_db (fst s'))"
proof -
  obtain w cs where s: "s = (w, cs)" by (cases s)
  with assms(2) obtain c' w' where i: "i < length cs" "conn_step (held_by_others i cs) w (cs ! i) = Some (c', w')" "s' = (w', cs[i := c'])"
    by (auto simp: site_step_def split: if_splits)
  have ok: "w_tx w = None" "uniq (w_db w)" "\<And>c. c \<in> set cs \<Longrightarrow> conn_ok w c" "apart cs"
    using assms(1) by (simp_all add: s site_ok_def)
  have o: "orderly (held_by_others i cs) w (cs ! i) c' w'"
    by (rule conn_step_orderly [OF i(2) ok(1,2)]) (simp add: ok(3) i(1))
  have see: "env (locks_of (snd (cs ! j))) (w_db w) (w_db w') \<and> set (locks_of (snd c')) \<inter> set (locks_of (snd (cs ! j))) = {}"
    if j: "j < length cs" "j \<noteq> i" for j
    using o held_by_others_set [OF j] ok(4) j i(1) by (simp add: orderly_def apart_def)
  have "conn_ok w' (cs ! j)" if j: "j < length cs" "j \<noteq> i" for j
    using see [OF j] ok(2) ok(3) [OF nth_mem [OF j(1)]]
    by (auto simp: conn_ok_def locks_of_def split: option.splits intro: fits_stable)
  moreover have "conn_ok w' c'" using o by (simp add: orderly_def)
  ultimately have "conn_ok w' (cs[i := c'] ! j)" if "j < length cs" for j
    using that by (cases "j = i") simp_all
  then have "\<forall>c \<in> set (cs[i := c']). conn_ok w' c" by (simp add: all_set_conv_all_nth)
  moreover have "apart (cs[i := c'])"
    by (rule apart_step [OF ok(4)]) (use see in blast)
  ultimately show "site_ok s'" using o by (simp add: i(3) site_ok_def orderly_def)
  show "w_keys (fst s') = w_keys (fst s)" "length (snd s') = length (snd s)" using o by (simp_all add: s i(3) orderly_def)
  have "\<forall>L. set L \<subseteq> set (held_by_others i cs) \<longrightarrow> set (locks_of (snd (cs ! i))) \<inter> set L = {} \<longrightarrow> env L (w_db w) (w_db w')"
    using o by (simp add: orderly_def)
  then show "env [] (w_db (fst s)) (w_db (fst s'))" by (auto simp: s i(3))
  show "snd s' ! j = snd s ! j \<and> env (locks_of (snd (snd s ! j))) (w_db (fst s)) (w_db (fst s'))" if "j < length (snd s)" "j \<noteq> i" for j
    using see that by (simp add: s i(3))
qed

section \<open>Taking effect\<close>

text \<open>Connection \<open>i\<close> took effect with the answer \<open>r\<close>: one of its steps changed the committed database as the whole request,
  alone, does from the same database, with that answer.\<close>

definition took_effect :: "('e, 'a) site \<Rightarrow> nat list \<Rightarrow> nat \<Rightarrow> 'e + 'a \<Rightarrow> bool" where
  "took_effect s0 sched i r \<longleftrightarrow> (\<exists>before later s s'. sched = before @ i # later \<and>
     run_site before s0 = Some s \<and> site_step i s = Some s' \<and>
     (\<exists>v v'. w_db v = w_db (fst s) \<and> w_tx v = None \<and> w_keys v = w_keys (fst s) \<and>
        run (fst (snd s0 ! i)) v = Some (r, v') \<and> w_db v' = w_db (fst s')))"

lemma took_effect_later: "took_effect s0 sched i r \<Longrightarrow> took_effect s0 (sched @ rest) i r"
  unfolding took_effect_def by (metis append_Cons append_assoc)

text \<open>Where a protected request is, at a site whose committed database is \<open>d\<close>.\<close>

definition on_track :: "signing_keys_set \<Rightarrow> ('e, 'a) task \<Rightarrow> db \<Rightarrow> ('e, 'a) conn \<Rightarrow> bool" where
  "on_track K t0 d c \<longleftrightarrow> (case snd c of
       None \<Rightarrow> unopened (fst c) \<and> (\<forall>d. may K t0 d None (fst c) d None)
     | Some x \<Rightarrow> protected (fst c) \<and>
         (\<forall>d'. env (tx_locks x) d d' \<longrightarrow> may K t0 d' None (fst c) (overlay (tx_writes x) d') (Some (d', tx_now x))))"

definition progress :: "('e, 'a) site \<Rightarrow> nat list \<Rightarrow> nat \<Rightarrow> ('e, 'a) site \<Rightarrow> bool" where
  "progress s0 sched i s \<longleftrightarrow> hopeless (fst (snd s ! i)) \<or>
     on_track (w_keys (fst s0)) (fst (snd s0 ! i)) (w_db (fst s)) (snd s ! i) \<or>
     snd (snd s ! i) = None \<and> (\<exists>r. closing (fst (snd s ! i)) r \<and> took_effect s0 sched i r)"

lemma on_track_env: "on_track K t0 d c \<Longrightarrow> env (locks_of (snd c)) d d' \<Longrightarrow> on_track K t0 d' c"
  by (auto simp: on_track_def locks_of_def split: option.splits intro: env_trans)

text \<open>From the end of a closing request back: alone, it answers what was settled at the commit.\<close>

lemma closing_run: "closing t r \<Longrightarrow> w_tx w = None \<Longrightarrow> \<exists>w'. run t w = Some (r, w') \<and> w_db w' = w_db w"
proof (induction arbitrary: w rule: closing.induct)
  case (closing_Step f r l)
  from closing_Step(1) [OF closing_Step.prems] closing_Step(3) [of "snd (f w)" w] show ?case
    by (auto simp: case_prod_beta)
qed simp

lemma overlay_more: "overlay (more_writes new own) d = overlay new (overlay own d)"
  by (simp add: overlay_def more_writes_def put_put)

text \<open>A step before the transaction.\<close>

lemma unopened_moves:
  assumes "moves held w (Step l f, None) c' w'" "w_tx w = None" "w_keys w = K"
    and "unopened (Step l f)" "\<And>d. may K t0 d None (Step l f) d None"
  shows "hopeless (fst c') \<or> on_track K t0 (w_db w') c'"
proof -
  have rest: "hopeless (fst (f w)) \<or> aside f w \<and> unopened (fst (f w)) \<or> begins f w \<and> protected (fst (f w))"
    using assms(4,2) by (auto elim: unopened_StepE hopeless_StepE)
  have may: "may K t0 d None (fst (f w)) d' x'" if "replay f w d None d' x'" for d d' x'
    by (rule may_replay [OF assms(5) that assms(3)])
  from assms(1) show ?thesis
  proof (cases rule: moves_NoneE)
    case (auto_commit t' )
    with rest may show ?thesis by (auto simp: aside_def begins_def on_track_def)
  next
    case (in_tx t' v k now)
    with rest may show ?thesis by (auto simp: aside_def begins_def on_track_def writes_of_def)
  qed
qed

text \<open>A statement of the transaction, and its end.\<close>

lemma protected_moves:
  assumes "moves held w (Step l f, Some x) c' w'" "uniq (w_db w)" "w_keys w = K" "tame t0"
    and fit: "fits (tx_writes x) (w_db w)" "set (resources_of (tx_writes x)) \<subseteq> set (tx_locks x)"
    and track: "protected (Step l f)"
      "\<And>d. env (tx_locks x) (w_db w) d \<Longrightarrow> may K t0 d None (Step l f) (overlay (tx_writes x) d) (Some (d, tx_now x))"
  shows "hopeless (fst c') \<or> on_track K t0 (w_db w') c' \<or>
    (\<exists>r v v'. c' = (fst c', None) \<and> closing (fst c') r \<and> w_db v = w_db w \<and> w_tx v = None \<and> w_keys v = K \<and>
      run t0 v = Some (r, v') \<and> w_db v' = w_db w')"
proof -
  let ?X = "seen_by (Some x) w"
  have "uniq (w_db ?X)" using fits_uniq [OF fit(1) assms(2)] by simp
  then have rest: "hopeless (fst (f ?X)) \<or> (\<exists>r. commits f ?X r) \<or> steady l f ?X (w_db w) (tx_now x) \<and> protected (fst (f ?X))"
    using protected_stepD [OF track(1), of ?X "w_db w" "tx_now x"] by simp
  have keys: "w_keys ?X = K" using assms(3) by simp
  from assms(1) show ?thesis
  proof (cases rule: moves_SomeE)
    case (end_tx t')
    show ?thesis
    proof (cases "hopeless t'")
      case False
      with rest end_tx obtain r where r: "closing t' r" "w_db w' = w_db ?X" by (auto simp: commits_def steady_def)
      have here: "may K t0 (w_db w) None t' (w_db w') None"
        using may_step [OF _ keys, of t0 "w_db w" None l f] track(2) [OF env_refl [OF assms(2)]] end_tx by simp
      have "w_keys w' = K"
        using may_run [OF track(2) [OF env_refl [OF assms(2)]] assms(4)] tame_stepD [of l f ?X t' w'] end_tx keys by (simp add: effect_ok_def)
      with may_run [OF here assms(4)] end_tx obtain v where
        v: "w_db v = w_db w" "w_tx v = None" "w_keys v = K" "run t0 v = run t' w'" by blast
      moreover obtain v' where "run t' w' = Some (r, v')" "w_db v' = w_db w'" using closing_run [OF r(1)] end_tx by blast
      ultimately show ?thesis using r(1) end_tx by auto
    qed (use end_tx in simp)
  next
    case (in_tx t' v k now)
    let ?new = "written (w_db ?X) (w_db v)"
    let ?wanted = "l (w_db ?X) @ resources_of ?new"
    show ?thesis
    proof (cases "hopeless t'")
      case False
      with rest in_tx have st: "steady l f ?X (w_db w) (tx_now x)" "protected t'" "now = tx_now x" by (auto simp: commits_def steady_def)
      have "may K t0 d None t' (overlay (more_writes ?new (tx_writes x)) d) (Some (d, tx_now x))"
        if d: "env (tx_locks x @ ?wanted) (w_db w) d" for d
      proof -
        have "env (tx_locks x @ ?wanted) (w_db ?X) (overlay (tx_writes x) d)"
          using overlay_env [OF d fit(1) assms(2)] fit(2) by auto
        then have "env ?wanted (w_db ?X) (overlay (tx_writes x) d)" by (rule env_less) simp
        then have "replay f ?X (overlay (tx_writes x) d) (Some (d, tx_now x)) (overlay ?new (overlay (tx_writes x) d)) (Some (d, tx_now x))"
          using st(1) in_tx by (simp add: steady_def)
        from may_replay [OF track(2) [OF env_less [OF d]] this keys] in_tx show ?thesis by (simp add: overlay_more)
      qed
      with st in_tx show ?thesis by (simp add: on_track_def writes_of_def locks_of_def)
    qed (use in_tx in simp)
  qed
qed

lemma progress_own:
  assumes "site_ok s" "i < length (snd s)" "site_step i s = Some s'" "run_site sched s0 = Some s"
    and "tame (fst (snd s0 ! i))" "w_keys (fst s) = w_keys (fst s0)" "progress s0 sched i s"
  shows "progress s0 (sched @ [i]) i s'"
proof -
  let ?K = "w_keys (fst s0)" and ?t0 = "fst (snd s0 ! i)"
  obtain w cs where s: "s = (w, cs)" by (cases s)
  with assms(2,3) obtain c' w' where step: "conn_step (held_by_others i cs) w (cs ! i) = Some (c', w')" "s' = (w', cs[i := c'])"
    by (auto simp: site_step_def)
  obtain t x where c: "cs ! i = (t, x)" by (cases "cs ! i")
  from conn_step_moves [OF step(1)] have m: "moves (held_by_others i cs) w (t, x) c' w'" by (simp add: c)
  then obtain l f where t: "t = Step l f" by (auto elim: moves.cases)
  have ok: "w_tx w = None" "uniq (w_db w)" "conn_ok w (cs ! i)" "w_keys w = ?K" using assms(1,2,6) by (simp_all add: s site_ok_def)
  have i': "snd s' ! i = c'" "fst s' = w'" using assms(2) by (simp_all add: s step(2))
  have "hopeless t \<or> on_track ?K ?t0 (w_db w) (t, x) \<or> x = None \<and> (\<exists>r. closing t r \<and> took_effect s0 sched i r)"
    using assms(7) by (simp add: progress_def s c)
  then consider "hopeless t" | "x = None" "on_track ?K ?t0 (w_db w) (t, x)" | y where "x = Some y" "on_track ?K ?t0 (w_db w) (t, x)"
    | r where "x = None" "closing t r" "took_effect s0 sched i r" by (cases x) auto
  then show ?thesis
  proof cases
    case 1
    with m have "hopeless (fst c')" by (auto simp: t elim!: moves_StepE hopeless_StepE) (metis fst_conv)+
    then show ?thesis by (simp add: progress_def i')
  next
    case 2
    with unopened_moves [of _ w l f c' w' ?K ?t0] m ok show ?thesis by (auto simp: t progress_def i' on_track_def)
  next
    case (3 y)
    have "fits (tx_writes y) (w_db w)" "set (resources_of (tx_writes y)) \<subseteq> set (tx_locks y)"
      using ok(3) by (simp_all add: c 3(1) conn_ok_def)
    from protected_moves [OF m [unfolded t 3(1)] ok(2,4) assms(5) this] 3 consider "hopeless (fst c')" | "on_track ?K ?t0 (w_db w') c'"
      | r v v' where "snd c' = None" "closing (fst c') r" "w_db v = w_db w" "w_tx v = None" "w_keys v = ?K" "run ?t0 v = Some (r, v')" "w_db v' = w_db w'"
      by (auto simp: t on_track_def dest: arg_cong [where f = snd])
    then show ?thesis
    proof cases
      case (3 r v v')
      then have "took_effect s0 (sched @ [i]) i r"
        unfolding took_effect_def using assms(3,4,6) by (intro exI [of _ sched] exI [of _ "[]"] exI [of _ s] exI [of _ s']) (auto simp: s i')
      with 3 show ?thesis by (auto simp: progress_def i')
    qed (simp_all add: progress_def i')
  next
    case (4 r)
    then have v: "w_tx (snd (f w)) = None" "closing (fst (f w)) r" using ok(1) by (auto simp: t elim: closing_StepE)
    with m 4(1) have "c' = (fst (f w), None)" by (auto simp: t elim!: moves_StepE)
    with v took_effect_later [OF 4(3), of "[i]"] show ?thesis by (auto simp: progress_def i')
  qed
qed

lemma open_site_ok: "w_tx w = None \<Longrightarrow> uniq (w_db w) \<Longrightarrow> (\<And>t. t \<in> set ts \<Longrightarrow> tame t) \<Longrightarrow> site_ok (open_site w ts)"
  by (auto simp: site_ok_def open_site_def conn_ok_def apart_def locks_of_def)

lemma progress_other:
  assumes "site_ok s" "i < length (snd s)" "site_step j s = Some s'" "j \<noteq> i" "progress s0 sched i s"
  shows "progress s0 (sched @ [j]) i s'"
  using site_step_ok(5) [OF assms(1,3,2)] assms(4,5) took_effect_later [of s0 sched i _ "[j]"]
  by (auto simp: progress_def intro: on_track_env)

lemma site_progress:
  assumes "w_tx w = None" "uniq (w_db w)" "\<And>t. t \<in> set ts \<Longrightarrow> tame t" "i < length ts" "unopened (ts ! i)"
    and "run_site sched (open_site w ts) = Some s"
  shows "site_ok s \<and> w_keys (fst s) = w_keys w \<and> length (snd s) = length ts \<and> progress (open_site w ts) sched i s"
  using assms(6)
proof (induction sched arbitrary: s rule: rev_induct)
  case Nil
  then have "s = open_site w ts" by simp
  moreover have "progress (open_site w ts) [] i (open_site w ts)"
    using assms(4,5) by (simp add: progress_def on_track_def open_site_def may_start)
  ultimately show ?case using open_site_ok [OF assms(1,2)] assms(3) by (auto simp: open_site_def)
next
  case (snoc j sched)
  then obtain r where r: "run_site sched (open_site w ts) = Some r" "site_step j r = Some s"
    by (auto simp: run_site_append split: option.splits bind_splits)
  from snoc.IH [OF r(1)] have IH: "site_ok r" "w_keys (fst r) = w_keys w" "length (snd r) = length ts"
    "progress (open_site w ts) sched i r" by auto
  have start: "tame (fst (snd (open_site w ts) ! i))" "w_keys (fst r) = w_keys (fst (open_site w ts))"
    using assms(3,4) IH(2) by (simp_all add: open_site_def)
  have "progress (open_site w ts) (sched @ [j]) i s"
  proof (cases "j = i")
    case True
    show ?thesis unfolding True
      by (rule progress_own [OF IH(1) _ r(2) [unfolded True] r(1) start IH(4)]) (simp add: IH(3) assms(4))
  next
    case False
    show ?thesis by (rule progress_other [OF IH(1) _ r(2) False IH(4)]) (simp add: IH(3) assms(4))
  qed
  then show ?case using site_step_ok(1-3) [OF IH(1) r(2)] IH(2,3) by simp
qed

theorem protected_takes_effect:
  assumes "w_tx w = None" "uniq (w_db w)" "\<And>t. t \<in> set ts \<Longrightarrow> tame t" "i < length ts" "unopened (ts ! i)"
    and "run_site sched (open_site w ts) = Some s" "answer_of i s = Some (Inr a)"
  shows "took_effect (open_site w ts) sched i (Inr a)"
proof -
  have t: "fst (snd s ! i) = Answered (Inr a)" using assms(7) by (auto simp: answer_of_def split: task.splits)
  have "\<not> hopeless (Answered (Inr a))" "\<not> unopened (Answered (Inr a))" "\<not> protected (Answered (Inr a))"
    by (auto elim: hopeless_AnsweredE unopened_AnsweredE protected_AnsweredE)
  with site_progress [OF assms(1-6)] t show ?thesis
    by (auto simp: progress_def on_track_def split: option.splits elim: closing_AnsweredE)
qed

text \<open>Along a run, codes are only consumed and rows only added.\<close>

lemma site_run_env:
  assumes "run_site sched s = Some s'" "site_ok s"
  shows "site_ok s' \<and> env [] (w_db (fst s)) (w_db (fst s'))"
  using assms
proof (induction sched arbitrary: s)
  case Nil
  then show ?case by (simp add: site_ok_def env_refl)
next
  case (Cons i sched)
  then obtain r where r: "site_step i s = Some r" "run_site sched r = Some s'" by (auto split: option.splits)
  from site_step_ok(1,4) [OF Cons.prems(2) r(1)] Cons.IH [OF r(2)] show ?case by (auto intro: env_trans)
qed

section \<open>Answers wrapped\<close>

text \<open>Changing the answer of a request changes nothing else.\<close>

lemma closing_map: "closing t r \<Longrightarrow> closing (after t (\<lambda>r. Answered (f r))) (f r)"
proof (induction rule: closing.induct)
  case (closing_Step f' r l)
  then show ?case by (auto simp: case_prod_beta intro!: closing.closing_Step)
qed (simp add: closing_Answered)

lemma hopeless_map: "hopeless t \<Longrightarrow> (\<And>e. \<exists>e'. f (Inl e) = Inl e') \<Longrightarrow> hopeless (after t (\<lambda>r. Answered (f r)))"
proof (induction rule: hopeless.induct)
  case (hopeless_Inl e)
  then obtain e' where "f (Inl e) = Inl e'" by blast
  then show ?case by (simp add: hopeless.hopeless_Inl)
qed (auto simp: case_prod_beta intro: hopeless.intros)

lemma replay_map: "replay g X d x d' x' \<Longrightarrow> replay (\<lambda>w. case g w of (t, w') \<Rightarrow> (h t, w')) X d x d' x'"
  by (auto simp: replay_def case_prod_beta)

lemma protected_map: "protected t \<Longrightarrow> (\<And>e. \<exists>e'. f (Inl e) = Inl e') \<Longrightarrow> protected (after t (\<lambda>r. Answered (f r)))"
proof (induction rule: protected.induct)
  case (protected_hopeless t)
  from hopeless_map [of t f, OF protected_hopeless] show ?case by (rule protected.protected_hopeless)
next
  case (protected_Step g l)
  let ?g = "\<lambda>w. case g w of (t, w') \<Rightarrow> (after t (\<lambda>r. Answered (f r)), w')"
  have "hopeless (fst (?g X)) \<or> (\<exists>r. commits ?g X r) \<or> steady l ?g X c now \<and> protected (fst (?g X))"
    if X: "w_tx X = Some (c, now)" "uniq (w_db X)" for X c now
    using protected_Step.IH [OF X] protected_Step.prems
  proof (elim disjE exE conjE)
    fix r assume "commits g X r"
    then have "commits ?g X (f r)" by (auto simp: commits_def case_prod_beta intro: closing_map)
    then show ?thesis by blast
  qed (auto simp: case_prod_beta steady_def intro: hopeless_map replay_map [unfolded case_prod_beta])
  then show ?case by (simp add: protected.protected_Step)
qed

lemma unopened_map: "unopened t \<Longrightarrow> (\<And>e. \<exists>e'. f (Inl e) = Inl e') \<Longrightarrow> unopened (after t (\<lambda>r. Answered (f r)))"
proof (induction rule: unopened.induct)
  case (unopened_hopeless t)
  from hopeless_map [of t f, OF unopened_hopeless] show ?case by (rule unopened.unopened_hopeless)
next
  case (unopened_Step g l)
  let ?g = "\<lambda>w. case g w of (t, w') \<Rightarrow> (after t (\<lambda>r. Answered (f r)), w')"
  have "hopeless (fst (?g X)) \<or> aside ?g X \<and> unopened (fst (?g X)) \<or> begins ?g X \<and> protected (fst (?g X))"
    if X: "w_tx X = None" for X
  proof -
    have again: "replay g X d x d' x' \<Longrightarrow> replay ?g X d x d' x'" for d x d' x' by (rule replay_map)
    have fst: "fst (?g X) = after (fst (g X)) (\<lambda>r. Answered (f r))" "snd (?g X) = snd (g X)" by (simp_all add: case_prod_beta)
    from unopened_Step.IH [OF X] unopened_Step.prems consider "hopeless (fst (g X))" | "begins g X" "protected (fst (g X))"
      | "aside g X" "unopened (after (fst (g X)) (\<lambda>r. Answered (f r)))" by blast
    then show ?thesis
    proof cases
      case 1
      then show ?thesis unfolding fst using hopeless_map unopened_Step.prems by blast
    next
      case 2
      then have "begins ?g X" "protected (fst (?g X))"
        unfolding begins_def fst using again protected_map unopened_Step.prems by blast+
      then show ?thesis by blast
    next
      case 3
      then have "aside ?g X" "unopened (fst (?g X))" unfolding aside_def fst using again by blast+
      then show ?thesis by blast
    qed
  qed
  then show ?case by (simp add: unopened.unopened_Step)
qed

end
