(* ===== verification/TokenSerial.thy ===== *)
theory TokenSerial
  imports TokenTasks Protected
begin

text \<open>
  The token endpoint on a site. Every request of it is tame: its statements add rows or change rows in place. The
  exchange of an authorization code is protected: between its first statement, which locks the row of the code, and
  its commit, no other request of the endpoint can change what it read. Theory \<open>Exchanges\<close> draws the consequences.
\<close>

section \<open>Building tame requests\<close>

named_theorems tamed \<open>tame requests\<close>

lemma tame_after:
  assumes "tame t" "\<And>r. tame (k r)"
  shows "tame (after t k)"
  using assms(1)
proof induction
  case (tame_Step f l)
  have "rewinds (\<lambda>w. case f w of (t, w') \<Rightarrow> (after t k, w'))"
    using tame_Step.hyps(2) by (auto simp: rewinds_def case_prod_beta) (metis fst_conv snd_conv)
  with tame_Step.hyps(1) tame_Step.IH show ?case by (auto simp: case_prod_beta intro: tame.tame_Step)
qed (simp_all add: assms(2) tame_Never)

text \<open>A computation that is one step: it returns, does what a step may do, and can be rewound.\<close>

definition prim_ok :: "('e, 'a) req \<Rightarrow> bool" where
  "prim_ok m \<longleftrightarrow> (\<forall>X. \<exists>r w. m X = Some (r, w) \<and> effect_ok X w \<and>
     (\<forall>Y. same_data w Y \<longrightarrow> (\<exists>X0. same_data X X0 \<and> m X0 = Some (r, Y))))"

lemma prim_okD: "prim_ok m \<Longrightarrow> \<exists>r w. m X = Some (r, w) \<and> effect_ok X w \<and>
    (\<forall>Y. same_data w Y \<longrightarrow> (\<exists>X0. same_data X X0 \<and> m X0 = Some (r, Y)))"
  by (simp add: prim_ok_def)

lemma tame_locking:
  assumes "prim_ok m"
  shows "tame (locking l m)"
proof -
  define f where "f w = (case m w of None \<Rightarrow> (Never, w) | Some (r, w') \<Rightarrow> (Answered r, w'))" for w
  have f: "m X = Some (r, w) \<Longrightarrow> f X = (Answered r, w)" for X r w by (simp add: f_def)
  have "effect_ok X (snd (f X)) \<and> tame (fst (f X))" for X
    using prim_okD [OF assms, of X] by (auto simp: f intro: tame_Answered)
  moreover have "rewinds f"
    unfolding rewinds_def
  proof (intro allI impI)
    fix X Y assume Y: "same_data (snd (f X)) Y"
    from prim_okD [OF assms, of X] obtain r w where r: "m X = Some (r, w)" "\<And>Y. same_data w Y \<Longrightarrow> \<exists>X0. same_data X X0 \<and> m X0 = Some (r, Y)"
      by blast
    with Y r(2) [of Y] obtain X0 where "same_data X X0" "m X0 = Some (r, Y)" by (auto simp: f)
    with r(1) show "\<exists>X0. same_data X X0 \<and> f X0 = (fst (f X), Y)" by (auto simp: f)
  qed
  ultimately have "tame (Step l f)" by (auto intro: tame_Step)
  then show ?thesis by (simp add: locking_def f_def [abs_def])
qed

lemma tame_one [tamed]: "prim_ok m \<Longrightarrow> tame (one m)"
  by (simp add: one_def tame_locking)

lemma tame_then [tamed]: "tame t \<Longrightarrow> (\<And>a. tame (k a)) \<Longrightarrow> tame (t_then t k)"
  unfolding t_then_def by (rule tame_after) (auto intro: tame_Answered split: sum.split)

lemma tame_map_err [tamed]: "tame t \<Longrightarrow> tame (t_map_err g t)"
  unfolding t_map_err_def by (erule tame_after) (rule tame_Answered)

lemma tame_const [tamed]: "tame (t_ok a)" "tame (t_err e)" "tame (t_ok_or x e)"
  by (auto simp: t_ok_def t_err_def t_ok_or_def intro: tame_Answered split: option.split)

lemma tame_cases [tamed]: "tame t \<Longrightarrow> tame u \<Longrightarrow> tame (if b then t else u)"
  "tame t \<Longrightarrow> (\<And>a. tame (f a)) \<Longrightarrow> tame (case x of None \<Rightarrow> t | Some a \<Rightarrow> f a)"
  by (simp_all split: option.split)

definition settle :: "'e + 'a \<Rightarrow> ('e, 'a) task" where
  "settle r = Step (\<lambda>_. []) (\<lambda>w. (Answered r, drop_tx w))"

lemma t_scoped_settle: "t_scoped t = after t settle"
  by (simp add: t_scoped_def settle_def [abs_def])

lemma tame_settle: "tame (settle r)"
  unfolding settle_def
proof (rule tame_Step)
  show "effect_ok X (snd (Answered r, drop_tx X))" for X
    by (cases "w_tx X") (auto simp: effect_ok_def writes_ok_refl w_db_drop_tx split: prod.split)
  show "rewinds (\<lambda>w. (Answered r, drop_tx w))"
    unfolding rewinds_def
  proof (intro allI impI)
    fix X Y assume "same_data (snd (Answered r, drop_tx X)) Y"
    then have Y: "same_data (drop_tx X) Y" by simp
    then have "drop_tx (Y\<lparr>w_db := w_db X, w_tx := w_tx X\<rparr>) = Y"
      by (cases "w_tx X") (auto simp: drop_tx_def same_data_def)
    with Y show "\<exists>X0. same_data X X0 \<and> (Answered r, drop_tx X0) = (fst (Answered r, drop_tx X), Y)"
      by (intro exI [of _ "Y\<lparr>w_db := w_db X, w_tx := w_tx X\<rparr>"]) (simp add: same_data_def)
  qed
qed (simp add: tame_Answered)

lemma tame_scoped [tamed]: "tame t \<Longrightarrow> tame (t_scoped t)"
  unfolding t_scoped_settle by (erule tame_after) (rule tame_settle)

section \<open>The steps of the token endpoint\<close>

lemma prim_map_err:
  assumes "prim_ok m"
  shows "prim_ok (map_err g m)"
  unfolding prim_ok_def
proof
  fix X
  from prim_okD [OF assms, of X] obtain r w where r: "m X = Some (r, w)" "effect_ok X w"
    "\<And>Y. same_data w Y \<Longrightarrow> \<exists>X0. same_data X X0 \<and> m X0 = Some (r, Y)" by blast
  have "map_err g m Z = Some (map_sum g id r, Y)" if "m Z = Some (r, Y)" for Z Y
    using that by (simp add: map_err_def)
  with r show "\<exists>r w. map_err g m X = Some (r, w) \<and> effect_ok X w \<and>
      (\<forall>Y. same_data w Y \<longrightarrow> (\<exists>X0. same_data X X0 \<and> map_err g m X0 = Some (r, Y)))" by meson
qed

text \<open>A stream given back the value that was taken from it.\<close>

definition give_back :: "nat \<Rightarrow> (nat \<Rightarrow> 'a) \<Rightarrow> (nat \<Rightarrow> 'a) \<Rightarrow> nat \<Rightarrow> 'a" where
  "give_back n old new = (\<lambda>i. if i < n then old i else new (i - n))"

lemma give_back_simps [simp]: "i < n \<Longrightarrow> give_back n old new i = old i" "shift n (give_back n old new) = new"
  by (auto simp: give_back_def shift_def fun_eq_iff)

lemma effect_same: "w_db Y = w_db X \<Longrightarrow> w_tx Y = w_tx X \<Longrightarrow> w_keys Y = w_keys X \<Longrightarrow> effect_ok X Y"
  by (auto simp: effect_ok_def writes_ok_refl split: option.split)

text \<open>A step that only reads supplies: it gives \<open>a\<close> and goes on with the supplies changed by \<open>g\<close>; \<open>h\<close> undoes it.\<close>

lemma prim_supply:
  assumes "\<And>X. m X = Some (a X, g X)" "\<And>X. same_data X (g X)"
    and "\<And>X Y. same_data X Y \<Longrightarrow> same_data Y (h X Y) \<and> a (h X Y) = a X \<and> g (h X Y) = Y"
  shows "prim_ok m"
  unfolding prim_ok_def
proof
  fix X
  have "effect_ok X (g X)" using assms(2) [of X] by (intro effect_same) (simp_all add: same_data_def)
  moreover have "\<exists>X0. same_data X X0 \<and> m X0 = Some (a X, Y)" if "same_data (g X) Y" for Y
  proof -
    have "same_data X Y" using that assms(2) [of X] by (simp add: same_data_def)
    from assms(3) [OF this] this show ?thesis
      by (intro exI [of _ "h X Y"]) (simp add: assms(1) same_data_def)
  qed
  ultimately show "\<exists>r w. m X = Some (r, w) \<and> effect_ok X w \<and> (\<forall>Y. same_data w Y \<longrightarrow> (\<exists>X0. same_data X X0 \<and> m X0 = Some (r, Y)))"
    using assms(1) by blast
qed

lemma prim_utc [tamed]: "prim_ok utc_now"
  by (rule prim_supply [where a = "\<lambda>X. Inr (w_utc X 0)" and g = "\<lambda>X. X\<lparr>w_utc := shift 1 (w_utc X)\<rparr>"
        and h = "\<lambda>X Y. Y\<lparr>w_utc := give_back 1 (w_utc X) (w_utc Y)\<rparr>"])
     (simp_all add: utc_now_def same_data_def)

lemma prim_load_keys [tamed]: "prim_ok load_keys"
  by (rule prim_supply [where a = "\<lambda>X. Inr (w_keys X)" and g = "\<lambda>X. X" and h = "\<lambda>X Y. Y"])
     (simp_all add: load_keys_def same_data_def)

lemma map_give_back: "map (give_back n f g) [0..<n] = map f [0..<n]"
  by (intro map_cong) simp_all

lemma prim_token [tamed]: "prim_ok (token_generate E)"
proof (rule prim_supply [where a = "\<lambda>X. Inr (token_of_bytes E (map (w_rng X) [0..<32]))"
        and g = "\<lambda>X. X\<lparr>w_rng := shift 32 (w_rng X)\<rparr>" and h = "\<lambda>X Y. Y\<lparr>w_rng := give_back 32 (w_rng X) (w_rng Y)\<rparr>"], goal_cases)
  case (3 X Y)
  have "token_of_bytes E (map (give_back 32 (w_rng X) (w_rng Y)) [0..<32]) = token_of_bytes E (map (w_rng X) [0..<32])"
    by (simp only: map_give_back)
  with 3 show ?case by (simp add: same_data_def)
qed (simp_all add: token_generate_def and_then_def random_bytes_def ok_def same_data_def)

lemma prim_issue [tamed]: "prim_ok (issue E keys issuer u s client now)"
proof (cases "signing_key keys now")
  case None
  show ?thesis
    by (rule prim_supply [where a = "\<lambda>X. Inl NoSigningKey" and g = "\<lambda>X. X" and h = "\<lambda>X Y. Y"])
       (simp_all add: issue_def None ok_or_def and_then_def err_def same_data_def)
next
  case (Some key)
  let ?tok = "\<lambda>jti. x_jwt_encode E (access_header E key) (access_claims issuer u s client now jti) (lk_encoding_key key)"
  show ?thesis
    by (rule prim_supply [where a = "\<lambda>X. (case ?tok (w_ids X 0) of None \<Rightarrow> Inl JwtError
            | Some tok \<Rightarrow> Inr \<lparr>ia_token = tok, ia_expires_in = ACCESS_TOKEN_TTL div seconds 1\<rparr>)"
          and g = "\<lambda>X. X\<lparr>w_ids := shift 1 (w_ids X)\<rparr>" and h = "\<lambda>X Y. Y\<lparr>w_ids := give_back 1 (w_ids X) (w_ids Y)\<rparr>"])
       (auto simp: issue_def Some ok_or_def and_then_def err_def ok_def uuid_now_v7_def same_data_def split: option.split)
qed

text \<open>The world before a statement that left \<open>Y\<close>.\<close>

definition before_stmt :: "world \<Rightarrow> world \<Rightarrow> world" where
  "before_stmt X Y = Y\<lparr>w_db := w_db X, w_tx := w_tx X, w_faults := give_back 1 (w_faults X) (w_faults Y),
     w_ids := give_back 1 (w_ids X) (w_ids Y),
     w_db_clock := (if w_tx X = None then give_back 1 (w_db_clock X) (w_db_clock Y) else w_db_clock Y)\<rparr>"

lemma before_stmt_simps [simp]: "w_db (before_stmt X Y) = w_db X" "w_tx (before_stmt X Y) = w_tx X"
  "w_keys (before_stmt X Y) = w_keys Y" "w_faults (before_stmt X Y) 0 = w_faults X 0" "w_ids (before_stmt X Y) 0 = w_ids X 0"
  "stmt_now (before_stmt X Y) = stmt_now X"
  by (simp_all add: before_stmt_def stmt_now_def split: option.split)

lemma after_before: "w_db Y = w_db W \<Longrightarrow> w_tx Y = w_tx W \<Longrightarrow> (after_stmt (before_stmt X Y))\<lparr>w_db := w_db W, w_tx := w_tx W\<rparr> = Y"
  by (simp add: before_stmt_def after_stmt_def)

text \<open>Statements and the ends of transactions: the answer is a function of the data, of the clock, of the id drawn and of
  whether the statement fails.\<close>

lemma prim_stmt:
  assumes "\<And>X. m X = Some (a X, (after_stmt X)\<lparr>w_db := d X, w_tx := x X\<rparr>)"
    and "\<And>X. effect_ok X ((after_stmt X)\<lparr>w_db := d X, w_tx := x X\<rparr>)"
    and "\<And>X Y. w_keys Y = w_keys X \<Longrightarrow> a (before_stmt X Y) = a X \<and> d (before_stmt X Y) = d X \<and> x (before_stmt X Y) = x X"
  shows "prim_ok m"
  unfolding prim_ok_def
proof
  fix X
  have "\<exists>X0. same_data X X0 \<and> m X0 = Some (a X, Y)" if "same_data ((after_stmt X)\<lparr>w_db := d X, w_tx := x X\<rparr>) Y" for Y
    using that assms(3) [of Y X] after_before [of Y "X\<lparr>w_db := d X, w_tx := x X\<rparr>" X]
    by (intro exI [of _ "before_stmt X Y"]) (simp add: assms(1) same_data_def)
  with assms(1,2) show "\<exists>r w. m X = Some (r, w) \<and> effect_ok X w \<and> (\<forall>Y. same_data w Y \<longrightarrow> (\<exists>X0. same_data X X0 \<and> m X0 = Some (r, Y)))"
    by blast
qed

text \<open>A statement of the endpoint.\<close>

definition tame_stmt :: "'a stmt \<Rightarrow> bool" where
  "tame_stmt q \<longleftrightarrow> (\<forall>t i d a d'. uniq d \<longrightarrow> q t i d = Inr (a, d') \<longrightarrow> writes_ok d d')"

lemma prim_exec [tamed]:
  assumes "tame_stmt q"
  shows "prim_ok (exec q)"
proof (rule prim_stmt [where x = w_tx
      and a = "\<lambda>X. if w_faults X 0 then Inl Unavailable else map_sum id fst (q (stmt_now X) (w_ids X 0) (w_db X))"
      and d = "\<lambda>X. if w_faults X 0 then w_db X else case q (stmt_now X) (w_ids X 0) (w_db X) of Inl _ \<Rightarrow> w_db X | Inr (_, d) \<Rightarrow> d"])
  show "exec q X = Some (if w_faults X 0 then Inl Unavailable else map_sum id fst (q (stmt_now X) (w_ids X 0) (w_db X)),
      (after_stmt X)\<lparr>w_db := if w_faults X 0 then w_db X
         else case q (stmt_now X) (w_ids X 0) (w_db X) of Inl _ \<Rightarrow> w_db X | Inr (_, d) \<Rightarrow> d, w_tx := w_tx X\<rparr>)" for X
    by (auto simp: exec_def after_stmt_def split: sum.split)
  show "effect_ok X ((after_stmt X)\<lparr>w_db := if w_faults X 0 then w_db X
         else case q (stmt_now X) (w_ids X 0) (w_db X) of Inl _ \<Rightarrow> w_db X | Inr (_, d) \<Rightarrow> d, w_tx := w_tx X\<rparr>)" for X
    using assms by (auto simp: effect_ok_def writes_ok_refl tame_stmt_def split: option.split sum.split)
qed (simp split: sum.split)

lemma prim_begin [tamed]: "prim_ok begin_tx"
  by (rule prim_stmt [where a = "\<lambda>X. if w_faults X 0 then Inl Unavailable else Inr ()" and d = w_db
        and x = "\<lambda>X. if w_faults X 0 then w_tx X else Some (w_db X, stmt_now X)"])
     (auto simp: begin_tx_def after_stmt_def effect_ok_def writes_ok_refl split: option.split)

lemma prim_commit [tamed]: "prim_ok commit_tx"
  by (rule prim_stmt [where a = "\<lambda>X. if w_faults X 0 then Inl Unavailable else Inr ()" and d = w_db
        and x = "\<lambda>X. if w_faults X 0 then w_tx X else None"])
     (auto simp: commit_tx_def after_stmt_def effect_ok_def writes_ok_refl split: option.split)

lemma prim_rollback [tamed]: "prim_ok rollback_tx"
  by (rule prim_stmt [where a = "\<lambda>X. if w_faults X 0 then Inl Unavailable else Inr ()"
        and d = "\<lambda>X. case w_tx X of None \<Rightarrow> w_db X | Some (c, _) \<Rightarrow> c" and x = "\<lambda>_. None"])
     (auto simp: rollback_tx_def drop_tx_def after_stmt_def effect_ok_def writes_ok_refl split: option.split)

section \<open>Its statements\<close>

lemma keeps_rows_refl [simp]: "keeps_rows key rows rows"
  by (simp add: keeps_rows_def)

lemma keeps_rows_more [simp]: "keeps_rows key rows (rows @ [r])"
  by (simp add: keeps_rows_def)

lemma keeps_rows_upd: "(\<And>r. key (f r) = key r) \<Longrightarrow> keeps_rows key rows (upd_where p f rows)"
  by (simp add: keeps_rows_def)

lemma codes_kept_upd: "(\<And>c. p c \<Longrightarrow> code_kept c (f c)) \<Longrightarrow> list_all2 code_kept cs (upd_where p f cs)"
  by (induction cs) auto

lemma stmts_ok [tamed]:
  "tame_stmt (authorization_codes_consume h)" "tame_stmt (authorization_codes_find_consumed h)" "tame_stmt (users_find_by_id i)"
  "tame_stmt (sessions_create u c a e)" "tame_stmt (sessions_revoke_by_authorization_code i)" "tame_stmt (sessions_revoke i)"
  "tame_stmt (sessions_revoke_by_refresh_token h c)" "tame_stmt (refresh_tokens_create i h q)" "tame_stmt (refresh_tokens_find_for_update h)"
  "tame_stmt (refresh_tokens_mark_rotated i)" "tame_stmt (refresh_tokens_has_used_successor i)"
  "tame_stmt (refresh_tokens_supersede_unused_successors i)"
  by (auto simp: tame_stmt_def sql writes_ok_def other_tables_eq uniq_def upd_returning_def code_kept_def revoke_where_def Let_def
      keeps_rows_upd split: if_splits intro!: codes_kept_upd)

lemma tame_oauth [tamed]: "tame (t_osql q)" if "tame_stmt q"
  using that by (simp add: t_osql_def osql_def tame_one prim_map_err prim_exec)

lemma tame_token_parts [tamed]:
  "tame (new_refresh_token_task E i p)" "tame (sessions_open_task E u c a)" "tame (reject_unusable_code_task h)"
  "tame (refresh_stolen_task cur now)" "tame (refresh_finish_task E st client cur now)"
  unfolding new_refresh_token_task_def sessions_open_task_def reject_unusable_code_task_def refresh_stolen_task_def
    refresh_finish_task_def Let_def
  by (intro tamed prim_map_err)+

lemma tame_token: "tame (oauth_token_task E st input)"
  unfolding oauth_token_task_def authorization_code_task_def exchange_consumed_task_def refresh_token_task_def osql_def
  by (intro tamed prim_map_err tame_locking)+

lemma tame_revoke: "tame (oauth_revoke_task E st input)"
  unfolding oauth_revoke_task_def by (intro tamed)+

section \<open>Protected steps\<close>

text \<open>A statement that answers the same, and writes the same rows, under whatever its locks let happen.\<close>

definition steady_answer :: "(db \<Rightarrow> resource list) \<Rightarrow> 'a stmt \<Rightarrow> 'a \<Rightarrow> bool" where
  "steady_answer l q a \<longleftrightarrow> (\<forall>t i d d' d2. uniq d \<longrightarrow> q t i d = Inr (a, d') \<longrightarrow>
     env (l d @ resources_of (written d d')) d d2 \<longrightarrow> q t i d2 = Inr (a, overlay (written d d') d2))"

lemma then_simps [simp]: "t_then (t_ok a) k = k a" "t_then (t_err e) k = t_err e" "t_map_err g (t_ok a) = t_ok a"
  "t_map_err g (t_err e) = t_err (g e)" "t_map_err g (one m) = one (map_err g m)" "t_map_err g (locking l m) = locking l (map_err g m)"
  by (auto simp: t_then_def t_ok_def t_err_def t_map_err_def one_def after_locking locking_def map_err_def fun_eq_iff split: option.split)

lemma then_then: "t_then (t_then t j) k = t_then t (\<lambda>a. t_then (j a) k)"
  unfolding t_then_def after_after by (rule arg_cong [of _ _ "after t"]) (auto simp: fun_eq_iff split: sum.split)

lemma map_err_then: "t_map_err g (t_then t k) = t_then (t_map_err g t) (\<lambda>a. t_map_err g (k a))"
  unfolding t_then_def t_map_err_def after_after by (rule arg_cong [of _ _ "after t"]) (auto simp: fun_eq_iff split: sum.split)

lemma after_then_locking: "after (t_then (locking l m) k) fin = Step l (\<lambda>w. case m w of None \<Rightarrow> (Never, w)
    | Some (r, w') \<Rightarrow> (case r of Inl e \<Rightarrow> fin (Inl e) | Inr a \<Rightarrow> after (k a) fin, w'))"
  by (auto simp: t_then_def after_locking fun_eq_iff split: option.split sum.split)

lemma hopeless_finish [simp]: "hopeless (settle (Inl e))"
  unfolding settle_def by (rule hopeless_Step) (simp add: hopeless_Inl)

lemma hopeless_err [simp]: "hopeless (after (t_err e) settle)"
  by (simp add: t_err_def)

lemma closing_ok: "closing (after (t_ok a) settle) (Inr a)"
  unfolding t_ok_def by (simp add: settle_def) (rule closing_Step, simp_all add: closing_Answered)

lemma hopeless_after: "(\<And>r. hopeless (k r)) \<Longrightarrow> hopeless (after t k)"
  by (induction t rule: task_steps) (auto intro: hopeless_Never hopeless_Step simp: case_prod_beta)

lemma hopeless_then: "(\<And>a. hopeless (after (k a) settle)) \<Longrightarrow> hopeless (after (t_then t k) settle)"
  unfolding t_then_def after_after by (rule hopeless_after) (auto split: sum.split)

text \<open>A step inside the transaction that only reads supplies.\<close>

definition reads_supply :: "('e, 'a) req \<Rightarrow> bool" where
  "reads_supply m \<longleftrightarrow> (\<exists>a g. (\<forall>X. m X = Some (a X, g X) \<and> same_data X (g X)) \<and>
     (\<forall>X d x. a (X\<lparr>w_db := d, w_tx := x\<rparr>) = a X))"

lemma reads_supplyI: "(\<And>X. m X = Some (a X, g X)) \<Longrightarrow> (\<And>X. same_data X (g X)) \<Longrightarrow>
    (\<And>X d x. a (X\<lparr>w_db := d, w_tx := x\<rparr>) = a X) \<Longrightarrow> reads_supply m"
  unfolding reads_supply_def by (intro exI [of _ a] exI [of _ g]) blast

lemma reads_supply_map_err: "reads_supply m \<Longrightarrow> reads_supply (map_err h m)"
proof -
  assume "reads_supply m"
  then obtain a g where m: "\<And>X. m X = Some (a X, g X)" "\<And>X. same_data X (g X)" "\<And>X d x. a (X\<lparr>w_db := d, w_tx := x\<rparr>) = a X"
    unfolding reads_supply_def by auto
  show ?thesis
    by (rule reads_supplyI [of _ "\<lambda>X. map_sum h id (a X)" g]) (simp_all add: map_err_def m)
qed

lemma supplies: "reads_supply utc_now" "reads_supply load_keys" "reads_supply (token_generate E)" "reads_supply (issue E keys issuer u s client now)"
proof -
  show "reads_supply utc_now"
    by (rule reads_supplyI [of _ "\<lambda>X. Inr (w_utc X 0)" "\<lambda>X. X\<lparr>w_utc := shift 1 (w_utc X)\<rparr>"]) (simp_all add: utc_now_def same_data_def)
  show "reads_supply load_keys"
    by (rule reads_supplyI [of _ "\<lambda>X. Inr (w_keys X)" "\<lambda>X. X"]) (simp_all add: load_keys_def same_data_def)
  show "reads_supply (token_generate E)"
    by (rule reads_supplyI [of _ "\<lambda>X. Inr (token_of_bytes E (map (w_rng X) [0..<32]))" "\<lambda>X. X\<lparr>w_rng := shift 32 (w_rng X)\<rparr>"])
       (simp_all add: token_generate_def and_then_def random_bytes_def ok_def same_data_def)
  show "reads_supply (issue E keys issuer u s client now)"
  proof (cases "signing_key keys now")
    case None
    show ?thesis
      by (rule reads_supplyI [of _ "\<lambda>X. Inl NoSigningKey" "\<lambda>X. X"]) (simp_all add: issue_def None ok_or_def and_then_def err_def same_data_def)
  next
    case (Some key)
    show ?thesis
      by (rule reads_supplyI [of _ "\<lambda>X. (case x_jwt_encode E (access_header E key) (access_claims issuer u s client now (w_ids X 0)) (lk_encoding_key key) of
              None \<Rightarrow> Inl JwtError | Some tok \<Rightarrow> Inr \<lparr>ia_token = tok, ia_expires_in = ACCESS_TOKEN_TTL div seconds 1\<rparr>)"
            "\<lambda>X. X\<lparr>w_ids := shift 1 (w_ids X)\<rparr>"])
         (auto simp: issue_def Some ok_or_def and_then_def err_def ok_def uuid_now_v7_def same_data_def split: option.split)
  qed
qed

lemma protected_supply:
  assumes "reads_supply m" "\<And>a. protected (after (k a) settle)"
  shows "protected (after (t_then (one m) k) settle)"
  unfolding one_def after_then_locking
proof (rule protected_Step)
  fix X :: world and c now assume X: "w_tx X = Some (c, now)"
  from assms(1) obtain a g where m: "\<And>X. m X = Some (a X, g X)" "\<And>X. same_data X (g X)" "\<And>X d x. a (X\<lparr>w_db := d, w_tx := x\<rparr>) = a X"
    unfolding reads_supply_def by auto
  let ?f = "\<lambda>w. case m w of None \<Rightarrow> (Never, w) | Some (r, w') \<Rightarrow> (case r of Inl e \<Rightarrow> settle (Inl e) | Inr a \<Rightarrow> after (k a) settle, w')"
  have data: "w_db (g X) = w_db X" "w_tx (g X) = w_tx X" for X using m(2) [of X] by (simp_all add: same_data_def)
  have "replay ?f X d2 (Some (c2, now)) d2 (Some (c2, now))" for d2 c2
    unfolding replay_def
    by (intro exI [of _ "X\<lparr>w_db := d2, w_tx := Some (c2, now)\<rparr>"]) (simp add: m(1,3) data)
  then have "steady (\<lambda>_. []) ?f X c now"
    unfolding steady_def by (simp add: m(1) data X)
  moreover have "protected (fst (?f X))"
    using assms(2) by (auto simp: m(1) split: sum.split intro: protected_hopeless)
  ultimately show "hopeless (fst (?f X)) \<or> (\<exists>r. commits ?f X r) \<or> steady (\<lambda>_. []) ?f X c now \<and> protected (fst (?f X))" by blast
qed

lemma protected_stmt:
  assumes "\<And>a. hopeless (after (k a) settle) \<or> steady_answer l q a \<and> protected (after (k a) settle)"
  shows "protected (after (t_then (locking l (map_err g (exec q))) k) settle)"
  unfolding after_then_locking
proof (rule protected_Step)
  fix X :: world and c now assume X: "w_tx X = Some (c, now)" "uniq (w_db X)"
  let ?f = "\<lambda>w. case map_err g (exec q) w of None \<Rightarrow> (Never, w) | Some (r, w') \<Rightarrow> (case r of Inl e \<Rightarrow> settle (Inl e) | Inr a \<Rightarrow> after (k a) settle, w')"
  show "hopeless (fst (?f X)) \<or> (\<exists>r. commits ?f X r) \<or> steady l ?f X c now \<and> protected (fst (?f X))"
  proof (cases "w_faults X 0 \<or> (\<exists>e. q now (w_ids X 0) (w_db X) = Inl e)")
    case True
    then have "hopeless (fst (?f X))" using X by (auto simp: map_err_def exec_def)
    then show ?thesis ..
  next
    case False
    then obtain a d' where a: "\<not> w_faults X 0" "q now (w_ids X 0) (w_db X) = Inr (a, d')" by (cases "q now (w_ids X 0) (w_db X)") auto
    then have run: "?f X = (after (k a) settle, (after_stmt X)\<lparr>w_db := d'\<rparr>)" using X by (simp add: map_err_def exec_def)
    show ?thesis
    proof (cases "hopeless (after (k a) settle)")
      case False
      with assms have st: "steady_answer l q a" "protected (after (k a) settle)" by blast+
      have "steady l ?f X c now"
        unfolding steady_def
      proof (intro conjI allI impI)
        show "w_tx (snd (?f X)) = Some (c, now)" using X run by simp
        fix d2 c2 assume "env (l (w_db X) @ resources_of (written (w_db X) (w_db (snd (?f X))))) (w_db X) d2"
        with st(1) a(2) X(2) run have "q now (w_ids X 0) d2 = Inr (a, overlay (written (w_db X) d') d2)"
          by (simp add: steady_answer_def)
        then show "replay ?f X d2 (Some (c2, now)) (overlay (written (w_db X) (w_db (snd (?f X)))) d2) (Some (c2, now))"
          unfolding replay_def run using a(1)
          by (intro exI [of _ "X\<lparr>w_db := d2, w_tx := Some (c2, now)\<rparr>"]) (simp add: map_err_def exec_def)
      qed
      with st(2) run show ?thesis by simp
    qed (simp add: run)
  qed
qed

lemma protected_commit:
  assumes "closing (after (k ()) settle) r"
  shows "protected (after (t_then (one (map_err g commit_tx)) k) settle)"
  unfolding one_def after_then_locking
proof (rule protected_Step, goal_cases)
  case (1 X c now)
  show ?case using assms by (cases "w_faults X 0") (auto simp: map_err_def commit_tx_def commits_def)
qed

lemma unopened_begin:
  assumes "protected (after (k ()) settle)"
  shows "unopened (after (t_then (one (map_err g begin_tx)) k) settle)"
  unfolding one_def after_then_locking
proof (rule unopened_Step, goal_cases)
  case (1 X)
  let ?f = "\<lambda>w. case map_err g begin_tx w of None \<Rightarrow> (Never, w) | Some (r, w') \<Rightarrow> (case r of Inl e \<Rightarrow> settle (Inl e) | Inr a \<Rightarrow> after (k a) settle, w')"
  show ?case
  proof (cases "w_faults X 0")
    case False
    have "replay ?f X d None d (Some (d, stmt_now X))" for d
      unfolding replay_def using False 1 by (intro exI [of _ "X\<lparr>w_db := d\<rparr>"]) (simp add: map_err_def begin_tx_def)
    with False assms show ?thesis by (auto simp: map_err_def begin_tx_def begins_def)
  qed (simp add: map_err_def begin_tx_def)
qed

lemma unopened_ok_or: "(\<And>a. x = Some a \<Longrightarrow> unopened (after (k a) settle)) \<Longrightarrow> unopened (after (t_then (t_ok_or x e) k) settle)"
  by (auto simp: t_ok_or_def intro: unopened_hopeless split: option.split)

section \<open>The exchange of a code is protected\<close>

lemma new_row_upd:
  assumes "distinct (map key rows)" "m \<in> set rows" "key (f m) = key m" "f m \<noteq> m"
  shows "new_rows rows (upd_where (\<lambda>r. key r = key m) f rows) = [f m]"
proof -
  obtain xs ys where rows: "rows = xs @ m # ys" using assms(2) by (meson split_list)
  have other: "key r \<noteq> key m" if "r \<in> set xs \<union> set ys" for r
    using assms(1) that by (auto simp: rows) (metis imageI)+
  then have same: "upd_where (\<lambda>r. key r = key m) f rows = xs @ f m # ys"
    by (simp add: rows upd_where_none)
  have "f m \<notin> set rows" using assms(3,4) other by (auto simp: rows)
  then show ?thesis unfolding same by (auto simp: new_rows_def rows filter_empty_conv)
qed

lemma put_one:
  assumes "distinct (map key rows)" "m \<in> set rows" "key (f m) = key m"
  shows "put_all key [f m] rows = upd_where (\<lambda>r. key r = key m) f rows"
proof -
  have "r = m" if "r \<in> set rows" "key r = key m" for r by (rule distinct_key_eq [OF assms(1) that(1) assms(2) that(2)])
  with assms(2,3) show ?thesis by (auto simp: put_all_def upd_where_def)
qed

lemma steady_find_user: "steady_answer l (users_find_by_id i) a"
  by (auto simp: steady_answer_def users_find_by_id_def env_def other_tables_eq)

lemma steady_consume: "steady_answer l (authorization_codes_consume h) (Some cc)"
  unfolding steady_answer_def
proof (intro allI impI)
  fix t i d d' d2
  let ?p = "\<lambda>d c. flow_of d (c_flow_id c) \<noteq> None \<and> c_code_hash c = h \<and> c_consumed_at c = None \<and> c_expires_at c > t"
  let ?f = "\<lambda>c :: authorization_code. c\<lparr>c_consumed_at := Some t\<rparr>"
  assume u: "uniq d" and q: "authorization_codes_consume h t i d = Inr (Some cc, d')"
    and e: "env (l d @ resources_of (written d d')) d d2"
  have unique: "upd_returning (?p d) ?f (authorization_codes d) = (case List.find (?p d) (authorization_codes d) of
      None \<Rightarrow> (None, authorization_codes d)
    | Some m \<Rightarrow> (Some (?f m), upd_where (\<lambda>r. c_id r = c_id m) ?f (authorization_codes d)))" if "uniq d" for d
    using that by (intro upd_returning_unique [where k = c_code_hash]) (auto simp: uniq_def)
  from q unique [OF u] obtain m where m: "List.find (?p d) (authorization_codes d) = Some m"
    and cc: "Some cc = map_option (\<lambda>f. \<lparr>cc_id = c_id m, cc_user_id = c_user_id m, cc_client_id = f_client_id f,
        cc_redirect_uri = f_redirect_uri f, cc_code_challenge = f_code_challenge f\<rparr>) (flow_of d (c_flow_id m))"
    and d': "d' = d\<lparr>authorization_codes := upd_where (\<lambda>r. c_id r = c_id m) ?f (authorization_codes d)\<rparr>"
    by (auto simp: authorization_codes_consume_def Let_def split: option.splits)
  from find_Some_set [OF m] have in_d: "m \<in> set (authorization_codes d)" "?p d m" by auto
  have "new_rows (authorization_codes d) (upd_where (\<lambda>r. c_id r = c_id m) ?f (authorization_codes d)) = [?f m]"
    using u in_d by (intro new_row_upd) (auto simp: uniq_def dest: arg_cong [where f = c_consumed_at])
  then have w: "written d d' = \<lparr>wr_codes = [?f m], wr_sessions = [], wr_tokens = [], wr_users = [], wr_flows = [], wr_links = []\<rparr>"
    by (simp add: written_def d')
  have u2: "uniq d2" and flows: "flow_of d2 = flow_of d" using e by (simp_all add: env_def other_tables_eq flow_of_def fun_eq_iff)
  have in_d2: "m \<in> set (authorization_codes d2)"
    by (rule env_code_locked [OF e u in_d(1)]) (simp add: w)
  have "List.find (?p d2) (authorization_codes d2) = Some m"
    using u2 in_d2 in_d(2) by (intro find_key [where k = c_code_hash]) (auto simp: uniq_def flows)
  moreover have "put_all c_id [?f m] (authorization_codes d2) = upd_where (\<lambda>r. c_id r = c_id m) ?f (authorization_codes d2)"
    using u2 in_d2 by (intro put_one) (auto simp: uniq_def)
  ultimately show "authorization_codes_consume h t i d2 = Inr (Some cc, overlay (written d d') d2)"
    using unique [OF u2] cc by (simp add: authorization_codes_consume_def Let_def w overlay_def flows)
qed

lemma put_new: "key r \<notin> key ` set rows \<Longrightarrow> put_all key [r] rows = rows @ [r]"
  by (auto simp: put_all_def intro!: map_idI)

lemma new_rows_more: "r \<notin> set rows \<Longrightarrow> new_rows rows (rows @ [r]) = [r]"
  by (auto simp: new_rows_def filter_empty_conv)

lemma steady_create_session: "steady_answer l (sessions_create u c k e) a"
  unfolding steady_answer_def
proof (intro allI impI)
  fix t i d d' d2
  let ?s = "\<lparr>s_id = i, s_user_id = u, s_client_id = c, s_authorization_code_id = Some k, s_expires_at = e,
    s_revoked_at = None, s_created_at = t\<rparr>"
  assume q: "sessions_create u c k e t i d = Inr (a, d')" and env: "env (l d @ resources_of (written d d')) d d2"
  then have d: "i \<notin> s_id ` set (sessions d)" "Some k \<notin> s_authorization_code_id ` set (sessions d)" "a = i"
    "u \<in> u_id ` set (users d)" "k \<in> c_id ` set (authorization_codes d)" "d' = d\<lparr>sessions := sessions d @ [?s]\<rparr>"
    by (auto simp: sessions_create_def split: if_splits)
  have "?s \<notin> set (sessions d)" using d(1) by force
  then have w: "written d d' = \<lparr>wr_codes = [], wr_sessions = [?s], wr_tokens = [], wr_users = [], wr_flows = [], wr_links = []\<rparr>"
    using d by (simp add: written_def new_rows_more)
  have "i \<notin> s_id ` set (sessions d2)" "Some k \<notin> s_authorization_code_id ` set (sessions d2)"
    using env_locked_keys(1,2) [OF env] d(1,2) by (auto simp: w)
  moreover have "users d2 = users d" "list_all2 code_kept (authorization_codes d) (authorization_codes d2)"
    using env by (simp_all add: env_def other_tables_eq)
  moreover from this(2) have "c_id ` set (authorization_codes d2) = c_id ` set (authorization_codes d)"
    using arg_cong [OF codes_kept_ids(1), of "authorization_codes d" "authorization_codes d2" set] by simp
  ultimately show "sessions_create u c k e t i d2 = Inr (a, overlay (written d d') d2)"
    using d(3,4,5) by (simp add: sessions_create_def w overlay_def put_new)
qed

lemma steady_create_token: "steady_answer l (refresh_tokens_create s h None) a"
  unfolding steady_answer_def
proof (intro allI impI)
  fix t i d d' d2
  let ?r = "\<lparr>r_id = i, r_session_id = s, r_parent_id = None, r_token_hash = h, r_rotated_at = None, r_superseded_at = None,
    r_created_at = t\<rparr>"
  assume q: "refresh_tokens_create s h None t i d = Inr (a, d')" and env: "env (l d @ resources_of (written d d')) d d2"
  then have d: "i \<notin> r_id ` set (refresh_tokens d)" "h \<notin> r_token_hash ` set (refresh_tokens d)"
    "s \<in> s_id ` set (sessions d)" "d' = d\<lparr>refresh_tokens := refresh_tokens d @ [?r]\<rparr>"
    by (auto simp: refresh_tokens_create_def split: if_splits)
  have "?r \<notin> set (refresh_tokens d)" using d(1) by force
  then have w: "written d d' = \<lparr>wr_codes = [], wr_sessions = [], wr_tokens = [?r], wr_users = [], wr_flows = [], wr_links = []\<rparr>"
    using d by (simp add: written_def new_rows_more)
  have "i \<notin> r_id ` set (refresh_tokens d2)" "h \<notin> r_token_hash ` set (refresh_tokens d2)"
    using env_locked_keys(3,4) [OF env] d(1,2) by (auto simp: w)
  moreover have "s \<in> s_id ` set (sessions d2)" using env d(3) by (auto simp: env_def)
  ultimately show "refresh_tokens_create s h None t i d2 = Inr (a, overlay (written d d') d2)"
    by (simp add: refresh_tokens_create_def w overlay_def put_new)
qed

lemma protected_steady: "(\<And>a. steady_answer (\<lambda>_. []) q a) \<Longrightarrow> (\<And>a. protected (after (k a) settle)) \<Longrightarrow>
    protected (after (t_then (one (map_err g (exec q))) k) settle)"
  unfolding one_def by (rule protected_stmt) blast

lemma protected_cases: "(b \<Longrightarrow> protected (after t settle)) \<Longrightarrow> (\<not> b \<Longrightarrow> protected (after u settle)) \<Longrightarrow>
    protected (after (if b then t else u) settle)"
  by simp

lemma protected_err: "protected (after (t_err e) settle)"
  by (rule protected_hopeless) simp

lemma exchange_consumed_protected: "protected (after (exchange_consumed_task E st client uri verifier cc) settle)"
  unfolding exchange_consumed_task_def t_osql_def osql_def sessions_open_task_def new_refresh_token_task_def
    map_err_then then_then then_simps
  by (intro protected_cases protected_err protected_steady steady_find_user steady_create_session steady_create_token
      protected_supply reads_supply_map_err supplies protected_commit [OF closing_ok])

lemma exchange_unopened: "unopened (authorization_code_task E st input)"
proof -
  have reject: "hopeless (after (t_then (reject_unusable_code_task h) t_err) settle)" for h
    by (rule hopeless_then) simp
  show ?thesis
    unfolding authorization_code_task_def t_scoped_settle t_osql_def osql_def
  proof (intro unopened_ok_or unopened_begin, unfold one_def, rule protected_stmt, goal_cases)
    case (1 code uri verifier client found)
    show ?case
      by (cases found) (simp_all add: hopeless_then reject steady_consume exchange_consumed_protected)
  qed
qed

end
