(* ===== verification/Exchanges.thy ===== *)
theory Exchanges
  imports TokenSerial
begin

text \<open>
  Exchanges of authorization codes on a site of theory \<open>Interleave\<close>: each is atomic, and of those that present the same
  code at most one is answered tokens, however the statements of the requests alternate.
\<close>

section \<open>Exchanges on a site\<close>

lemma oauth_route_task_eq: "oauth_route_task f t = after t (\<lambda>r. Answered (map_sum OAuthFailure f r))"
  unfolding oauth_route_task_def t_map_err_def t_then_def after_after
  by (rule arg_cong [of _ _ "after t"]) (auto simp: fun_eq_iff t_ok_def split: sum.split)

lemma tame_call: "tame (call_task E st c)"
  by (cases c) (auto simp: oauth_route_task_eq intro!: tame_after tame_token tame_revoke tame_Answered)

lemma call_unopened:
  assumes "tr_grant_type input = ''authorization_code''"
  shows "unopened (call_task E st (CallToken input))"
  using assms by (simp add: oauth_route_task_eq oauth_token_task_def unopened_map exchange_unopened)

lemma wf_uniq: "wf_db d \<Longrightarrow> uniq d"
  by (simp add: uniq_def wf_db_def unique_keys_def)

lemma exchange_takes_effect:
  assumes "w_tx w = None" "wf_db (w_db w)" "i < length calls"
    and "calls ! i = CallToken input" "tr_grant_type input = ''authorization_code''"
    and "run_site sched (open_site w (map (call_task E st) calls)) = Some s" "answer_of i s = Some (Inr tokens)"
  shows "\<exists>before later s1 s2 v v'. sched = before @ i # later \<and>
    run_site before (open_site w (map (call_task E st) calls)) = Some s1 \<and> site_step i s1 = Some s2 \<and>
    w_db v = w_db (fst s1) \<and> w_tx v = None \<and> w_keys v = w_keys (fst s1) \<and>
    serve E st (PostToken input) v = Some (Inr tokens, v') \<and> w_db v' = w_db (fst s2)"
proof -
  have tame: "tame t" if "t \<in> set (map (call_task E st) calls)" for t using that tame_call by auto
  have "took_effect (open_site w (map (call_task E st) calls)) sched i (Inr tokens)"
    by (rule protected_takes_effect [OF assms(1) wf_uniq [OF assms(2)] tame _ _ assms(6,7)])
       (use assms(3-5) call_unopened in \<open>simp_all\<close>)
  moreover have "run (fst (snd (open_site w (map (call_task E st) calls)) ! i)) = serve E st (PostToken input)"
    using assms(3,4) run_call [of E st "CallToken input"] by (simp add: open_site_def)
  ultimately show ?thesis unfolding took_effect_def by (auto; blast)
qed

section \<open>One exchange per code\<close>

text \<open>What an answered exchange finds and leaves of its code.\<close>

definition code_usable :: "bytes \<Rightarrow> authorization_code list \<Rightarrow> bool" where
  "code_usable h cs \<longleftrightarrow> (\<exists>c \<in> set cs. c_code_hash c = h \<and> c_consumed_at c = None)"

definition code_used :: "bytes \<Rightarrow> authorization_code list \<Rightarrow> bool" where
  "code_used h cs \<longleftrightarrow> (\<exists>c \<in> set cs. c_code_hash c = h \<and> c_consumed_at c \<noteq> None)"

lemma consume_uses:
  assumes "List.find p cs = Some c" "\<And>c. p c \<Longrightarrow> c_code_hash c = h \<and> c_consumed_at c = None"
  shows "code_usable h cs" "code_used h (upd_where p (\<lambda>c. c\<lparr>c_consumed_at := Some t\<rparr>) cs)"
proof -
  from find_Some_set [OF assms(1)] assms(2) have c: "c \<in> set cs" "p c" "c_code_hash c = h" "c_consumed_at c = None" by auto
  then show "code_usable h cs" by (auto simp: code_usable_def)
  from c have "c\<lparr>c_consumed_at := Some t\<rparr> \<in> set (upd_where p (\<lambda>c. c\<lparr>c_consumed_at := Some t\<rparr>) cs)"
    by (force simp: in_upd_where)
  then show "code_used h (upd_where p (\<lambda>c. c\<lparr>c_consumed_at := Some t\<rparr>) cs)"
    using c(3) unfolding code_used_def by (intro bexI) simp_all
qed

lemma exchange_uses:
  assumes "w_tx w = None" "tr_code input = Some code"
  shows "wp (authorization_code_grant E st input) (\<lambda>_ w'. code_usable (token_hash E code) (authorization_codes (w_db w)) \<and>
    code_used (token_hash E code) (authorization_codes (w_db w'))) (\<lambda>_ _. True) w"
  using assms
  by (simp add: authorization_code_grant_def wp required_def Let_def sessions_open_def new_refresh_token_def issue_def
        reject_unusable_code_def sessions_create_def refresh_tokens_create_def authorization_codes_consume_def upd_returning_def
        users_find_by_id_def authorization_codes_find_consumed_def sessions_revoke_by_authorization_code_def
        split: option.split)
     (auto intro: consume_uses)

lemma used_later: "env L d d' \<Longrightarrow> code_used h (authorization_codes d) \<Longrightarrow> code_used h (authorization_codes d')"
  unfolding code_used_def env_def by (metis code_kept_def code_kept_fields codes_kept_set')

lemma used_not_usable: "uniq d \<Longrightarrow> code_used h (authorization_codes d) \<Longrightarrow> \<not> code_usable h (authorization_codes d)"
  unfolding code_used_def code_usable_def uniq_def by (metis distinct_key_eq)

lemma exchange_answered_uses:
  assumes "w_tx v = None" "tr_code input = Some code" "tr_grant_type input = ''authorization_code''"
    and "serve E st (PostToken input) v = Some (Inr x, v')"
  shows "code_usable (token_hash E code) (authorization_codes (w_db v)) \<and> code_used (token_hash E code) (authorization_codes (w_db v'))"
proof -
  from assms(3,4) obtain r where "authorization_code_grant E st input v = Some (Inr r, v')"
    by (auto simp: oauth_route_def oauth_token_def map_err_def and_then_def ok_def split: option.splits sum.splits)
  from wp_ok_run [OF exchange_uses [OF assms(1,2)] this] show ?thesis .
qed

section \<open>Two exchanges of the code of the demo world\<close>

text \<open>Both begin; the first then runs to its end while the second would wait; the second finds the code used and revokes the
  session that was opened from it.\<close>

definition demo_calls :: "token_call list" where
  "demo_calls = [CallToken demo_exchange, CallToken demo_exchange]"

definition demo_schedule :: "nat list" where
  "demo_schedule = [0, 1] @ [0, 0, 0, 0, 0, 0, 0, 0, 0, 0, 0] @ [1, 1, 1, 1, 1]"

abbreviation demo_start :: "(failure, response) site" where
  "demo_start \<equiv> open_site (demo_world login_db) (map (call_task demo_ext demo_state) demo_calls)"

definition demo_end :: "(failure, response) site" where
  "demo_end = the (run_site demo_schedule demo_start)"

definition demo_tokens :: response where
  "demo_tokens = projr (the (answer_of 0 demo_end))"

lemma verifier_43: "is_valid_verifier (replicate 43 (CHR ''v''))"
  by code_simp

lemma demo_outcome:
  "map_option (\<lambda>s. (answered 0 s, refused 1 s, open_sessions s)) (run_site demo_schedule demo_start) = Some (True, True, [])"
  by (simp add: demo_schedule_def demo_calls_def demo_exchange_def pkce_verify_def verifier_43 demo_rows site_eval task_eval
      step_eval sql cong: keep_rest)

lemma demo_ends: "run_site demo_schedule demo_start = Some demo_end"
  and demo_answered: "answer_of 0 demo_end = Some (Inr demo_tokens)"
proof -
  from demo_outcome obtain s where s: "run_site demo_schedule demo_start = Some s" "answered 0 s" by auto
  then have "demo_end = s" by (simp add: demo_end_def)
  with s answered_answer [OF s(2)] show "run_site demo_schedule demo_start = Some demo_end"
    "answer_of 0 demo_end = Some (Inr demo_tokens)" by (simp_all only: demo_tokens_def)
qed

lemmas demo_runs = demo_ends demo_answered login_db_wf

lemma demo_calls_nth: "demo_calls ! 0 = CallToken demo_exchange" "demo_calls ! Suc 0 = CallToken demo_exchange"
  "demo_calls \<noteq> []" "length demo_calls = 2" "tr_grant_type demo_exchange = ''authorization_code''"
  "tr_code demo_exchange = Some ''code''"
  by (simp_all add: demo_calls_def demo_exchange_def)

section \<open>Properties\<close>

text \<open>C6 (exchange_atomic): however the statements of concurrent requests to the token endpoint alternate, an exchange
  of an authorization code that is answered tokens took effect as a whole, at one step of its own: that step changed the
  committed database exactly as the whole request does alone from the database committed before it, with the same
  answer.\<close>

theorem exchange_atomic:
  assumes "w_tx w = None" "wf_db (w_db w)" "i < length calls"
    and "calls ! i = CallToken input" "tr_grant_type input = ''authorization_code''"
    and "run_site sched (open_site w (map (call_task E st) calls)) = Some s" "answer_of i s = Some (Inr tokens)"
  shows "\<exists>before later s1 s2 v v'. sched = before @ i # later \<and>
    run_site before (open_site w (map (call_task E st) calls)) = Some s1 \<and> site_step i s1 = Some s2 \<and>
    w_db v = w_db (fst s1) \<and> w_tx v = None \<and> w_keys v = w_keys (fst s1) \<and>
    serve E st (PostToken input) v = Some (Inr tokens, v') \<and> w_db v' = w_db (fst s2)"
  using assms by (rule exchange_takes_effect)

theorem exchange_atomic_witness:
  "\<exists>before later s1 s2 v v'. demo_schedule = before @ 0 # later \<and>
    run_site before demo_start = Some s1 \<and> site_step 0 s1 = Some s2 \<and>
    w_db v = w_db (fst s1) \<and> w_tx v = None \<and> w_keys v = w_keys (fst s1) \<and>
    serve demo_ext demo_state (PostToken demo_exchange) v = Some (Inr demo_tokens, v') \<and>
    w_db v' = w_db (fst s2)"
  by (rule exchange_atomic [of "demo_world login_db" 0 demo_calls demo_exchange demo_schedule demo_ext demo_state demo_end])
     (simp_all add: demo_runs demo_calls_nth)

text \<open>C5 (one_exchange_wins): of any number of requests that exchange the same authorization code at once, however their
  statements alternate, among themselves and with those of refreshes and revocations, at most one is answered tokens.\<close>

theorem one_exchange_wins:
  assumes "w_tx w = None" "wf_db (w_db w)" "i < length calls" "j < length calls" "i \<noteq> j"
    and "calls ! i = CallToken a" "calls ! j = CallToken b"
    and "tr_grant_type a = ''authorization_code''" "tr_grant_type b = ''authorization_code''" "tr_code a = Some code" "tr_code b = Some code"
    and "run_site sched (open_site w (map (call_task E st) calls)) = Some s" "answer_of i s = Some (Inr x)"
  shows "answer_of j s \<noteq> Some (Inr y)"
proof
  let ?s0 = "open_site w (map (call_task E st) calls)" and ?h = "token_hash E code"
  assume y: "answer_of j s = Some (Inr y)"
  have start: "site_ok ?s0" by (rule open_site_ok [OF assms(1) wf_uniq [OF assms(2)]]) (auto simp: tame_call)
  have no: False
    if "before @ k # later = before' @ k' # later'" "length before < length before'"
      and k: "run_site before ?s0 = Some s1" "site_step k s1 = Some s2" "code_used ?h (authorization_codes (w_db (fst s2)))"
      and k': "run_site before' ?s0 = Some s1'" "code_usable ?h (authorization_codes (w_db (fst s1')))"
    for before k later before' k' later' s1 s2 s1'
  proof -
    from that(1,2) obtain between where "before' = (before @ [k]) @ between"
      by (auto simp: append_eq_append_conv2 Cons_eq_append_conv)
    with k(1,2) k'(1) have "run_site between s2 = Some s1'" by (simp add: run_site_append)
    moreover have "site_ok s2" using site_step_ok(1) [OF _ k(2)] site_run_env [OF k(1) start] by blast
    ultimately have "site_ok s1'" "env [] (w_db (fst s2)) (w_db (fst s1'))" using site_run_env by blast+
    with used_later [OF this(2) k(3)] k'(2) show False by (auto simp: site_ok_def dest: used_not_usable)
  qed
  from exchange_takes_effect [OF assms(1,2,3,6,8,12,13)] obtain before later s1 s2 v v' where
    i: "sched = before @ i # later" "run_site before ?s0 = Some s1" "site_step i s1 = Some s2" "w_db v = w_db (fst s1)" "w_tx v = None"
      "serve E st (PostToken a) v = Some (Inr x, v')" "w_db v' = w_db (fst s2)" by blast
  from exchange_takes_effect [OF assms(1,2,4,7,9,12) y] obtain before' later' s1' s2' u u' where
    j: "sched = before' @ j # later'" "run_site before' ?s0 = Some s1'" "site_step j s1' = Some s2'" "w_db u = w_db (fst s1')" "w_tx u = None"
      "serve E st (PostToken b) u = Some (Inr y, u')" "w_db u' = w_db (fst s2')" by blast
  note uses = exchange_answered_uses [OF i(5) assms(10,8) i(6)] exchange_answered_uses [OF j(5) assms(11,9) j(6)]
  have "length before \<noteq> length before'" using i(1) j(1) assms(5) by (auto dest: append_eq_conv_conj [THEN iffD1])
  then show False
    using no [OF _ _ i(2,3) _ j(2), of later j later'] no [OF _ _ j(2,3) _ i(2), of later' i later] uses i(1,4,7) j(1,4,7)
    by (simp add: linorder_neq_iff) metis
qed

theorem one_exchange_wins_witness: "\<forall>y. answer_of 1 demo_end \<noteq> Some (Inr y)"
  by (rule allI, rule one_exchange_wins [of "demo_world login_db" 0 demo_calls 1 demo_exchange demo_exchange "''code''" demo_schedule
        demo_ext demo_state demo_end demo_tokens])
     (simp_all add: demo_runs demo_calls_nth)

end
