(* ===== verification/Theft.thy ===== *)
theory Theft
  imports TokenTasks
begin

text \<open>
  What the rotation of refresh tokens can miss. A token that was rotated longer ago than the grace period is refused, and its
  session revoked, once a token issued from it has been used; otherwise those successors are superseded and a new token is
  issued. The handler of \<open>routes/oauth.rs\<close> locks the row of the token it was given, not those of its
  successors, so between its two statements \<open>has_used_successor\<close> and \<open>supersede_unused_successors\<close> a successor can be used.
\<close>

section \<open>An old token and its successor\<close>

definition parent_token :: refresh_token_row where
  "parent_token = demo_token\<lparr>r_rotated_at := Some (10 - seconds 31)\<rparr>"

definition child_token :: refresh_token_row where
  "child_token = demo_token\<lparr>r_id := 6, r_parent_id := Some 5, r_token_hash := ''child''\<rparr>"

definition race_db :: db where
  "race_db = empty_db\<lparr>users := [demo_user], login_flows := [demo_flow],
     authorization_codes := [demo_code\<lparr>c_consumed_at := Some 6\<rparr>], sessions := [demo_session],
     refresh_tokens := [parent_token, child_token]\<rparr>"

definition race_world :: world where
  "race_world = (demo_world race_db)\<lparr>w_rng := (\<lambda>n. if n < 32 then CHR ''x'' else CHR ''y'')\<rparr>"

definition refresh_with :: "string \<Rightarrow> token_call" where
  "refresh_with t = CallToken (demo_exchange\<lparr>tr_grant_type := ''refresh_token'', tr_refresh_token := Some t\<rparr>)"

text \<open>Request 0 presents the old token, request 1 its successor; what became of them, and the sessions still open.\<close>

definition race :: "nat list \<Rightarrow> (bool \<times> bool \<times> uuid list) option" where
  "race is = map_option (\<lambda>s. (answered 0 s, answered 1 s, open_sessions s))
     (run_site is (open_site race_world (map (call_task demo_ext demo_state) [refresh_with ''refresh'', refresh_with ''child''])))"

lemmas race_eval = race_def race_world_def race_db_def refresh_with_def demo_exchange_def parent_token_def child_token_def
  demo_rows site_eval task_eval step_eval sql

lemma race_db_wf: "wf_db race_db \<and> family (refresh_tokens race_db)"
  by (simp add: wf_defs family_def race_db_def parent_token_def child_token_def demo_defs)

text \<open>The old token up to and including \<open>has_used_successor\<close>, the whole request with its successor, the rest.\<close>

lemma race_alternating: "race ([0, 0, 0, 0] @ [1, 1, 1, 1, 1, 1, 1, 1, 1, 1, 1] @ [0, 0, 0, 0, 0, 0, 0, 0]) = Some (True, True, [4])"
  by (simp add: race_eval cong: keep_rest)

text \<open>One after the other.\<close>

definition refresh_alone :: "string \<Rightarrow> world \<Rightarrow> bool \<times> world" where
  "refresh_alone t w = (case serve demo_ext demo_state (call_request (refresh_with t)) w of
     None \<Rightarrow> (False, w) | Some (r, w') \<Rightarrow> (\<not> isl r, w'))"

definition in_turn :: "string \<Rightarrow> string \<Rightarrow> bool \<times> bool \<times> uuid list" where
  "in_turn t u = (let (a, w) = refresh_alone t race_world; (b, w') = refresh_alone u w
     in (a, b, map s_id (filter (\<lambda>x. s_revoked_at x = None) (sessions (w_db w')))))"

lemma race_in_turn: "in_turn ''refresh'' ''child'' = (True, False, [])" "in_turn ''child'' ''refresh'' = (True, False, [])"
  by code_simp+


end
