(* ===== verification/LoginTasks.thy ===== *)
theory LoginTasks
  imports TokenTasks
begin

text \<open>
  The routes of login statement by statement, as \<open>TokenTasks\<close> has those of the token endpoint: \<open>routes/login.rs\<close>,
  \<open>routes/magic_link.rs\<close>, \<open>login_flow.rs\<close> and the three statements of \<open>find_code_candidate\<close>, the second of which takes
  the advisory lock of the address. Run alone each is the handler of theory \<open>Login\<close>.
\<close>

section \<open>The handlers\<close>

definition t_sql :: "'a stmt \<Rightarrow> (api_error, 'a) task" where
  "t_sql q = one (sql q)"

definition create_flow_task :: "app_state \<Rightarrow> create_flow_request \<Rightarrow> (api_error, nat \<times> flow_response) task" where
  "create_flow_task st input =
     t_then (t_ok_or (st_clients st (cf_client_id input)) InvalidClient) (\<lambda>client.
     if \<not> allows_redirect_uri client (cf_redirect_uri input) then t_err InvalidRedirectUri
     else if cf_code_challenge_method input \<noteq> ''S256'' \<or> \<not> is_valid_challenge (cf_code_challenge input)
     then t_err InvalidCodeChallenge
     else if (case cf_state input of None \<Rightarrow> False | Some s \<Rightarrow> length s > MAX_STATE_LEN)
     then t_err (InvalidRequest ''state must be at most 512 bytes'')
     else
       t_then (one utc_now) (\<lambda>now.
       t_then (t_sql (login_flows_create (cl_id client) (cf_redirect_uri input) (cf_code_challenge input)
         (cf_state input) (now + FLOW_TTL))) (\<lambda>flow_id.
       t_ok (201, \<lparr>fr_flow_id = flow_id, fr_methods = [MagicLink], fr_expires_at = now + FLOW_TTL\<rparr>))))"

definition send_magic_link_task ::
    "ext \<Rightarrow> app_state \<Rightarrow> client \<Rightarrow> uuid \<Rightarrow> string \<Rightarrow> time \<Rightarrow> recipient \<Rightarrow> (api_error, unit) task" where
  "send_magic_link_task E st client flow_id email_input expires_at recipient =
     t_then (one (token_generate E)) (\<lambda>tok.
     t_then (one (code_generate E (magic_link_key (st_code_keys st)) flow_id)) (\<lambda>code.
     t_then (t_sql (magic_links_create E flow_id (case recipient of Account u \<Rightarrow> Some u | SignUp \<Rightarrow> None) email_input
       (tok_hash tok) (mc_hash code) expires_at)) (\<lambda>email.
     one (send_in_background (
       let link = cl_magic_link_url client @ ''#token='' @ tok_plain tok in case recipient of
           Account _ \<Rightarrow> magic_link_email E email (cl_name client) link (mc_plain code)
         | SignUp \<Rightarrow> magic_signup_email E email (cl_name client) link (mc_plain code))))))"

definition magic_link_request_task ::
    "ext \<Rightarrow> app_state \<Rightarrow> ip_addr \<Rightarrow> uuid \<Rightarrow> string \<Rightarrow> (api_error, nat \<times> magic_link_response) task" where
  "magic_link_request_task E st ip flow_id email_input =
     t_then (one (limiter_check E EmailPerIp (client_ip_key ip))) (\<lambda>_.
     if \<not> is_valid_email email_input then t_err InvalidEmail
     else
       t_then (t_sql (login_flows_find_pending_magic_link_flow flow_id)) (\<lambda>found.
       case found of None \<Rightarrow> t_err FlowExpired | Some flow \<Rightarrow>
       if pf_requests flow \<ge> MAX_EMAILS_PER_FLOW then one (flow_exhausted flow)
       else
         t_then (t_ok_or (st_clients st (pf_client_id flow)) InvalidClient) (\<lambda>client.
         t_then (one (limiter_check E EmailPerAddress (email_key E email_input))) (\<lambda>_.
         t_then (one utc_now) (\<lambda>now.
         t_then (t_sql (login_flows_count_magic_link_request flow_id MAX_EMAILS_PER_FLOW (now + CODE_TTL))) (\<lambda>counted.
         case counted of None \<Rightarrow> one (flow_exhausted flow) | Some flow_expires_at \<Rightarrow>
         t_then (t_sql (users_find_by_email E email_input)) (\<lambda>user.
         t_then (case recipient_of client user of
             None \<Rightarrow> t_ok ()
           | Some recipient \<Rightarrow> send_magic_link_task E st client flow_id email_input (now + CODE_TTL) recipient) (\<lambda>_.
         t_ok (202, \<lparr>mr_status = MagicLinkSent, mr_expires_at = flow_expires_at\<rparr>)))))))))"

definition flow_complete_task :: "ext \<Rightarrow> uuid \<Rightarrow> uuid \<Rightarrow> (sql_error, login_response option) task" where
  "flow_complete_task E flow_id user_id =
     t_then (one (exec (login_flows_complete flow_id))) (\<lambda>done.
     if \<not> done then t_ok None
     else
       t_then (one (token_generate E)) (\<lambda>code.
       t_then (one utc_now) (\<lambda>now.
       t_then (one (exec (authorization_codes_create (tok_hash code) flow_id user_id (now + FLOW_CODE_TTL)))) (\<lambda>_.
       t_ok (Some (Completed (tok_plain code)))))))"

definition login_user_task :: "ext \<Rightarrow> uuid option \<Rightarrow> string \<Rightarrow> (api_error, user option) task" where
  "login_user_task E user_id email = (case user_id of
      Some i \<Rightarrow> t_sql (users_find_by_id i)
    | None \<Rightarrow> t_then (t_sql (users_create E email)) (\<lambda>created. case created of
          Some user \<Rightarrow> t_ok (Some user)
        | None \<Rightarrow> t_sql (users_find_by_email E email)))"

definition log_in_task ::
    "ext \<Rightarrow> uuid \<Rightarrow> uuid option \<Rightarrow> string \<Rightarrow> api_error \<Rightarrow> (api_error, login_response \<times> uuid) task" where
  "log_in_task E flow_id user_id email stale =
     t_then (login_user_task E user_id email) (\<lambda>found.
     t_then (t_ok_or found stale) (\<lambda>user.
     if u_disabled_at user \<noteq> None then t_err AccountDisabled
     else if u_email user \<noteq> email then t_err stale
     else
       t_then (t_sql (users_mark_email_verified (u_id user) (u_email user))) (\<lambda>_.
       t_then (t_map_err api_from_sql (flow_complete_task E flow_id (u_id user))) (\<lambda>response.
       t_then (t_ok_or response FlowExpired) (\<lambda>r. t_ok (r, u_id user))))))"

definition magic_link_confirm_task ::
    "ext \<Rightarrow> app_state \<Rightarrow> ip_addr \<Rightarrow> string \<Rightarrow> (api_error, login_response) task" where
  "magic_link_confirm_task E st ip tok = t_scoped (
     t_then (one (limiter_check E TokenPerIp (client_ip_key ip))) (\<lambda>_.
     t_then (one (map_err api_from_sql begin_tx)) (\<lambda>_.
     t_then (t_sql (magic_links_consume (token_hash E tok))) (\<lambda>found.
     t_then (t_ok_or found InvalidToken) (\<lambda>link.
     t_then (log_in_task E (cm_flow_id link) (cm_user_id link) (cm_email link) InvalidToken) (\<lambda>logged_in.
     t_then (one (map_err api_from_sql commit_tx)) (\<lambda>_.
     t_ok (fst logged_in))))))))"

text \<open>\<open>find_code_candidate\<close>: the newest email of the flow, the lock of its address, the candidate.\<close>

definition find_code_candidate_task :: "uuid \<Rightarrow> int \<Rightarrow> int \<Rightarrow> (sql_error, link_candidate option) task" where
  "find_code_candidate_task flow_id max_link_failures max_address_failures =
     t_then (one (exec (magic_links_newest_email flow_id))) (\<lambda>e. case e of
         None \<Rightarrow> t_ok None
       | Some email \<Rightarrow> t_then (locking (\<lambda>_. [Address email]) (exec lock_stmt)) (\<lambda>_.
           one (exec (magic_links_candidate flow_id email max_link_failures max_address_failures))))"

definition use_code_task ::
    "ext \<Rightarrow> app_state \<Rightarrow> uuid \<Rightarrow> string \<Rightarrow> link_candidate \<Rightarrow> (api_error, login_response) task" where
  "use_code_task E st flow_id code link =
     (if \<not> code_verify E (magic_link_key (st_code_keys st)) flow_id code (lc_code_hash link) then
        t_then (t_sql (magic_links_record_code_failure (lc_id link) MAX_FAILURES_PER_CODE)) (\<lambda>failures.
        t_then (one (map_err api_from_sql commit_tx)) (\<lambda>_.
        t_err InvalidCode))
      else
        t_then (t_sql (magic_links_consume_by_id (lc_id link))) (\<lambda>_.
        t_then (log_in_task E flow_id (lc_user_id link) (lc_email link) InvalidCode) (\<lambda>logged_in.
        t_then (one (map_err api_from_sql commit_tx)) (\<lambda>_.
        t_ok (fst logged_in)))))"

definition confirm_code_task ::
    "ext \<Rightarrow> app_state \<Rightarrow> ip_addr \<Rightarrow> uuid \<Rightarrow> string \<Rightarrow> (api_error, login_response) task" where
  "confirm_code_task E st ip flow_id code = t_scoped (
     t_then (one (limiter_check E TokenPerIp (client_ip_key ip))) (\<lambda>_.
     t_then (one (result (check_format code))) (\<lambda>_.
     t_then (one (map_err api_from_sql begin_tx)) (\<lambda>_.
     t_then (t_map_err api_from_sql
       (find_code_candidate_task flow_id MAX_FAILURES_PER_CODE MAX_FAILURES_PER_DAY)) (\<lambda>found.
     t_then (t_ok_or found InvalidCode) (\<lambda>link.
     use_code_task E st flow_id code link))))))"

section \<open>Run alone they are the handlers\<close>

lemma run_login_parts [runs_as]:
  "run (t_sql q) = sql q"
  "run (send_magic_link_task E st client f e x r) = send_magic_link E st client f e x r"
  "run (flow_complete_task E f u) = flow_complete E f u"
  "run (login_user_task E uid e) = login_user E uid e"
  "run (find_code_candidate_task f m n) = magic_links_find_code_candidate f m n"
  by (simp_all add: runs_as t_sql_def send_magic_link_task_def send_magic_link_def flow_complete_task_def flow_complete_def
      login_user_task_def login_user_def find_code_candidate_task_def magic_links_find_code_candidate_def Let_def
      cong: option.case_cong if_cong)

lemma run_log_in [runs_as]: "run (log_in_task E f u e stale) = log_in E f u e stale"
  by (simp add: runs_as log_in_task_def log_in_def log_in_end_def cong: if_cong)

lemma run_use_code [runs_as]: "run (use_code_task E st f code link) = use_code E st f code link"
  by (simp add: runs_as use_code_task_def use_code_def case_prod_unfold cong: if_cong)

lemma run_create_flow: "run (create_flow_task st input) = create_flow st input"
  by (simp add: runs_as create_flow_task_def create_flow_def Let_def cong: if_cong)

lemma run_magic_link_request: "run (magic_link_request_task E st ip f e) = magic_link_request E st ip f e"
  by (simp add: runs_as magic_link_request_task_def magic_link_request_def Let_def cong: option.case_cong if_cong)

lemma run_confirms:
  "run (magic_link_confirm_task E st ip tok) = magic_link_confirm E st ip tok"
  "run (confirm_code_task E st ip f code) = confirm_code E st ip f code"
  by (simp_all add: runs_as magic_link_confirm_task_def magic_link_confirm_def confirm_code_task_def confirm_code_def Let_def
      case_prod_unfold)

text \<open>The routes of login, and those of the token endpoint beside them.\<close>

datatype login_call =
    CallFlow create_flow_request
  | CallEmail caller uuid string
  | CallLink caller string
  | CallCode caller uuid string
  | CallOAuth token_call

fun login_request :: "login_call \<Rightarrow> request" where
  "login_request (CallFlow input) = PostFlow input"
| "login_request (CallEmail c flow email) = PostMagicLink c flow email"
| "login_request (CallLink c tok) = PostMagicLinkConfirm c tok"
| "login_request (CallCode c flow code) = PostMagicCode c flow code"
| "login_request (CallOAuth c) = call_request c"

definition api_route_task :: "('a \<Rightarrow> response) \<Rightarrow> (api_error, 'a) task \<Rightarrow> (failure, response) task" where
  "api_route_task f t = t_map_err ApiFailure (t_then t (\<lambda>a. t_ok (f a)))"

fun login_task :: "ext \<Rightarrow> app_state \<Rightarrow> login_call \<Rightarrow> (failure, response) task" where
  "login_task E st (CallFlow input) = api_route_task FlowCreated (create_flow_task st input)"
| "login_task E st (CallEmail c flow email) =
     api_route_task MagicLinkAccepted (magic_link_request_task E st (ip_of E st c) flow email)"
| "login_task E st (CallLink c tok) = api_route_task LoggedIn (magic_link_confirm_task E st (ip_of E st c) tok)"
| "login_task E st (CallCode c flow code) = api_route_task LoggedIn (confirm_code_task E st (ip_of E st c) flow code)"
| "login_task E st (CallOAuth c) = call_task E st c"

lemma run_login: "run (login_task E st c) = serve E st (login_request c)"
  by (cases c) (simp_all add: runs_as api_route_task_def api_route_def run_create_flow run_magic_link_request run_confirms run_call)

end
