(* ===== verification/Guesses.thy ===== *)
theory Guesses
  imports LoginTasks Protected
begin

text \<open>
  Guessing a code from several connections at once. Each wrong code is counted on its email, which the fifth one
  spends; the count is read and raised by two statements, so what keeps concurrent guesses from sharing one
  attempt is the advisory lock of the address, taken before. An assertional argument over the site of theory
  \<open>Interleave\<close>: \<open>careful\<close> follows what a request knows of the emails (nothing, that a transaction is open, that it holds the
  lock of an address, that an email of this address is below the limit), and what it knows stays true whatever the others do, for they
  change counts only under the same lock.
\<close>

section \<open>What a request knows\<close>

datatype knows = Nothing | Inside | Holds string | Below string uuid

fun known :: "knows \<Rightarrow> magic_link_row list \<Rightarrow> bool" where
  "known (Below e i) ms \<longleftrightarrow> (\<exists>m \<in> set ms. m_id m = i \<and> m_email m = e \<and> m_code_failures m < MAX_FAILURES_PER_CODE)"
| "known _ ms \<longleftrightarrow> True"

fun needs :: "knows \<Rightarrow> resource list" where
  "needs Nothing = []"
| "needs Inside = []"
| "needs (Holds e) = [Address e]"
| "needs (Below e i) = [Address e]"

text \<open>What a statement may do to the emails: add one that counts nothing, change one but for its address and count, and
  raise the count of the one known to be below the limit.\<close>

definition link_kept :: "knows \<Rightarrow> magic_link_row \<Rightarrow> magic_link_row \<Rightarrow> bool" where
  "link_kept k m m' \<longleftrightarrow> m_email m' = m_email m \<and> (m_code_failures m' = m_code_failures m \<or>
     k = Below (m_email m) (m_id m) \<and> m_code_failures m' = m_code_failures m + 1)"

definition links_ok :: "knows \<Rightarrow> magic_link_row list \<Rightarrow> magic_link_row list \<Rightarrow> bool" where
  "links_ok k ms ms' \<longleftrightarrow> keeps_rows m_id ms ms' \<and> distinct (map m_id ms') \<and>
     (\<forall>m \<in> set ms. \<forall>m' \<in> set ms'. m_id m' = m_id m \<longrightarrow> link_kept k m m') \<and>
     (\<forall>m' \<in> set ms'. m_id m' \<notin> m_id ` set ms \<longrightarrow> m_code_failures m' = 0)"

abbreviation links_of :: "world \<Rightarrow> magic_link_row list" where
  "links_of w \<equiv> magic_links (w_db w)"

definition step_ok :: "knows \<Rightarrow> world \<Rightarrow> world \<Rightarrow> bool" where
  "step_ok k X Y \<longleftrightarrow> (case w_tx X of
      None \<Rightarrow> (case w_tx Y of
          None \<Rightarrow> links_ok k (links_of X) (links_of Y)
        | Some (c, now) \<Rightarrow> c = w_db X \<and> w_db Y = w_db X)
    | Some (c, now) \<Rightarrow> (case w_tx Y of
          None \<Rightarrow> w_db Y = w_db X \<or> w_db Y = c
        | Some _ \<Rightarrow> links_ok k (links_of X) (links_of Y)))"

text \<open>The step a request takes with what it knows, and what it knows then.\<close>

definition learns :: "knows \<Rightarrow> (db \<Rightarrow> resource list) \<Rightarrow> world \<Rightarrow> world \<Rightarrow> knows \<Rightarrow> bool" where
  "learns k l X Y k' \<longleftrightarrow> step_ok k X Y \<and> (w_tx Y = None \<longrightarrow> k' = Nothing) \<and> known k' (links_of Y) \<and>
     set (needs k') \<subseteq> set (needs k) \<union> set (l (w_db X))"

definition sees :: "knows \<Rightarrow> world \<Rightarrow> bool" where
  "sees k X \<longleftrightarrow> distinct (map m_id (links_of X)) \<and> known k (links_of X) \<and> (w_tx X = None \<longrightarrow> k = Nothing)"

text \<open>\<open>careful Q k t\<close>: from \<open>k\<close> on, every step of \<open>t\<close> is such a step; when it ends with an answer \<open>r\<close>, knowing \<open>k'\<close>, then
  \<open>Q r k'\<close>.\<close>

inductive careful :: "('e + 'a \<Rightarrow> knows \<Rightarrow> bool) \<Rightarrow> knows \<Rightarrow> ('e, 'a) task \<Rightarrow> bool" for Q where
  careful_Answered: "Q r k \<Longrightarrow> careful Q k (Answered r)"
| careful_Never: "careful Q k Never"
| careful_Step: "(\<And>X. sees k X \<Longrightarrow> \<exists>k'. learns k l X (snd (f X)) k' \<and> careful Q k' (fst (f X))) \<Longrightarrow> careful Q k (Step l f)"

inductive_cases careful_StepE: "careful Q k (Step l f)"

abbreviation any_end :: "'e + 'a \<Rightarrow> knows \<Rightarrow> bool" where
  "any_end \<equiv> (\<lambda>_ _. True)"

abbreviation plain :: "('e, 'a) task \<Rightarrow> bool" where
  "plain \<equiv> careful any_end Nothing"

lemma link_kept_less: "link_kept Nothing m m' \<Longrightarrow> link_kept k m m'"
  by (auto simp: link_kept_def)

lemma links_ok_less: "links_ok Nothing ms ms' \<Longrightarrow> links_ok k ms ms'"
  using link_kept_less by (fastforce simp: links_ok_def)

lemma step_ok_less: "step_ok Nothing X Y \<Longrightarrow> step_ok k X Y"
  by (auto simp: step_ok_def links_ok_less split: option.splits)

text \<open>Knowing more does no harm.\<close>

lemma careful_less:
  assumes "plain t"
  shows "careful any_end k t"
  using assms
proof cases
  case (careful_Step l f)
  have "\<exists>k'. learns k l X (snd (f X)) k' \<and> careful any_end k' (fst (f X))" if "sees k X" for X
  proof -
    have "sees Nothing X" using that by (simp add: sees_def)
    from careful_Step(2) [OF this] show ?thesis by (force simp: learns_def intro: step_ok_less)
  qed
  with careful_Step(1) show ?thesis by (auto intro: careful.careful_Step)
qed (auto intro: careful_Answered careful_Never)

lemma careful_after:
  assumes "careful Q k t" "\<And>r k. Q r k \<Longrightarrow> careful R k (c r)"
  shows "careful R k (after t c)"
  using assms(1)
proof induction
  case (careful_Step k l f)
  have "\<exists>k'. learns k l X (snd (f X)) k' \<and> careful R k' (after (fst (f X)) c)" if "sees k X" for X
    using careful_Step [OF that] by blast
  then show ?case by (auto simp: case_prod_beta intro!: careful.careful_Step)
qed (simp_all add: assms(2) careful_Never)

lemma links_ok_refl [simp]: "distinct (map m_id ms) \<Longrightarrow> links_ok k ms ms"
  by (auto simp: links_ok_def keeps_rows_def link_kept_def dest: distinct_key_eq)

section \<open>The invariant of the site\<close>

definition links_low :: "magic_link_row list \<Rightarrow> bool" where
  "links_low ms \<longleftrightarrow> (\<forall>m \<in> set ms. m_code_failures m \<le> MAX_FAILURES_PER_CODE)"

text \<open>The versions a transaction has written.\<close>

definition links_held :: "txn \<Rightarrow> magic_link_row list \<Rightarrow> bool" where
  "links_held x ms \<longleftrightarrow> distinct (map m_id (wr_links (tx_writes x))) \<and>
     (\<forall>p \<in> set (wr_links (tx_writes x)). LinkRow (m_id p) \<in> set (tx_locks x) \<and> m_code_failures p \<le> MAX_FAILURES_PER_CODE \<and>
        (\<forall>r \<in> set ms. m_id r = m_id p \<longrightarrow> m_email r = m_email p \<and>
           (m_code_failures p = m_code_failures r \<or> m_code_failures r \<le> m_code_failures p \<and> Address (m_email p) \<in> set (tx_locks x))))"

definition view_of :: "txn \<Rightarrow> magic_link_row list \<Rightarrow> magic_link_row list" where
  "view_of x ms = put_all m_id (wr_links (tx_writes x)) ms"

definition conn_careful :: "magic_link_row list \<Rightarrow> ('e, 'a) conn \<Rightarrow> bool" where
  "conn_careful ms c \<longleftrightarrow> (\<exists>k. careful any_end k (fst c) \<and> (case snd c of None \<Rightarrow> k = Nothing
     | Some x \<Rightarrow> set (needs k) \<subseteq> set (tx_locks x) \<and> known k (view_of x ms) \<and> links_held x ms))"

definition site_careful :: "('e, 'a) site \<Rightarrow> bool" where
  "site_careful s \<longleftrightarrow> w_tx (fst s) = None \<and> distinct (map m_id (links_of (fst s))) \<and> links_low (links_of (fst s)) \<and>
     (\<forall>c \<in> set (snd s). conn_careful (links_of (fst s)) c) \<and> apart (snd s)"

text \<open>What a step of another connection may do, to one that holds the locks \<open>L\<close>: emails stay, a locked one as it is, and
  no count of a locked address changes; none counts less than before.\<close>

definition links_grow :: "resource list \<Rightarrow> magic_link_row list \<Rightarrow> magic_link_row list \<Rightarrow> bool" where
  "links_grow L ms ms' \<longleftrightarrow> distinct (map m_id ms') \<and>
     (\<forall>m \<in> set ms. \<exists>m' \<in> set ms'. m_id m' = m_id m \<and> m_email m' = m_email m \<and> m_code_failures m \<le> m_code_failures m' \<and>
        (Address (m_email m) \<in> set L \<longrightarrow> m_code_failures m' = m_code_failures m) \<and> (LinkRow (m_id m) \<in> set L \<longrightarrow> m' = m)) \<and>
     (\<forall>m' \<in> set ms'. m_id m' \<notin> m_id ` set ms \<longrightarrow> LinkRow (m_id m') \<notin> set L)"

lemma links_grow_refl: "distinct (map m_id ms) \<Longrightarrow> links_grow L ms ms"
  by (auto simp: links_grow_def)

lemma grow_locked: "links_grow L ms ms' \<Longrightarrow> r \<in> set ms' \<Longrightarrow> LinkRow (m_id r) \<in> set L \<Longrightarrow> r \<in> set ms"
proof -
  assume grow: "links_grow L ms ms'" and r: "r \<in> set ms'" "LinkRow (m_id r) \<in> set L"
  then obtain m where m: "m \<in> set ms" "m_id m = m_id r" unfolding links_grow_def by (metis imageE)
  with grow r(2) obtain m' where "m' \<in> set ms'" "m_id m' = m_id m" "m' = m" unfolding links_grow_def by metis
  with grow r(1) m show ?thesis unfolding links_grow_def by (metis distinct_key_eq)
qed

text \<open>What a connection knows, and its writes, outlive the steps of others.\<close>

lemma conn_careful_grow:
  assumes "conn_careful ms c" "links_grow (locks_of (snd c)) ms ms'"
  shows "conn_careful ms' c"
proof (cases "snd c")
  case None
  with assms(1) show ?thesis by (simp add: conn_careful_def)
next
  case (Some x)
  with assms(1) obtain k where k: "careful any_end k (fst c)" "set (needs k) \<subseteq> set (tx_locks x)" "known k (view_of x ms)" "links_held x ms"
    by (auto simp: conn_careful_def)
  have grow: "links_grow (tx_locks x) ms ms'" using assms(2) Some by (simp add: locks_of_def)
  have "links_held x ms'"
    using k(4) grow_locked [OF grow] unfolding links_held_def by metis
  moreover have "known k (view_of x ms')"
  proof (cases k)
    case (Below e i)
    with k(3) obtain m where m: "m \<in> set (view_of x ms)" "m_id m = i" "m_email m = e" "m_code_failures m < MAX_FAILURES_PER_CODE" by auto
    have "\<exists>m' \<in> set (view_of x ms'). m_id m' = i \<and> m_email m' = e \<and> m_code_failures m' = m_code_failures m"
    proof (cases "m \<in> set (wr_links (tx_writes x))")
      case True
      with k(4) m show ?thesis by (auto simp: view_of_def links_held_def intro!: bexI [of _ m] put_all_has)
    next
      case False
      with m(1) have "m \<in> set ms" "m_id m \<notin> m_id ` set (wr_links (tx_writes x))"
        by (auto simp: view_of_def dest: set_put_all)
      moreover from this(1) grow k(2) Below m(3) obtain m' where
        "m' \<in> set ms'" "m_id m' = m_id m" "m_email m' = m_email m" "m_code_failures m' = m_code_failures m"
        by (auto simp: links_grow_def)
      ultimately show ?thesis using m by (auto simp: view_of_def intro!: bexI [of _ m'] put_all_other)
    qed
    with m(4) Below show ?thesis by auto
  qed simp_all
  ultimately show ?thesis using k Some by (auto simp: conn_careful_def)
qed

section \<open>A step of the site\<close>

lemma written_links [simp]: "wr_links (written d d') = new_rows (magic_links d) (magic_links d')"
  by (simp add: written_def)

lemma more_links [simp]: "wr_links (more_writes new own) = put_all m_id (wr_links new) (wr_links own)"
  by (simp add: more_writes_def)

lemma seen_links: "links_of (seen_by x w) = (case x of None \<Rightarrow> links_of w | Some x \<Rightarrow> view_of x (links_of w))"
  by (simp add: view_of_def split: option.split)

lemma view_distinct: "distinct (map m_id ms) \<Longrightarrow> links_held x ms \<Longrightarrow> distinct (map m_id (view_of x ms))"
  by (simp add: view_of_def links_held_def put_all_distinct)

text \<open>A commit.\<close>

lemma commit_grows:
  assumes "links_held x ms" "distinct (map m_id ms)" "links_low ms" "set (tx_locks x) \<inter> set L = {}"
  shows "links_grow L ms (view_of x ms) \<and> links_low (view_of x ms)"
proof -
  let ?own = "wr_links (tx_writes x)"
  have held: "distinct (map m_id ?own)" "\<And>p. p \<in> set ?own \<Longrightarrow> LinkRow (m_id p) \<notin> set L"
    "\<And>p. p \<in> set ?own \<Longrightarrow> m_code_failures p \<le> MAX_FAILURES_PER_CODE"
    using assms(1,4) by (auto simp: links_held_def)
  have "\<exists>m' \<in> set (view_of x ms). m_id m' = m_id m \<and> m_email m' = m_email m \<and> m_code_failures m \<le> m_code_failures m' \<and>
        (Address (m_email m) \<in> set L \<longrightarrow> m_code_failures m' = m_code_failures m) \<and> (LinkRow (m_id m) \<in> set L \<longrightarrow> m' = m)"
    if m: "m \<in> set ms" for m
  proof (cases "m_id m \<in> m_id ` set ?own")
    case True
    then obtain p where p: "p \<in> set ?own" "m_id m = m_id p" by auto
    with assms(1) m have kept: "m_email m = m_email p" "m_code_failures p = m_code_failures m \<or>
        m_code_failures m \<le> m_code_failures p \<and> Address (m_email p) \<in> set (tx_locks x)" by (auto simp: links_held_def)
    moreover have "p \<in> set (view_of x ms)" using held(1) p(1) by (simp add: view_of_def put_all_has)
    ultimately show ?thesis using p held(2) [OF p(1)] assms(4) by (intro bexI [of _ p]) auto
  next
    case False
    with m show ?thesis by (auto simp: view_of_def intro!: bexI [of _ m] put_all_other)
  qed
  moreover have "LinkRow (m_id m') \<notin> set L" if "m' \<in> set (view_of x ms)" "m_id m' \<notin> m_id ` set ms" for m'
    using that held(2) by (auto simp: view_of_def dest!: set_put_all)
  moreover have "links_low (view_of x ms)"
    using assms(3) held(3) by (auto simp: links_low_def view_of_def dest!: set_put_all)
  ultimately show ?thesis using view_distinct [OF assms(2,1)] by (simp add: links_grow_def)
qed

text \<open>A statement that commits at once.\<close>

lemma auto_grows:
  assumes "links_ok Nothing ms ms'" "links_low ms" "\<And>m'. m' \<in> set ms' \<Longrightarrow> m' \<notin> set ms \<Longrightarrow> LinkRow (m_id m') \<notin> set L"
    and "distinct (map m_id ms)"
  shows "links_grow L ms ms' \<and> links_low ms'"
proof -
  have keys: "m_id ` set ms \<subseteq> m_id ` set ms'" using assms(1) by (auto simp: links_ok_def keeps_rows_def dest!: arg_cong [where f = set])
  have kept: "m_email m' = m_email m \<and> m_code_failures m' = m_code_failures m" if "m \<in> set ms" "m' \<in> set ms'" "m_id m' = m_id m" for m m'
    using assms(1) that by (auto simp: links_ok_def link_kept_def)
  have "\<exists>m' \<in> set ms'. m_id m' = m_id m \<and> m_email m' = m_email m \<and> m_code_failures m \<le> m_code_failures m' \<and>
        (Address (m_email m) \<in> set L \<longrightarrow> m_code_failures m' = m_code_failures m) \<and> (LinkRow (m_id m) \<in> set L \<longrightarrow> m' = m)"
    if m: "m \<in> set ms" for m
  proof -
    from m keys obtain m' where m': "m' \<in> set ms'" "m_id m' = m_id m" by (metis imageE image_eqI subsetD)
    have "m' = m" if "LinkRow (m_id m) \<in> set L"
    proof -
      from assms(3) [OF m'(1)] m'(2) that have "m' \<in> set ms" by auto
      with m m' assms(4) show ?thesis by (auto intro: distinct_key_eq)
    qed
    with m' kept [OF m m'] show ?thesis by (intro bexI [of _ m']) auto
  qed
  moreover have "m_code_failures m' \<le> MAX_FAILURES_PER_CODE" if "m' \<in> set ms'" for m'
    using that assms(1,2) kept by (cases "m_id m' \<in> m_id ` set ms") (auto simp: links_ok_def links_low_def MAX_FAILURES_PER_CODE_def)
  moreover have "LinkRow (m_id m') \<notin> set L" if "m' \<in> set ms'" "m_id m' \<notin> m_id ` set ms" for m'
    using that assms(3) by auto
  ultimately show ?thesis using assms(1) by (simp add: links_grow_def links_low_def links_ok_def)
qed

text \<open>A statement inside a transaction.\<close>

lemma stmt_held:
  assumes "links_held x ms" "distinct (map m_id ms)" "links_low ms" "links_ok k (view_of x ms) ms'"
    and "known k (view_of x ms)" "set (needs k) \<subseteq> set (tx_locks x)"
    and "wr_links (tx_writes y) = put_all m_id (new_rows (view_of x ms) ms') (wr_links (tx_writes x))"
    and "set (tx_locks x) \<subseteq> set (tx_locks y)" "\<And>p. p \<in> set (new_rows (view_of x ms) ms') \<Longrightarrow> LinkRow (m_id p) \<in> set (tx_locks y)"
  shows "links_held y ms \<and> view_of y ms = ms'"
proof -
  let ?v = "view_of x ms" and ?own = "wr_links (tx_writes x)"
  have ok: "keeps_rows m_id ?v ms'" "distinct (map m_id ms')"
    "\<And>m m'. m \<in> set ?v \<Longrightarrow> m' \<in> set ms' \<Longrightarrow> m_id m' = m_id m \<Longrightarrow> link_kept k m m'"
    "\<And>m'. m' \<in> set ms' \<Longrightarrow> m_id m' \<notin> m_id ` set ?v \<Longrightarrow> m_code_failures m' = 0"
    using assms(4) by (auto simp: links_ok_def)
  have dv: "distinct (map m_id ?v)" by (rule view_distinct [OF assms(2,1)])
  have own: "distinct (map m_id ?own)" "\<And>p. p \<in> set ?own \<Longrightarrow> LinkRow (m_id p) \<in> set (tx_locks x) \<and> m_code_failures p \<le> MAX_FAILURES_PER_CODE"
    "\<And>p r. p \<in> set ?own \<Longrightarrow> r \<in> set ms \<Longrightarrow> m_id r = m_id p \<Longrightarrow> m_email r = m_email p \<and>
       (m_code_failures p = m_code_failures r \<or> m_code_failures r \<le> m_code_failures p \<and> Address (m_email p) \<in> set (tx_locks x))"
    using assms(1) by (auto simp: links_held_def)
  have vkeys: "m_id ` set ?v = m_id ` set ms \<union> m_id ` set ?own" by (simp add: view_of_def put_all_key_set)
  have vlow: "m_code_failures m \<le> MAX_FAILURES_PER_CODE" if "m \<in> set ?v" for m
    using that own(2) assms(3) by (auto simp: view_of_def links_low_def dest!: set_put_all)
  text \<open>A row of the view, against the committed row.\<close>
  have vrow: "m_email r = m_email m \<and> (m_code_failures m = m_code_failures r \<or>
      m_code_failures r \<le> m_code_failures m \<and> Address (m_email m) \<in> set (tx_locks x))"
    if "m \<in> set ?v" "r \<in> set ms" "m_id r = m_id m" for m r
    using that own(3) [of m r] distinct_key_eq [OF assms(2), of m r] by (auto simp: view_of_def dest!: set_put_all)
  have below: "m_code_failures m < MAX_FAILURES_PER_CODE \<and> Address (m_email m) \<in> set (tx_locks x)"
    if "k = Below (m_email m) (m_id m)" "m \<in> set ?v" for m
    using that assms(5,6) distinct_key_eq [OF dv] by auto
  have new: "m_code_failures p \<le> MAX_FAILURES_PER_CODE \<and> (\<forall>r \<in> set ms. m_id r = m_id p \<longrightarrow> m_email r = m_email p \<and>
       (m_code_failures p = m_code_failures r \<or> m_code_failures r \<le> m_code_failures p \<and> Address (m_email p) \<in> set (tx_locks x)))"
    if p: "p \<in> set ms'" for p
  proof (cases "m_id p \<in> m_id ` set ?v")
    case True
    then obtain m where m: "m \<in> set ?v" "m_id p = m_id m" by auto
    from ok(3) [OF m(1) p m(2)] have kept: "link_kept k m p" .
    then have "m_code_failures p \<le> MAX_FAILURES_PER_CODE" using vlow [OF m(1)] below [OF _ m(1)] by (auto simp: link_kept_def)
    moreover have "m_email r = m_email p \<and>
       (m_code_failures p = m_code_failures r \<or> m_code_failures r \<le> m_code_failures p \<and> Address (m_email p) \<in> set (tx_locks x))"
      if "r \<in> set ms" "m_id r = m_id p" for r
      using vrow [OF m(1) that(1)] that(2) m(2) kept below [OF _ m(1)] by (auto simp: link_kept_def)
    ultimately show ?thesis by blast
  next
    case False
    then have "m_id r \<noteq> m_id p" if "r \<in> set ms" for r using that vkeys by (metis UnI1 imageI)
    with ok(4) [OF p False] show ?thesis by (auto simp: MAX_FAILURES_PER_CODE_def)
  qed
  have "links_held y ms"
    unfolding links_held_def assms(7)
  proof (intro conjI ballI impI, goal_cases)
    case 1
    show ?case by (intro put_all_distinct own(1) new_rows_distinct ok(2))
  next
    case (2 p)
    then show ?case using own(2) assms(8,9) by (auto dest!: set_put_all)
  next
    case (3 p)
    then show ?case using own(2) new by (auto dest!: set_put_all)
  next
    case (4 p r)
    then show ?case using own(3) new by (auto dest!: set_put_all)
  next
    case (5 p r)
    then show ?case using own(3) new assms(8) by (auto dest!: set_put_all) blast+
  qed
  moreover have "view_of y ms = ms'"
  proof -
    from ok(1) obtain ks where "map m_id ms' = map m_id ?v @ ks" by (auto simp: keeps_rows_def)
    from put_new_rows [OF this ok(2)] show ?thesis by (simp add: view_of_def assms(7) put_put)
  qed
  ultimately show ?thesis by simp
qed

text \<open>Together: the step of one connection.\<close>

lemma conn_step_careful:
  assumes "conn_step held w c = Some (c', w')" "w_tx w = None" "distinct (map m_id (links_of w))" "links_low (links_of w)"
    and "conn_careful (links_of w) c"
  shows "w_tx w' = None \<and> links_low (links_of w') \<and> conn_careful (links_of w') c' \<and>
    (\<forall>L. set L \<subseteq> set held \<longrightarrow> set (locks_of (snd c)) \<inter> set L = {} \<longrightarrow>
       links_grow L (links_of w) (links_of w') \<and> set (locks_of (snd c')) \<inter> set L = {})"
  using conn_step_moves [OF assms(1)]
proof cases
  case (end_tx f x t' l)
  with assms(5) obtain k where k: "careful any_end k (Step l f)" "set (needs k) \<subseteq> set (tx_locks x)"
    "known k (view_of x (links_of w))" "links_held x (links_of w)" by (auto simp: conn_careful_def)
  let ?X = "seen_by (Some x) w"
  have "sees k ?X" using k view_distinct [OF assms(3) k(4)] by (simp add: sees_def view_of_def)
  with k(1) obtain k' where k': "learns k l ?X (snd (f ?X)) k'" "careful any_end k' (fst (f ?X))" by (blast elim: careful_StepE)
  then have t': "plain t'" and db: "links_of w' = view_of x (links_of w) \<or> links_of w' = links_of w"
    using end_tx by (auto simp: learns_def step_ok_def view_of_def)
  have "links_grow L (links_of w) (links_of w') \<and> links_low (links_of w')" if "set (tx_locks x) \<inter> set L = {}" for L
    using db commit_grows [OF k(4) assms(3,4) that] links_grow_refl [OF assms(3)] assms(4) by auto
  moreover from this [of "[]"] have "links_low (links_of w')" by simp
  ultimately show ?thesis using t' end_tx by (auto simp: conn_careful_def locks_of_def)
next
  case (auto_commit f t' l)
  with assms(5) have k: "plain (Step l f)" by (auto simp: conn_careful_def)
  have "sees Nothing w" using assms(3) by (simp add: sees_def)
  with k obtain k' where k': "learns Nothing l w (snd (f w)) k'" "careful any_end k' (fst (f w))" by (blast elim: careful_StepE)
  then have t': "plain t'" and ok: "links_ok Nothing (links_of w) (links_of w')"
    using auto_commit assms(2) by (auto simp: learns_def step_ok_def)
  have grow: "links_grow L (links_of w) (links_of w') \<and> links_low (links_of w')" if "set L \<subseteq> set held" for L
  proof (rule auto_grows [OF ok assms(4) _ assms(3)])
    fix m' assume "m' \<in> set (links_of w')" "m' \<notin> set (links_of w)"
    then have "LinkRow (m_id m') \<in> set (resources_of (written (w_db w) (w_db w')))" by simp
    with auto_commit that show "LinkRow (m_id m') \<notin> set L" by (auto simp del: in_resources)
  qed
  from this [of "[]"] show ?thesis using grow t' auto_commit by (auto simp: conn_careful_def locks_of_def)
next
  case (in_tx f x t' v c now new wanted l)
  let ?X = "seen_by x w" and ?y = "\<lparr>tx_writes = more_writes new (writes_of x), tx_now = now, tx_locks = locks_of x @ wanted\<rparr>"
  define x0 where "x0 = (case x of None \<Rightarrow> \<lparr>tx_writes = no_writes, tx_now = now, tx_locks = []\<rparr> | Some x \<Rightarrow> x)"
  have x0: "tx_writes x0 = writes_of x" "tx_locks x0 = locks_of x" "links_of ?X = view_of x0 (links_of w)"
    by (simp_all add: x0_def writes_of_def locks_of_def view_of_def no_writes_def split: option.split)
  from in_tx assms(5) obtain k where k: "careful any_end k (Step l f)" "x = None \<longrightarrow> k = Nothing"
    "set (needs k) \<subseteq> set (tx_locks x0)" "known k (view_of x0 (links_of w))" "links_held x0 (links_of w)"
    by (auto simp: conn_careful_def x0_def links_held_def no_writes_def split: option.splits)
  have "sees k ?X" using k view_distinct [OF assms(3) k(5)] assms(2) by (auto simp: sees_def x0(3))
  with k(1) obtain k' where k': "learns k l ?X (snd (f ?X)) k'" "careful any_end k' (fst (f ?X))" by (blast elim: careful_StepE)
  have ok: "links_ok k (view_of x0 (links_of w)) (links_of v)"
    using k' in_tx assms(2) view_distinct [OF assms(3) k(5)] x0(3) by (cases x) (auto simp: learns_def step_ok_def)
  have "links_held ?y (links_of w) \<and> view_of ?y (links_of w) = links_of v"
    by (rule stmt_held [OF k(5) assms(3,4) ok k(4,3)]) (use in_tx x0 in auto)
  moreover have "known k' (links_of v)" "set (needs k') \<subseteq> set (tx_locks ?y)"
    using k' in_tx k(3) by (auto simp: learns_def x0(2))
  ultimately have "conn_careful (links_of w) (t', Some ?y)" using k'(2) in_tx by (auto simp: conn_careful_def)
  then show ?thesis using in_tx assms(3,4) links_grow_refl by (auto simp: locks_of_def)
qed

lemma site_step_careful:
  assumes "site_careful s" "site_step i s = Some s'"
  shows "site_careful s' \<and> links_grow [] (links_of (fst s)) (links_of (fst s'))"
proof -
  obtain w cs where s: "s = (w, cs)" by (cases s)
  with assms(2) obtain c' w' where i: "i < length cs" "conn_step (held_by_others i cs) w (cs ! i) = Some (c', w')" "s' = (w', cs[i := c'])"
    by (auto simp: site_step_def split: if_splits)
  have ok: "w_tx w = None" "distinct (map m_id (links_of w))" "links_low (links_of w)" "\<And>c. c \<in> set cs \<Longrightarrow> conn_careful (links_of w) c" "apart cs"
    using assms(1) by (simp_all add: s site_careful_def)
  from conn_step_careful [OF i(2) ok(1-3) ok(4) [OF nth_mem [OF i(1)]]] have step: "w_tx w' = None" "links_low (links_of w')"
    "conn_careful (links_of w') c'" "\<And>L. set L \<subseteq> set (held_by_others i cs) \<Longrightarrow> set (locks_of (snd (cs ! i))) \<inter> set L = {} \<Longrightarrow>
       links_grow L (links_of w) (links_of w') \<and> set (locks_of (snd c')) \<inter> set L = {}" by auto
  have see: "links_grow (locks_of (snd (cs ! j))) (links_of w) (links_of w') \<and> set (locks_of (snd c')) \<inter> set (locks_of (snd (cs ! j))) = {}"
    if "j < length cs" "j \<noteq> i" for j
    using step(4) [OF held_by_others_set [OF that]] ok(5) that i(1) by (simp add: apart_def)
  have grow: "links_grow [] (links_of w) (links_of w')" using step(4) [of "[]"] by simp
  have "conn_careful (links_of w') c" if "c \<in> set (cs[i := c'])" for c
  proof -
    from that obtain j where j: "j < length cs" "c = cs[i := c'] ! j" by (auto simp: in_set_conv_nth)
    show ?thesis
    proof (cases "j = i")
      case False
      from conn_careful_grow [OF ok(4) [OF nth_mem [OF j(1)]]] see [OF j(1) False] show ?thesis using j(2) False by simp
    qed (use j step(3) in simp)
  qed
  moreover have "apart (cs[i := c'])" by (rule apart_step [OF ok(5)]) (use see in blast)
  ultimately show ?thesis using step grow by (simp add: site_careful_def s i(3) links_grow_def)
qed

end
