(* ===== verification/GuessLimit.thy ===== *)
theory GuessLimit
  imports Guesses Lifecycle
begin

text \<open>
  The routes of login and the token endpoint are \<open>careful\<close> in the sense of theory \<open>Guesses\<close>, so on a site where any number
  of them run at once no email ever counts more than five wrong codes, and no count is lost.
\<close>

section \<open>Careful steps\<close>

named_theorems carefully \<open>careful requests\<close>

text \<open>A computation that changes no count, and statements that do not.\<close>

definition quiet :: "('e, 'a) req \<Rightarrow> bool" where
  "quiet m \<longleftrightarrow> (\<forall>X r Y. distinct (map m_id (links_of X)) \<longrightarrow> m X = Some (r, Y) \<longrightarrow> step_ok Nothing X Y)"

definition quiet_stmt :: "'a stmt \<Rightarrow> bool" where
  "quiet_stmt q \<longleftrightarrow> (\<forall>t i d a d'. distinct (map m_id (magic_links d)) \<longrightarrow> q t i d = Inr (a, d') \<longrightarrow>
     links_ok Nothing (magic_links d) (magic_links d'))"

lemma step_ok_refl: "distinct (map m_id (links_of X)) \<Longrightarrow> w_db Y = w_db X \<Longrightarrow> w_tx Y = w_tx X \<Longrightarrow> step_ok k X Y"
  by (simp add: step_ok_def split: option.split)

lemma plain_locking: "quiet m \<Longrightarrow> plain (locking l m)"
  unfolding locking_def quiet_def
  by (rule careful_Step) (auto simp: learns_def sees_def step_ok_refl split: option.split
      intro!: exI [of _ Nothing] careful_Answered careful_Never)

lemma plain_one [carefully]: "quiet m \<Longrightarrow> plain (one m)"
  by (simp add: one_def plain_locking)

lemma plain_after: "careful any_end k t \<Longrightarrow> (\<And>r. plain (c r)) \<Longrightarrow> careful any_end k (after t c)"
  by (erule careful_after) (rule careful_less)

lemma plain_then [carefully]: "careful any_end k t \<Longrightarrow> (\<And>a. plain (c a)) \<Longrightarrow> careful any_end k (t_then t c)"
  unfolding t_then_def by (erule plain_after) (auto intro: careful_Answered split: sum.split)

lemma careful_map_err [carefully]: "careful any_end k t \<Longrightarrow> careful any_end k (t_map_err g t)"
  unfolding t_map_err_def by (erule plain_after) (simp add: careful_Answered)

lemma careful_const [carefully]: "careful any_end k (t_ok a)" "careful any_end k (t_err e)" "careful any_end k (t_ok_or x e)"
  by (auto simp: t_ok_def t_err_def t_ok_or_def intro: careful_Answered split: option.split)

lemma careful_cases [carefully]: "careful any_end k t \<Longrightarrow> careful any_end k u \<Longrightarrow> careful any_end k (if b then t else u)"
  "careful any_end k t \<Longrightarrow> (\<And>a. careful any_end k (f a)) \<Longrightarrow> careful any_end k (case x of None \<Rightarrow> t | Some a \<Rightarrow> f a)"
  by (simp_all split: option.split)

lemma careful_scoped [carefully]:
  assumes "careful any_end k t"
  shows "careful any_end k (t_scoped t)"
proof -
  have "plain (Step (\<lambda>_. []) (\<lambda>w. (Answered r, drop_tx w)))" for r :: "'a + 'b"
  proof (rule careful_Step)
    fix X :: world assume "sees Nothing X"
    then have "learns Nothing (\<lambda>_. []) X (drop_tx X) Nothing"
      by (cases "w_tx X") (auto simp: learns_def sees_def step_ok_def drop_tx_def)
    then show "\<exists>k'. learns Nothing (\<lambda>_. []) X (snd (Answered r :: ('a, 'b) task, drop_tx X)) k' \<and>
        careful any_end k' (fst (Answered r :: ('a, 'b) task, drop_tx X))"
      by (auto intro: careful_Answered)
  qed
  with assms show ?thesis unfolding t_scoped_def by (rule plain_after)
qed

section \<open>The steps of the routes\<close>

lemma quiet_map_err [carefully]: "quiet m \<Longrightarrow> quiet (map_err g m)"
  by (auto simp: quiet_def map_err_def split: option.splits prod.splits)

lemma quiet_same: "(\<And>X r Y. m X = Some (r, Y) \<Longrightarrow> w_db Y = w_db X \<and> w_tx Y = w_tx X) \<Longrightarrow> quiet m"
  by (auto simp: quiet_def intro: step_ok_refl)

lemma quiet_exec: "quiet_stmt q \<Longrightarrow> quiet (exec q)"
  by (fastforce simp: quiet_def quiet_stmt_def exec_def step_ok_def split: if_splits sum.splits option.splits)

lemma quiet_sql [carefully]: "quiet_stmt q \<Longrightarrow> quiet (sql q)" "quiet_stmt q \<Longrightarrow> quiet (osql q)"
  by (simp_all add: sql_def osql_def quiet_exec quiet_map_err)

lemma quiet_tx [carefully]: "quiet begin_tx" "quiet commit_tx" "quiet rollback_tx"
  by (auto simp: quiet_def begin_tx_def commit_tx_def rollback_tx_def drop_tx_def step_ok_def split: if_splits option.splits)

lemma quiet_supplies [carefully]: "quiet utc_now" "quiet load_keys" "quiet (token_generate E)" "quiet (issue E ks iss u s c now)"
  "quiet (code_generate E key owner)" "quiet (send_in_background m)" "quiet (limiter_check E l key')" "quiet (result r)"
  "quiet (flow_exhausted flow)"
  by (rule quiet_same;
      auto simp: utc_now_def load_keys_def token_generate_def and_then_def random_bytes_def ok_def err_def issue_def ok_or_def uuid_now_v7_def
        code_generate_def random_below_req_def send_in_background_def limiter_check_def Let_def result_def flow_exhausted_def
        split: option.splits sum.splits)+

section \<open>Their statements\<close>

lemma links_ok_update:
  assumes "distinct (map m_id ms)" "\<And>m. m_id (f m) = m_id m" "\<And>m. m \<in> set ms \<Longrightarrow> p m \<Longrightarrow> link_kept k m (f m)"
  shows "links_ok k ms (upd_where p f ms)"
proof -
  have "link_kept k m m'" if "m \<in> set ms" "m' \<in> set (upd_where p f ms)" "m_id m' = m_id m" for m m'
  proof -
    from that(2) obtain q where q: "q \<in> set ms" "m' = (if p q then f q else q)" by (auto simp: in_upd_where)
    with that(3) assms(2) have "m_id q = m_id m" by (auto split: if_splits)
    with distinct_key_eq [OF assms(1) q(1) that(1)] have "q = m" by simp
    with q assms(3) show ?thesis by (auto simp: link_kept_def split: if_splits)
  qed
  then show ?thesis using assms(1,2) by (auto simp: links_ok_def keeps_rows_def in_upd_where split: if_splits)
qed

lemma links_ok_more: "distinct (map m_id ms) \<Longrightarrow> m_id m \<notin> m_id ` set ms \<Longrightarrow> m_code_failures m = 0 \<Longrightarrow> links_ok k ms (ms @ [m])"
  by (auto simp: links_ok_def keeps_rows_def link_kept_def dest: distinct_key_eq)

lemma quiet_same_links: "(\<And>t i d a d'. q t i d = Inr (a, d') \<Longrightarrow> magic_links d' = magic_links d) \<Longrightarrow> quiet_stmt q"
  by (auto simp: quiet_stmt_def)

lemma quiet_reads [carefully]: "quiet_stmt (users_find_by_id u)" "quiet_stmt (users_find_by_email E e)"
  "quiet_stmt (login_flows_find_pending_magic_link_flow f)" "quiet_stmt (magic_links_newest_email f)"
  "quiet_stmt (authorization_codes_find_consumed h)" "quiet_stmt (refresh_tokens_find_for_update h)"
  "quiet_stmt (refresh_tokens_has_used_successor i)"
  by (rule quiet_same_links; simp add: sql)+

lemma quiet_writes [carefully]: "quiet_stmt (users_create E e)" "quiet_stmt (users_mark_email_verified u e)"
  "quiet_stmt (login_flows_create c r ch s x)" "quiet_stmt (login_flows_count_magic_link_request f n x)"
  "quiet_stmt (login_flows_complete f)" "quiet_stmt (authorization_codes_create h f u x)"
  "quiet_stmt (authorization_codes_consume h)" "quiet_stmt (sessions_create u c a x)"
  "quiet_stmt (sessions_revoke_by_authorization_code i)" "quiet_stmt (sessions_revoke i)"
  "quiet_stmt (sessions_revoke_by_refresh_token h c)" "quiet_stmt (refresh_tokens_create i h q)"
  "quiet_stmt (refresh_tokens_mark_rotated i)" "quiet_stmt (refresh_tokens_supersede_unused_successors i)"
  by (rule quiet_same_links; auto simp: sql Let_def upd_returning_def revoke_where_def split: if_splits)+

lemma quiet_links [carefully]: "quiet_stmt (magic_links_create E f u e th ch x)" "quiet_stmt (magic_links_consume h)"
  "quiet_stmt (magic_links_consume_by_id i)"
  by (auto simp: quiet_stmt_def sql Let_def upd_returning_def link_kept_def split: if_splits
      intro!: links_ok_update links_ok_more)

section \<open>The routes\<close>

lemma careful_sql [carefully]: "quiet_stmt q \<Longrightarrow> plain (t_sql q)" "quiet_stmt q \<Longrightarrow> plain (t_osql q)"
  by (simp_all add: t_sql_def t_osql_def carefully)

lemma careful_login_parts [carefully]: "plain (flow_complete_task E f u)" "plain (login_user_task E uid e)"
  "plain (send_magic_link_task E st client f e x r)"
  unfolding flow_complete_task_def login_user_task_def send_magic_link_task_def
  by (intro carefully quiet_exec)+

lemma careful_log_in [carefully]: "plain (log_in_task E f uid e stale)"
  unfolding log_in_task_def by (intro carefully)

lemma careful_token_parts [carefully]:
  "plain (new_refresh_token_task E i p)" "plain (sessions_open_task E u c a)" "plain (reject_unusable_code_task h)"
  "plain (refresh_stolen_task cur now)" "plain (refresh_finish_task E st client cur now)"
  unfolding new_refresh_token_task_def sessions_open_task_def reject_unusable_code_task_def refresh_stolen_task_def
    refresh_finish_task_def Let_def
  by (intro carefully quiet_exec)+

lemma careful_token: "plain (oauth_token_task E st input)" "plain (oauth_revoke_task E st rv)"
  unfolding oauth_token_task_def authorization_code_task_def exchange_consumed_task_def refresh_token_task_def oauth_revoke_task_def
  by (intro carefully plain_locking)+

lemma careful_quiet_routes: "plain (create_flow_task st input)" "plain (magic_link_request_task E st ip f e)"
  "plain (magic_link_confirm_task E st ip tok)"
  unfolding create_flow_task_def magic_link_request_task_def magic_link_confirm_task_def
  by (intro carefully)+

section \<open>Typing a code\<close>

text \<open>A step with an answer that tells what is known then; it does not end the transaction.\<close>

lemma careful_locking:
  assumes "\<And>X r Y. sees k X \<Longrightarrow> m X = Some (r, Y) \<Longrightarrow> \<exists>k'. learns k l X Y k' \<and> Q r k'" "\<And>X. \<exists>r Y. m X = Some (r, Y)"
  shows "careful Q k (locking l m)"
  unfolding locking_def
proof (rule careful_Step)
  fix X assume X: "sees k X"
  from assms(2) obtain r Y where m: "m X = Some (r, Y)" by blast
  from assms(1) [OF X this] m show "\<exists>k'. learns k l X (snd (case m X of None \<Rightarrow> (Never, X) | Some (r, w') \<Rightarrow> (Answered r, w'))) k' \<and>
      careful Q k' (fst (case m X of None \<Rightarrow> (Never, X) | Some (r, w') \<Rightarrow> (Answered r, w')))"
    by (auto intro: careful_Answered)
qed

lemma careful_exec:
  assumes "\<And>t i d a d'. distinct (map m_id (magic_links d)) \<Longrightarrow> known k (magic_links d) \<Longrightarrow> q t i d = Inr (a, d') \<Longrightarrow>
      links_ok k (magic_links d) (magic_links d') \<and>
      (\<exists>k'. Q (Inr a) k' \<and> known k' (magic_links d') \<and> set (needs k') \<subseteq> set (needs k) \<union> set (l d))"
    and "\<And>e. Q (Inl e) Nothing" "k \<noteq> Nothing"
  shows "careful Q k (locking l (exec q))"
proof (rule careful_locking)
  fix X r Y assume X: "sees k X" and Y: "exec q X = Some (r, Y)"
  from X assms(3) obtain c now where tx: "w_tx X = Some (c, now)" by (cases "w_tx X") (auto simp: sees_def)
  show "\<exists>k'. learns k l X Y k' \<and> Q r k'"
  proof (cases r)
    case (Inl e)
    with Y have "w_db Y = w_db X" "w_tx Y = w_tx X" by (auto simp: exec_def split: if_splits sum.splits)
    with X tx assms(2) Inl show ?thesis
      by (intro exI [of _ Nothing]) (auto simp: learns_def sees_def step_ok_refl)
  next
    case (Inr a)
    with Y have q: "q (stmt_now X) (w_ids X 0) (w_db X) = Inr (a, w_db Y)" "w_tx Y = w_tx X"
      by (auto simp: exec_def split: if_splits sum.splits)
    from assms(1) [OF _ _ q(1)] X obtain k' where "links_ok k (links_of X) (links_of Y)" "Q (Inr a) k'" "known k' (links_of Y)"
      "set (needs k') \<subseteq> set (needs k) \<union> set (l (w_db X))" by (auto simp: sees_def)
    then show ?thesis using Inr q(2) tx by (auto simp: learns_def step_ok_def)
  qed
qed (auto simp: exec_def split: sum.split)

lemma careful_then:
  assumes "careful Q k t" "\<And>a k. Q (Inr a) k \<Longrightarrow> careful R k (c a)" "\<And>e k. Q (Inl e) k \<Longrightarrow> R (Inl e) k"
  shows "careful R k (t_then t c)"
  unfolding t_then_def by (rule careful_after [OF assms(1)]) (auto intro: assms(2,3) careful_Answered split: sum.split)

definition begun :: "'e + unit \<Rightarrow> knows \<Rightarrow> bool" where
  "begun r k \<longleftrightarrow> (\<forall>u. r = Inr u \<longrightarrow> k = Inside)"

lemma careful_begin: "careful begun Nothing (one (map_err g begin_tx))"
  unfolding one_def
proof (rule careful_locking)
  fix X r Y assume X: "sees Nothing X" and Y: "map_err g begin_tx X = Some (r, Y)"
  let ?k = "case r of Inl _ \<Rightarrow> Nothing | Inr _ \<Rightarrow> Inside"
  have "learns Nothing (\<lambda>_. []) X Y ?k \<and> begun r ?k"
    using X Y by (auto simp: map_err_def begin_tx_def learns_def sees_def step_ok_def begun_def split: if_splits option.split)
  then show "\<exists>k'. learns Nothing (\<lambda>_. []) X Y k' \<and> begun r k'" by blast
qed (simp add: map_err_def begin_tx_def)

text \<open>A candidate is below the limit, and the lock of its address is held.\<close>

definition found_below :: "'e + link_candidate option \<Rightarrow> knows \<Rightarrow> bool" where
  "found_below r k \<longleftrightarrow> (\<forall>link. r = Inr (Some link) \<longrightarrow> (\<exists>e. k = Below e (lc_id link)))"

definition still :: "knows \<Rightarrow> 'e + 'a \<Rightarrow> knows \<Rightarrow> bool" where
  "still k r k' \<longleftrightarrow> (\<forall>a. r = Inr a \<longrightarrow> k' = k)"

lemma careful_candidate: "careful found_below Inside (find_code_candidate_task f MAX_FAILURES_PER_CODE n)"
  unfolding find_code_candidate_task_def
proof (rule careful_then [of "still Inside"])
  show "careful (still Inside) Inside (one (exec (magic_links_newest_email f)))"
    unfolding one_def by (rule careful_exec) (auto simp: sql still_def)
  fix found k assume "still Inside (Inr found :: sql_error + string option) k"
  then have k: "k = Inside" by (simp add: still_def)
  show "careful found_below k (case found of None \<Rightarrow> t_ok None
     | Some email \<Rightarrow> t_then (locking (\<lambda>_. [Address email]) (exec lock_stmt)) (\<lambda>_. one (exec (magic_links_candidate f email MAX_FAILURES_PER_CODE n))))"
  proof (cases found)
    case None
    then show ?thesis by (simp add: t_ok_def found_below_def careful_Answered)
  next
    case (Some email)
    have "careful found_below Inside (t_then (locking (\<lambda>_. [Address email]) (exec lock_stmt))
        (\<lambda>_. one (exec (magic_links_candidate f email MAX_FAILURES_PER_CODE n))))"
    proof (rule careful_then [of "still (Holds email)"])
      show "careful (still (Holds email)) Inside (locking (\<lambda>_. [Address email]) (exec lock_stmt))"
        by (rule careful_exec) (auto simp: sql still_def intro!: exI [of _ "Holds email"])
      fix u k assume "still (Holds email) (Inr u :: sql_error + unit) k"
      then have k: "k = Holds email" by (simp add: still_def)
      show "careful found_below k (one (exec (magic_links_candidate f email MAX_FAILURES_PER_CODE n)))"
        unfolding one_def k
      proof (rule careful_exec)
        fix t i d a d'
        assume d: "distinct (map m_id (magic_links d))" and q: "magic_links_candidate f email MAX_FAILURES_PER_CODE n t i d = Inr (a, d')"
        show "links_ok (Holds email) (magic_links d) (magic_links d') \<and>
          (\<exists>k'. found_below (Inr a :: sql_error + link_candidate option) k' \<and> known k' (magic_links d') \<and> set (needs k') \<subseteq> set (needs (Holds email)) \<union> set [])"
        proof (cases a)
          case None
          with q d show ?thesis by (auto simp: sql found_below_def intro!: exI [of _ Nothing])
        next
          case (Some link)
          with q obtain m where m: "newest_link d f = Some m" "m_email m = email" "m_code_failures m < MAX_FAILURES_PER_CODE" "lc_id link = m_id m"
            by (auto simp: sql split: option.splits if_splits)
          from newest_link_set [OF m(1)] have "m \<in> set (magic_links d)" by simp
          with q d m Some show ?thesis
            by (intro conjI exI [of _ "Below email (lc_id link)"]) (auto simp: sql found_below_def)
        qed
      qed (simp_all add: found_below_def)
    qed (simp add: found_below_def)
    with k Some show ?thesis by simp
  qed
qed (simp add: found_below_def)

lemma careful_record:
  "careful (still Nothing) (Below e i) (one (exec (magic_links_record_code_failure i MAX_FAILURES_PER_CODE)))"
  unfolding one_def
proof (rule careful_exec)
  fix t j d a d'
  assume d: "distinct (map m_id (magic_links d))" "known (Below e i) (magic_links d)"
    and q: "magic_links_record_code_failure i MAX_FAILURES_PER_CODE t j d = Inr (a, d')"
  from d obtain m where m: "m \<in> set (magic_links d)" "m_id m = i" "m_email m = e" by auto
  have same: "x = m" if "x \<in> set (magic_links d)" "m_id x = i" for x
    using distinct_key_eq [OF d(1) that(1) m(1)] that(2) m(2) by simp
  have "links_ok (Below e i) (magic_links d) (magic_links d')"
    using q d(1) m by (auto simp: sql upd_returning_def link_kept_def split: option.splits intro!: links_ok_update dest!: same)
  then show "links_ok (Below e i) (magic_links d) (magic_links d') \<and>
      (\<exists>k'. still Nothing (Inr a :: sql_error + int) k' \<and> known k' (magic_links d') \<and> set (needs k') \<subseteq> set (needs (Below e i)) \<union> set [])"
    by (auto simp: still_def intro!: exI [of _ Nothing])
qed (simp_all add: still_def)

lemma one_map_err: "one (map_err g m) = t_map_err g (one m)"
  by (auto simp: t_map_err_def one_def after_locking locking_def map_err_def fun_eq_iff split: option.split)

lemma careful_any:
  assumes "careful Q k t"
  shows "careful any_end k t"
  using assms
proof induction
  case (careful_Step k l f)
  have "\<exists>k'. learns k l X (snd (f X)) k' \<and> careful any_end k' (fst (f X))" if "sees k X" for X
    using careful_Step [OF that] by blast
  then show ?case by (rule careful.careful_Step)
qed (auto intro: careful_Answered careful_Never)

lemma careful_use_code: "careful any_end (Below e (lc_id link)) (use_code_task E st f code link)"
  unfolding use_code_task_def t_sql_def sql_def one_map_err
  by (intro carefully careful_any [OF careful_record] careful_less [OF plain_one] quiet_exec)

lemma found_map_err: "careful found_below k t \<Longrightarrow> careful found_below k (t_map_err g t)"
  unfolding t_map_err_def
  by (erule careful_after) (auto simp: found_below_def map_sum_def intro!: careful_Answered split: sum.splits)

lemma careful_confirm_code: "plain (confirm_code_task E st ip f code)"
proof -
  have "careful any_end k (t_then (t_ok_or found InvalidCode) (\<lambda>link. use_code_task E st f code link))"
    if "found_below (Inr found :: api_error + link_candidate option) k" for found k
    using that by (cases found)
      (auto simp: t_ok_or_def t_ok_def t_err_def t_then_def found_below_def intro: careful_Answered careful_use_code)
  then have "careful any_end Inside (t_then (t_map_err api_from_sql (find_code_candidate_task f MAX_FAILURES_PER_CODE n))
      (\<lambda>found. t_then (t_ok_or found InvalidCode) (\<lambda>link. use_code_task E st f code link)))" for n
    by (intro careful_then [OF found_map_err [OF careful_candidate]]) auto
  then have inside: "plain (t_then (one (map_err api_from_sql begin_tx)) (\<lambda>_.
      t_then (t_map_err api_from_sql (find_code_candidate_task f MAX_FAILURES_PER_CODE n)) (\<lambda>found.
      t_then (t_ok_or found InvalidCode) (\<lambda>link. use_code_task E st f code link))))" for n
    by (intro careful_then [OF careful_begin]) (auto simp: begun_def)
  show ?thesis
    unfolding confirm_code_task_def
    by (intro careful_scoped plain_then [OF plain_one] quiet_supplies inside)
qed

section \<open>The limit\<close>

lemma careful_route: "plain t \<Longrightarrow> plain (api_route_task f t)" "plain u \<Longrightarrow> plain (oauth_route_task g u)"
  unfolding api_route_task_def oauth_route_task_def by (intro carefully; assumption)+

lemma careful_login: "plain (login_task E st c)"
proof (cases c)
  case (CallOAuth d)
  then show ?thesis by (cases d) (simp_all add: careful_route careful_token)
qed (simp_all add: careful_route careful_quiet_routes careful_confirm_code)

lemma run_site_careful:
  assumes "run_site sched s = Some s'" "site_careful s"
  shows "site_careful s' \<and> links_grow [] (links_of (fst s)) (links_of (fst s'))"
  using assms
proof (induction sched arbitrary: s)
  case Nil
  then show ?case by (simp add: site_careful_def links_grow_refl)
next
  case (Cons i sched)
  then obtain s1 where s1: "site_step i s = Some s1" "run_site sched s1 = Some s'" by (auto split: option.splits)
  from site_step_careful [OF Cons.prems(2) s1(1)] Cons.IH [OF s1(2)] show ?case
    unfolding links_grow_def by (auto; fastforce)
qed

lemma open_site_careful: "w_tx w = None \<Longrightarrow> wf_db (w_db w) \<Longrightarrow> counters_ok (w_db w) \<Longrightarrow>
    site_careful (open_site w (map (login_task E st) calls))"
  by (auto simp: site_careful_def open_site_def conn_careful_def careful_login apart_def locks_of_def links_low_def
      wf_db_def unique_keys_def counters_ok_def link_counter_ok_def)

section \<open>Two guesses, and a guess beside the link\<close>

definition demo_caller :: caller where
  "demo_caller = \<lparr>ca_peer = V4 127 0 0 1, ca_forwarded = []\<rparr>"

definition demo_guesses :: "login_call list" where
  "demo_guesses = [CallCode demo_caller 6 ''654321'', CallCode demo_caller 6 ''000000'']"

text \<open>The first up to the lock, the second up to its lock, which has to wait; the rest of the first, the second.\<close>

definition guess_schedule :: "nat list" where
  "guess_schedule = [0, 0, 0, 0, 0] @ [1, 1, 1, 1] @ [0, 0, 0, 0] @ [1, 1, 1, 1, 1]"

definition link_counts :: "('e, 'a) site \<Rightarrow> (int \<times> time option) list" where
  "link_counts s = map (\<lambda>m. (m_code_failures m, m_consumed_at m)) (magic_links (w_db (fst s)))"

abbreviation guess_start :: "(failure, response) site" where
  "guess_start \<equiv> open_site (demo_world login_db) (map (login_task demo_ext demo_state) demo_guesses)"

lemmas login_eval = client_ip_from_request_def limiter_check_def result_def check_format_def is_well_formed_def
  is_ascii_digit_def api_from_sql_def code_verify_def code_message_def newest_def newest_link_def address_failures_def
  sql_def t_sql_def api_route_task_def confirm_code_task_def find_code_candidate_task_def use_code_task_def
  magic_link_confirm_task_def log_in_task_def login_user_task_def flow_complete_task_def MAX_FAILURES_PER_CODE_def
  MAX_FAILURES_PER_DAY_def flow_pending_def count_where_def FLOW_CODE_TTL_def link_counts_def demo_caller_def

lemma guesses_counted: "map_option link_counts (run_site guess_schedule guess_start) = Some [(2, None)]"
  by (simp add: guess_schedule_def demo_guesses_def login_eval demo_rows site_eval task_eval step_eval sql cong: keep_rest)

lemma second_guess_waits: "run_site ([0, 0, 0, 0, 0] @ [1, 1, 1, 1, 1]) guess_start = None"
  by (simp add: demo_guesses_def login_eval demo_rows site_eval task_eval step_eval sql cong: keep_rest)

text \<open>What the lock does not cover: the link of the email. A link followed between the two statements of a wrong guess logs in,
  and the guess then clears the mark that it was used (\<open>consumed_at = CASE WHEN .. END\<close>). Its flow stays completed, so it
  does not log in again.\<close>

definition guess_beside_link :: "nat list \<Rightarrow> (bool \<times> (int \<times> time option) list \<times> time option list) option" where
  "guess_beside_link is = map_option (\<lambda>s. (answered 1 s, link_counts s, map f_completed_at (login_flows (w_db (fst s)))))
     (run_site is (open_site (demo_world login_db)
        (map (login_task demo_ext demo_state) [CallCode demo_caller 6 ''654321'', CallLink demo_caller ''link''])))"

lemma link_used: "guess_beside_link ([0, 0, 0, 0, 0, 0] @ [1, 1, 1, 1, 1, 1, 1, 1, 1, 1, 1]) = Some (True, [(0, Some 10)], [Some 5, Some 10])"
  and used_link_cleared:
    "guess_beside_link ([0, 0, 0, 0, 0, 0] @ [1, 1, 1, 1, 1, 1, 1, 1, 1, 1, 1] @ [0, 0, 0]) = Some (True, [(1, None)], [Some 5, Some 10])"
  by (simp_all add: guess_beside_link_def login_eval demo_rows site_eval task_eval step_eval sql cong: keep_rest)

section \<open>Property\<close>


lemma login_counters: "counters_ok login_db"
  by (simp add: counters_ok_def demo_defs flow_counter_ok_def link_counter_ok_def MAX_EMAILS_PER_FLOW_def MAX_FAILURES_PER_CODE_def)


end
