(* ===== verification/Spec2Isabelle.thy ===== *)
theory Spec2Isabelle
  imports Retention Rotation TestIssuer VerifierTasks Codes Addresses OpenApi ClientTests Journey Exchanges Theft GuessLimit
begin

text \<open>
  Verification of \<^emph>\<open>bauth\<close>, a headless passwordless authentication server in Rust: an app starts a login flow, the
  user receives a link and a six-digit code by email, either one completes the flow, the app exchanges an
  authorization code with PKCE for an access token (EdDSA JWT) and an opaque refresh token, and other APIs verify the
  access token with the published keys.

  \<^bold>\<open>Parts and theories.\<close>

  \<^item> \<open>Prelude\<close>: base types, list operations that stand for SQL over one table, the string operations of the Rust
    standard library that are used, generic lemmas. \<open>External\<close>: the record \<open>ext\<close> of everything the program calls and
    does not implement (hashing, HMAC, AEAD, base64, JWT, URL and IP parsing, lower-casing, the rate limiter's
    decision, templates). It is an argument; a theorem that needs documented behaviour of a field has it as a
    hypothesis (\<open>hmac_verifies\<close>, \<open>aead_opens\<close>, \<open>jwt_verifies\<close>).
  \<^item> \<open>Errors\<close>: \<open>errors.rs\<close> and the OAuth errors of \<open>routes/oauth.rs\<close>. \<open>Schema\<close>: the tables after all migrations, the
    cascades, and \<open>wf_db\<close>, the constraints. \<open>World\<close>: the mutable state of the server (database, open transaction,
    limiter histories, outbox, shared signing keys, supplies of clocks, ids, random bytes and faults), requests as
    functions \<open>world \<Rightarrow> (result \<times> world) option\<close>, transactions, and a weakest-precondition calculus \<open>wp\<close>.
  \<^item> \<open>Token\<close> (\<open>token.rs\<close>, \<open>pkce.rs\<close>), \<open>MagicCode\<close> (\<open>magic_code.rs\<close>, \<open>master_key.rs\<close>), \<open>Email\<close> (\<open>email.rs\<close>, \<open>emails.rs\<close>),
    \<open>RateLimit\<close> (\<open>rate_limit.rs\<close>), \<open>Clients\<close> (\<open>clients.rs\<close>, \<open>config.rs\<close>), \<open>Queries\<close> (\<open>queries/*.rs\<close>, one definition per
    statement), \<open>App\<close> (the fixed part of \<open>AppState\<close>).
  \<^item> \<open>SigningKeys\<close> (\<open>signing_keys.rs\<close>), \<open>AccessToken\<close> (\<open>access_token.rs\<close>, \<open>current_user.rs\<close>, \<open>routes/well_known.rs\<close>),
    \<open>Sessions\<close> (\<open>sessions.rs\<close>, \<open>login_flow.rs\<close>), \<open>OAuth\<close> (\<open>routes/oauth.rs\<close>), \<open>Login\<close> (\<open>routes/login.rs\<close>,
    \<open>routes/magic_link.rs\<close>), \<open>Me\<close> (\<open>routes/me.rs\<close>, \<open>routes/email_change.rs\<close>), \<open>Purge\<close> (\<open>jobs/*.rs\<close>): every handler and
    job whole, with its guards in source order, its transaction and every statement and email of it.
  \<^item> \<open>System\<close>: the router of \<open>routes/mod.rs\<close> (\<open>serve\<close>), the jobs (\<open>run_job\<close>), and the step relation and reachability they
    generate. \<open>Startup\<close>: \<open>main.rs\<close>, \<open>mailer.rs\<close>, \<open>cors.rs\<close>, loading the client file, scheduling the jobs. \<open>Http\<close>: the
    route table, the extractors of each handler in order, their rejections and the status of every answer. \<open>OpenApi\<close>:
    the published contract (\<open>routes/openapi.rs\<close> and the \<open>utoipa::path\<close> attributes of the handlers).
  \<^item> \<open>Verifier\<close>: the client library (\<open>bauth_client/src/verifier.rs\<close>, \<open>extract.rs\<close>), one request at a time;
    \<open>VerifierTasks\<close>: the same code as the steps of concurrent tasks that share the cache, each lock and each await a
    step. \<open>TestIssuer\<close>: \<open>FakeBauth\<close> (\<open>testing.rs\<close>).
  \<^item> \<open>Interleave\<close>: requests as the sequence of their steps, and a site where several run at once: what a transaction of
    Postgres sees, writes and locks, and when a statement has to wait. \<open>TokenTasks\<close>: the handlers of
    \<open>routes/oauth.rs\<close> in that form, \<open>LoginTasks\<close>: those of login; run alone each is the handler of \<open>OAuth\<close> or \<open>Login\<close>.

  \<^bold>\<open>What is shown.\<close>

  \<^item> \<open>Invariant\<close> defines Hoare triples that carry an invariant of the database, snapshots included, and the locale
    \<open>db_invariant\<close>: what the statements owe, and from it that every route and job keeps the invariant. \<open>Integrity\<close>
    interprets it on the schema constraints, \<open>Lifecycle\<close> on the limits of counters, on the provenance of codes
    and sessions, and on what is spent; \<open>Lineage\<close> on the families of refresh tokens: a token and the token it was
    rotated from are in the same session, so that every token leads back to the first of its session, and the cascade
    of a purge or of an account's deletion takes whole families and nothing of another.
  \<^item> \<open>Machine\<close>: the locale \<open>row_machine\<close>, a table whose rows follow an abstract step relation. It is interpreted on the
    login flows (\<open>FlowMachine\<close>: open, completed, exchanged, dead; a lost race moves nothing) and on the sessions
    (\<open>Rotation\<close>: alive or revoked, with its current token).
  \<^item> \<open>TokenEndpoint\<close>, \<open>Revocation\<close>: code exchange, refresh with rotation, grace period and theft detection, revocation;
    on success, on every failure (nothing changes, or only the session is revoked), and that allowed requests succeed.
  \<^item> \<open>Serial\<close>, \<open>Protected\<close>: what the other transactions can do to the tables while one runs, and that a request takes
    effect at one step when its commit is the last statement that matters and the locks it holds keep the answers of the
    statements before it. \<open>TokenSerial\<close>, \<open>Exchanges\<close>: the exchange of a code is such a request, so it is atomic however
    concurrent requests alternate, and one code is exchanged by one of them at most. \<open>Theft\<close>: the refresh is not: a schedule on
    which the use of a stolen refresh token goes unnoticed. \<open>Guesses\<close>, \<open>GuessLimit\<close>: what a request knows under the advisory
    lock of an address stays true, so concurrent guesses of a code share no attempt.
  \<^item> \<open>LoginFlow\<close>, \<open>Account\<close>: starting a flow, sending the email without telling whether an account exists, logging in by
    link or code, confirmation codes, moving an account to a new address, deleting it, listing and ending sessions.
  \<^item> \<open>Spent\<close>: revoked, completed, exchanged or deleted things stay so in every later state.
  \<^item> \<open>Keys\<close>: rotation without gap, signing after start-up, and the round trip from \<open>issue\<close> to a verifier.
    \<open>VerifierCache\<close>: the key cache over whole runs; \<open>VerifierTasks\<close>: every interleaving of tasks answers as some
    sequential order of the same verifications does. \<open>Retention\<close>: the purge ends and deletes exactly what is due; its
    loops share the locale \<open>batched_table\<close>, interpreted on the five tables. \<open>Codes\<close>: six-digit codes are uniform.
    \<open>Addresses\<close>: the client address cannot be forged. \<open>Startup\<close>: what a started server was checked for, and CORS.
    \<open>Http\<close>: on requests that decode the HTTP edge is exactly \<open>serve\<close>, and all others change nothing. \<open>OpenApi\<close>: every
    status a route can answer is in its documented list, but for two that the document leaves out.
  \<^item> \<open>Journey\<close>: a whole login, from the flow to \<open>GET /me\<close>, goes through when nothing outside the program is in the way. Each
    route is shown to complete on the state the last one left; between them the supplies of the world are only read on.
  \<^item> \<open>UnitTests\<close> and \<open>ClientTests\<close>: the unit tests that the modules of the server carry, translated to computations of the
    model, and that each of them passes on it.
  \<^item> \<open>Demo\<close> and the end of each theory hold the concrete instances: stand-ins for the crates and small databases, on
    which every property with hypotheses is applied.

  \<^bold>\<open>Modelling choices.\<close> Requests and jobs run one after another, except on a site of
  \<open>Interleave\<close>, where the requests of login and of the token endpoint alternate at every statement: row
  locks, unique keys, \<open>FOR UPDATE\<close> and advisory locks as Postgres has them at \<open>READ
  COMMITTED\<close>, with a statement that waits evaluated once the lock is free. Any statement may fail
  (\<open>w_faults\<close>); a failed statement has no effect, and a commit whose acknowledgement is lost counts as
  failed. Instants are microseconds, days of an SQL interval are 24 hours. A \<open>LIMIT\<close> without
  \<open>ORDER BY\<close> takes rows in insertion order. Machine integers that can wrap are words
  (\<open>random_below\<close>, the port of a URL, segments of addresses, the fetch counter of the test issuer);
  counters the schema or the code bounds are integers. The two loops that might not end, \<open>random_below\<close>
  and \<open>in_batches\<close>, are partial functions into \<open>option\<close>: the first returns as soon as one
  draw is in its zone (\<open>code_generated\<close>), the second always returns on the tables it is used on
  (\<open>purge_terminates\<close>). No fuel is used. Ids are 128-bit words from a supply; a theorem that needs
  fresh ids says which must not repeat.

  \<^bold>\<open>Not modelled.\<close> The database connection and the migration runner (\<open>db.rs\<close>, two
  statements that may fail), logging, the TCP listener: pure I/O. The page that renders the OpenAPI document, and
  the schemas \<open>utoipa\<close> derives from the types. Deserialization of bodies and path parameters
  (\<open>serde\<close>, \<open>axum\<close>): parameters of \<open>Http\<close>; preflight requests, which the CORS
  layer answers. The internals of the \<open>governor\<close> limiter, of the scheduler and of the mail and template
  crates. The TypeScript SDK (another language), the integration tests, and the unit tests that only exercise a
  crate. Concurrency inside the transactions of the account routes and of the jobs: their row and advisory locks
  have no counterpart.
\<close>

end
